(* ===== verification/Dsquic_Prelude.thy ===== *)
theory Dsquic_Prelude
  imports Complex_Main "HOL-Library.Word" "HOL-Library.AList"
begin

unbundle bit_operations_syntax

text \<open>
  What every component of the development shares.

  Bytes are \<open>8 word\<close>; Python integers are \<open>int\<close>. Exceptions are the values of
  \<open>exn\<close>: a computation that may raise returns \<open>exn + 'a\<close> (\<open>'a result\<close>), a method
  of a mutable object is a function from the object's state to a result and the state it
  leaves behind (\<open>('s, 'a) se\<close>), so that what a method wrote before it raised is still
  there afterwards, as in Python. The text of an exception is kept out of the model; the
  data the code reads back from one (an error code, a version, an alert) is an argument
  of its constructor. \<open>Diverges\<close> is not a Python exception: it is the value of a
  \<open>while\<close> loop that would never end.
\<close>

section \<open>Shared vocabulary\<close>

type_synonym byte = "8 word"
type_synonym bytes = "8 word list"

datatype exn =
    BufferReadError
  | ValueError
  | OverflowError
  | IndexError
  | KeyError
  | AssertionError
  | RuntimeError
  | UnicodeDecodeError
  | FrameParseError
  | HeaderParseError
  | UnsupportedVersion int
  | StreamLimitReached
  | StreamError int
  | AckOfUnsentPacket
  | InvalidTag
  | TokenError
  | HqError
  | UnicodeEncodeError
  | HandshakeParseError
  | TlsAlert int
  | TicketError
  | InvalidSignature
  | VerificationError
  | ConnectionError int bytes "int option"
  | VersionNegotiationRequired "int list"
  | TimeoutError
  | Diverges

text \<open>Time is \<open>rat\<close>, an idealisation of the caller's float clock.\<close>

type_synonym time = rat

text \<open>\<open>EncryptionLevel\<close> of \<open>src/dsquic/tls.py\<close>, in declaration order.\<close>

datatype encryption_level = Initial | Handshake | OneRtt

definition all_levels :: "encryption_level list" where
  "all_levels = [Initial, Handshake, OneRtt]"

text \<open>
  A source of randomness as an object sees it: \<open>r i n\<close> is what its \<open>i\<close>-th draw of
  \<open>n\<close> bytes from \<open>os.urandom\<close> returns. Every object that draws holds its own
  source, and a draw leaves the rest of it.
\<close>

type_synonym rng = "nat \<Rightarrow> nat \<Rightarrow> bytes"

definition rng_ok :: "rng \<Rightarrow> bool" where
  "rng_ok r \<longleftrightarrow> (\<forall>i n. length (r i n) = n)"

definition rest_rng :: "rng \<Rightarrow> rng" where
  "rest_rng r = (\<lambda>i. r (Suc i))"

type_synonym 'a result = "exn + 'a"
type_synonym ('s, 'a) se = "'s \<Rightarrow> (exn + 'a) \<times> 's"

named_theorems se_defs \<open>definitions of the exception and state combinators\<close>
named_theorems wire_simps \<open>decoding what an encoder wrote\<close>
named_theorems wire_progress \<open>a successful read advances the buffer\<close>
named_theorems wire_errors \<open>the exceptions a parser can raise\<close>


subsection \<open>Exceptions without state\<close>

definition bindE :: "'a result \<Rightarrow> ('a \<Rightarrow> 'b result) \<Rightarrow> 'b result" where
  "bindE m f = (case m of Inl e \<Rightarrow> Inl e | Inr x \<Rightarrow> f x)"

fun mapE :: "('a \<Rightarrow> 'b result) \<Rightarrow> 'a list \<Rightarrow> 'b list result" where
  "mapE f [] = Inr []"
| "mapE f (x # xs) = bindE (f x) (\<lambda>y. bindE (mapE f xs) (\<lambda>ys. Inr (y # ys)))"

text \<open>\<open>a() + b() + c()\<close> on byte strings, evaluated from left to right.\<close>

fun catE :: "bytes result list \<Rightarrow> bytes result" where
  "catE [] = Inr []"
| "catE (r # rs) = bindE r (\<lambda>x. bindE (catE rs) (\<lambda>y. Inr (x @ y)))"

lemma bindE_simps [simp]:
  "bindE (Inl e) f = Inl e"
  "bindE (Inr x) f = f x"
  by (simp_all add: bindE_def)

lemma bindE_Inr_iff: "bindE m f = Inr y \<longleftrightarrow> (\<exists>x. m = Inr x \<and> f x = Inr y)"
  by (cases m) auto

lemma bindE_Inl_iff: "bindE m f = Inl e \<longleftrightarrow> m = Inl e \<or> (\<exists>x. m = Inr x \<and> f x = Inl e)"
  by (cases m) auto

lemma mapE_Inr_all:
  "(\<And>x. x \<in> set xs \<Longrightarrow> f x = Inr (g x)) \<Longrightarrow> mapE f xs = Inr (map g xs)"
  by (induction xs) auto

text \<open>\<open>outcome E P r\<close>: the computation raises one of \<open>E\<close> or returns a value with \<open>P\<close>.\<close>

definition outcome :: "exn set \<Rightarrow> ('a \<Rightarrow> bool) \<Rightarrow> 'a result \<Rightarrow> bool" where
  "outcome E P r \<longleftrightarrow> (case r of Inl e \<Rightarrow> e \<in> E | Inr x \<Rightarrow> P x)"

lemma outcome_simps [simp]:
  "outcome E P (Inl e) \<longleftrightarrow> e \<in> E"
  "outcome E P (Inr x) \<longleftrightarrow> P x"
  by (simp_all add: outcome_def)

lemma outcome_bindE:
  "outcome E P m \<Longrightarrow> (\<And>x. P x \<Longrightarrow> outcome E Q (f x)) \<Longrightarrow> outcome E Q (bindE m f)"
  by (cases m) auto

lemma outcome_mono: "outcome E P m \<Longrightarrow> E \<subseteq> E' \<Longrightarrow> (\<And>x. P x \<Longrightarrow> Q x) \<Longrightarrow> outcome E' Q m"
  by (cases m) auto

lemma if_disj: "(if a then x else if b then x else y) = (if a \<or> b then x else y)"
  by simp


subsection \<open>Exceptions with state\<close>

definition retS :: "'a \<Rightarrow> ('s, 'a) se" where
  "retS x s = (Inr x, s)"

definition raiseS :: "exn \<Rightarrow> ('s, 'a) se" where
  "raiseS e s = (Inl e, s)"

definition liftS :: "'a result \<Rightarrow> ('s, 'a) se" where
  "liftS r s = (r, s)"

definition bindS :: "('s, 'a) se \<Rightarrow> ('a \<Rightarrow> ('s, 'b) se) \<Rightarrow> ('s, 'b) se" where
  "bindS m f s = (case m s of (Inl e, s') \<Rightarrow> (Inl e, s') | (Inr x, s') \<Rightarrow> f x s')"

definition getS :: "('s \<Rightarrow> 'a) \<Rightarrow> ('s, 'a) se" where
  "getS f s = (Inr (f s), s)"

definition modS :: "('s \<Rightarrow> 's) \<Rightarrow> ('s, unit) se" where
  "modS f s = (Inr (), f s)"

lemmas [se_defs] = retS_def raiseS_def liftS_def bindS_def getS_def modS_def

text \<open>A sequence of statements, and one under a condition.\<close>

fun doS :: "('s, unit) se list \<Rightarrow> ('s, unit) se" where
  "doS [] = retS ()"
| "doS (m # ms) = bindS m (\<lambda>_. doS ms)"

definition whenS :: "bool \<Rightarrow> ('s, unit) se \<Rightarrow> ('s, unit) se" where
  "whenS c m = (if c then m else retS ())"

text \<open>\<open>for x in xs: ...\<close>\<close>

fun forS :: "'a list \<Rightarrow> ('a \<Rightarrow> ('s, unit) se) \<Rightarrow> ('s, unit) se" where
  "forS [] f = retS ()"
| "forS (x # xs) f = bindS (f x) (\<lambda>_. forS xs f)"

text \<open>\<open>try: m except ...: h\<close>, an \<open>assert\<close>, and a method of an attribute of the object.\<close>

definition catchS :: "('s, 'a) se \<Rightarrow> (exn \<Rightarrow> ('s, 'a) se) \<Rightarrow> ('s, 'a) se" where
  "catchS m h s = (case m s of (Inl e, s') \<Rightarrow> h e s' | (Inr x, s') \<Rightarrow> (Inr x, s'))"

definition assertS :: "bool \<Rightarrow> ('s, unit) se" where
  "assertS c = (if c then retS () else raiseS AssertionError)"

definition zoomS :: "('s \<Rightarrow> 't) \<Rightarrow> ('t \<Rightarrow> 's \<Rightarrow> 's) \<Rightarrow> ('t, 'a) se \<Rightarrow> ('s, 'a) se" where
  "zoomS get put m s = (case m (get s) of (r, t) \<Rightarrow> (r, put t s))"

text \<open>\<open>assert x is not None\<close>, and the object it then is.\<close>

definition someS :: "'a option \<Rightarrow> ('s, 'a) se" where
  "someS x = (case x of None \<Rightarrow> raiseS AssertionError | Some y \<Rightarrow> retS y)"

lemma whenS_simps [simp]: "whenS True m = m" "whenS False m = retS ()"
  by (simp_all add: whenS_def)

lemma assertS_simps [simp]: "assertS True = retS ()" "assertS False = raiseS AssertionError"
  by (simp_all add: assertS_def)

lemma someS_simps [simp]: "someS (Some x) = retS x" "someS None = raiseS AssertionError"
  by (simp_all add: someS_def)

lemma retS_simp [simp]: "retS x s = (Inr x, s)"
  by (simp add: retS_def)

lemma raiseS_simp [simp]: "raiseS e s = (Inl e, s)"
  by (simp add: raiseS_def)

lemma liftS_simp [simp]: "liftS r s = (r, s)"
  by (simp add: liftS_def)

lemma getS_simp [simp]: "getS f s = (Inr (f s), s)"
  by (simp add: getS_def)

lemma modS_simp [simp]: "modS f s = (Inr (), f s)"
  by (simp add: modS_def)

lemma bindS_Inr [simp]: "m s = (Inr x, s') \<Longrightarrow> bindS m f s = f x s'"
  by (simp add: bindS_def)

lemma bindS_Inl [simp]: "m s = (Inl e, s') \<Longrightarrow> bindS m f s = (Inl e, s')"
  by (simp add: bindS_def)

lemma bindS_getS [simp]: "bindS (getS g) f s = f (g s) s"
  by (simp add: bindS_def)

lemma bindS_retS [simp]: "bindS (retS x) f s = f x s"
  by (simp add: bindS_def)

lemma bindS_liftS [simp]: "bindS (liftS (Inr x)) f s = f x s"
  by (simp add: bindS_def)

lemma bindS_Inr_iff:
  "bindS m f s = (Inr y, t) \<longleftrightarrow> (\<exists>x s'. m s = (Inr x, s') \<and> f x s' = (Inr y, t))"
  by (auto simp: bindS_def split: prod.splits sum.splits)

lemma bindS_Inl_iff:
  "bindS m f s = (Inl e, t) \<longleftrightarrow>
     m s = (Inl e, t) \<or> (\<exists>x s'. m s = (Inr x, s') \<and> f x s' = (Inl e, t))"
  by (auto simp: bindS_def split: prod.splits sum.splits)

lemma fst_bindS_Inl_iff:
  "fst (bindS m f s) = Inl e \<longleftrightarrow>
     fst (m s) = Inl e \<or> (\<exists>x s'. m s = (Inr x, s') \<and> fst (f x s') = Inl e)"
  by (auto simp: bindS_def split: prod.splits sum.splits)


subsection \<open>Triples\<close>

text \<open>
  \<open>triple P m Q E\<close>: run from a state with \<open>P\<close>, the method \<open>m\<close> returns with \<open>Q\<close> or
  raises with \<open>E\<close>, in the state it leaves behind either way. \<open>keeps I m\<close>: the method
  preserves \<open>I\<close>, also when it raises.
\<close>

named_theorems triple_intros \<open>rules for triples\<close>

definition triple :: "('s \<Rightarrow> bool) \<Rightarrow> ('s, 'a) se \<Rightarrow> ('a \<Rightarrow> 's \<Rightarrow> bool) \<Rightarrow> (exn \<Rightarrow> 's \<Rightarrow> bool) \<Rightarrow> bool" where
  "triple P m Q E \<longleftrightarrow> (\<forall>s. P s \<longrightarrow> (case m s of (Inl e, t) \<Rightarrow> E e t | (Inr x, t) \<Rightarrow> Q x t))"

definition keeps :: "('s \<Rightarrow> bool) \<Rightarrow> ('s, 'a) se \<Rightarrow> bool" where
  "keeps I m \<longleftrightarrow> triple I m (\<lambda>_. I) (\<lambda>_. I)"

lemma triple_Inr: "triple P m Q E \<Longrightarrow> P s \<Longrightarrow> m s = (Inr x, t) \<Longrightarrow> Q x t"
  by (auto simp: triple_def)

lemma triple_Inl: "triple P m Q E \<Longrightarrow> P s \<Longrightarrow> m s = (Inl e, t) \<Longrightarrow> E e t"
  by (auto simp: triple_def)

lemma triple_bindS [triple_intros]:
  "triple P m R E \<Longrightarrow> (\<And>x. triple (R x) (f x) Q E) \<Longrightarrow> triple P (bindS m f) Q E"
  unfolding triple_def bindS_def by (fastforce split: prod.splits sum.splits)

lemma triple_weaken:
  "triple P m Q E \<Longrightarrow> (\<And>s. P' s \<Longrightarrow> P s) \<Longrightarrow> (\<And>x s. Q x s \<Longrightarrow> Q' x s) \<Longrightarrow> (\<And>e s. E e s \<Longrightarrow> E' e s)
   \<Longrightarrow> triple P' m Q' E'"
  unfolding triple_def by (fastforce split: prod.splits sum.splits)

lemma keeps_iff: "keeps I m \<longleftrightarrow> (\<forall>s. I s \<longrightarrow> I (snd (m s)))"
proof -
  have "(case m s of (Inl e, t) \<Rightarrow> I t | (Inr x, t) \<Rightarrow> I t) \<longleftrightarrow> I (snd (m s))" for s
    by (simp split: prod.split sum.split)
  then show ?thesis by (simp add: keeps_def triple_def)
qed

lemma keepsD: "keeps I m \<Longrightarrow> I s \<Longrightarrow> m s = (r, t) \<Longrightarrow> I t"
  unfolding keeps_iff by (metis snd_conv)

lemma keeps_bindS: "keeps I m \<Longrightarrow> (\<And>x. keeps I (f x)) \<Longrightarrow> keeps I (bindS m f)"
  unfolding keeps_def by (rule triple_bindS)

lemma keeps_basic:
  "keeps I (retS x)" "keeps I (raiseS e)" "keeps I (liftS r)" "keeps I (getS g)"
  by (simp_all add: keeps_iff)

lemma keeps_modS: "(\<And>s. I s \<Longrightarrow> I (f s)) \<Longrightarrow> keeps I (modS f)"
  by (simp add: keeps_iff)

lemma keeps_if: "(c \<Longrightarrow> keeps I m) \<Longrightarrow> (\<not> c \<Longrightarrow> keeps I n) \<Longrightarrow> keeps I (if c then m else n)"
  by simp

lemma keeps_whenS: "(c \<Longrightarrow> keeps I m) \<Longrightarrow> keeps I (whenS c m)"
  by (simp add: whenS_def keeps_basic)

lemma keeps_case_option:
  "(x = None \<Longrightarrow> keeps I m) \<Longrightarrow> (\<And>y. x = Some y \<Longrightarrow> keeps I (f y)) \<Longrightarrow> keeps I (case x of None \<Rightarrow> m | Some y \<Rightarrow> f y)"
  by (cases x) simp_all

lemma keeps_case_list:
  "(xs = [] \<Longrightarrow> keeps I m) \<Longrightarrow> (\<And>y ys. xs = y # ys \<Longrightarrow> keeps I (f y ys)) \<Longrightarrow> keeps I (case xs of [] \<Rightarrow> m | y # ys \<Rightarrow> f y ys)"
  by (cases xs) simp_all

lemma keeps_case_sum:
  "(\<And>y. x = Inl y \<Longrightarrow> keeps I (f y)) \<Longrightarrow> (\<And>y. x = Inr y \<Longrightarrow> keeps I (g y)) \<Longrightarrow> keeps I (case x of Inl y \<Rightarrow> f y | Inr y \<Rightarrow> g y)"
  by (cases x) simp_all

lemma keeps_doS: "keeps I (doS [])" "keeps I m \<Longrightarrow> keeps I (doS ms) \<Longrightarrow> keeps I (doS (m # ms))"
  by (simp_all add: keeps_bindS keeps_basic)

lemma keeps_case_prod: "(\<And>a b. keeps I (f a b)) \<Longrightarrow> keeps I (case p of (a, b) \<Rightarrow> f a b)"
  by (cases p) simp

lemma keeps_forS: "(\<And>x. x \<in> set xs \<Longrightarrow> keeps I (f x)) \<Longrightarrow> keeps I (forS xs f)"
  by (induction xs) (simp_all add: keeps_bindS keeps_basic)

lemma bindS_assoc: "bindS (bindS m f) g = bindS m (\<lambda>x. bindS (f x) g)"
  by (auto simp: bindS_def split: prod.split sum.split)

lemma forS_append: "forS (xs @ ys) f = bindS (forS xs f) (\<lambda>_. forS ys f)"
proof (induction xs)
  case Nil
  show ?case by (simp add: bindS_def fun_eq_iff)
next
  case (Cons x xs)
  then show ?case by (simp add: bindS_assoc)
qed

lemma keeps_getS_bind: "(\<And>s. I s \<Longrightarrow> keeps I (k (g s))) \<Longrightarrow> keeps I (bindS (getS g) k)"
  by (simp add: keeps_iff)

lemma keeps_catchS: "keeps I m \<Longrightarrow> (\<And>e. keeps I (h e)) \<Longrightarrow> keeps I (catchS m h)"
  by (auto simp: keeps_iff catchS_def split: prod.split sum.split)

lemma keeps_zoomS: "(\<And>s r t. I s \<Longrightarrow> m (get s) = (r, t) \<Longrightarrow> I (put t s)) \<Longrightarrow> keeps I (zoomS get put m)"
  by (simp add: keeps_iff zoomS_def split: prod.split)

lemma keeps_assertS: "keeps I (assertS c)" "keeps I (someS x)"
  by (auto simp: assertS_def someS_def keeps_basic split: option.split)

lemmas keeps_intros = keeps_assertS keeps_catchS keeps_basic keeps_if keeps_whenS keeps_case_option keeps_case_list keeps_case_sum keeps_case_prod keeps_doS keeps_bindS


section \<open>Bytes and integers\<close>

text \<open>
  \<open>to_be n v\<close> is the \<open>n\<close> low bytes of \<open>v\<close>, most significant first; \<open>int.to_bytes\<close>
  is \<open>to_bytes\<close>, which raises when the value does not fit. \<open>from_be\<close> is
  \<open>int.from_bytes(..., "big")\<close>, and \<open>byte1\<close> is \<open>bytes([n])\<close>.
\<close>

fun to_be :: "nat \<Rightarrow> int \<Rightarrow> bytes" where
  "to_be 0 v = []"
| "to_be (Suc n) v = to_be n (v div 256) @ [word_of_int v]"

definition to_bytes :: "nat \<Rightarrow> int \<Rightarrow> bytes result" where
  "to_bytes n v = (if 0 \<le> v \<and> v < 256 ^ n then Inr (to_be n v) else Inl OverflowError)"

definition from_be :: "bytes \<Rightarrow> int" where
  "from_be bs = foldl (\<lambda>a b. a * 256 + uint b) 0 bs"

definition byte1 :: "int \<Rightarrow> bytes result" where
  "byte1 n = (if 0 \<le> n \<and> n < 256 then Inr [word_of_int n] else Inl ValueError)"

abbreviation len :: "'a list \<Rightarrow> int" where
  "len xs \<equiv> int (length xs)"

declare to_be.simps(2) [simp del]

lemma length_to_be [simp]: "length (to_be n v) = n"
  by (induction n arbitrary: v) (auto simp: to_be.simps)

lemma to_be_0_iff [simp]: "to_be n v = [] \<longleftrightarrow> n = 0"
  by (metis length_0_conv length_to_be)

lemma uint_word_of_int_8: "uint (word_of_int v :: byte) = v mod 256"
  by (simp add: uint_word_of_int)

lemma uint_byte_bounds [simp]: "0 \<le> uint (b :: byte)" "uint (b :: byte) < 256"
  using uint_lt2p [of b] by simp_all

lemma foldl_be_to_be:
  "foldl (\<lambda>a b. a * 256 + uint b) a (to_be n v) = a * 256 ^ n + v mod 256 ^ n"
proof (induction n arbitrary: v)
  case 0
  then show ?case by simp
next
  case (Suc n)
  have "v mod (256 * 256 ^ n) = 256 * (v div 256 mod 256 ^ n) + v mod 256"
    by (rule zmod_zmult2_eq) simp
  then show ?case
    by (simp add: to_be.simps Suc.IH uint_word_of_int_8 distrib_right mult.assoc)
qed

lemma from_be_to_be: "from_be (to_be n v) = v mod 256 ^ n"
  by (simp add: from_be_def foldl_be_to_be)

lemma from_be_to_be_id [simp]: "0 \<le> v \<Longrightarrow> v < 256 ^ n \<Longrightarrow> from_be (to_be n v) = v"
  by (simp add: from_be_to_be)

lemma from_be_Nil [simp]: "from_be [] = 0"
  by (simp add: from_be_def)

lemma from_be_snoc [simp]: "from_be (bs @ [b]) = from_be bs * 256 + uint b"
  by (simp add: from_be_def)

lemma from_be_bounds: "0 \<le> from_be bs \<and> from_be bs < 256 ^ length bs"
proof (induction bs rule: rev_induct)
  case Nil
  then show ?case by simp
next
  case (snoc b bs)
  then have "from_be bs * 256 + uint b \<le> (256 ^ length bs - 1) * 256 + 255"
    using uint_byte_bounds(2) [of b] by (intro add_mono mult_right_mono) (simp_all del: uint_byte_bounds)
  with snoc show ?case
    by (simp add: algebra_simps)
qed

lemma to_be_from_be: "to_be (length bs) (from_be bs) = bs"
proof (induction bs rule: rev_induct)
  case Nil
  then show ?case by simp
next
  case (snoc b bs)
  have "uint (word_of_int (from_be bs * 256 + uint b) :: byte) = uint b"
    unfolding uint_word_of_int_8 by (simp add: mod_pos_pos_trivial)
  then have "word_of_int (from_be bs * 256 + uint b) = (b :: byte)"
    by (rule word_uint_eqI)
  moreover have "(from_be bs * 256 + uint b) div 256 = from_be bs"
    using uint_byte_bounds [of b] by (simp add: div_add1_eq)
  ultimately show ?case
    by (simp add: to_be.simps snoc)
qed

lemma to_be_head: "to_be (Suc n) v = word_of_int (v div 256 ^ n) # to_be n v"
proof (induction n arbitrary: v)
  case 0
  then show ?case by (simp add: to_be.simps)
next
  case (Suc n)
  have "to_be (Suc (Suc n)) v = to_be (Suc n) (v div 256) @ [word_of_int v]"
    by (simp add: to_be.simps)
  also have "to_be (Suc n) (v div 256) = word_of_int (v div 256 div 256 ^ n) # to_be n (v div 256)"
    by (rule Suc.IH)
  finally show ?case
    by (simp add: to_be.simps zdiv_zmult2_eq)
qed

lemma to_be_mod: "to_be n (v mod 256 ^ n) = to_be n v"
proof -
  have "to_be n (v mod 256 ^ n) = to_be (length (to_be n v)) (from_be (to_be n v))"
    by (simp add: from_be_to_be)
  then show ?thesis
    using to_be_from_be by metis
qed

lemma to_bytes_Inr [simp]: "0 \<le> v \<Longrightarrow> v < 256 ^ n \<Longrightarrow> to_bytes n v = Inr (to_be n v)"
  by (simp add: to_bytes_def)

lemma byte1_Inr [simp]: "0 \<le> n \<Longrightarrow> n < 256 \<Longrightarrow> byte1 n = Inr [word_of_int n]"
  by (simp add: byte1_def)

text \<open>Disjoint bits add up: the form in which the code sets flag bits.\<close>

lemma or_add_shifted:
  fixes v t :: int
  assumes "0 \<le> v" "v < 2 ^ k"
  shows "v OR (t * 2 ^ k) = v + t * 2 ^ k"
proof -
  have "v AND push_bit k t = 0"
  proof (rule bit_eqI)
    fix n
    have "\<not> bit v n" if "k \<le> n"
    proof -
      have "v < 2 ^ n"
        using assms(2) power_increasing [OF that, of "2 :: int"] by linarith
      then show ?thesis
        using assms(1) by (simp add: bit_iff_odd)
    qed
    then show "bit (v AND push_bit k t) n \<longleftrightarrow> bit (0 :: int) n"
      by (auto simp: bit_and_iff bit_push_bit_iff)
  qed
  then have "v + push_bit k t = v OR push_bit k t"
    by (rule disjunctive_add_eq_or)
  then show ?thesis
    by (simp add: push_bit_eq_mult)
qed

lemma and_low_mask: "(x :: int) AND (2 ^ k - 1) = x mod 2 ^ k"
  by (simp add: take_bit_eq_mask [symmetric] take_bit_eq_mod flip: mask_eq_exp_minus_1)

lemma and_low6: "(x :: int) AND 0x3F = x mod 64"
  using and_low_mask [of x 6] by simp

lemma shift8_or_byte: "push_bit 8 (a :: int) OR uint (b :: byte) = a * 256 + uint b"
  using or_add_shifted [of "uint b" 8 a] by (simp add: push_bit_eq_mult ac_simps)

lemma uint_byte_of_nat [simp]: "n < 256 \<Longrightarrow> uint (word_of_nat n :: byte) = int n"
  by (simp add: unsigned_of_nat take_bit_nat_eq_self)

lemma byte1_len: "n < 256 \<Longrightarrow> byte1 (int n) = Inr [word_of_nat n]"
  by (simp add: byte1_def)


text \<open>\<open>int(x)\<close> rounds toward zero.\<close>

definition py_int :: "rat \<Rightarrow> int" where
  "py_int x = (if 0 \<le> x then \<lfloor>x\<rfloor> else \<lceil>x\<rceil>)"


section \<open>Strings\<close>

text \<open>
  A Python \<open>str\<close> is a \<open>string\<close>; \<open>ascii\<close> is a bytes literal. Only the ASCII codec is used:
  \<open>str.encode("ascii")\<close> and \<open>bytes.decode("ascii")\<close> raise on anything above 127.
\<close>

definition ascii :: "string \<Rightarrow> bytes" where
  "ascii s = map (\<lambda>c. word_of_nat (of_char c)) s"

definition encode_ascii :: "string \<Rightarrow> bytes result" where
  "encode_ascii s =
     (if list_all (\<lambda>c. (of_char c :: nat) < 128) s then Inr (ascii s) else Inl UnicodeEncodeError)"

definition decode_ascii :: "bytes \<Rightarrow> string result" where
  "decode_ascii bs =
     (if list_all (\<lambda>b. unat b < 128) bs then Inr (map (\<lambda>b. char_of (unat b)) bs) else Inl UnicodeDecodeError)"

lemma length_ascii [simp]: "length (ascii s) = length s"
  by (simp add: ascii_def)

lemma unat_of_char [simp]: "unat (word_of_nat (of_char c) :: byte) = of_char c"
  by (simp add: unat_of_nat of_char_mod_256)

lemma unat_byte_mod [simp]: "unat (b :: byte) mod 256 = unat b"
proof -
  have "unat b < 2 ^ LENGTH(8)" by (rule unsigned_less)
  then show ?thesis by simp
qed

lemma decode_encode_ascii: "encode_ascii s = Inr bs \<Longrightarrow> decode_ascii bs = Inr s"
  by (auto simp: encode_ascii_def decode_ascii_def ascii_def list.pred_map o_def split: if_splits)

lemma encode_decode_ascii: "decode_ascii bs = Inr s \<Longrightarrow> encode_ascii s = Inr bs"
  by (auto intro: map_idI simp: encode_ascii_def decode_ascii_def ascii_def list.pred_map o_def split: if_splits)


section \<open>Dictionaries\<close>

text \<open>
  A dict is an association list in insertion order: \<open>AList.update\<close> replaces in place or
  appends, \<open>AList.map_entry\<close> mutates the object stored under a key, \<open>AList.delete\<close> removes.
  \<open>dict_sum g\<close> adds up a measure of the values.
\<close>

definition dict_sum :: "('v \<Rightarrow> int) \<Rightarrow> ('k \<times> 'v) list \<Rightarrow> int" where
  "dict_sum g d = sum_list (map (\<lambda>kv. g (snd kv)) d)"

lemma dict_sum_simps [simp]:
  "dict_sum g [] = 0"
  "dict_sum g (kv # d) = g (snd kv) + dict_sum g d"
  "dict_sum g (d @ d') = dict_sum g d + dict_sum g d'"
  by (simp_all add: dict_sum_def)

lemma update_fresh: "k \<notin> fst ` set d \<Longrightarrow> AList.update k v d = d @ [(k, v)]"
  by (induction d) auto

lemma dict_sum_map_entry:
  "map_of d k = Some v \<Longrightarrow> dict_sum g (AList.map_entry k f d) = dict_sum g d - g v + g (f v)"
  by (induction d) auto

lemma dict_sum_nonneg: "(\<And>k v. (k, v) \<in> set d \<Longrightarrow> 0 \<le> g v) \<Longrightarrow> 0 \<le> dict_sum g d"
  unfolding dict_sum_def by (rule sum_list_nonneg) auto

lemma set_map_entry:
  "distinct (map fst d) \<Longrightarrow> map_of d k = Some v \<Longrightarrow>
   set (AList.map_entry k f d) = insert (k, f v) {kv \<in> set d. fst kv \<noteq> k}"
  by (induction d) (auto simp: image_iff dest: map_of_SomeD)

lemma map_of_map_entry [simp]:
  "map_of (AList.map_entry k f d) k' = (if k' = k then map_option f (map_of d k) else map_of d k')"
  by (induction d) auto

lemma fst_map_entry [simp]: "map fst (AList.map_entry k f d) = map fst d"
  by (induction d) auto

lemma keys_map_entry [simp]: "fst ` set (AList.map_entry k f d) = fst ` set d"
  by (metis fst_map_entry image_set)

end
