(* ===== verification/Buffer.thy ===== *)
theory Buffer
  imports Dsquic_Prelude
begin

text \<open>
  \<open>src/dsquic/buffer.py\<close>: variable-length integers (RFC 9000, section 16) and the
  sequential reader every parser of the package works on.

  A \<open>Buffer\<close> object is the record \<open>buffer\<close>, its methods are \<open>('s, 'a) se\<close>
  functions. \<open>buf_at pre rest\<close> is the buffer that has read \<open>pre\<close> and still holds
  \<open>rest\<close>: the decoding lemmas are equations on it, so that simplification runs a parser
  over what an encoder wrote. \<open>reader E P p\<close> is the Hoare-style judgement the error
  and bounds results rest on: on a well-formed buffer, \<open>p\<close> never moves backwards, raises
  only exceptions of \<open>E\<close>, and returns only values that satisfy \<open>P\<close>. The locale
  \<open>byte_codec\<close> is the contract between an encoder and the reader that undoes it; what it
  gives for sequences of items is used by every length-delimited list of the wire format.
\<close>

section \<open>Model\<close>

definition VARINT_MAX :: int where
  "VARINT_MAX = 2 ^ 62 - 1"

definition encode_varint :: "int \<Rightarrow> bytes result" where
  "encode_varint value =
     (if \<not> (0 \<le> value \<and> value \<le> VARINT_MAX) then Inl ValueError
      else if value \<le> 0x3F then to_bytes 1 value
      else if value \<le> 0x3FFF then to_bytes 2 (value OR 0x4000)
      else if value \<le> 0x3FFFFFFF then to_bytes 4 (value OR 0x80000000)
      else to_bytes 8 (value OR 0xC000000000000000))"

record buffer =
  buf_data :: bytes
  buf_position :: nat

definition mk_buffer :: "bytes \<Rightarrow> buffer" where
  "mk_buffer data = \<lparr>buf_data = data, buf_position = 0\<rparr>"

definition remaining :: "buffer \<Rightarrow> int" where
  "remaining b = len (buf_data b) - int (buf_position b)"

definition is_empty :: "buffer \<Rightarrow> bool" where
  "is_empty b \<longleftrightarrow> buf_position b = length (buf_data b)"

definition pull_bytes :: "int \<Rightarrow> (buffer, bytes) se" where
  "pull_bytes n b =
     (if n < 0 then (Inl ValueError, b)
      else if n > remaining b then (Inl BufferReadError, b)
      else (let start = buf_position b; stop = start + nat n
            in (Inr (take (stop - start) (drop start (buf_data b))), b\<lparr>buf_position := stop\<rparr>)))"

definition peek_uint8 :: "(buffer, int) se" where
  "peek_uint8 b =
     (if remaining b < 1 then (Inl BufferReadError, b)
      else (Inr (uint (buf_data b ! buf_position b)), b))"

definition pull_uint8 :: "(buffer, int) se" where
  "pull_uint8 = bindS (pull_bytes 1) (\<lambda>bs. retS (uint (hd bs)))"

definition pull_uint16 :: "(buffer, int) se" where
  "pull_uint16 = bindS (pull_bytes 2) (\<lambda>bs. retS (from_be bs))"

definition pull_uint24 :: "(buffer, int) se" where
  "pull_uint24 = bindS (pull_bytes 3) (\<lambda>bs. retS (from_be bs))"

definition pull_uint32 :: "(buffer, int) se" where
  "pull_uint32 = bindS (pull_bytes 4) (\<lambda>bs. retS (from_be bs))"

definition pull_varint :: "(buffer, int) se" where
  "pull_varint =
     bindS pull_uint8 (\<lambda>first.
       let length = push_bit (nat (drop_bit 6 first)) 1; value = first AND 0x3F
       in bindS (pull_bytes (length - 1)) (\<lambda>bs.
            retS (foldl (\<lambda>value byte. push_bit 8 value OR uint byte) value bs)))"

text \<open>
  The recurring loop \<open>while not buf.is_empty: items.append(...)\<close>. An iteration that
  consumed nothing would be repeated for ever.
\<close>

function pull_all :: "(buffer, 'a) se \<Rightarrow> buffer \<Rightarrow> 'a list result \<times> buffer" where
  "pull_all p b =
     (if is_empty b then (Inr [], b)
      else case p b of
          (Inl e, b') \<Rightarrow> (Inl e, b')
        | (Inr x, b') \<Rightarrow>
            if remaining b' < remaining b \<and> 0 \<le> remaining b' then
              (case pull_all p b' of
                 (Inl e, b'') \<Rightarrow> (Inl e, b'')
               | (Inr xs, b'') \<Rightarrow> (Inr (x # xs), b''))
            else (Inl Diverges, b'))"
  by pat_completeness auto
termination
  by (relation "measure (\<lambda>(p, b). nat (remaining b))") auto

declare pull_all.simps [simp del]


section \<open>Buffers split into what was read and what remains\<close>

definition buf_at :: "bytes \<Rightarrow> bytes \<Rightarrow> buffer" where
  "buf_at pre rest = \<lparr>buf_data = pre @ rest, buf_position = length pre\<rparr>"

lemma mk_buffer_at: "mk_buffer data = buf_at [] data"
  by (simp add: mk_buffer_def buf_at_def)

lemma buf_at_simps [simp]:
  "remaining (buf_at pre rest) = len rest"
  "is_empty (buf_at pre rest) \<longleftrightarrow> rest = []"
  "buf_position (buf_at pre rest) = length pre"
  "buf_data (buf_at pre rest) = pre @ rest"
  by (auto simp: remaining_def is_empty_def buf_at_def)

lemma pull_bytes_at [wire_simps]:
  "n = len bs \<Longrightarrow> pull_bytes n (buf_at pre (bs @ rest)) = (Inr bs, buf_at (pre @ bs) rest)"
  by (simp add: pull_bytes_def remaining_def buf_at_def Let_def)

lemma pull_bytes_short:
  "len rest < n \<Longrightarrow> pull_bytes n (buf_at pre rest) = (Inl BufferReadError, buf_at pre rest)"
  by (simp add: pull_bytes_def)

lemma pull_bytes_all [wire_simps]:
  "n = len rest \<Longrightarrow> pull_bytes n (buf_at pre rest) = (Inr rest, buf_at (pre @ rest) [])"
  using pull_bytes_at [of n rest pre "[]"] by simp

lemma pull_uint8_at [wire_simps]:
  "pull_uint8 (buf_at pre (b # rest)) = (Inr (uint b), buf_at (pre @ [b]) rest)"
  using pull_bytes_at [of 1 "[b]" pre rest] by (simp add: pull_uint8_def)

lemma pull_uint16_at [wire_simps]:
  "0 \<le> v \<Longrightarrow> v < 2 ^ 16 \<Longrightarrow>
   pull_uint16 (buf_at pre (to_be 2 v @ rest)) = (Inr v, buf_at (pre @ to_be 2 v) rest)"
  by (simp add: pull_uint16_def pull_bytes_at)

lemma pull_uint24_at [wire_simps]:
  "0 \<le> v \<Longrightarrow> v < 2 ^ 24 \<Longrightarrow>
   pull_uint24 (buf_at pre (to_be 3 v @ rest)) = (Inr v, buf_at (pre @ to_be 3 v) rest)"
  by (simp add: pull_uint24_def pull_bytes_at)

lemma pull_uint32_at [wire_simps]:
  "0 \<le> v \<Longrightarrow> v < 2 ^ 32 \<Longrightarrow>
   pull_uint32 (buf_at pre (to_be 4 v @ rest)) = (Inr v, buf_at (pre @ to_be 4 v) rest)"
  by (simp add: pull_uint32_def pull_bytes_at)

text \<open>What a successful read says of the bytes that were there.\<close>

lemma pull_bytes_at_Inr_iff:
  "pull_bytes n (buf_at pre rest) = (Inr bs, b') \<longleftrightarrow>
     len bs = n \<and> (\<exists>rest'. rest = bs @ rest' \<and> b' = buf_at (pre @ bs) rest')"
proof
  assume *: "pull_bytes n (buf_at pre rest) = (Inr bs, b')"
  then have "0 \<le> n" "n \<le> len rest"
    by (auto simp: pull_bytes_def split: if_splits)
  then have "pull_bytes n (buf_at pre rest)
      = (Inr (take (nat n) rest), buf_at (pre @ take (nat n) rest) (drop (nat n) rest))"
    using pull_bytes_at [of n "take (nat n) rest" pre "drop (nat n) rest"] by simp
  with * \<open>0 \<le> n\<close> \<open>n \<le> len rest\<close>
  show "len bs = n \<and> (\<exists>rest'. rest = bs @ rest' \<and> b' = buf_at (pre @ bs) rest')"
    by (auto intro!: exI [of _ "drop (nat n) rest"])
qed (auto simp: pull_bytes_at)

lemma pull_uint8_at_Inr_iff:
  "pull_uint8 (buf_at pre rest) = (Inr v, b') \<longleftrightarrow>
     (\<exists>x rest'. rest = x # rest' \<and> v = uint x \<and> b' = buf_at (pre @ [x]) rest')"
  by (force simp: pull_uint8_def bindS_Inr_iff pull_bytes_at_Inr_iff length_Suc_conv)

lemma pull_uint32_at_Inr_iff:
  "pull_uint32 (buf_at pre rest) = (Inr v, b') \<longleftrightarrow>
     (\<exists>bs rest'. rest = bs @ rest' \<and> length bs = 4 \<and> v = from_be bs \<and> b' = buf_at (pre @ bs) rest')"
  by (auto simp: pull_uint32_def bindS_Inr_iff pull_bytes_at_Inr_iff)


section \<open>Variable-length integers\<close>

text \<open>
  The four forms have one shape: a two-bit tag over a big-endian value. The tag is the
  logarithm of the number of bytes.
\<close>

lemma varint_form_at:
  fixes v tag :: int
  assumes tag: "0 \<le> tag" "tag < 4" and n: "2 ^ nat tag = Suc n"
    and v: "0 \<le> v" "v < 2 ^ (8 * n + 6)"
  defines "bs \<equiv> to_be (Suc n) (v OR (tag * 2 ^ (8 * n + 6)))"
  shows "pull_varint (buf_at pre (bs @ rest)) = (Inr v, buf_at (pre @ bs) rest)"
proof -
  have split: "(2 :: int) ^ (8 * n + 6) = 256 ^ n * 64"
    by (simp add: power_add power_mult)
  have high: "v div 256 ^ n < 64" "0 \<le> v div 256 ^ n"
  proof -
    have "v div 256 ^ n * 256 ^ n \<le> v"
      by (simp add: div_mult_mod_eq [symmetric] flip: minus_mod_eq_div_mult)
    then have "v div 256 ^ n * 256 ^ n < 64 * 256 ^ n"
      using v(2) unfolding split by linarith
    then show "v div 256 ^ n < 64" by simp
    show "0 \<le> v div 256 ^ n" using v(1) by (simp add: pos_imp_zdiv_nonneg_iff)
  qed
  have "(v + (tag * 64) * 256 ^ n) div 256 ^ n = tag * 64 + v div 256 ^ n"
    by simp
  then have "(v + tag * 2 ^ (8 * n + 6)) div 256 ^ n = tag * 64 + v div 256 ^ n"
    unfolding split by (simp only: mult.assoc mult.commute mult.left_commute)
  then have bs: "bs = word_of_int (tag * 64 + v div 256 ^ n) # to_be n (v + tag * 2 ^ (8 * n + 6))"
    unfolding bs_def or_add_shifted [OF v] to_be_head by (simp only:)
  obtain b where b: "b = (word_of_int (tag * 64 + v div 256 ^ n) :: byte)"
    by blast
  have first: "uint b = tag * 64 + v div 256 ^ n"
    unfolding b uint_word_of_int_8 using high tag by simp
  have "drop_bit 6 (tag * 64 + v div 256 ^ n) = tag"
    using high by (simp add: drop_bit_eq_div div_add1_eq)
  moreover have "(tag * 64 + v div 256 ^ n) AND 0x3F = v div 256 ^ n"
    unfolding and_low6 using high by simp
  moreover have "(push_bit (nat tag) 1 :: int) - 1 = int n"
    using arg_cong [OF n, of int] by (simp add: push_bit_eq_mult)
  moreover have "(v + tag * 2 ^ (8 * n + 6)) mod 256 ^ n = v mod 256 ^ n"
  proof -
    have "(v + (tag * 64) * 256 ^ n) mod 256 ^ n = v mod 256 ^ n"
      by simp
    then show ?thesis
      unfolding split by (simp only: mult.assoc mult.commute mult.left_commute)
  qed
  ultimately show ?thesis
    unfolding bs b [symmetric]
    by (simp add: pull_varint_def pull_uint8_at pull_bytes_at first shift8_or_byte foldl_be_to_be
        div_mult_mod_eq)
qed

definition varint :: "int \<Rightarrow> bytes" where
  "varint v = projr (encode_varint v)"

definition varint_ok :: "int \<Rightarrow> bool" where
  "varint_ok v \<longleftrightarrow> 0 \<le> v \<and> v \<le> VARINT_MAX"

lemma varint_ok_small [simp]: "varint_ok (numeral k) \<longleftrightarrow> numeral k \<le> VARINT_MAX" "varint_ok 0" "varint_ok 1"
  by (auto simp: varint_ok_def VARINT_MAX_def)

lemma VARINT_MAX_numeral [simp]: "numeral k \<le> VARINT_MAX \<longleftrightarrow> numeral k \<le> (4611686018427387903 :: int)"
  by (simp add: VARINT_MAX_def)

lemma varint_forms:
  assumes "varint_ok v"
  shows "encode_varint v =
    Inr (if v < 2 ^ 6 then to_be 1 (v OR (0 * 2 ^ 6))
         else if v < 2 ^ 14 then to_be 2 (v OR (1 * 2 ^ 14))
         else if v < 2 ^ 30 then to_be 4 (v OR (2 * 2 ^ 30))
         else to_be 8 (v OR (3 * 2 ^ 62)))"
proof -
  have fits: "v OR (t * 2 ^ k) < 256 ^ n \<and> 0 \<le> v OR (t * 2 ^ k)"
    if "v < 2 ^ k" "0 \<le> t" "t \<le> 3" "(256 :: int) ^ n = 4 * 2 ^ k" for t k n
  proof -
    have "v + t * 2 ^ k < 2 ^ k + 3 * 2 ^ k"
      using that by (intro add_less_le_mono mult_right_mono) auto
    then show ?thesis
      using assms that or_add_shifted [of v k t] by (simp add: varint_ok_def)
  qed
  show ?thesis
    using assms fits [of 6 0 1] fits [of 14 1 2] fits [of 30 2 4] fits [of 62 3 8]
    by (auto simp: encode_varint_def varint_ok_def VARINT_MAX_def)
qed

lemma encode_varint_ok [simp]: "varint_ok v \<Longrightarrow> encode_varint v = Inr (varint v)"
  by (simp add: varint_def varint_forms)

lemma encode_varint_bad: "\<not> varint_ok v \<Longrightarrow> encode_varint v = Inl ValueError"
  by (auto simp: encode_varint_def varint_ok_def)

lemma encode_varint_Inr_iff: "encode_varint v = Inr bs \<longleftrightarrow> varint_ok v \<and> bs = varint v"
  by (cases "varint_ok v") (auto simp: encode_varint_bad)

lemma varint_cases:
  assumes "varint_ok v"
  obtains
    (w1) "v < 2 ^ 6" "varint v = to_be 1 (v OR (0 * 2 ^ 6))"
  | (w2) "2 ^ 6 \<le> v" "v < 2 ^ 14" "varint v = to_be 2 (v OR (1 * 2 ^ 14))"
  | (w4) "2 ^ 14 \<le> v" "v < 2 ^ 30" "varint v = to_be 4 (v OR (2 * 2 ^ 30))"
  | (w8) "2 ^ 30 \<le> v" "v < 2 ^ 62" "varint v = to_be 8 (v OR (3 * 2 ^ 62))"
  using varint_forms [OF assms] assms
  unfolding encode_varint_ok [OF assms] varint_ok_def VARINT_MAX_def
  by (fastforce split: if_splits)

lemma pull_varint_at [wire_simps]:
  assumes "varint_ok v"
  shows "pull_varint (buf_at pre (varint v @ rest)) = (Inr v, buf_at (pre @ varint v) rest)"
proof -
  have v: "0 \<le> v"
    using assms by (simp add: varint_ok_def)
  from assms show ?thesis
  proof (cases rule: varint_cases)
    case w1
    then show ?thesis using varint_form_at [of 0 0 v pre rest] v by simp
  next
    case w2
    then show ?thesis using varint_form_at [of 1 1 v pre rest] v by (simp add: numeral_2_eq_2)
  next
    case w4
    then show ?thesis using varint_form_at [of 2 3 v pre rest] v by simp
  next
    case w8
    then show ?thesis using varint_form_at [of 3 7 v pre rest] v by simp
  qed
qed

lemma length_varint:
  "varint_ok v \<Longrightarrow>
   length (varint v) = (if v < 2 ^ 6 then 1 else if v < 2 ^ 14 then 2 else if v < 2 ^ 30 then 4 else 8)"
  by (erule varint_cases) simp_all

lemma varint_nonempty [simp]: "varint_ok v \<Longrightarrow> varint v \<noteq> []"
  by (simp add: length_varint flip: length_greater_0_conv)


section \<open>What a reader can do\<close>

definition buf_wf :: "buffer \<Rightarrow> bool" where
  "buf_wf b \<longleftrightarrow> buf_position b \<le> length (buf_data b)"

definition reader :: "exn set \<Rightarrow> ('a \<Rightarrow> bool) \<Rightarrow> (buffer, 'a) se \<Rightarrow> bool" where
  "reader E P p \<longleftrightarrow>
     (\<forall>b r b'. buf_wf b \<longrightarrow> p b = (r, b') \<longrightarrow>
        buf_wf b' \<and> buf_data b' = buf_data b \<and> buf_position b \<le> buf_position b' \<and>
        (case r of Inl e \<Rightarrow> e \<in> E | Inr x \<Rightarrow> P x))"

lemma buf_wf_at [simp]: "buf_wf (buf_at pre rest)"
  by (simp add: buf_wf_def)

lemma buf_wf_mk [simp]: "buf_wf (mk_buffer data)"
  by (simp add: buf_wf_def mk_buffer_def)

lemma buf_wf_cases:
  assumes "buf_wf b"
  obtains pre rest where "b = buf_at pre rest"
proof
  show "b = buf_at (take (buf_position b) (buf_data b)) (drop (buf_position b) (buf_data b))"
    using assms by (simp add: buf_at_def buf_wf_def)
qed

lemma readerD:
  "reader E P p \<Longrightarrow> buf_wf b \<Longrightarrow> p b = (r, b') \<Longrightarrow>
   buf_wf b' \<and> buf_data b' = buf_data b \<and> buf_position b \<le> buf_position b' \<and>
   (case r of Inl e \<Rightarrow> e \<in> E | Inr x \<Rightarrow> P x)"
  unfolding reader_def by blast

lemma readerD_Inr:
  "reader E P p \<Longrightarrow> buf_wf b \<Longrightarrow> p b = (Inr x, b') \<Longrightarrow>
   buf_wf b' \<and> buf_data b' = buf_data b \<and> buf_position b \<le> buf_position b' \<and> P x"
  by (drule (2) readerD) simp

lemma readerD_Inl: "reader E P p \<Longrightarrow> buf_wf b \<Longrightarrow> p b = (Inl e, b') \<Longrightarrow> e \<in> E"
  by (drule (2) readerD) simp

lemma reader_outcome: "reader E P p \<Longrightarrow> buf_wf b \<Longrightarrow> outcome E P (fst (p b))"
  by (cases "p b") (auto dest: readerD simp: outcome_def)

lemma reader_retS [wire_errors]: "P x \<Longrightarrow> reader E P (retS x)"
  by (simp add: reader_def)

lemma reader_raiseS [wire_errors]: "e \<in> E \<Longrightarrow> reader E P (raiseS e)"
  by (simp add: reader_def)

lemma reader_if:
  "(c \<Longrightarrow> reader E P p) \<Longrightarrow> (\<not> c \<Longrightarrow> reader E P q) \<Longrightarrow> reader E P (if c then p else q)"
  by simp

lemma reader_bindS:
  assumes p: "reader E P p" and f: "\<And>x. P x \<Longrightarrow> reader E Q (f x)"
  shows "reader E Q (bindS p f)"
  unfolding reader_def
proof (intro allI impI)
  fix b r b'
  assume b: "buf_wf b" and eq: "bindS p f b = (r, b')"
  show "buf_wf b' \<and> buf_data b' = buf_data b \<and> buf_position b \<le> buf_position b' \<and>
      (case r of Inl e \<Rightarrow> e \<in> E | Inr x \<Rightarrow> Q x)"
  proof (cases "p b")
    case (Pair r1 b1)
    with p b have one: "buf_wf b1" "buf_data b1 = buf_data b" "buf_position b \<le> buf_position b1"
        "case r1 of Inl e \<Rightarrow> e \<in> E | Inr x \<Rightarrow> P x"
      unfolding reader_def by blast+
    show ?thesis
    proof (cases r1)
      case (Inl e)
      with Pair eq one show ?thesis by auto
    next
      case (Inr x)
      with Pair eq have "f x b1 = (r, b')" by simp
      moreover have "reader E Q (f x)"
        using Inr one(4) f by simp
      ultimately show ?thesis
        using readerD [of E Q "f x" b1 r b'] one by simp
    qed
  qed
qed

lemma reader_weaken:
  assumes "reader E P p" "E \<subseteq> E'" "\<And>x. P x \<Longrightarrow> Q x"
  shows "reader E' Q p"
  unfolding reader_def
proof (intro allI impI)
  fix b r b'
  assume "buf_wf b" "p b = (r, b')"
  from readerD [OF assms(1) this] show "buf_wf b' \<and> buf_data b' = buf_data b \<and> buf_position b \<le> buf_position b' \<and>
      (case r of Inl e \<Rightarrow> e \<in> E' | Inr x \<Rightarrow> Q x)"
    using assms(2,3) by (cases r) auto
qed

lemma reader_pull_bytes:
  "0 \<le> n \<Longrightarrow> reader {BufferReadError} (\<lambda>bs. len bs = n) (pull_bytes n)"
  by (auto simp: reader_def pull_bytes_def remaining_def buf_wf_def Let_def)

lemma reader_pull_uint8: "reader {BufferReadError} (\<lambda>v. 0 \<le> v \<and> v < 256) pull_uint8"
  unfolding pull_uint8_def
  by (rule reader_bindS [OF reader_pull_bytes]) (auto intro: reader_retS)

lemma reader_from_be:
  assumes "k = 256 ^ n"
  shows "reader {BufferReadError} (\<lambda>v. 0 \<le> v \<and> v < k)
    (bindS (pull_bytes (int n)) (\<lambda>bs. retS (from_be bs)))"
  by (rule reader_bindS [OF reader_pull_bytes])
    (use from_be_bounds assms in \<open>auto intro!: reader_retS\<close>)

lemma reader_pull_uint16: "reader {BufferReadError} (\<lambda>v. 0 \<le> v \<and> v < 65536) pull_uint16"
  unfolding pull_uint16_def using reader_from_be [of 65536 2] by simp

lemma reader_pull_uint32: "reader {BufferReadError} (\<lambda>v. 0 \<le> v \<and> v < 4294967296) pull_uint32"
  unfolding pull_uint32_def using reader_from_be [of 4294967296 4] by simp

lemma foldl_be_bounds:
  assumes "0 \<le> a" "a < k"
  shows "0 \<le> foldl (\<lambda>a b. a * 256 + uint b) a (bs :: bytes)
    \<and> foldl (\<lambda>a b. a * 256 + uint b) a bs < k * 256 ^ length bs"
  using assms
proof (induction bs arbitrary: a k)
  case Nil
  then show ?case by simp
next
  case (Cons b bs)
  have "a * 256 + uint b < k * 256"
  proof -
    have "a * 256 + uint b \<le> (k - 1) * 256 + uint b"
      using Cons.prems by (intro add_right_mono mult_right_mono) auto
    then show ?thesis using uint_byte_bounds(2) [of b] by (simp del: uint_byte_bounds)
  qed
  with Cons.IH [of "a * 256 + uint b" "k * 256"] Cons.prems show ?case
    by (simp add: ac_simps)
qed

lemma reader_pull_varint: "reader {BufferReadError} varint_ok pull_varint"
  unfolding pull_varint_def Let_def
proof (rule reader_bindS [OF reader_pull_uint8])
  fix first :: int
  assume first: "0 \<le> first \<and> first < 256"
  define w where "w = nat (drop_bit 6 first)"
  have w: "w < 4"
    using first by (auto simp: w_def drop_bit_eq_div)
  have n: "(push_bit w 1 :: int) - 1 = int (2 ^ w - 1)"
    by (simp add: push_bit_eq_mult of_nat_diff)
  have low: "0 \<le> first AND 0x3F" "first AND 0x3F < 64"
    by (simp_all add: and_low6)
  show "reader {BufferReadError} varint_ok
     (bindS (pull_bytes (push_bit (nat (drop_bit 6 first)) 1 - 1))
       (\<lambda>bs. retS (foldl (\<lambda>value byte. push_bit 8 value OR uint byte) (first AND 0x3F) bs)))"
    unfolding w_def [symmetric] n shift8_or_byte
  proof (rule reader_bindS [OF reader_pull_bytes])
    fix bs :: bytes
    assume "len bs = int (2 ^ w - 1)"
    then have "length bs = 2 ^ w - 1"
      by (simp only: of_nat_eq_iff)
    moreover have "(2 :: nat) ^ w \<le> 2 ^ 3"
      using w by (intro power_increasing) auto
    ultimately have "length bs \<le> 7" by simp
    then have "(256 :: int) ^ length bs \<le> 256 ^ 7"
      by (intro power_increasing) auto
    then show "reader {BufferReadError} varint_ok
        (retS (foldl (\<lambda>value byte. value * 256 + uint byte) (first AND 0x3F) bs))"
      using foldl_be_bounds [OF low, of bs]
      by (intro reader_retS) (auto simp: varint_ok_def VARINT_MAX_def)
  qed simp
qed

text \<open>The same judgements for a reader that may also raise other exceptions.\<close>

lemma reader_pulls [wire_errors]:
  assumes "BufferReadError \<in> E"
  shows "0 \<le> n \<Longrightarrow> reader E (\<lambda>bs. len bs = n) (pull_bytes n)"
    and "reader E (\<lambda>v. 0 \<le> v \<and> v < 256) pull_uint8"
    and "reader E (\<lambda>v. 0 \<le> v \<and> v < 65536) pull_uint16"
    and "reader E (\<lambda>v. 0 \<le> v \<and> v < 4294967296) pull_uint32"
    and "reader E varint_ok pull_varint"
  using assms
  by (auto intro: reader_weaken [OF reader_pull_bytes] reader_weaken [OF reader_pull_uint8]
      reader_weaken [OF reader_pull_uint16] reader_weaken [OF reader_pull_uint32]
      reader_weaken [OF reader_pull_varint])

lemma reader_getS_position [wire_errors]: "reader E (\<lambda>v. True) (getS buf_position)"
  by (simp add: reader_def)

lemma reader_getS_remaining [wire_errors]: "reader E (\<lambda>v. 0 \<le> v) (getS remaining)"
  by (auto simp: reader_def buf_wf_def remaining_def)

lemma reader_liftS [wire_errors]: "x = Inr y \<Longrightarrow> reader E (\<lambda>z. z = y) (liftS x)"
  by (simp add: reader_def)

lemma varint_ok_nonneg: "varint_ok v \<Longrightarrow> 0 \<le> v"
  by (simp add: varint_ok_def)

lemma pull_uint8_advances:
  "buf_wf b \<Longrightarrow> pull_uint8 b = (Inr x, b') \<Longrightarrow> buf_position b < buf_position b'"
  by (auto simp: pull_uint8_def bindS_Inr_iff pull_bytes_def Let_def split: if_splits)

lemma bindS_advances:
  assumes "bindS p f b = (Inr y, b'')" and "buf_wf b"
    and "reader E P p" and "\<And>x. P x \<Longrightarrow> reader E' (Q x) (f x)"
    and "\<And>x b'. p b = (Inr x, b') \<Longrightarrow> buf_position b < buf_position b'"
  shows "buf_position b < buf_position b''"
proof -
  from assms(1) obtain x b' where p: "p b = (Inr x, b')" and f: "f x b' = (Inr y, b'')"
    by (auto simp: bindS_Inr_iff)
  from readerD_Inr [OF assms(3,2) p] have "buf_wf b'" "P x" by auto
  then have "buf_position b' \<le> buf_position b''"
    using readerD_Inr [OF assms(4) _ f] by simp
  with assms(5) [OF p] show ?thesis by simp
qed


section \<open>Codecs\<close>

text \<open>
  A codec is an encoder together with the reader that undoes it, wherever the encoding
  sits in a buffer. An encoding is never empty, so a loop over items makes progress.
\<close>

locale byte_codec =
  fixes enc :: "'a \<Rightarrow> bytes result"
    and dec :: "(buffer, 'a) se"
    and ok :: "'a \<Rightarrow> bool"
  assumes enc_ok: "ok v \<Longrightarrow> \<exists>bs. enc v = Inr bs"
    and enc_nonempty: "ok v \<Longrightarrow> enc v = Inr bs \<Longrightarrow> bs \<noteq> []"
    and dec_enc: "ok v \<Longrightarrow> enc v = Inr bs \<Longrightarrow>
      dec (buf_at pre (bs @ rest)) = (Inr v, buf_at (pre @ bs) rest)"
begin

lemma mapE_enc_ok: "list_all ok vs \<Longrightarrow> \<exists>bss. mapE enc vs = Inr bss"
  by (induction vs) (use enc_ok in fastforce)+

lemma pull_all_enc:
  "list_all ok vs \<Longrightarrow> mapE enc vs = Inr bss \<Longrightarrow>
   pull_all dec (buf_at pre (concat bss)) = (Inr vs, buf_at (pre @ concat bss) [])"
proof (induction vs arbitrary: bss pre)
  case Nil
  then show ?case by (simp add: pull_all.simps)
next
  case (Cons v vs)
  then obtain bs bss' where bs: "enc v = Inr bs" and bss': "mapE enc vs = Inr bss'"
      and bss: "bss = bs # bss'"
    by (auto simp: bindE_Inr_iff)
  have one: "dec (buf_at pre (bs @ concat bss')) = (Inr v, buf_at (pre @ bs) (concat bss'))"
    using Cons.prems(1) bs by (intro dec_enc) auto
  have "bs \<noteq> []"
    using Cons.prems(1) bs enc_nonempty by auto
  moreover have "pull_all dec (buf_at (pre @ bs) (concat bss')) =
      (Inr vs, buf_at ((pre @ bs) @ concat bss') [])"
    using Cons.prems(1) bss' by (intro Cons.IH) auto
  ultimately show ?case
    by (simp add: bss pull_all.simps [of dec "buf_at pre (bs @ concat bss')"] one)
qed

end

interpretation varint_codec: byte_codec encode_varint pull_varint varint_ok
proof unfold_locales
  fix v bs pre rest
  assume "varint_ok v"
  then show "\<exists>bs. encode_varint v = Inr bs" by simp
  assume "encode_varint v = Inr bs"
  with \<open>varint_ok v\<close> have bs: "bs = varint v" by simp
  with \<open>varint_ok v\<close> show "bs \<noteq> []" by simp
  from \<open>varint_ok v\<close> show "pull_varint (buf_at pre (bs @ rest)) = (Inr v, buf_at (pre @ bs) rest)"
    unfolding bs by (rule pull_varint_at)
qed

interpretation uint16_codec: byte_codec "to_bytes 2" pull_uint16 "\<lambda>v. 0 \<le> v \<and> v < 65536"
  by unfold_locales (auto simp: wire_simps)

interpretation uint32_codec: byte_codec "to_bytes 4" pull_uint32 "\<lambda>v. 0 \<le> v \<and> v < 4294967296"
  by unfold_locales (auto simp: wire_simps)

text \<open>
  The loop over a buffer terminates when every successful read advances: it then raises
  only what the item reader raises.
\<close>

locale item_reader =
  fixes dec :: "(buffer, 'a) se" and E :: "exn set" and P :: "'a \<Rightarrow> bool"
  assumes is_reader: "reader E P dec"
    and advances: "buf_wf b \<Longrightarrow> dec b = (Inr x, b') \<Longrightarrow> buf_position b < buf_position b'"
begin

lemma pull_all_result:
  "buf_wf b \<Longrightarrow>
   (case fst (pull_all dec b) of Inl e \<Rightarrow> e \<in> E | Inr xs \<Rightarrow> list_all P xs)
   \<and> buf_wf (snd (pull_all dec b)) \<and> buf_data (snd (pull_all dec b)) = buf_data b
   \<and> buf_position b \<le> buf_position (snd (pull_all dec b))"
proof (induction "nat (remaining b)" arbitrary: b rule: less_induct)
  case (less b)
  show ?case
  proof (cases "is_empty b")
    case True
    then show ?thesis using less.prems by (simp add: pull_all.simps [of dec b])
  next
    case False
    obtain r b' where r: "dec b = (r, b')" by (cases "dec b")
    note res = readerD [OF is_reader less.prems r]
    show ?thesis
    proof (cases r)
      case (Inl e)
      then show ?thesis using r res False by (simp add: pull_all.simps [of dec b])
    next
      case (Inr x)
      with r have step: "dec b = (Inr x, b')" by simp
      then have "buf_position b < buf_position b'"
        using advances less.prems by blast
      then have shorter: "remaining b' < remaining b" "0 \<le> remaining b'"
        using res by (auto simp: remaining_def buf_wf_def)
      obtain r2 b2 where r2: "pull_all dec b' = (r2, b2)" by (cases "pull_all dec b'")
      have "(case fst (pull_all dec b') of Inl e \<Rightarrow> e \<in> E | Inr xs \<Rightarrow> list_all P xs)
          \<and> buf_wf (snd (pull_all dec b')) \<and> buf_data (snd (pull_all dec b')) = buf_data b'
          \<and> buf_position b' \<le> buf_position (snd (pull_all dec b'))"
        using less.hyps [of b'] shorter res by simp
      then show ?thesis
        using False step shorter res r2 Inr
        by (cases r2) (simp_all add: pull_all.simps [of dec b])
    qed
  qed
qed

lemma pull_all_outcome: "buf_wf b \<Longrightarrow> outcome E (list_all P) (fst (pull_all dec b))"
  using pull_all_result [of b] by (simp add: outcome_def)

lemma pull_all_raises: "buf_wf b \<Longrightarrow> fst (pull_all dec b) = Inl e \<Longrightarrow> e \<in> E"
  using pull_all_result [of b] by simp

lemma pull_all_values: "buf_wf b \<Longrightarrow> fst (pull_all dec b) = Inr xs \<Longrightarrow> list_all P xs"
  using pull_all_result [of b] by simp

end


section \<open>Correctness of the variable-length integers\<close>

lemma pull_bytes_Inr:
  "pull_bytes (int k) b = (Inr bs, b') \<Longrightarrow>
   length bs = k \<and> buf_position b' = buf_position b + k \<and> buf_data b' = buf_data b
   \<and> bs = take k (drop (buf_position b) (buf_data b))"
  by (auto simp: pull_bytes_def Let_def remaining_def split: if_splits)

lemma pull_varint_width:
  assumes "pull_varint b = (Inr v, b')"
  obtains w where "w < 4" "buf_position b' = buf_position b + 2 ^ w" "0 \<le> v" "v < 2 ^ (8 * 2 ^ w - 2)"
proof -
  from assms obtain first b1 bs where f: "pull_uint8 b = (Inr first, b1)"
    and bs: "pull_bytes (push_bit (nat (drop_bit 6 first)) 1 - 1) b1 = (Inr bs, b')"
    and v: "v = foldl (\<lambda>a b. a * 256 + uint b) (first AND 0x3F) bs"
    by (auto simp: pull_varint_def Let_def bindS_Inr_iff shift8_or_byte)
  define w where "w = nat (drop_bit 6 first)"
  have first: "0 \<le> first" "first < 256" and b1: "buf_position b1 = buf_position b + 1"
    using f by (auto simp: pull_uint8_def bindS_Inr_iff pull_bytes_def Let_def split: if_splits)
  then have w: "w < 4"
    by (auto simp: w_def drop_bit_eq_div)
  have n: "(push_bit w 1 :: int) - 1 = int (2 ^ w - 1)"
    by (simp add: push_bit_eq_mult of_nat_diff)
  have len: "length bs = 2 ^ w - 1" and pos: "buf_position b' = buf_position b1 + (2 ^ w - 1)"
    using pull_bytes_Inr [OF bs [folded w_def, unfolded n]] by blast+
  have "(64 :: int) * 256 ^ length bs = 2 ^ (8 * 2 ^ w - 2)"
  proof -
    have "w = 0 \<or> w = 1 \<or> w = 2 \<or> w = 3" using w by auto
    then show ?thesis by (auto simp: len)
  qed
  moreover have "0 \<le> v" "v < 64 * 256 ^ length bs"
    using foldl_be_bounds [of "first AND 0x3F" 64 bs] v by (simp_all add: and_low6)
  ultimately show ?thesis
    using that [OF w] pos b1 by simp
qed

lemma pull_varint_advances:
  "pull_varint b = (Inr v, b') \<Longrightarrow> buf_position b < buf_position b'"
  by (erule pull_varint_width) simp


text \<open>
  Every integer from 0 to 2^62 - 1 encodes, and the reader decodes the encoding to
  the same integer, consuming exactly its bytes, whatever follows it in the buffer.
\<close>

lemma varint_roundtrip:
  assumes "0 \<le> v" "v \<le> VARINT_MAX"
  shows "\<exists>bs. encode_varint v = Inr bs \<and>
    (\<forall>rest. pull_varint (mk_buffer (bs @ rest)) =
       (Inr v, \<lparr>buf_data = bs @ rest, buf_position = length bs\<rparr>))"
proof -
  have ok: "varint_ok v"
    using assms by (simp add: varint_ok_def)
  then show ?thesis
    using pull_varint_at [OF ok, of "[]"] by (simp add: mk_buffer_at)
qed

lemma varint_roundtrip_witness:
  "encode_varint 15293 = Inr [0x7b, 0xbd]
   \<and> pull_varint (mk_buffer [0x7b, 0xbd, 0x01]) =
       (Inr 15293, \<lparr>buf_data = [0x7b, 0xbd, 0x01], buf_position = 2\<rparr>)"
proof -
  have enc: "encode_varint 15293 = Inr [0x7b, 0xbd]"
    by code_simp
  have "(0 :: int) \<le> 15293" "15293 \<le> VARINT_MAX"
    by (simp_all add: VARINT_MAX_def)
  from varint_roundtrip [OF this] obtain bs where "encode_varint 15293 = Inr bs"
    and dec: "\<And>rest. pull_varint (mk_buffer (bs @ rest)) =
      (Inr 15293, \<lparr>buf_data = bs @ rest, buf_position = length bs\<rparr>)"
    by blast
  with enc have "bs = [0x7b, 0xbd]" by simp
  with enc dec [of "[0x01]"] show ?thesis by simp
qed

text \<open>
  Whatever form an integer arrives in, it is in range, one of the four lengths was
  consumed, and the encoder's form of it is no longer than the one that was read.
\<close>

lemma encode_varint_shortest:
  assumes "pull_varint (mk_buffer data) = (Inr v, b)"
  shows "\<exists>bs. encode_varint v = Inr bs \<and> length bs \<le> buf_position b \<and> buf_position b \<in> {1, 2, 4, 8}"
proof -
  from assms obtain w where w: "w < 4" "buf_position b = buf_position (mk_buffer data) + 2 ^ w"
      "0 \<le> v" "v < 2 ^ (8 * 2 ^ w - 2)"
    by (rule pull_varint_width)
  have "varint_ok v"
    using readerD_Inr [OF reader_pull_varint buf_wf_mk assms] by simp
  moreover have "w = 0 \<or> w = 1 \<or> w = 2 \<or> w = 3" using w(1) by auto
  ultimately show ?thesis
    using w by (auto simp: mk_buffer_def length_varint)
qed

lemma encode_varint_shortest_witness:
  "pull_varint (mk_buffer [0x40, 0x25]) = (Inr 37, \<lparr>buf_data = [0x40, 0x25], buf_position = 2\<rparr>)
   \<and> (\<exists>bs. encode_varint 37 = Inr bs \<and> length bs \<le> 2)"
proof -
  have "pull_varint (mk_buffer [0x40, 0x25]) = (Inr 37, \<lparr>buf_data = [0x40, 0x25], buf_position = 2\<rparr>)"
    by (simp add: pull_varint_def pull_uint8_def pull_bytes_def mk_buffer_def remaining_def bindS_def Let_def)
  with encode_varint_shortest [OF this] show ?thesis by auto
qed

end
