(* ===== verification/Packet.thy ===== *)
theory Packet
  imports Buffer
begin

text \<open>
  \<open>src/dsquic/packet.py\<close>: long and short headers, Version Negotiation, and the
  truncation and recovery of packet numbers (RFC 9000, section 17 and appendix A).

  \<open>os.urandom(1)[0]\<close> in \<open>build_version_negotiation\<close> is the argument \<open>rnd\<close>. The lemmas
  show that headers parse back to what was built, that routing by destination connection
  ID agrees with header parsing, that Version Negotiation answers cannot amplify or loop,
  and that a receiver recovers the full packet number the sender truncated.
\<close>

section \<open>Model\<close>

abbreviation (input) HEADER_FORM_LONG :: int where "HEADER_FORM_LONG \<equiv> 0x80"
abbreviation (input) FIXED_BIT :: int where "FIXED_BIT \<equiv> 0x40"
abbreviation (input) QUIC_V1 :: int where "QUIC_V1 \<equiv> 0x00000001"
abbreviation (input) VERSION_NEGOTIATION :: int where "VERSION_NEGOTIATION \<equiv> 0x00000000"
abbreviation (input) SUPPORTED_VERSIONS :: "int list" where "SUPPORTED_VERSIONS \<equiv> [QUIC_V1]"
abbreviation (input) MAX_CID_LENGTH :: int where "MAX_CID_LENGTH \<equiv> 20"
abbreviation (input) MIN_VERSION_NEGOTIATION_DATAGRAM :: int where
  "MIN_VERSION_NEGOTIATION_DATAGRAM \<equiv> 1200"
abbreviation (input) VERSION_END :: int where "VERSION_END \<equiv> 5"

datatype packet_type = INITIAL | ZERO_RTT | HANDSHAKE | RETRY

fun packet_type_value :: "packet_type \<Rightarrow> int" where
  "packet_type_value INITIAL = 0"
| "packet_type_value ZERO_RTT = 1"
| "packet_type_value HANDSHAKE = 2"
| "packet_type_value RETRY = 3"

definition PacketType :: "int \<Rightarrow> packet_type result" where
  "PacketType v =
     (if v = 0 then Inr INITIAL else if v = 1 then Inr ZERO_RTT
      else if v = 2 then Inr HANDSHAKE else if v = 3 then Inr RETRY else Inl ValueError)"

record long_header =
  lh_packet_type :: packet_type
  lh_version :: int
  lh_destination_cid :: bytes
  lh_source_cid :: bytes
  lh_token :: bytes
  lh_length :: int
  lh_pn_offset :: nat

record retry =
  retry_version :: int
  retry_destination_cid :: bytes
  retry_source_cid :: bytes
  retry_token :: bytes

record short_header =
  sh_destination_cid :: bytes
  sh_pn_offset :: nat

definition pull_cids :: "(buffer, bytes \<times> bytes) se" where
  "pull_cids =
     bindS pull_uint8 (\<lambda>n. bindS (pull_bytes n) (\<lambda>destination_cid.
     bindS pull_uint8 (\<lambda>n. bindS (pull_bytes n) (\<lambda>source_cid.
       retS (destination_cid, source_cid)))))"

definition pull_long_header :: "(buffer, long_header) se" where
  "pull_long_header =
     bindS pull_uint8 (\<lambda>first.
     if first AND HEADER_FORM_LONG = 0 then raiseS HeaderParseError
     else if first AND FIXED_BIT = 0 then raiseS HeaderParseError
     else bindS pull_uint32 (\<lambda>version.
     if version = 0 then raiseS HeaderParseError
     else bindS pull_cids (\<lambda>(destination_cid, source_cid).
     if len destination_cid > MAX_CID_LENGTH \<or> len source_cid > MAX_CID_LENGTH
     then raiseS HeaderParseError
     else if version \<noteq> QUIC_V1 then raiseS (UnsupportedVersion version)
     else bindS (liftS (PacketType (drop_bit 4 (first AND 0x30)))) (\<lambda>packet_type.
     if packet_type = RETRY then raiseS HeaderParseError
     else bindS (if packet_type = INITIAL then bindS pull_varint pull_bytes else retS []) (\<lambda>token.
     bindS pull_varint (\<lambda>n.
     bindS (getS buf_position) (\<lambda>position.
       retS \<lparr>lh_packet_type = packet_type, lh_version = version,
         lh_destination_cid = destination_cid, lh_source_cid = source_cid, lh_token = token,
         lh_length = n, lh_pn_offset = position\<rparr>)))))))"

definition parse_long_header :: "bytes \<Rightarrow> long_header result" where
  "parse_long_header data = fst (pull_long_header (mk_buffer data))"

definition build_version_negotiation :: "byte \<Rightarrow> bytes \<Rightarrow> bytes \<Rightarrow> bytes result" where
  "build_version_negotiation rnd destination_cid source_cid =
     (let first = uint rnd OR HEADER_FORM_LONG
      in catE ([byte1 first, to_bytes 4 VERSION_NEGOTIATION,
                byte1 (len destination_cid), Inr destination_cid,
                byte1 (len source_cid), Inr source_cid]
               @ map (to_bytes 4) SUPPORTED_VERSIONS))"

record version_negotiation =
  vn_destination_cid :: bytes
  vn_source_cid :: bytes
  vn_versions :: "int list"

definition is_version_negotiation :: "bytes \<Rightarrow> bool" where
  "is_version_negotiation data =
     (if len data < VERSION_END \<or> uint (data ! 0) AND HEADER_FORM_LONG = 0 then False
      else from_be (take 4 (drop 1 data)) = VERSION_NEGOTIATION)"

definition parse_version_negotiation :: "bytes \<Rightarrow> version_negotiation result" where
  "parse_version_negotiation data =
     fst (bindS pull_cids (\<lambda>(destination_cid, source_cid).
          bindS (pull_all pull_uint32) (\<lambda>versions.
            retS \<lparr>vn_destination_cid = destination_cid, vn_source_cid = source_cid,
              vn_versions = versions\<rparr>)) (mk_buffer (drop 5 data)))"

definition version_negotiation_response :: "byte \<Rightarrow> bytes \<Rightarrow> bytes option result" where
  "version_negotiation_response rnd datagram =
     (if len datagram < MIN_VERSION_NEGOTIATION_DATAGRAM then Inr None
      else if uint (datagram ! 0) AND HEADER_FORM_LONG = 0 then Inr None
      else let version = from_be (take 4 (drop 1 datagram))
      in if version = VERSION_NEGOTIATION \<or> version \<in> set SUPPORTED_VERSIONS then Inr None
      else case fst (pull_cids (mk_buffer (drop 5 datagram))) of
          Inl e \<Rightarrow> if e = BufferReadError then Inr None else Inl e
        | Inr (peer_destination, peer_source) \<Rightarrow>
            if len peer_destination > MAX_CID_LENGTH \<or> len peer_source > MAX_CID_LENGTH then Inr None
            else bindE (build_version_negotiation rnd peer_source peer_destination) (\<lambda>r. Inr (Some r)))"

definition destination_connection_id :: "bytes \<Rightarrow> nat \<Rightarrow> bytes option" where
  "destination_connection_id data cid_length =
     (if data = [] then None
      else if uint (data ! 0) AND HEADER_FORM_LONG \<noteq> 0 then
        (let offset = 1 + 4
         in if length data \<le> offset then None
            else let n = uint (data ! offset)
            in if n > MAX_CID_LENGTH \<or> length data < offset + 1 + nat n then None
               else Some (take (nat n) (drop (offset + 1) data)))
      else if length data < 1 + cid_length then None
      else Some (take cid_length (drop 1 data)))"

definition parse_short_header :: "bytes \<Rightarrow> nat \<Rightarrow> short_header result" where
  "parse_short_header data cid_length =
     fst (bindS pull_uint8 (\<lambda>first.
       if first AND HEADER_FORM_LONG \<noteq> 0 then raiseS HeaderParseError
       else if first AND FIXED_BIT = 0 then raiseS HeaderParseError
       else bindS (pull_bytes (int cid_length)) (\<lambda>destination_cid.
         bindS (getS buf_position) (\<lambda>position.
           retS \<lparr>sh_destination_cid = destination_cid, sh_pn_offset = position\<rparr>))) (mk_buffer data))"

record long_header_template =
  lt_packet_type :: packet_type
  lt_version :: int
  lt_destination_cid :: bytes
  lt_source_cid :: bytes
  lt_token :: bytes

text \<open>\<open>slice_from i xs\<close> is \<open>xs[i:]\<close>, a negative \<open>i\<close> counting from the end.\<close>

definition slice_from :: "int \<Rightarrow> 'a list \<Rightarrow> 'a list" where
  "slice_from i xs = drop (nat (if i < 0 then len xs + i else i)) xs"

definition build_long_header :: "long_header_template \<Rightarrow> int \<Rightarrow> int \<Rightarrow> int \<Rightarrow> bytes result" where
  "build_long_header t payload_length packet_number packet_number_length =
     (let first = HEADER_FORM_LONG OR FIXED_BIT OR push_bit 4 (packet_type_value (lt_packet_type t));
          first = first OR (packet_number_length - 1)
      in catE ([byte1 first, to_bytes 4 (lt_version t),
                byte1 (len (lt_destination_cid t)), Inr (lt_destination_cid t),
                byte1 (len (lt_source_cid t)), Inr (lt_source_cid t)]
               @ (if lt_packet_type t = INITIAL
                  then [encode_varint (len (lt_token t)), Inr (lt_token t)] else [])
               @ [encode_varint (packet_number_length + payload_length),
                  bindE (to_bytes 8 packet_number)
                    (\<lambda>bs. Inr (slice_from (- packet_number_length) bs))]))"

fun bit_length_nat :: "nat \<Rightarrow> nat" where
  "bit_length_nat n = (if n = 0 then 0 else Suc (bit_length_nat (n div 2)))"

declare bit_length_nat.simps [simp del]

definition bit_length :: "int \<Rightarrow> int" where
  "bit_length v = int (bit_length_nat (nat \<bar>v\<bar>))"

definition encode_packet_number :: "int \<Rightarrow> int option \<Rightarrow> bytes result" where
  "encode_packet_number full_pn largest_acked =
     (let num_unacked = (case largest_acked of None \<Rightarrow> full_pn + 1 | Some la \<Rightarrow> full_pn - la);
          num_bytes = min 4 (max 1 ((bit_length num_unacked + 1 + 7) div 8))
      in bindE (to_bytes 8 full_pn) (\<lambda>bs. Inr (slice_from (- num_bytes) bs)))"

definition decode_packet_number :: "int \<Rightarrow> int \<Rightarrow> nat \<Rightarrow> int" where
  "decode_packet_number largest_pn truncated_pn pn_nbits =
     (let expected_pn = largest_pn + 1;
          pn_win = push_bit pn_nbits 1;
          pn_hwin = pn_win div 2;
          pn_mask = pn_win - 1;
          candidate_pn = (expected_pn AND NOT pn_mask) OR truncated_pn
      in if candidate_pn \<le> expected_pn - pn_hwin \<and> candidate_pn < push_bit 62 1 - pn_win
         then candidate_pn + pn_win
         else if candidate_pn > expected_pn + pn_hwin \<and> candidate_pn \<ge> pn_win
         then candidate_pn - pn_win
         else candidate_pn)"


section \<open>Packet numbers\<close>

lemma and_not_mask: "(x :: int) AND NOT (2 ^ n - 1) = x div 2 ^ n * 2 ^ n"
proof -
  have "x AND NOT (mask n) = push_bit n (drop_bit n x)"
    by (rule bit_eqI) (auto simp: bit_simps)
  then show ?thesis
    by (simp add: mask_eq_exp_minus_1 push_bit_eq_mult drop_bit_eq_div)
qed

lemma candidate_pn:
  fixes x t :: int
  assumes "0 \<le> t" "t < 2 ^ n"
  shows "(x AND NOT (2 ^ n - 1)) OR t = x div 2 ^ n * 2 ^ n + t"
  using or_add_shifted [OF assms, of "x div 2 ^ n"]
  by (simp add: and_not_mask or.commute [of _ t] add.commute)

lemma decode_packet_number_window:
  assumes nbits: "0 < nbits"
    and pn: "0 \<le> pn" "pn < 2 ^ 62"
    and window: "largest_pn + 1 - 2 ^ (nbits - 1) < pn" "pn \<le> largest_pn + 1 + 2 ^ (nbits - 1)"
  shows "decode_packet_number largest_pn (pn mod 2 ^ nbits) nbits = pn"
proof -
  define W :: int where "W = 2 ^ nbits"
  define h :: int where "h = 2 ^ (nbits - 1)"
  have W: "2 * h = W" and "0 < h"
    using nbits by (auto simp: W_def h_def simp flip: power_Suc)
  have h: "W div 2 = h" using W by linarith
  define e where "e = largest_pn + 1"
  define q where "q = e div W"
  define p where "p = pn div W"
  define t where "t = pn mod W"
  have "0 < W" using W \<open>0 < h\<close> by linarith
  then have t: "0 \<le> t" "t < W" "pn = p * W + t"
    by (auto simp: t_def p_def)
  have e: "q * W \<le> e" "e < q * W + W"
    using \<open>0 < W\<close> pos_mod_sign [of W e] pos_mod_bound [of W e]
    by (simp_all add: q_def minus_mod_eq_div_mult [symmetric])
  have c: "(e AND NOT (W - 1)) OR t = q * W + t"
    using candidate_pn [of t nbits e] t by (simp add: W_def q_def)
  have w: "e - h < pn" "pn \<le> e + h"
    using window by (simp_all add: e_def h_def)
  have dec: "decode_packet_number largest_pn t nbits =
     (if q * W + t \<le> e - h \<and> q * W + t < 2 ^ 62 - W then q * W + t + W
      else if q * W + t > e + h \<and> q * W + t \<ge> W then q * W + t - W else q * W + t)"
    using c h by (simp add: decode_packet_number_def Let_def push_bit_eq_mult e_def flip: W_def)
  have "p * W < (q + 2) * W" "(q - 2) * W < p * W"
    using t w e W by (auto simp: algebra_simps)
  then have "p < q + 2" "q - 2 < p"
    using \<open>0 < W\<close> by (simp_all add: mult_less_cancel_right)
  then consider "p = q + 1" | "p = q" | "p = q - 1" by linarith
  then have "decode_packet_number largest_pn t nbits = pn"
  proof cases
    case 1
    then have "pn = q * W + t + W" using t by (simp add: algebra_simps)
    with w W(1) pn show ?thesis unfolding dec by simp
  next
    case 2
    with t w show ?thesis unfolding dec by simp
  next
    case 3
    then have "q = p + 1" by simp
    then have "pn = q * W + t - W" using t by (simp add: algebra_simps)
    with w W(1) pn \<open>0 < h\<close> show ?thesis unfolding dec by simp
  qed
  then show ?thesis by (simp add: t_def W_def)
qed

lemma drop_to_be: "drop k (to_be (k + n) v) = to_be n v"
  by (induction n arbitrary: v) (simp_all add: to_be.simps)

lemma slice_from_to_be: "n \<le> m \<Longrightarrow> 0 < n \<Longrightarrow> slice_from (- int n) (to_be m v) = to_be n v"
  using drop_to_be [of "m - n" n v] by (simp add: slice_from_def nat_diff_distrib)

lemma less_bit_length_nat: "n < 2 ^ bit_length_nat n"
proof (induction n rule: bit_length_nat.induct)
  case (1 n)
  then show ?case
    by (cases "n = 0") (simp_all add: bit_length_nat.simps [of n])
qed

lemma bit_length_nat_le: "n < 2 ^ k \<Longrightarrow> bit_length_nat n \<le> k"
proof (induction n arbitrary: k rule: bit_length_nat.induct)
  case (1 n)
  then show ?case
    by (cases k) (auto simp: bit_length_nat.simps [of n] bit_length_nat.simps [of 0])
qed

text \<open>The encoding has one to four bytes, and half their range exceeds the unacknowledged span.\<close>

lemma encode_packet_number_width:
  assumes "0 \<le> full_pn" "full_pn < 2 ^ 62"
    and u: "u = (case largest_acked of None \<Rightarrow> full_pn + 1 | Some la \<Rightarrow> full_pn - la)"
    and "0 < u" "u < 2 ^ 31"
  obtains n where "encode_packet_number full_pn largest_acked = Inr (to_be n full_pn)"
    "1 \<le> n" "n \<le> 4" "u < 2 ^ (8 * n - 1)"
proof
  let ?bits = "bit_length_nat (nat u)"
  define n where "n = (?bits + 8) div 8"
  have bits: "?bits \<le> 31"
    using assms by (intro bit_length_nat_le) simp
  then show "1 \<le> n" "n \<le> 4" by (auto simp: n_def)
  have eq: "min 4 (max 1 ((bit_length u + 1 + 7) div 8)) = int n"
    using assms bits by (simp add: bit_length_def n_def zdiv_int)
  have "to_bytes 8 full_pn = Inr (to_be 8 full_pn)"
    using assms by (simp add: to_bytes_def)
  then show "encode_packet_number full_pn largest_acked = Inr (to_be n full_pn)"
    using \<open>1 \<le> n\<close> \<open>n \<le> 4\<close> eq u
    by (simp add: encode_packet_number_def Let_def slice_from_to_be)
  have "?bits \<le> 8 * n - 1"
    by (simp add: n_def)
  have "nat u < 2 ^ ?bits" by (rule less_bit_length_nat)
  also have "\<dots> \<le> 2 ^ (8 * n - 1)"
    using \<open>?bits \<le> 8 * n - 1\<close> by (intro power_increasing) auto
  finally show "u < 2 ^ (8 * n - 1)"
    using assms by (simp add: nat_less_iff)
qed

text \<open>
  C25: a packet number truncated by the sender is recovered by the receiver: whenever fewer
  than \<open>2 ^ 31\<close> packets separate it from the largest acknowledged one, the receiver has
  processed at least that one, and it is not more than 126 packets older than the largest
  the receiver has processed.
\<close>

theorem packet_number_roundtrip:
  fixes largest_acked :: "int option"
  defines "la \<equiv> case largest_acked of None \<Rightarrow> -1 | Some a \<Rightarrow> a"
  assumes "0 \<le> full_pn" "full_pn < 2 ^ 62" "la < full_pn" "full_pn - la < 2 ^ 31"
    and "la \<le> largest_pn" "largest_pn < full_pn + 127"
  shows "\<exists>bs. encode_packet_number full_pn largest_acked = Inr bs \<and> length bs \<in> {1..4}
    \<and> decode_packet_number largest_pn (from_be bs) (8 * length bs) = full_pn"
proof -
  have u: "full_pn - la = (case largest_acked of None \<Rightarrow> full_pn + 1 | Some la \<Rightarrow> full_pn - la)"
    by (cases largest_acked) (simp_all add: la_def)
  obtain n where n: "encode_packet_number full_pn largest_acked = Inr (to_be n full_pn)"
    "1 \<le> n" "n \<le> 4" "full_pn - la < 2 ^ (8 * n - 1)"
    by (rule encode_packet_number_width [OF assms(2,3) u]) (use assms(4,5) in auto)
  have "(2 :: int) ^ 7 \<le> 2 ^ (8 * n - 1)"
    using n by (intro power_increasing) auto
  then have "decode_packet_number largest_pn (full_pn mod 2 ^ (8 * n)) (8 * n) = full_pn"
    using n assms(2-7) by (intro decode_packet_number_window) auto
  moreover have "(256 :: int) ^ n = 2 ^ (8 * n)"
    by (simp add: power_mult)
  ultimately show ?thesis
    using n by (simp add: from_be_to_be)
qed

theorem packet_number_roundtrip_witness:
  "\<exists>bs. encode_packet_number 0xac5c02 (Some 0xabe8b3) = Inr bs \<and> length bs \<in> {1..4}
    \<and> decode_packet_number 0xac5c00 (from_be bs) (8 * length bs) = 0xac5c02"
  by (rule packet_number_roundtrip) simp_all


section \<open>Headers\<close>

lemma pull_cids_at [wire_simps]:
  assumes "length d < 256" "length s < 256"
  shows "pull_cids (buf_at pre (word_of_nat (length d) # d @ word_of_nat (length s) # s @ rest)) =
    (Inr (d, s), buf_at (pre @ word_of_nat (length d) # d @ word_of_nat (length s) # s) rest)"
  using assms by (simp add: pull_cids_def wire_simps)

lemma pull_cids_at_Inr:
  "pull_cids (buf_at pre rest) = (Inr (d, s), b') \<Longrightarrow>
     (\<exists>n m rest'. rest = n # d @ m # s @ rest' \<and> uint n = len d \<and> uint m = len s
       \<and> b' = buf_at (pre @ n # d @ m # s) rest')"
  by (auto simp: pull_cids_def bindS_Inr_iff pull_uint8_at_Inr_iff pull_bytes_at_Inr_iff)

definition template_ok :: "long_header_template \<Rightarrow> bool" where
  "template_ok t \<longleftrightarrow>
     lt_packet_type t \<noteq> RETRY \<and> lt_version t = QUIC_V1
     \<and> length (lt_destination_cid t) \<le> 20 \<and> length (lt_source_cid t) \<le> 20
     \<and> varint_ok (len (lt_token t)) \<and> (lt_packet_type t \<noteq> INITIAL \<longrightarrow> lt_token t = [])"

text \<open>The first byte: form, fixed bit, type and packet number length, each readable back.\<close>

lemma first_byte:
  fixes ty :: packet_type
  assumes "pnl \<in> {1, 2, 3, 4 :: int}"
  defines "first \<equiv> (0x80 OR 0x40 OR push_bit 4 (packet_type_value ty)) OR (pnl - 1)"
  shows "byte1 first = Inr [word_of_int first]"
    and "uint (word_of_int first :: byte) AND 0x80 \<noteq> 0"
    and "uint (word_of_int first :: byte) AND 0x40 \<noteq> 0"
    and "PacketType (drop_bit 4 (uint (word_of_int first :: byte) AND 0x30)) = Inr ty"
    and "uint (word_of_int first :: byte) AND 3 = pnl - 1"
  using assms by (cases ty; auto simp: byte1_def PacketType_def)+

text \<open>
  C24: a long header built from a template parses back to the template's fields, with the
  Length field covering packet number and payload; the Packet Number field starts at
  \<open>pn_offset\<close> and holds the truncated number, whose length the first byte announces.
\<close>

theorem long_header_roundtrip:
  assumes t: "template_ok t" and pnl: "pnl \<in> {1, 2, 3, 4}"
    and pn: "0 \<le> pn" "pn < 2 ^ 62" and len: "0 \<le> pl" "pnl + pl \<le> VARINT_MAX"
  shows "\<exists>hdr n. build_long_header t pl pn pnl = Inr hdr \<and> length hdr = n + nat pnl
    \<and> drop n hdr = to_be (nat pnl) pn \<and> uint (hd hdr) AND 3 = pnl - 1
    \<and> (\<forall>payload. parse_long_header (hdr @ payload) =
         Inr \<lparr>lh_packet_type = lt_packet_type t, lh_version = lt_version t,
           lh_destination_cid = lt_destination_cid t, lh_source_cid = lt_source_cid t,
           lh_token = lt_token t, lh_length = pnl + pl, lh_pn_offset = n\<rparr>)"
proof -
  obtain ty v d s tok where tt: "t = \<lparr>lt_packet_type = ty, lt_version = v, lt_destination_cid = d,
      lt_source_cid = s, lt_token = tok\<rparr>"
    by (cases t) auto
  define first where "first = (0x80 OR 0x40 OR push_bit 4 (packet_type_value ty)) OR (pnl - 1)"
  note fb = first_byte [OF pnl, of ty, folded first_def]
  define tokb where "tokb = (if ty = INITIAL then varint (len tok) @ tok else [])"
  define pre where "pre = word_of_int first # to_be 4 v @ word_of_nat (length d) # d @ word_of_nat (length s) # s
    @ tokb @ varint (pnl + pl)"
  have ok: "varint_ok (pnl + pl)" "varint_ok (len tok)" "length d \<le> 20" "length s \<le> 20" "v = 1"
    "ty \<noteq> RETRY" "ty \<noteq> INITIAL \<Longrightarrow> tok = []"
    using t pnl len by (auto simp: tt template_ok_def varint_ok_def)
  have sl: "slice_from (- pnl) (to_be 8 pn) = to_be (nat pnl) pn"
    using slice_from_to_be [of "nat pnl" 8 pn] pnl by auto
  have build: "build_long_header t pl pn pnl = Inr (pre @ to_be (nat pnl) pn)"
    using ok fb(1) sl pn
    unfolding build_long_header_def Let_def tt long_header_template.select_convs first_def [symmetric]
    by (cases "ty = INITIAL") (auto simp: pre_def tokb_def byte1_len to_bytes_def)
  have parse: "parse_long_header (pre @ rest) = Inr \<lparr>lh_packet_type = ty, lh_version = v,
      lh_destination_cid = d, lh_source_cid = s, lh_token = tok, lh_length = pnl + pl,
      lh_pn_offset = length pre\<rparr>" for rest
    using ok fb(2-4)
    by (auto simp: parse_long_header_def pull_long_header_def mk_buffer_at pre_def tokb_def
        wire_simps)
  have "hd (pre @ to_be (nat pnl) pn) = word_of_int first"
    by (simp add: pre_def)
  with build parse fb(5) show ?thesis
    by (intro exI [of _ "pre @ to_be (nat pnl) pn"] exI [of _ "length pre"]) (simp add: tt)
qed

theorem long_header_roundtrip_witness:
  "let t = \<lparr>lt_packet_type = INITIAL, lt_version = 1, lt_destination_cid = [1, 2, 3, 4, 5, 6, 7, 8],
       lt_source_cid = [9], lt_token = [7, 7]\<rparr>
   in \<exists>hdr n. build_long_header t 1182 2 4 = Inr hdr \<and> length hdr = n + 4
    \<and> (\<forall>payload. parse_long_header (hdr @ payload) =
         Inr \<lparr>lh_packet_type = INITIAL, lh_version = 1,
           lh_destination_cid = [1, 2, 3, 4, 5, 6, 7, 8], lh_source_cid = [9],
           lh_token = [7, 7], lh_length = 1186, lh_pn_offset = n\<rparr>)"
  using long_header_roundtrip [of "\<lparr>lt_packet_type = INITIAL, lt_version = 1,
      lt_destination_cid = [1, 2, 3, 4, 5, 6, 7, 8], lt_source_cid = [9], lt_token = [7, 7]\<rparr>" 4 2 1182]
  by (auto simp: template_ok_def varint_ok_def VARINT_MAX_def Let_def)


section \<open>Routing and errors\<close>

lemma pull_long_header_fields:
  assumes "pull_long_header (buf_at [] data) = (Inr h, b)"
  obtains x v n m rest where
    "data = x # v @ n # lh_destination_cid h @ m # lh_source_cid h @ rest" "length v = 4"
    "uint x AND 0x80 \<noteq> 0" "uint n = len (lh_destination_cid h)"
    "length (lh_destination_cid h) \<le> 20" "length (lh_source_cid h) \<le> 20"
    "lh_version h = 1" "lh_packet_type h \<noteq> RETRY"
  using assms
  by (auto simp: pull_long_header_def bindS_Inr_iff pull_uint8_at_Inr_iff pull_uint32_at_Inr_iff
      split: if_splits dest!: pull_cids_at_Inr)

lemma destination_connection_id_long:
  assumes "data = x # v @ n # d @ rest" "length v = 4" "uint x AND 0x80 \<noteq> 0"
    "uint n = len d" "length d \<le> 20"
  shows "destination_connection_id data k = Some d"
  using assms by (simp add: destination_connection_id_def nth_append Let_def)

text \<open>
  The connection ID a datagram is routed by is the one its header parses to, for long
  headers and, with the endpoint's own connection ID length, for short headers.
\<close>

lemma destination_connection_id_agrees:
  "(\<forall>h. parse_long_header data = Inr h \<longrightarrow>
      destination_connection_id data k = Some (lh_destination_cid h))
   \<and> (\<forall>h. parse_short_header data k = Inr h \<longrightarrow>
      destination_connection_id data k = Some (sh_destination_cid h))"
proof (intro conjI allI impI)
  fix h
  assume "parse_long_header data = Inr h"
  then obtain b where "pull_long_header (buf_at [] data) = (Inr h, b)"
    by (cases "pull_long_header (buf_at [] data)") (auto simp: parse_long_header_def mk_buffer_at)
  then show "destination_connection_id data k = Some (lh_destination_cid h)"
    by (rule pull_long_header_fields) (rule destination_connection_id_long)
next
  fix h
  assume "parse_short_header data k = Inr h"
  then show "destination_connection_id data k = Some (sh_destination_cid h)"
    by (auto simp: parse_short_header_def fst_def mk_buffer_at bindS_Inr_iff pull_uint8_at_Inr_iff
        pull_bytes_at_Inr_iff destination_connection_id_def split: if_splits prod.splits)
qed

lemma destination_connection_id_agrees_witness:
  "destination_connection_id [0x40, 1, 2, 3] 2 = Some [1, 2]
   \<and> destination_connection_id [0xE0, 0, 0, 0, 1, 1, 9, 0, 0] 2 = Some [9]"
proof
  have "parse_short_header [0x40, 1, 2, 3] 2 = Inr \<lparr>sh_destination_cid = [1, 2], sh_pn_offset = 3\<rparr>"
    by code_simp
  with destination_connection_id_agrees [of "[0x40, 1, 2, 3]" 2]
  show "destination_connection_id [0x40, 1, 2, 3] 2 = Some [1, 2]" by simp
  have "parse_long_header [0xE0, 0, 0, 0, 1, 1, 9, 0, 0] = Inr \<lparr>lh_packet_type = HANDSHAKE,
    lh_version = 1, lh_destination_cid = [9], lh_source_cid = [], lh_token = [], lh_length = 0,
    lh_pn_offset = 9\<rparr>"
    by code_simp
  with destination_connection_id_agrees [of "[0xE0, 0, 0, 0, 1, 1, 9, 0, 0]" 2]
  show "destination_connection_id [0xE0, 0, 0, 0, 1, 1, 9, 0, 0] 2 = Some [9]" by simp
qed

lemma reader_case_prod:
  "(\<And>a b. x = (a, b) \<Longrightarrow> reader E P (f a b)) \<Longrightarrow> reader E P (case x of (a, b) \<Rightarrow> f a b)"
  by (cases x) simp

lemma reader_pull_cids [wire_errors]:
  "BufferReadError \<in> E \<Longrightarrow> reader E (\<lambda>(d, s). length d < 256 \<and> length s < 256) pull_cids"
  unfolding pull_cids_def by (rule reader_bindS wire_errors | simp)+

definition header_errors :: "exn set" where
  "header_errors = {HeaderParseError, BufferReadError} \<union> UnsupportedVersion ` {v. v \<noteq> 0 \<and> v \<noteq> 1}"

definition header_ok :: "long_header \<Rightarrow> bool" where
  "header_ok h \<longleftrightarrow>
     lh_packet_type h \<noteq> RETRY \<and> lh_version h = QUIC_V1 \<and> varint_ok (lh_length h)
     \<and> length (lh_destination_cid h) \<le> 20 \<and> length (lh_source_cid h) \<le> 20
     \<and> (lh_packet_type h \<noteq> INITIAL \<longrightarrow> lh_token h = [])"

lemma PacketType_bits:
  assumes "0 \<le> (first :: int)"
  shows "\<exists>ty. PacketType (drop_bit 4 (first AND 0x30)) = Inr ty"
proof -
  have "drop_bit 4 (first AND 0x30) = drop_bit 4 first AND 3"
    by (simp add: drop_bit_and)
  also have "\<dots> = drop_bit 4 first mod 4"
    using and_low_mask [of _ 2] by simp
  finally have "drop_bit 4 (first AND 0x30) \<in> {0, 1, 2, 3}"
    using pos_mod_sign [of 4 "drop_bit 4 first"] pos_mod_bound [of 4 "drop_bit 4 first"] by auto
  then show ?thesis by (auto simp: PacketType_def)
qed

lemma reader_token:
  "BufferReadError \<in> E \<Longrightarrow>
   reader E (\<lambda>tok. \<not> c \<longrightarrow> tok = []) (if c then bindS pull_varint pull_bytes else retS [])"
  by (rule reader_if reader_bindS reader_weaken [OF reader_pull_bytes] wire_errors
      | simp add: varint_ok_nonneg)+

lemma reader_PacketType:
  "0 \<le> first \<Longrightarrow> reader E (\<lambda>_. True) (liftS (PacketType (drop_bit 4 (first AND 0x30))))"
  using PacketType_bits [of first] by (auto simp: reader_def)

lemma header_errors_simps [simp]:
  "HeaderParseError \<in> header_errors" "BufferReadError \<in> header_errors"
  "UnsupportedVersion v \<in> header_errors \<longleftrightarrow> v \<noteq> 0 \<and> v \<noteq> 1"
  by (auto simp: header_errors_def)

lemma reader_pull_long_header: "reader header_errors header_ok pull_long_header"
  unfolding pull_long_header_def
  by (rule reader_PacketType reader_token reader_bindS reader_if reader_case_prod wire_errors
      | simp add: header_ok_def split del: if_split)+

text \<open>
  Reading a long header is total: it raises \<open>HeaderParseError\<close>, \<open>BufferReadError\<close> or
  \<open>UnsupportedVersion\<close> of a version that is neither 0 nor 1, or it gives a version 1 header
  that is not a Retry, with connection IDs of at most 20 bytes and a token only on Initial.
\<close>

lemma parse_long_header_total:
  "case parse_long_header data of
     Inl e \<Rightarrow> e \<in> {HeaderParseError, BufferReadError}
       \<or> (\<exists>v. e = UnsupportedVersion v \<and> v \<notin> {0, 1})
   | Inr h \<Rightarrow> header_ok h"
proof -
  obtain r b where r: "pull_long_header (mk_buffer data) = (r, b)" by (cases "pull_long_header (mk_buffer data)")
  from readerD [OF reader_pull_long_header buf_wf_mk r] r show ?thesis
    by (auto simp: parse_long_header_def header_errors_def split: sum.splits)
qed


section \<open>Version Negotiation\<close>

lemma build_version_negotiation_bytes:
  assumes "length d \<le> 20" "length s \<le> 20"
  obtains x where "build_version_negotiation rnd d s =
      Inr (x # to_be 4 0 @ word_of_nat (length d) # d @ word_of_nat (length s) # s @ to_be 4 1)"
    "uint x AND 0x80 \<noteq> 0"
proof
  let ?first = "uint rnd OR 0x80"
  have first: "take_bit 8 ?first = ?first"
    by (simp add: take_bit_or) (simp add: take_bit_eq_mod)
  then have "0 \<le> ?first \<and> ?first < 256"
    using take_bit_int_less_exp [of 8 ?first] by simp
  with assms show "build_version_negotiation rnd d s =
      Inr (word_of_int ?first # to_be 4 0 @ word_of_nat (length d) # d @ word_of_nat (length s) # s @ to_be 4 1)"
    by (simp add: build_version_negotiation_def Let_def byte1_len to_bytes_def byte1_def)
  have "?first AND 0x80 = 0x80"
    by (rule bit_eqI) (auto simp: bit_and_iff bit_or_iff)
  with first show "uint (word_of_int ?first :: byte) AND 0x80 \<noteq> 0"
    by (simp add: unsigned_of_int)
qed

lemma parse_version_negotiation_at:
  assumes "length d \<le> 20" "length s \<le> 20" "length v = 4"
  shows "parse_version_negotiation
      (x # v @ word_of_nat (length d) # d @ word_of_nat (length s) # s @ to_be 4 1) =
    Inr \<lparr>vn_destination_cid = d, vn_source_cid = s, vn_versions = [1]\<rparr>"
proof -
  have "pull_all pull_uint32 (buf_at pre (concat [to_be 4 1])) = (Inr [1], buf_at (pre @ concat [to_be 4 1]) [])" for pre
    by (rule uint32_codec.pull_all_enc) (simp_all add: to_bytes_def)
  then show ?thesis
    using assms by (simp add: parse_version_negotiation_def mk_buffer_at wire_simps)
qed

text \<open>Only the check of the version itself raises \<open>UnsupportedVersion\<close>.\<close>

lemma pulls_no_version:
  "pull_uint8 b \<noteq> (Inl (UnsupportedVersion w), b')" "pull_uint32 b \<noteq> (Inl (UnsupportedVersion w), b')"
  "pull_cids b \<noteq> (Inl (UnsupportedVersion w), b')" "pull_varint b \<noteq> (Inl (UnsupportedVersion w), b')"
  "pull_bytes n b \<noteq> (Inl (UnsupportedVersion w), b')" "PacketType z \<noteq> Inl (UnsupportedVersion w)"
  by (auto simp: pull_cids_def pull_varint_def pull_uint8_def pull_uint32_def pull_bytes_def
      bindS_Inl_iff Let_def PacketType_def split: if_splits)

lemma unsupported_version_fields:
  assumes "pull_long_header (buf_at [] data) = (Inl (UnsupportedVersion w), b)"
  shows "\<exists>x v d s b'. data = x # v @ drop 5 data \<and> length v = 4 \<and> uint x AND 0x80 \<noteq> 0 \<and> w = from_be v
    \<and> w \<noteq> 0 \<and> w \<noteq> 1 \<and> pull_cids (buf_at (x # v) (drop 5 data)) = (Inr (d, s), b')
    \<and> length d \<le> 20 \<and> length s \<le> 20"
proof -
  from assms obtain x rest where x: "data = x # rest" "uint x AND 0x80 \<noteq> 0"
    by (auto simp: pull_long_header_def bindS_Inl_iff [of pull_uint8] pulls_no_version
        pull_uint8_at_Inr_iff split: if_splits)
  with assms obtain v rest' where v: "rest = v @ rest'" "length v = 4"
    by (auto simp: pull_long_header_def pull_uint8_at bindS_Inl_iff [of pull_uint32] pulls_no_version
        pull_uint32_at_Inr_iff split: if_splits)
  have pull_v: "pull_uint32 (buf_at [x] (v @ rest')) = (Inr (from_be v), buf_at (x # v) rest')"
    using v by (auto simp: pull_uint32_at_Inr_iff)
  obtain d s b' where c: "pull_cids (buf_at (x # v) rest') = (Inr (d, s), b')"
    using assms x v pull_v
    by (auto simp: pull_long_header_def pull_uint8_at bindS_Inl_iff [of pull_cids] pulls_no_version
        split: if_splits)
  then have "length d \<le> 20 \<and> length s \<le> 20 \<and> w = from_be v \<and> w \<noteq> 0 \<and> w \<noteq> 1"
    using assms x v pull_v
    by (auto simp: pull_long_header_def pull_uint8_at bindS_Inl_iff [of "liftS p" for p]
        bindS_Inl_iff [of pull_varint] bindS_Inl_iff [of "if p then q else r" for p q r]
        bindS_Inl_iff [of "getS p" for p] pulls_no_version
        split: if_splits)
  with x v c show ?thesis by auto
qed

lemma pull_cids_anywhere:
  "pull_cids (buf_at pre rest) = (Inr (d, s), b) \<Longrightarrow> fst (pull_cids (buf_at pre' rest)) = Inr (d, s)"
  by (drule pull_cids_at_Inr) (auto simp: pull_cids_def wire_simps)

lemma version_negotiation_response_Some:
  assumes "version_negotiation_response rnd d = Inr (Some p)"
  shows "length p \<le> 51 \<and> 1200 \<le> length d \<and> is_version_negotiation p
    \<and> (\<exists>vn. parse_version_negotiation p = Inr vn \<and> vn_versions vn = [1]
         \<and> destination_connection_id d k = Some (vn_source_cid vn))"
proof -
  from assms obtain pd ps b where d: "1200 \<le> length d" "uint (d ! 0) AND 0x80 \<noteq> 0"
      and cids: "pull_cids (buf_at [] (drop 5 d)) = (Inr (pd, ps), b)"
      and len: "length pd \<le> 20" "length ps \<le> 20"
      and p: "build_version_negotiation rnd ps pd = Inr p"
    by (auto simp: version_negotiation_response_def Let_def bindE_Inr_iff mk_buffer_at fst_def
        split: if_splits sum.splits prod.splits)
  from p len obtain x where px: "p = x # to_be 4 0 @ word_of_nat (length ps) # ps @ word_of_nat (length pd) # pd @ to_be 4 1"
      and x: "uint x AND 0x80 \<noteq> 0"
    by (metis build_version_negotiation_bytes sum.inject(2))
  have vn: "is_version_negotiation p"
    using px x by (simp add: is_version_negotiation_def)
  obtain n rest where rest: "drop 5 d = n # pd @ rest" "uint n = len pd"
    using pull_cids_at_Inr [OF cids] by auto
  have "d ! 0 = hd d" "d = hd d # take 4 (tl d) @ drop 5 d"
    using d(1) by (cases d, simp_all)+
  then have "destination_connection_id d k = Some pd"
    using d rest len by (intro destination_connection_id_long [of d "hd d" "take 4 (tl d)" n pd rest])
      auto
  then show ?thesis
    using px vn d len parse_version_negotiation_at [of ps pd "to_be 4 0" x] by simp
qed

lemma version_negotiation_response_total:
  "\<exists>r. version_negotiation_response rnd d = Inr r"
proof -
  obtain r b where r: "pull_cids (mk_buffer (drop 5 d)) = (r, b)" by (cases "pull_cids (mk_buffer (drop 5 d))")
  have "case r of Inl e \<Rightarrow> e = BufferReadError | Inr _ \<Rightarrow> True"
    using readerD [OF reader_pull_cids [of "{BufferReadError}"] buf_wf_mk r] by (auto split: sum.splits)
  moreover have "\<exists>x. build_version_negotiation rnd s d = Inr x" if "length d \<le> 20" "length s \<le> 20" for d s
    using that by (metis build_version_negotiation_bytes)
  ultimately show ?thesis
    unfolding version_negotiation_response_def Let_def r
    by (auto split: sum.splits prod.splits simp: bindE_Inr_iff not_less)
qed

lemma pull_cids_iff:
  "(\<exists>b. pull_cids (buf_at pre bs) = (Inr (dcid, scid), b))
    \<longleftrightarrow> (\<exists>n m rest. bs = n # dcid @ m # scid @ rest \<and> uint n = len dcid \<and> uint m = len scid)"
proof
  assume "\<exists>b. pull_cids (buf_at pre bs) = (Inr (dcid, scid), b)"
  then show "\<exists>n m rest. bs = n # dcid @ m # scid @ rest \<and> uint n = len dcid \<and> uint m = len scid"
    using pull_cids_at_Inr by blast
qed (auto simp: pull_cids_def wire_simps)

lemma answered_iff:
  assumes "version_negotiation_response rnd d = Inr r"
  shows "r \<noteq> None \<longleftrightarrow> 1200 \<le> length d \<and> uint (d ! 0) AND 0x80 \<noteq> 0 \<and> from_be (take 4 (drop 1 d)) \<notin> {0, 1}
    \<and> (\<exists>n dcid m scid rest. drop 5 d = n # dcid @ m # scid @ rest \<and> uint n = len dcid \<and> uint m = len scid
         \<and> length dcid \<le> 20 \<and> length scid \<le> 20)"
proof -
  obtain q b where q: "pull_cids (buf_at [] (drop 5 d)) = (q, b)" by fastforce
  have "(\<exists>n dcid m scid rest. drop 5 d = n # dcid @ m # scid @ rest \<and> uint n = len dcid \<and> uint m = len scid
      \<and> length dcid \<le> 20 \<and> length scid \<le> 20)
    \<longleftrightarrow> (\<exists>dcid scid. q = Inr (dcid, scid) \<and> length dcid \<le> 20 \<and> length scid \<le> 20)"
    using pull_cids_iff [of "[]" "drop 5 d"] q by (metis prod.inject)
  then show ?thesis
    using assms q by (auto simp: version_negotiation_response_def Let_def mk_buffer_at bindE_Inr_iff split: if_splits sum.splits)
qed

text \<open>
  C32: answering a datagram with Version Negotiation never raises, and is safe against
  amplification and loops: an answer has at most 51 bytes and goes only to datagrams of at
  least 1200; it is itself never answered; it lists version 1 and returns the datagram's
  destination connection ID as its source. The datagrams answered are exactly those of at least
  1200 bytes with a long header, a version that is neither 0 nor 1, and two complete connection
  IDs of at most 20 bytes; among them are all those of that size for which parsing the header
  raises \<open>UnsupportedVersion\<close>.
\<close>

theorem version_negotiation_safe:
  "\<exists>r. version_negotiation_response rnd d = Inr r
    \<and> (\<forall>p. r = Some p \<longrightarrow>
         length p \<le> 51 \<and> 1200 \<le> length d \<and> is_version_negotiation p
         \<and> version_negotiation_response rnd' p = Inr None
         \<and> (\<exists>vn. parse_version_negotiation p = Inr vn \<and> vn_versions vn = SUPPORTED_VERSIONS
              \<and> destination_connection_id d k = Some (vn_source_cid vn)))
    \<and> (r \<noteq> None \<longleftrightarrow> 1200 \<le> length d \<and> uint (d ! 0) AND 0x80 \<noteq> 0 \<and> from_be (take 4 (drop 1 d)) \<notin> {0, 1}
         \<and> (\<exists>n dcid m scid rest. drop 5 d = n # dcid @ m # scid @ rest \<and> uint n = len dcid \<and> uint m = len scid
              \<and> length dcid \<le> 20 \<and> length scid \<le> 20))
    \<and> (1200 \<le> length d \<and> (\<exists>v. parse_long_header d = Inl (UnsupportedVersion v)) \<longrightarrow> r \<noteq> None)"
proof -
  obtain r where r: "version_negotiation_response rnd d = Inr r"
    using version_negotiation_response_total by blast
  moreover have "version_negotiation_response rnd' p = Inr None" if "length p \<le> 51" for p
    using that by (simp add: version_negotiation_response_def)
  moreover have "r \<noteq> None" if "1200 \<le> length d" "parse_long_header d = Inl (UnsupportedVersion v)" for v
  proof -
    from that obtain b where "pull_long_header (buf_at [] d) = (Inl (UnsupportedVersion v), b)"
      by (cases "pull_long_header (buf_at [] d)") (auto simp: parse_long_header_def mk_buffer_at)
    from unsupported_version_fields [OF this] obtain x w pd ps b' where
      f: "d = x # w @ drop 5 d" "length w = 4" "uint x AND 0x80 \<noteq> 0" "v = from_be w" "v \<noteq> 0" "v \<noteq> 1"
        "pull_cids (buf_at (x # w) (drop 5 d)) = (Inr (pd, ps), b')" "length pd \<le> 20" "length ps \<le> 20"
      by blast
    have "take 4 (drop 1 d) = w" "d ! 0 = x"
      using f(2) by (subst f(1), simp)+
    with f r that pull_cids_anywhere [OF f(7), of "[]"] show "r \<noteq> None"
      by (auto simp: version_negotiation_response_def Let_def mk_buffer_at bindE_Inr_iff
          split: if_splits)
  qed
  ultimately show ?thesis
    using version_negotiation_response_Some [of rnd d _ k] answered_iff [OF r] by auto
qed

theorem version_negotiation_safe_witness:
  "\<exists>p. version_negotiation_response 0x17 ([0xC0, 0, 0, 0, 2, 1, 7, 1, 8] @ replicate 1200 0) = Inr (Some p)
    \<and> length p \<le> 51 \<and> is_version_negotiation p"
proof -
  let ?d = "[0xC0, 0, 0, 0, 2, 1, 7, 1, 8] @ replicate 1200 0"
  have "pull_uint32 (buf_at [0xC0] ([0, 0, 0, 2] @ r)) = (Inr 2, buf_at [0xC0, 0, 0, 0, 2] r)" for r
    by (simp add: pull_uint32_def pull_bytes_at [of 4 "[0, 0, 0, 2]", simplified] from_be_def)
  then have "parse_long_header ?d = Inl (UnsupportedVersion 2)"
    by (simp add: parse_long_header_def pull_long_header_def mk_buffer_at pull_uint8_at pull_cids_def
        pull_bytes_at [of 1 "[7]", simplified] pull_bytes_at [of 1 "[8]", simplified])
  with version_negotiation_safe [where rnd = "0x17" and d = "?d" and rnd' = 0 and k = 8] show ?thesis by auto
qed

end
