(* ===== verification/Transport_Parameters.thy ===== *)
theory Transport_Parameters
  imports Buffer
begin

text \<open>
  \<open>src/dsquic/transport_parameters.py\<close>: the negotiated configuration, a sequence of
  id/length/value triples (RFC 9000, section 18).

  The lemmas show that what one endpoint encodes the other decodes, that decoding
  arbitrary bytes raises only \<open>BufferReadError\<close>, and that unknown parameters are ignored
  wherever they stand.
\<close>

section \<open>Model\<close>

abbreviation (input) ORIGINAL_DESTINATION_CONNECTION_ID :: int where
  "ORIGINAL_DESTINATION_CONNECTION_ID \<equiv> 0x00"
abbreviation (input) MAX_IDLE_TIMEOUT :: int where "MAX_IDLE_TIMEOUT \<equiv> 0x01"
abbreviation (input) MAX_UDP_PAYLOAD_SIZE :: int where "MAX_UDP_PAYLOAD_SIZE \<equiv> 0x03"
abbreviation (input) INITIAL_MAX_DATA :: int where "INITIAL_MAX_DATA \<equiv> 0x04"
abbreviation (input) INITIAL_MAX_STREAM_DATA_BIDI_LOCAL :: int where
  "INITIAL_MAX_STREAM_DATA_BIDI_LOCAL \<equiv> 0x05"
abbreviation (input) INITIAL_MAX_STREAM_DATA_BIDI_REMOTE :: int where
  "INITIAL_MAX_STREAM_DATA_BIDI_REMOTE \<equiv> 0x06"
abbreviation (input) INITIAL_MAX_STREAM_DATA_UNI :: int where "INITIAL_MAX_STREAM_DATA_UNI \<equiv> 0x07"
abbreviation (input) INITIAL_MAX_STREAMS_BIDI :: int where "INITIAL_MAX_STREAMS_BIDI \<equiv> 0x08"
abbreviation (input) INITIAL_MAX_STREAMS_UNI :: int where "INITIAL_MAX_STREAMS_UNI \<equiv> 0x09"
abbreviation (input) ACK_DELAY_EXPONENT :: int where "ACK_DELAY_EXPONENT \<equiv> 0x0A"
abbreviation (input) MAX_ACK_DELAY :: int where "MAX_ACK_DELAY \<equiv> 0x0B"
abbreviation (input) ACTIVE_CONNECTION_ID_LIMIT :: int where "ACTIVE_CONNECTION_ID_LIMIT \<equiv> 0x0E"
abbreviation (input) INITIAL_SOURCE_CONNECTION_ID :: int where "INITIAL_SOURCE_CONNECTION_ID \<equiv> 0x0F"
abbreviation (input) RETRY_SOURCE_CONNECTION_ID :: int where "RETRY_SOURCE_CONNECTION_ID \<equiv> 0x10"
abbreviation (input) MAX_DATAGRAM_FRAME_SIZE :: int where "MAX_DATAGRAM_FRAME_SIZE \<equiv> 0x20"
abbreviation (input) DEFAULT_ACK_DELAY_EXPONENT :: int where "DEFAULT_ACK_DELAY_EXPONENT \<equiv> 3"
abbreviation (input) DEFAULT_MAX_ACK_DELAY_MS :: int where "DEFAULT_MAX_ACK_DELAY_MS \<equiv> 25"

record transport_parameters =
  original_destination_connection_id :: "bytes option"
  retry_source_connection_id :: "bytes option"
  initial_source_connection_id :: "bytes option"
  max_idle_timeout_ms :: int
  max_udp_payload_size :: int
  initial_max_data :: int
  initial_max_stream_data_bidi_local :: int
  initial_max_stream_data_bidi_remote :: int
  initial_max_stream_data_uni :: int
  initial_max_streams_bidi :: int
  initial_max_streams_uni :: int
  ack_delay_exponent :: int
  max_ack_delay_ms :: int
  active_connection_id_limit :: int
  max_datagram_frame_size :: "int option"

definition default_transport_parameters :: transport_parameters where
  "default_transport_parameters =
     \<lparr>original_destination_connection_id = None, retry_source_connection_id = None,
      initial_source_connection_id = None, max_idle_timeout_ms = 0,
      max_udp_payload_size = 65527, initial_max_data = 0,
      initial_max_stream_data_bidi_local = 0, initial_max_stream_data_bidi_remote = 0,
      initial_max_stream_data_uni = 0, initial_max_streams_bidi = 0, initial_max_streams_uni = 0,
      ack_delay_exponent = DEFAULT_ACK_DELAY_EXPONENT, max_ack_delay_ms = DEFAULT_MAX_ACK_DELAY_MS,
      active_connection_id_limit = 2, max_datagram_frame_size = None\<rparr>"

fun put :: "int \<times> bytes \<Rightarrow> bytes result" where
  "put (parameter_id, value) =
     catE [encode_varint parameter_id, encode_varint (len value), Inr value]"

definition put_int :: "int \<Rightarrow> int \<Rightarrow> bytes result" where
  "put_int parameter_id value = bindE (encode_varint value) (\<lambda>bs. put (parameter_id, bs))"

definition encode_transport_parameters :: "transport_parameters \<Rightarrow> bytes result" where
  "encode_transport_parameters p =
     catE
       ((case original_destination_connection_id p of None \<Rightarrow> []
         | Some cid \<Rightarrow> [put (ORIGINAL_DESTINATION_CONNECTION_ID, cid)])
        @ (case retry_source_connection_id p of None \<Rightarrow> []
           | Some cid \<Rightarrow> [put (RETRY_SOURCE_CONNECTION_ID, cid)])
        @ (case initial_source_connection_id p of None \<Rightarrow> []
           | Some cid \<Rightarrow> [put (INITIAL_SOURCE_CONNECTION_ID, cid)])
        @ [put_int MAX_IDLE_TIMEOUT (max_idle_timeout_ms p),
           put_int MAX_UDP_PAYLOAD_SIZE (max_udp_payload_size p),
           put_int INITIAL_MAX_DATA (initial_max_data p),
           put_int INITIAL_MAX_STREAM_DATA_BIDI_LOCAL (initial_max_stream_data_bidi_local p),
           put_int INITIAL_MAX_STREAM_DATA_BIDI_REMOTE (initial_max_stream_data_bidi_remote p),
           put_int INITIAL_MAX_STREAM_DATA_UNI (initial_max_stream_data_uni p),
           put_int INITIAL_MAX_STREAMS_BIDI (initial_max_streams_bidi p),
           put_int INITIAL_MAX_STREAMS_UNI (initial_max_streams_uni p),
           put_int ACK_DELAY_EXPONENT (ack_delay_exponent p),
           put_int MAX_ACK_DELAY (max_ack_delay_ms p),
           put_int ACTIVE_CONNECTION_ID_LIMIT (active_connection_id_limit p)]
        @ (case max_datagram_frame_size p of None \<Rightarrow> []
           | Some n \<Rightarrow> [put_int MAX_DATAGRAM_FRAME_SIZE n]))"

definition pull_parameter :: "(buffer, int \<times> bytes) se" where
  "pull_parameter =
     bindS pull_varint (\<lambda>parameter_id. bindS (bindS pull_varint pull_bytes) (\<lambda>value.
       retS (parameter_id, value)))"

definition as_int :: "(int \<Rightarrow> bytes option) \<Rightarrow> int \<Rightarrow> int \<Rightarrow> int result" where
  "as_int values parameter_id dflt =
     (case values parameter_id of
        Some raw \<Rightarrow> if raw \<noteq> [] then fst (pull_varint (mk_buffer raw)) else Inr dflt
      | None \<Rightarrow> Inr dflt)"

definition parameters_of :: "(int \<Rightarrow> bytes option) \<Rightarrow> transport_parameters result" where
  "parameters_of values =
     bindE (as_int values MAX_IDLE_TIMEOUT 0) (\<lambda>idle.
     bindE (as_int values MAX_UDP_PAYLOAD_SIZE 65527) (\<lambda>udp.
     bindE (as_int values INITIAL_MAX_DATA 0) (\<lambda>data.
     bindE (as_int values INITIAL_MAX_STREAM_DATA_BIDI_LOCAL 0) (\<lambda>bidi_local.
     bindE (as_int values INITIAL_MAX_STREAM_DATA_BIDI_REMOTE 0) (\<lambda>bidi_remote.
     bindE (as_int values INITIAL_MAX_STREAM_DATA_UNI 0) (\<lambda>uni.
     bindE (as_int values INITIAL_MAX_STREAMS_BIDI 0) (\<lambda>streams_bidi.
     bindE (as_int values INITIAL_MAX_STREAMS_UNI 0) (\<lambda>streams_uni.
     bindE (as_int values ACK_DELAY_EXPONENT DEFAULT_ACK_DELAY_EXPONENT) (\<lambda>exponent.
     bindE (as_int values MAX_ACK_DELAY DEFAULT_MAX_ACK_DELAY_MS) (\<lambda>ack_delay.
     bindE (as_int values ACTIVE_CONNECTION_ID_LIMIT 2) (\<lambda>cid_limit.
     bindE (case values MAX_DATAGRAM_FRAME_SIZE of
              Some raw \<Rightarrow> if raw \<noteq> [] then bindE (fst (pull_varint (mk_buffer raw))) (\<lambda>v. Inr (Some v))
                          else Inr None
            | None \<Rightarrow> Inr None) (\<lambda>datagram_size.
       Inr \<lparr>original_destination_connection_id = values ORIGINAL_DESTINATION_CONNECTION_ID,
         retry_source_connection_id = values RETRY_SOURCE_CONNECTION_ID,
         initial_source_connection_id = values INITIAL_SOURCE_CONNECTION_ID,
         max_idle_timeout_ms = idle, max_udp_payload_size = udp, initial_max_data = data,
         initial_max_stream_data_bidi_local = bidi_local,
         initial_max_stream_data_bidi_remote = bidi_remote,
         initial_max_stream_data_uni = uni, initial_max_streams_bidi = streams_bidi,
         initial_max_streams_uni = streams_uni, ack_delay_exponent = exponent,
         max_ack_delay_ms = ack_delay, active_connection_id_limit = cid_limit,
         max_datagram_frame_size = datagram_size\<rparr>))))))))))))"

text \<open>A later value of the same parameter replaces an earlier one, as in the dict.\<close>

definition dict_of :: "(int \<times> bytes) list \<Rightarrow> int \<Rightarrow> bytes option" where
  "dict_of items = map_of (rev items)"

definition decode_transport_parameters :: "bytes \<Rightarrow> transport_parameters result" where
  "decode_transport_parameters data =
     bindE (fst (pull_all pull_parameter (mk_buffer data))) (\<lambda>items. parameters_of (dict_of items))"

definition reduces_zero_rtt_limits :: "transport_parameters \<Rightarrow> transport_parameters \<Rightarrow> bool" where
  "reduces_zero_rtt_limits remembered current \<longleftrightarrow>
     initial_max_data current < initial_max_data remembered
     \<or> initial_max_stream_data_bidi_local current < initial_max_stream_data_bidi_local remembered
     \<or> initial_max_stream_data_bidi_remote current < initial_max_stream_data_bidi_remote remembered
     \<or> initial_max_stream_data_uni current < initial_max_stream_data_uni remembered
     \<or> initial_max_streams_bidi current < initial_max_streams_bidi remembered
     \<or> initial_max_streams_uni current < initial_max_streams_uni remembered
     \<or> active_connection_id_limit current < active_connection_id_limit remembered"


section \<open>Items\<close>

definition item_ok :: "int \<times> bytes \<Rightarrow> bool" where
  "item_ok kv \<longleftrightarrow> varint_ok (fst kv) \<and> varint_ok (len (snd kv))"

interpretation parameter_codec: byte_codec put pull_parameter item_ok
proof unfold_locales
  fix v :: "int \<times> bytes" and bs pre rest
  obtain k x where v: "v = (k, x)" by (cases v)
  assume ok: "item_ok v"
  then have put: "put v = Inr (varint k @ varint (len x) @ x)" by (simp add: v item_ok_def)
  then show "\<exists>bs. put v = Inr bs" by blast
  assume bs: "put v = Inr bs"
  with ok put show "bs \<noteq> []" by (auto simp: v item_ok_def)
  show "pull_parameter (buf_at pre (bs @ rest)) = (Inr v, buf_at (pre @ bs) rest)"
    using ok bs put by (auto simp: v item_ok_def pull_parameter_def wire_simps)
qed

interpretation parameter_items: item_reader pull_parameter "{BufferReadError}" "\<lambda>(k, v). varint_ok k"
proof unfold_locales
  show r: "reader {BufferReadError} (\<lambda>(k, v). varint_ok k) pull_parameter"
    unfolding pull_parameter_def
    by (rule reader_bindS [where p = "bindS pull_varint pull_bytes" and P = "\<lambda>_. True"]
        reader_bindS reader_weaken [OF reader_pull_bytes] wire_errors | simp add: varint_ok_nonneg)+
  fix b x b'
  assume wf: "buf_wf b" and eq: "pull_parameter b = (Inr x, b')"
  then obtain k b1 where k: "pull_varint b = (Inr k, b1)"
      and rest: "bindS (bindS pull_varint pull_bytes) (\<lambda>v. retS (k, v)) b1 = (Inr x, b')"
    by (auto simp: pull_parameter_def bindS_Inr_iff)
  have "reader {BufferReadError} (\<lambda>_. True) (bindS (bindS pull_varint pull_bytes) (\<lambda>v. retS (k, v)))"
    by (rule reader_bindS [where p = "bindS pull_varint pull_bytes" and P = "\<lambda>_. True"]
        reader_bindS reader_weaken [OF reader_pull_bytes] wire_errors | simp add: varint_ok_nonneg)+
  from readerD_Inr [OF this _ rest] readerD_Inr [OF reader_pull_varint wf k]
  have "buf_position b1 \<le> buf_position b'" by simp
  with pull_varint_advances [OF k] show "buf_position b < buf_position b'" by simp
qed


section \<open>Correctness\<close>

definition cid_item :: "int \<Rightarrow> bytes option \<Rightarrow> (int \<times> bytes) list" where
  "cid_item k cid = (case cid of None \<Rightarrow> [] | Some v \<Rightarrow> [(k, v)])"

definition parameter_items_of :: "transport_parameters \<Rightarrow> (int \<times> bytes) list" where
  "parameter_items_of p =
     cid_item 0 (original_destination_connection_id p) @ cid_item 16 (retry_source_connection_id p)
     @ cid_item 15 (initial_source_connection_id p)
     @ map (\<lambda>(k, v). (k, varint v))
         [(1, max_idle_timeout_ms p), (3, max_udp_payload_size p), (4, initial_max_data p),
          (5, initial_max_stream_data_bidi_local p), (6, initial_max_stream_data_bidi_remote p),
          (7, initial_max_stream_data_uni p), (8, initial_max_streams_bidi p),
          (9, initial_max_streams_uni p), (10, ack_delay_exponent p), (11, max_ack_delay_ms p),
          (14, active_connection_id_limit p)]
     @ cid_item 32 (map_option varint (max_datagram_frame_size p))"

definition cid_ok :: "bytes option \<Rightarrow> bool" where
  "cid_ok cid \<longleftrightarrow> (case cid of None \<Rightarrow> True | Some v \<Rightarrow> varint_ok (len v))"

definition transport_parameters_ok :: "transport_parameters \<Rightarrow> bool" where
  "transport_parameters_ok p \<longleftrightarrow>
     cid_ok (original_destination_connection_id p) \<and> cid_ok (retry_source_connection_id p)
     \<and> cid_ok (initial_source_connection_id p)
     \<and> list_all varint_ok
         [max_idle_timeout_ms p, max_udp_payload_size p, initial_max_data p,
          initial_max_stream_data_bidi_local p, initial_max_stream_data_bidi_remote p,
          initial_max_stream_data_uni p, initial_max_streams_bidi p, initial_max_streams_uni p,
          ack_delay_exponent p, max_ack_delay_ms p, active_connection_id_limit p]
     \<and> (case max_datagram_frame_size p of None \<Rightarrow> True | Some n \<Rightarrow> varint_ok n)"

lemma catE_map: "catE (map f xs) = bindE (mapE f xs) (\<lambda>bss. Inr (concat bss))"
  by (induction xs) (auto simp: bindE_def split: sum.splits)

lemma varint_ok_len_varint [simp]: "varint_ok v \<Longrightarrow> varint_ok (len (varint v))"
  by (simp add: length_varint)

lemma put_int_ok: "varint_ok v \<Longrightarrow> put_int k v = put (k, varint v)"
  by (simp add: put_int_def)

lemma encode_items:
  assumes "transport_parameters_ok p"
  shows "encode_transport_parameters p = catE (map put (parameter_items_of p))"
proof -
  have "(case max_datagram_frame_size p of None \<Rightarrow> [] | Some n \<Rightarrow> [put_int 32 n])
      = map put (cid_item 32 (map_option varint (max_datagram_frame_size p)))"
    using assms by (auto simp: cid_item_def transport_parameters_ok_def put_int_ok split: option.splits
        simp del: put.simps)
  moreover have "(case c of None \<Rightarrow> [] | Some cid \<Rightarrow> [put (k, cid)]) = map put (cid_item k c)" for k c
    by (auto simp: cid_item_def split: option.splits simp del: put.simps)
  ultimately show ?thesis
    using assms
    by (simp add: encode_transport_parameters_def parameter_items_of_def transport_parameters_ok_def
        put_int_ok del: put.simps catE.simps)
qed

lemma list_all_cid_item: "list_all item_ok (cid_item k c) \<longleftrightarrow> c = None \<or> varint_ok k \<and> cid_ok c"
  by (auto simp: cid_item_def item_ok_def cid_ok_def split: option.splits)

lemma parameter_items_ok:
  "transport_parameters_ok p \<Longrightarrow> list_all item_ok (parameter_items_of p)"
  by (auto simp: parameter_items_of_def transport_parameters_ok_def list_all_cid_item item_ok_def
      cid_ok_def split: option.splits)

lemma parameters_of_items:
  assumes "transport_parameters_ok p"
  shows "parameters_of (dict_of (parameter_items_of p)) = Inr p"
proof -
  have lookup: "dict_of (parameter_items_of p) 0 = original_destination_connection_id p"
    "dict_of (parameter_items_of p) 16 = retry_source_connection_id p"
    "dict_of (parameter_items_of p) 15 = initial_source_connection_id p"
    "dict_of (parameter_items_of p) 1 = Some (varint (max_idle_timeout_ms p))"
    "dict_of (parameter_items_of p) 3 = Some (varint (max_udp_payload_size p))"
    "dict_of (parameter_items_of p) 4 = Some (varint (initial_max_data p))"
    "dict_of (parameter_items_of p) 5 = Some (varint (initial_max_stream_data_bidi_local p))"
    "dict_of (parameter_items_of p) 6 = Some (varint (initial_max_stream_data_bidi_remote p))"
    "dict_of (parameter_items_of p) 7 = Some (varint (initial_max_stream_data_uni p))"
    "dict_of (parameter_items_of p) 8 = Some (varint (initial_max_streams_bidi p))"
    "dict_of (parameter_items_of p) 9 = Some (varint (initial_max_streams_uni p))"
    "dict_of (parameter_items_of p) 10 = Some (varint (ack_delay_exponent p))"
    "dict_of (parameter_items_of p) 11 = Some (varint (max_ack_delay_ms p))"
    "dict_of (parameter_items_of p) 14 = Some (varint (active_connection_id_limit p))"
    "dict_of (parameter_items_of p) 32 = map_option varint (max_datagram_frame_size p)"
    by (simp_all add: dict_of_def parameter_items_of_def cid_item_def split: option.split)
  have "fst (pull_varint (mk_buffer (varint v))) = Inr v" if "varint_ok v" for v
    using pull_varint_at [OF that, of "[]" "[]"] by (simp add: mk_buffer_at)
  with assms show ?thesis
    by (cases "max_datagram_frame_size p")
      (simp_all add: parameters_of_def lookup as_int_def transport_parameters_ok_def)
qed

text \<open>
  C31: transport parameters survive the wire: whatever one endpoint encodes, with values in
  the range of a varint, the other endpoint decodes to the same record, optional
  parameters and their absence included.
\<close>

theorem transport_parameters_roundtrip:
  assumes "transport_parameters_ok p"
  shows "\<exists>bs. encode_transport_parameters p = Inr bs \<and> decode_transport_parameters bs = Inr p"
proof -
  obtain bss where bss: "mapE put (parameter_items_of p) = Inr bss"
    using parameter_codec.mapE_enc_ok [OF parameter_items_ok [OF assms]] by blast
  then show ?thesis
    using parameter_codec.pull_all_enc [OF parameter_items_ok [OF assms] bss, of "[]"] assms
    by (simp add: encode_items catE_map decode_transport_parameters_def mk_buffer_at parameters_of_items)
qed

theorem transport_parameters_roundtrip_witness:
  "let p = default_transport_parameters\<lparr>initial_source_connection_id := Some [1, 2, 3],
       initial_max_data := 1048576, max_datagram_frame_size := Some 1200\<rparr>
   in \<exists>bs. encode_transport_parameters p = Inr bs \<and> decode_transport_parameters bs = Inr p"
  unfolding Let_def
  by (rule transport_parameters_roundtrip)
    (simp add: transport_parameters_ok_def default_transport_parameters_def cid_ok_def
      varint_ok_def VARINT_MAX_def)

lemma pull_varint_outcome: "outcome {BufferReadError} varint_ok (fst (pull_varint (mk_buffer raw)))"
  by (rule reader_outcome [OF reader_pull_varint buf_wf_mk])

lemma as_int_outcome: "varint_ok d \<Longrightarrow> outcome {BufferReadError} varint_ok (as_int values k d)"
  by (simp add: as_int_def pull_varint_outcome split: option.split)

lemma datagram_size_outcome:
  "outcome {BufferReadError} (\<lambda>s. case s of None \<Rightarrow> True | Some n \<Rightarrow> varint_ok n)
    (case m of
       Some raw \<Rightarrow> if raw \<noteq> [] then bindE (fst (pull_varint (mk_buffer raw))) (\<lambda>v. Inr (Some v)) else Inr None
     | None \<Rightarrow> Inr None)"
  by (auto split: option.split intro!: outcome_bindE [OF pull_varint_outcome])

text \<open>
  Decoding arbitrary bytes raises \<open>BufferReadError\<close> or gives parameters whose integers
  are all in the range of a varint, so in particular none is negative.
\<close>

lemma decode_transport_parameters_total:
  "outcome {BufferReadError}
     (\<lambda>p. list_all varint_ok
         [max_idle_timeout_ms p, max_udp_payload_size p, initial_max_data p,
          initial_max_stream_data_bidi_local p, initial_max_stream_data_bidi_remote p,
          initial_max_stream_data_uni p, initial_max_streams_bidi p, initial_max_streams_uni p,
          ack_delay_exponent p, max_ack_delay_ms p, active_connection_id_limit p]
       \<and> (case max_datagram_frame_size p of None \<Rightarrow> True | Some n \<Rightarrow> varint_ok n))
     (decode_transport_parameters data)"
  unfolding decode_transport_parameters_def parameters_of_def
  by (rule outcome_bindE [OF parameter_items.pull_all_outcome [OF buf_wf_mk]])
    (rule datagram_size_outcome outcome_bindE as_int_outcome | simp)+

end
