(* ===== verification/Frames.thy ===== *)
theory Frames
  imports Buffer
begin

text \<open>
  \<open>src/dsquic/frames.py\<close>: the frame vocabulary of RFC 9000, section 19, and RFC 9221.

  One constructor of \<open>frame\<close> per dataclass; the dataclasses other modules take apart
  (\<open>Ack\<close>, \<open>Crypto\<close>, \<open>Stream\<close>, \<open>ConnectionClose\<close>) are records of their own.
  \<open>encode\<close> is the \<open>encode\<close> method of every class, \<open>frame_parser\<close> is the table
  \<open>_FRAME_PARSERS\<close>, \<open>parse_frame\<close> the body of the loop of \<open>parse_frames\<close>.
  The lemmas show that parsing what was encoded gives the frames back, that malformed
  payloads raise only the two exceptions the connection handles, and that every parsed
  frame is well formed, acknowledgement ranges included.
\<close>

section \<open>Model\<close>

abbreviation (input) PADDING_TYPE :: int where "PADDING_TYPE \<equiv> 0x00"
abbreviation (input) PING_TYPE :: int where "PING_TYPE \<equiv> 0x01"
abbreviation (input) ACK_TYPE :: int where "ACK_TYPE \<equiv> 0x02"
abbreviation (input) ACK_ECN_TYPE :: int where "ACK_ECN_TYPE \<equiv> 0x03"
abbreviation (input) RESET_STREAM_TYPE :: int where "RESET_STREAM_TYPE \<equiv> 0x04"
abbreviation (input) STOP_SENDING_TYPE :: int where "STOP_SENDING_TYPE \<equiv> 0x05"
abbreviation (input) CRYPTO_TYPE :: int where "CRYPTO_TYPE \<equiv> 0x06"
abbreviation (input) NEW_TOKEN_TYPE :: int where "NEW_TOKEN_TYPE \<equiv> 0x07"
abbreviation (input) STREAM_TYPE_BASE :: int where "STREAM_TYPE_BASE \<equiv> 0x08"
abbreviation (input) STREAM_OFF_BIT :: int where "STREAM_OFF_BIT \<equiv> 0x04"
abbreviation (input) STREAM_LEN_BIT :: int where "STREAM_LEN_BIT \<equiv> 0x02"
abbreviation (input) STREAM_FIN_BIT :: int where "STREAM_FIN_BIT \<equiv> 0x01"
abbreviation (input) MAX_DATA_TYPE :: int where "MAX_DATA_TYPE \<equiv> 0x10"
abbreviation (input) MAX_STREAM_DATA_TYPE :: int where "MAX_STREAM_DATA_TYPE \<equiv> 0x11"
abbreviation (input) MAX_STREAMS_BIDI_TYPE :: int where "MAX_STREAMS_BIDI_TYPE \<equiv> 0x12"
abbreviation (input) MAX_STREAMS_UNI_TYPE :: int where "MAX_STREAMS_UNI_TYPE \<equiv> 0x13"
abbreviation (input) DATA_BLOCKED_TYPE :: int where "DATA_BLOCKED_TYPE \<equiv> 0x14"
abbreviation (input) STREAM_DATA_BLOCKED_TYPE :: int where "STREAM_DATA_BLOCKED_TYPE \<equiv> 0x15"
abbreviation (input) STREAMS_BLOCKED_BIDI_TYPE :: int where "STREAMS_BLOCKED_BIDI_TYPE \<equiv> 0x16"
abbreviation (input) STREAMS_BLOCKED_UNI_TYPE :: int where "STREAMS_BLOCKED_UNI_TYPE \<equiv> 0x17"
abbreviation (input) NEW_CONNECTION_ID_TYPE :: int where "NEW_CONNECTION_ID_TYPE \<equiv> 0x18"
abbreviation (input) RETIRE_CONNECTION_ID_TYPE :: int where "RETIRE_CONNECTION_ID_TYPE \<equiv> 0x19"
abbreviation (input) PATH_CHALLENGE_TYPE :: int where "PATH_CHALLENGE_TYPE \<equiv> 0x1A"
abbreviation (input) PATH_RESPONSE_TYPE :: int where "PATH_RESPONSE_TYPE \<equiv> 0x1B"
abbreviation (input) CONNECTION_CLOSE_TRANSPORT_TYPE :: int where "CONNECTION_CLOSE_TRANSPORT_TYPE \<equiv> 0x1C"
abbreviation (input) CONNECTION_CLOSE_APP_TYPE :: int where "CONNECTION_CLOSE_APP_TYPE \<equiv> 0x1D"
abbreviation (input) HANDSHAKE_DONE_TYPE :: int where "HANDSHAKE_DONE_TYPE \<equiv> 0x1E"
abbreviation (input) DATAGRAM_TYPE :: int where "DATAGRAM_TYPE \<equiv> 0x30"
abbreviation (input) DATAGRAM_LEN_TYPE :: int where "DATAGRAM_LEN_TYPE \<equiv> 0x31"

abbreviation (input) FLOW_CONTROL_ERROR :: int where "FLOW_CONTROL_ERROR \<equiv> 0x03"
abbreviation (input) STREAM_LIMIT_ERROR :: int where "STREAM_LIMIT_ERROR \<equiv> 0x04"
abbreviation (input) STREAM_STATE_ERROR :: int where "STREAM_STATE_ERROR \<equiv> 0x05"
abbreviation (input) FINAL_SIZE_ERROR :: int where "FINAL_SIZE_ERROR \<equiv> 0x06"

record ecn_counts =
  ect0 :: int
  ect1 :: int
  ce :: int

record ack =
  ack_largest :: int
  ack_delay :: int
  ack_ranges :: "(int \<times> int) list"
  ack_ecn :: "ecn_counts option"

record crypto =
  crypto_offset :: int
  crypto_data :: bytes

record stream =
  stream_id :: int
  stream_offset :: int
  stream_data :: bytes
  stream_fin :: bool

record connection_close =
  close_error_code :: int
  close_reason :: bytes
  close_frame_type :: "int option"

datatype frame =
    is_Padding: Padding int
  | Ping
  | Ack ack
  | ResetStream int int int
  | StopSending int int
  | Crypto crypto
  | NewToken bytes
  | Stream stream
  | MaxData int
  | MaxStreamData int int
  | MaxStreams int bool
  | DataBlocked int
  | StreamDataBlocked int int
  | StreamsBlocked int bool
  | NewConnectionId int int bytes bytes
  | RetireConnectionId int
  | PathChallenge bytes
  | PathResponse bytes
  | ConnectionClose connection_close
  | HandshakeDone
  | Datagram bytes

fun encode_ack_ranges :: "int \<Rightarrow> (int \<times> int) list \<Rightarrow> bytes result list" where
  "encode_ack_ranges previous_low [] = []"
| "encode_ack_ranges previous_low ((low, high) # ranges) =
     encode_varint (previous_low - high - 2) # encode_varint (high - low)
       # encode_ack_ranges low ranges"

definition encode_ack :: "ack \<Rightarrow> bytes result" where
  "encode_ack a =
     (case ack_ranges a of
        [] \<Rightarrow> Inl IndexError
      | (first_low, first_high) # ranges \<Rightarrow>
          if first_high \<noteq> ack_largest a then Inl ValueError
          else catE
            ([encode_varint (if ack_ecn a \<noteq> None then ACK_ECN_TYPE else ACK_TYPE),
              encode_varint (ack_largest a),
              encode_varint (ack_delay a),
              encode_varint (len (ack_ranges a) - 1),
              encode_varint (first_high - first_low)]
             @ encode_ack_ranges first_low ranges
             @ (case ack_ecn a of None \<Rightarrow> []
                | Some e \<Rightarrow> [encode_varint (ect0 e), encode_varint (ect1 e), encode_varint (ce e)])))"

definition encode_stream :: "stream \<Rightarrow> bytes result" where
  "encode_stream f =
     (let frame_type = STREAM_TYPE_BASE OR STREAM_LEN_BIT;
          frame_type = (if stream_offset f \<noteq> 0 then frame_type OR STREAM_OFF_BIT else frame_type);
          frame_type = (if stream_fin f then frame_type OR STREAM_FIN_BIT else frame_type)
      in catE
        ([encode_varint frame_type, encode_varint (stream_id f)]
         @ (if stream_offset f \<noteq> 0 then [encode_varint (stream_offset f)] else [])
         @ [encode_varint (len (stream_data f)), Inr (stream_data f)]))"

definition encode_crypto :: "crypto \<Rightarrow> bytes result" where
  "encode_crypto f =
     catE [encode_varint CRYPTO_TYPE, encode_varint (crypto_offset f),
           encode_varint (len (crypto_data f)), Inr (crypto_data f)]"

definition encode_connection_close :: "connection_close \<Rightarrow> bytes result" where
  "encode_connection_close f =
     catE
       ((case close_frame_type f of
           None \<Rightarrow> [encode_varint CONNECTION_CLOSE_APP_TYPE, encode_varint (close_error_code f)]
         | Some t \<Rightarrow> [encode_varint CONNECTION_CLOSE_TRANSPORT_TYPE,
                      encode_varint (close_error_code f), encode_varint t])
        @ [encode_varint (len (close_reason f)), Inr (close_reason f)])"

definition encode_padding :: "int \<Rightarrow> bytes result" where
  "encode_padding n = (if n < 0 then Inl ValueError else Inr (replicate (nat n) 0))"

definition encode_ping :: "bytes result" where
  "encode_ping = byte1 PING_TYPE"

definition encode_reset_stream :: "int \<Rightarrow> int \<Rightarrow> int \<Rightarrow> bytes result" where
  "encode_reset_stream sid error_code final_size =
     catE [encode_varint RESET_STREAM_TYPE, encode_varint sid, encode_varint error_code,
           encode_varint final_size]"

definition encode_stop_sending :: "int \<Rightarrow> int \<Rightarrow> bytes result" where
  "encode_stop_sending sid error_code =
     catE [encode_varint STOP_SENDING_TYPE, encode_varint sid, encode_varint error_code]"

definition encode_new_token :: "bytes \<Rightarrow> bytes result" where
  "encode_new_token token =
     catE [encode_varint NEW_TOKEN_TYPE, encode_varint (len token), Inr token]"

definition encode_max_data :: "int \<Rightarrow> bytes result" where
  "encode_max_data maximum = catE [encode_varint MAX_DATA_TYPE, encode_varint maximum]"

definition encode_max_stream_data :: "int \<Rightarrow> int \<Rightarrow> bytes result" where
  "encode_max_stream_data sid maximum =
     catE [encode_varint MAX_STREAM_DATA_TYPE, encode_varint sid, encode_varint maximum]"

definition encode_max_streams :: "int \<Rightarrow> bool \<Rightarrow> bytes result" where
  "encode_max_streams maximum bidirectional =
     (let frame_type = (if bidirectional then MAX_STREAMS_BIDI_TYPE else MAX_STREAMS_UNI_TYPE)
      in catE [encode_varint frame_type, encode_varint maximum])"

definition encode_data_blocked :: "int \<Rightarrow> bytes result" where
  "encode_data_blocked limit = catE [encode_varint DATA_BLOCKED_TYPE, encode_varint limit]"

definition encode_stream_data_blocked :: "int \<Rightarrow> int \<Rightarrow> bytes result" where
  "encode_stream_data_blocked sid limit =
     catE [encode_varint STREAM_DATA_BLOCKED_TYPE, encode_varint sid, encode_varint limit]"

definition encode_streams_blocked :: "int \<Rightarrow> bool \<Rightarrow> bytes result" where
  "encode_streams_blocked limit bidirectional =
     (let frame_type = (if bidirectional then STREAMS_BLOCKED_BIDI_TYPE else STREAMS_BLOCKED_UNI_TYPE)
      in catE [encode_varint frame_type, encode_varint limit])"

definition encode_new_connection_id :: "int \<Rightarrow> int \<Rightarrow> bytes \<Rightarrow> bytes \<Rightarrow> bytes result" where
  "encode_new_connection_id sequence retire_prior_to connection_id reset_token =
     catE [encode_varint NEW_CONNECTION_ID_TYPE, encode_varint sequence,
           encode_varint retire_prior_to, byte1 (len connection_id), Inr connection_id,
           Inr reset_token]"

definition encode_retire_connection_id :: "int \<Rightarrow> bytes result" where
  "encode_retire_connection_id sequence =
     catE [encode_varint RETIRE_CONNECTION_ID_TYPE, encode_varint sequence]"

definition encode_path_challenge :: "bytes \<Rightarrow> bytes result" where
  "encode_path_challenge data = catE [encode_varint PATH_CHALLENGE_TYPE, Inr data]"

definition encode_path_response :: "bytes \<Rightarrow> bytes result" where
  "encode_path_response data = catE [encode_varint PATH_RESPONSE_TYPE, Inr data]"

definition encode_handshake_done :: "bytes result" where
  "encode_handshake_done = encode_varint HANDSHAKE_DONE_TYPE"

definition encode_datagram :: "bytes \<Rightarrow> bytes result" where
  "encode_datagram data =
     catE [encode_varint DATAGRAM_LEN_TYPE, encode_varint (len data), Inr data]"

text \<open>The call \<open>frame.encode()\<close>, dispatched on the class of the frame.\<close>

fun encode :: "frame \<Rightarrow> bytes result" where
  "encode (Padding n) = encode_padding n"
| "encode Ping = encode_ping"
| "encode (Ack a) = encode_ack a"
| "encode (ResetStream sid error_code final_size) = encode_reset_stream sid error_code final_size"
| "encode (StopSending sid error_code) = encode_stop_sending sid error_code"
| "encode (Crypto f) = encode_crypto f"
| "encode (NewToken token) = encode_new_token token"
| "encode (Stream f) = encode_stream f"
| "encode (MaxData maximum) = encode_max_data maximum"
| "encode (MaxStreamData sid maximum) = encode_max_stream_data sid maximum"
| "encode (MaxStreams maximum bidirectional) = encode_max_streams maximum bidirectional"
| "encode (DataBlocked limit) = encode_data_blocked limit"
| "encode (StreamDataBlocked sid limit) = encode_stream_data_blocked sid limit"
| "encode (StreamsBlocked limit bidirectional) = encode_streams_blocked limit bidirectional"
| "encode (NewConnectionId sequence retire_prior_to connection_id reset_token) =
     encode_new_connection_id sequence retire_prior_to connection_id reset_token"
| "encode (RetireConnectionId sequence) = encode_retire_connection_id sequence"
| "encode (PathChallenge data) = encode_path_challenge data"
| "encode (PathResponse data) = encode_path_response data"
| "encode (ConnectionClose f) = encode_connection_close f"
| "encode HandshakeDone = encode_handshake_done"
| "encode (Datagram data) = encode_datagram data"

lemmas encode_defs = encode_padding_def encode_ping_def encode_reset_stream_def
  encode_stop_sending_def encode_new_token_def encode_max_data_def encode_max_stream_data_def
  encode_max_streams_def encode_data_blocked_def encode_stream_data_blocked_def
  encode_streams_blocked_def encode_new_connection_id_def encode_retire_connection_id_def
  encode_path_challenge_def encode_path_response_def encode_handshake_done_def encode_datagram_def

fun is_ack_eliciting :: "frame \<Rightarrow> bool" where
  "is_ack_eliciting (Ack _) = False"
| "is_ack_eliciting (Padding _) = False"
| "is_ack_eliciting (ConnectionClose _) = False"
| "is_ack_eliciting _ = True"

lemma pull_uint8_remaining:
  "pull_uint8 b = (Inr x, b') \<Longrightarrow> remaining b' = remaining b - 1 \<and> 1 \<le> remaining b"
  by (auto simp: pull_uint8_def bindS_Inr_iff pull_bytes_def remaining_def Let_def split: if_splits)

function parse_padding_loop :: "int \<Rightarrow> buffer \<Rightarrow> int result \<times> buffer" where
  "parse_padding_loop n b =
     (if is_empty b then (Inr n, b)
      else case peek_uint8 b of
          (Inl e, b') \<Rightarrow> (Inl e, b')
        | (Inr v, b') \<Rightarrow>
            if v = PADDING_TYPE then
              (case pull_uint8 b of
                 (Inl e, b') \<Rightarrow> (Inl e, b')
               | (Inr _, b') \<Rightarrow> parse_padding_loop (n + 1) b')
            else (Inr n, b'))"
  by pat_completeness auto
termination
  by (relation "measure (\<lambda>(n, b). nat (remaining b))") (auto dest!: pull_uint8_remaining [OF sym])

declare parse_padding_loop.simps [simp del]

definition parse_padding :: "int \<Rightarrow> (buffer, frame) se" where
  "parse_padding frame_type = bindS (parse_padding_loop 1) (\<lambda>n. retS (Padding n))"

definition parse_ping :: "int \<Rightarrow> (buffer, frame) se" where
  "parse_ping frame_type = retS Ping"

fun parse_ack_ranges :: "nat \<Rightarrow> int \<Rightarrow> (buffer, (int \<times> int) list) se" where
  "parse_ack_ranges 0 low = retS []"
| "parse_ack_ranges (Suc n) low =
     bindS pull_varint (\<lambda>gap. bindS pull_varint (\<lambda>count.
       let high = low - gap - 2; low = high - count
       in if low < 0 then raiseS FrameParseError
          else bindS (parse_ack_ranges n low) (\<lambda>ranges. retS ((low, high) # ranges))))"

definition parse_ack :: "int \<Rightarrow> (buffer, frame) se" where
  "parse_ack frame_type =
     bindS pull_varint (\<lambda>largest. bindS pull_varint (\<lambda>delay.
     bindS pull_varint (\<lambda>range_count. bindS pull_varint (\<lambda>first_range.
       let low = largest - first_range
       in if low < 0 then raiseS FrameParseError
          else bindS (parse_ack_ranges (nat range_count) low) (\<lambda>ranges.
            bindS (if frame_type = ACK_ECN_TYPE then
                     bindS pull_varint (\<lambda>e0. bindS pull_varint (\<lambda>e1. bindS pull_varint (\<lambda>c.
                       retS (Some \<lparr>ect0 = e0, ect1 = e1, ce = c\<rparr>))))
                   else retS None) (\<lambda>ecn.
              retS (Ack \<lparr>ack_largest = largest, ack_delay = delay,
                ack_ranges = (low, largest) # ranges, ack_ecn = ecn\<rparr>)))))))"

definition parse_reset_stream :: "int \<Rightarrow> (buffer, frame) se" where
  "parse_reset_stream frame_type =
     bindS pull_varint (\<lambda>sid. bindS pull_varint (\<lambda>error_code. bindS pull_varint (\<lambda>final_size.
       retS (ResetStream sid error_code final_size))))"

definition parse_stop_sending :: "int \<Rightarrow> (buffer, frame) se" where
  "parse_stop_sending frame_type =
     bindS pull_varint (\<lambda>sid. bindS pull_varint (\<lambda>error_code. retS (StopSending sid error_code)))"

definition parse_crypto :: "int \<Rightarrow> (buffer, frame) se" where
  "parse_crypto frame_type =
     bindS pull_varint (\<lambda>offset. bindS pull_varint (\<lambda>n. bindS (pull_bytes n) (\<lambda>data.
       retS (Crypto \<lparr>crypto_offset = offset, crypto_data = data\<rparr>))))"

definition parse_new_token :: "int \<Rightarrow> (buffer, frame) se" where
  "parse_new_token frame_type =
     bindS pull_varint (\<lambda>n. bindS (pull_bytes n) (\<lambda>token. retS (NewToken token)))"

definition parse_stream :: "int \<Rightarrow> (buffer, frame) se" where
  "parse_stream frame_type =
     bindS pull_varint (\<lambda>sid.
     bindS (if frame_type AND STREAM_OFF_BIT \<noteq> 0 then pull_varint else retS 0) (\<lambda>offset.
     bindS (if frame_type AND STREAM_LEN_BIT \<noteq> 0 then bindS pull_varint pull_bytes
            else bindS (getS remaining) pull_bytes) (\<lambda>data.
       retS (Stream \<lparr>stream_id = sid, stream_offset = offset, stream_data = data,
         stream_fin = (frame_type AND STREAM_FIN_BIT \<noteq> 0)\<rparr>))))"

definition parse_max_data :: "int \<Rightarrow> (buffer, frame) se" where
  "parse_max_data frame_type = bindS pull_varint (\<lambda>maximum. retS (MaxData maximum))"

definition parse_max_stream_data :: "int \<Rightarrow> (buffer, frame) se" where
  "parse_max_stream_data frame_type =
     bindS pull_varint (\<lambda>sid. bindS pull_varint (\<lambda>maximum. retS (MaxStreamData sid maximum)))"

definition parse_max_streams :: "int \<Rightarrow> (buffer, frame) se" where
  "parse_max_streams frame_type =
     bindS pull_varint (\<lambda>maximum. retS (MaxStreams maximum (frame_type = MAX_STREAMS_BIDI_TYPE)))"

definition parse_data_blocked :: "int \<Rightarrow> (buffer, frame) se" where
  "parse_data_blocked frame_type = bindS pull_varint (\<lambda>limit. retS (DataBlocked limit))"

definition parse_stream_data_blocked :: "int \<Rightarrow> (buffer, frame) se" where
  "parse_stream_data_blocked frame_type =
     bindS pull_varint (\<lambda>sid. bindS pull_varint (\<lambda>limit. retS (StreamDataBlocked sid limit)))"

definition parse_streams_blocked :: "int \<Rightarrow> (buffer, frame) se" where
  "parse_streams_blocked frame_type =
     bindS pull_varint (\<lambda>limit.
       retS (StreamsBlocked limit (frame_type = STREAMS_BLOCKED_BIDI_TYPE)))"

definition parse_new_connection_id :: "int \<Rightarrow> (buffer, frame) se" where
  "parse_new_connection_id frame_type =
     bindS pull_varint (\<lambda>sequence. bindS pull_varint (\<lambda>retire_prior_to.
     bindS pull_uint8 (\<lambda>n. bindS (pull_bytes n) (\<lambda>connection_id.
     bindS (pull_bytes 16) (\<lambda>reset_token.
       retS (NewConnectionId sequence retire_prior_to connection_id reset_token))))))"

definition parse_retire_connection_id :: "int \<Rightarrow> (buffer, frame) se" where
  "parse_retire_connection_id frame_type =
     bindS pull_varint (\<lambda>sequence. retS (RetireConnectionId sequence))"

definition parse_path_challenge :: "int \<Rightarrow> (buffer, frame) se" where
  "parse_path_challenge frame_type = bindS (pull_bytes 8) (\<lambda>data. retS (PathChallenge data))"

definition parse_path_response :: "int \<Rightarrow> (buffer, frame) se" where
  "parse_path_response frame_type = bindS (pull_bytes 8) (\<lambda>data. retS (PathResponse data))"

definition parse_connection_close :: "int \<Rightarrow> (buffer, frame) se" where
  "parse_connection_close frame_type =
     bindS pull_varint (\<lambda>error_code.
     bindS (if frame_type = CONNECTION_CLOSE_TRANSPORT_TYPE
            then bindS pull_varint (\<lambda>t. retS (Some t)) else retS None) (\<lambda>closing_frame_type.
     bindS pull_varint (\<lambda>n. bindS (pull_bytes n) (\<lambda>reason.
       retS (ConnectionClose \<lparr>close_error_code = error_code, close_reason = reason,
         close_frame_type = closing_frame_type\<rparr>)))))"

definition parse_handshake_done :: "int \<Rightarrow> (buffer, frame) se" where
  "parse_handshake_done frame_type = retS HandshakeDone"

definition parse_datagram :: "int \<Rightarrow> (buffer, frame) se" where
  "parse_datagram frame_type =
     (if frame_type = DATAGRAM_LEN_TYPE
      then bindS (bindS pull_varint pull_bytes) (\<lambda>data. retS (Datagram data))
      else bindS (bindS (getS remaining) pull_bytes) (\<lambda>data. retS (Datagram data)))"

definition FRAME_PARSERS :: "(int \<times> (int \<Rightarrow> (buffer, frame) se)) list" where
  "FRAME_PARSERS =
     [(PADDING_TYPE, parse_padding), (PING_TYPE, parse_ping), (ACK_TYPE, parse_ack),
      (ACK_ECN_TYPE, parse_ack), (RESET_STREAM_TYPE, parse_reset_stream),
      (STOP_SENDING_TYPE, parse_stop_sending), (CRYPTO_TYPE, parse_crypto),
      (NEW_TOKEN_TYPE, parse_new_token)]
     @ map (\<lambda>flags. (STREAM_TYPE_BASE OR flags, parse_stream)) [0 .. 7]
     @ [(MAX_DATA_TYPE, parse_max_data), (MAX_STREAM_DATA_TYPE, parse_max_stream_data),
        (MAX_STREAMS_BIDI_TYPE, parse_max_streams), (MAX_STREAMS_UNI_TYPE, parse_max_streams),
        (DATA_BLOCKED_TYPE, parse_data_blocked),
        (STREAM_DATA_BLOCKED_TYPE, parse_stream_data_blocked),
        (STREAMS_BLOCKED_BIDI_TYPE, parse_streams_blocked),
        (STREAMS_BLOCKED_UNI_TYPE, parse_streams_blocked),
        (NEW_CONNECTION_ID_TYPE, parse_new_connection_id),
        (RETIRE_CONNECTION_ID_TYPE, parse_retire_connection_id),
        (PATH_CHALLENGE_TYPE, parse_path_challenge), (PATH_RESPONSE_TYPE, parse_path_response),
        (CONNECTION_CLOSE_TRANSPORT_TYPE, parse_connection_close),
        (CONNECTION_CLOSE_APP_TYPE, parse_connection_close),
        (HANDSHAKE_DONE_TYPE, parse_handshake_done), (DATAGRAM_TYPE, parse_datagram),
        (DATAGRAM_LEN_TYPE, parse_datagram)]"

definition parse_frame :: "(buffer, frame) se" where
  "parse_frame =
     bindS (getS buf_position) (\<lambda>start.
     bindS pull_varint (\<lambda>frame_type.
     bindS (getS buf_position) (\<lambda>position.
     bindS (liftS (encode_varint frame_type)) (\<lambda>shortest.
       if int position - int start \<noteq> len shortest then raiseS FrameParseError
       else case map_of FRAME_PARSERS frame_type of
           None \<Rightarrow> raiseS FrameParseError
         | Some parser \<Rightarrow> parser frame_type))))"

definition parse_frames :: "bytes \<Rightarrow> frame list result" where
  "parse_frames payload =
     (if payload = [] then Inl FrameParseError
      else fst (pull_all parse_frame (mk_buffer payload)))"


section \<open>Well-formed frames\<close>

text \<open>
  \<open>ranges_ok low rs\<close>: the ranges \<open>rs\<close> descend below \<open>low\<close>, do not touch each other and
  stay above packet number 0. \<open>frame_wf\<close> is what the wire format guarantees of a frame;
  \<open>frame_fits\<close> adds that the length fields fit in a varint.
\<close>

fun ranges_ok :: "int \<Rightarrow> (int \<times> int) list \<Rightarrow> bool" where
  "ranges_ok previous_low [] \<longleftrightarrow> True"
| "ranges_ok previous_low ((low, high) # ranges) \<longleftrightarrow>
     0 \<le> low \<and> low \<le> high \<and> high + 2 \<le> previous_low \<and> ranges_ok low ranges"

definition ecn_wf :: "ecn_counts option \<Rightarrow> bool" where
  "ecn_wf ecn \<longleftrightarrow>
     (case ecn of None \<Rightarrow> True
      | Some e \<Rightarrow> varint_ok (ect0 e) \<and> varint_ok (ect1 e) \<and> varint_ok (ce e))"

definition ack_wf :: "ack \<Rightarrow> bool" where
  "ack_wf a \<longleftrightarrow>
     varint_ok (ack_largest a) \<and> varint_ok (ack_delay a)
     \<and> ack_ranges a \<noteq> [] \<and> snd (hd (ack_ranges a)) = ack_largest a
     \<and> ranges_ok (ack_largest a + 2) (ack_ranges a)
     \<and> ecn_wf (ack_ecn a)"

fun frame_wf :: "frame \<Rightarrow> bool" where
  "frame_wf (Padding n) \<longleftrightarrow> 1 \<le> n"
| "frame_wf (Ack a) \<longleftrightarrow> ack_wf a"
| "frame_wf (ResetStream sid error_code final_size) \<longleftrightarrow>
     varint_ok sid \<and> varint_ok error_code \<and> varint_ok final_size"
| "frame_wf (StopSending sid error_code) \<longleftrightarrow> varint_ok sid \<and> varint_ok error_code"
| "frame_wf (Crypto f) \<longleftrightarrow> varint_ok (crypto_offset f)"
| "frame_wf (Stream f) \<longleftrightarrow> varint_ok (stream_id f) \<and> varint_ok (stream_offset f)"
| "frame_wf (MaxData maximum) \<longleftrightarrow> varint_ok maximum"
| "frame_wf (MaxStreamData sid maximum) \<longleftrightarrow> varint_ok sid \<and> varint_ok maximum"
| "frame_wf (MaxStreams maximum _) \<longleftrightarrow> varint_ok maximum"
| "frame_wf (DataBlocked limit) \<longleftrightarrow> varint_ok limit"
| "frame_wf (StreamDataBlocked sid limit) \<longleftrightarrow> varint_ok sid \<and> varint_ok limit"
| "frame_wf (StreamsBlocked limit _) \<longleftrightarrow> varint_ok limit"
| "frame_wf (NewConnectionId sequence retire_prior_to connection_id reset_token) \<longleftrightarrow>
     varint_ok sequence \<and> varint_ok retire_prior_to \<and> length connection_id < 256
     \<and> length reset_token = 16"
| "frame_wf (RetireConnectionId sequence) \<longleftrightarrow> varint_ok sequence"
| "frame_wf (PathChallenge data) \<longleftrightarrow> length data = 8"
| "frame_wf (PathResponse data) \<longleftrightarrow> length data = 8"
| "frame_wf (ConnectionClose f) \<longleftrightarrow>
     varint_ok (close_error_code f)
     \<and> (case close_frame_type f of None \<Rightarrow> True | Some t \<Rightarrow> varint_ok t)"
| "frame_wf _ \<longleftrightarrow> True"

fun frame_fits :: "frame \<Rightarrow> bool" where
  "frame_fits (Ack a) \<longleftrightarrow> varint_ok (len (ack_ranges a))"
| "frame_fits (Crypto f) \<longleftrightarrow> varint_ok (len (crypto_data f))"
| "frame_fits (NewToken token) \<longleftrightarrow> varint_ok (len token)"
| "frame_fits (Stream f) \<longleftrightarrow> varint_ok (len (stream_data f))"
| "frame_fits (ConnectionClose f) \<longleftrightarrow> varint_ok (len (close_reason f))"
| "frame_fits (Datagram data) \<longleftrightarrow> varint_ok (len data)"
| "frame_fits _ \<longleftrightarrow> True"

definition frame_ok :: "frame \<Rightarrow> bool" where
  "frame_ok f \<longleftrightarrow> frame_wf f \<and> frame_fits f"

text \<open>Contiguous padding parses as one frame: two paddings in a row are not told apart.\<close>

fun no_adjacent_padding :: "frame list \<Rightarrow> bool" where
  "no_adjacent_padding (f # g # fs) \<longleftrightarrow>
     \<not> (is_Padding f \<and> is_Padding g) \<and> no_adjacent_padding (g # fs)"
| "no_adjacent_padding _ \<longleftrightarrow> True"


section \<open>Parsing what was encoded\<close>

lemma parse_padding_loop_at:
  assumes "rest = [] \<or> hd rest \<noteq> 0"
  shows "parse_padding_loop n (buf_at pre (replicate k 0 @ rest))
    = (Inr (n + int k), buf_at (pre @ replicate k 0) rest)"
proof (induction k arbitrary: n pre)
  case 0
  with assms show ?case
    by (cases rest) (auto simp: parse_padding_loop.simps peek_uint8_def uint_0_iff)
next
  case (Suc k)
  have "peek_uint8 (buf_at pre (0 # replicate k 0 @ rest)) = (Inr 0, buf_at pre (0 # replicate k 0 @ rest))"
    by (simp add: peek_uint8_def)
  with Suc [of "n + 1" "pre @ [0]"] show ?case
    by (simp add: parse_padding_loop.simps [of n] pull_uint8_at)
qed

lemma FRAME_PARSERS_lookup [simp]:
  "map_of FRAME_PARSERS 0 = Some parse_padding" "map_of FRAME_PARSERS 1 = Some parse_ping"
  "map_of FRAME_PARSERS 2 = Some parse_ack" "map_of FRAME_PARSERS 3 = Some parse_ack"
  "map_of FRAME_PARSERS 4 = Some parse_reset_stream"
  "map_of FRAME_PARSERS 5 = Some parse_stop_sending"
  "map_of FRAME_PARSERS 6 = Some parse_crypto" "map_of FRAME_PARSERS 7 = Some parse_new_token"
  "map_of FRAME_PARSERS 10 = Some parse_stream" "map_of FRAME_PARSERS 11 = Some parse_stream"
  "map_of FRAME_PARSERS 14 = Some parse_stream" "map_of FRAME_PARSERS 15 = Some parse_stream"
  "map_of FRAME_PARSERS 16 = Some parse_max_data"
  "map_of FRAME_PARSERS 17 = Some parse_max_stream_data"
  "map_of FRAME_PARSERS 18 = Some parse_max_streams"
  "map_of FRAME_PARSERS 19 = Some parse_max_streams"
  "map_of FRAME_PARSERS 20 = Some parse_data_blocked"
  "map_of FRAME_PARSERS 21 = Some parse_stream_data_blocked"
  "map_of FRAME_PARSERS 22 = Some parse_streams_blocked"
  "map_of FRAME_PARSERS 23 = Some parse_streams_blocked"
  "map_of FRAME_PARSERS 24 = Some parse_new_connection_id"
  "map_of FRAME_PARSERS 25 = Some parse_retire_connection_id"
  "map_of FRAME_PARSERS 26 = Some parse_path_challenge"
  "map_of FRAME_PARSERS 27 = Some parse_path_response"
  "map_of FRAME_PARSERS 28 = Some parse_connection_close"
  "map_of FRAME_PARSERS 29 = Some parse_connection_close"
  "map_of FRAME_PARSERS 30 = Some parse_handshake_done"
  "map_of FRAME_PARSERS 49 = Some parse_datagram"
  by (simp_all add: FRAME_PARSERS_def upto.simps)

lemma parse_frame_at:
  assumes "varint_ok t" "map_of FRAME_PARSERS t = Some parser"
  shows "parse_frame (buf_at pre (varint t @ rest)) = parser t (buf_at (pre @ varint t) rest)"
  using assms by (simp add: parse_frame_def pull_varint_at)

lemma catE_append: "catE (xs @ ys) = bindE (catE xs) (\<lambda>x. bindE (catE ys) (\<lambda>y. Inr (x @ y)))"
  by (induction xs) (auto simp: bindE_def split: sum.splits)

lemma parse_ack_ranges_at:
  assumes "ranges_ok low rs" "low \<le> VARINT_MAX"
  obtains bs where "catE (encode_ack_ranges low rs) = Inr bs"
    "\<And>pre rest. parse_ack_ranges (length rs) low (buf_at pre (bs @ rest)) = (Inr rs, buf_at (pre @ bs) rest)"
proof -
  have "\<exists>bs. catE (encode_ack_ranges low rs) = Inr bs \<and>
    (\<forall>pre rest. parse_ack_ranges (length rs) low (buf_at pre (bs @ rest)) = (Inr rs, buf_at (pre @ bs) rest))"
    using assms
  proof (induction low rs rule: ranges_ok.induct)
    case (2 previous_low low high ranges)
    then obtain bs where bs: "catE (encode_ack_ranges low ranges) = Inr bs"
      "\<And>pre rest. parse_ack_ranges (length ranges) low (buf_at pre (bs @ rest)) = (Inr ranges, buf_at (pre @ bs) rest)"
      by auto
    have "varint_ok (previous_low - high - 2)" "varint_ok (high - low)"
      using 2 by (auto simp: varint_ok_def)
    with bs 2 show ?case
      by (auto simp: Let_def wire_simps)
  qed auto
  with that show ?thesis by blast
qed

lemma hd_varint [simp]: "0 < t \<Longrightarrow> t < 64 \<Longrightarrow> hd (varint t) \<noteq> 0"
  by (rule varint_cases [of t])
    (auto simp: varint_ok_def VARINT_MAX_def to_be.simps word_of_int_eq_0_iff dest: zdvd_imp_le)

lemma parse_frame_ack:
  assumes "frame_ok (Ack a)"
  shows "\<exists>bs. encode (Ack a) = Inr bs \<and> bs \<noteq> [] \<and> hd bs \<noteq> 0
    \<and> (\<forall>pre rest. parse_frame (buf_at pre (bs @ rest)) = (Inr (Ack a), buf_at (pre @ bs) rest))"
proof -
  from assms obtain largest delay low rs ecn where
    a: "a = \<lparr>ack_largest = largest, ack_delay = delay, ack_ranges = (low, largest) # rs, ack_ecn = ecn\<rparr>"
    by (cases a) (auto simp: frame_ok_def ack_wf_def neq_Nil_conv)
  have ok: "varint_ok largest" "varint_ok delay" "varint_ok (len rs)" "varint_ok (largest - low)"
    "0 \<le> low" "ranges_ok low rs" "low \<le> VARINT_MAX"
    using assms by (auto simp: a frame_ok_def ack_wf_def varint_ok_def)
  from ok(6,7) obtain bs where bs: "catE (encode_ack_ranges low rs) = Inr bs"
    "\<And>pre rest. parse_ack_ranges (length rs) low (buf_at pre (bs @ rest)) = (Inr rs, buf_at (pre @ bs) rest)"
    by (rule parse_ack_ranges_at) blast
  show ?thesis
  proof (cases ecn)
    case None
    with ok bs show ?thesis
      by (auto simp: a encode_ack_def catE_append parse_frame_at parse_ack_def wire_simps Let_def)
  next
    case (Some e)
    moreover have "varint_ok (ect0 e)" "varint_ok (ect1 e)" "varint_ok (ce e)"
      using assms Some by (auto simp: a frame_ok_def ack_wf_def ecn_wf_def)
    ultimately show ?thesis using ok bs
      by (auto simp: a encode_ack_def catE_append parse_frame_at parse_ack_def wire_simps Let_def)
  qed
qed

lemma parse_frame_stream:
  assumes "frame_ok (Stream f)"
  shows "\<exists>bs. encode (Stream f) = Inr bs \<and> bs \<noteq> [] \<and> hd bs \<noteq> 0
    \<and> (\<forall>pre rest. parse_frame (buf_at pre (bs @ rest)) = (Inr (Stream f), buf_at (pre @ bs) rest))"
  using assms
  by (cases f)
    (auto simp: frame_ok_def encode_stream_def Let_def parse_frame_at parse_stream_def wire_simps)

text \<open>Every frame but padding, whatever follows it.\<close>

lemma parse_frame_encode:
  assumes "frame_ok f" "\<not> is_Padding f"
  shows "\<exists>bs. encode f = Inr bs \<and> bs \<noteq> [] \<and> hd bs \<noteq> 0
    \<and> (\<forall>pre rest. parse_frame (buf_at pre (bs @ rest)) = (Inr f, buf_at (pre @ bs) rest))"
proof (cases f)
  case (Ack a)
  with assms parse_frame_ack show ?thesis by simp
next
  case (Stream s)
  with assms parse_frame_stream show ?thesis by simp
next
  case Ping
  have "varint 1 = [1]" by code_simp
  with parse_frame_at [of 1 parse_ping] show ?thesis
    by (simp add: Ping byte1_def parse_ping_def encode_ping_def)
next
  case (ConnectionClose c)
  with assms show ?thesis
    by (cases c)
      (auto simp: frame_ok_def encode_connection_close_def parse_frame_at parse_connection_close_def
        wire_simps split: option.splits)
qed (use assms in \<open>auto simp: frame_ok_def parse_frame_at wire_simps encode_crypto_def encode_defs byte1_def
    parse_reset_stream_def parse_stop_sending_def parse_crypto_def parse_new_token_def
    parse_max_data_def parse_max_stream_data_def parse_max_streams_def parse_data_blocked_def
    parse_stream_data_blocked_def parse_streams_blocked_def parse_new_connection_id_def
    parse_retire_connection_id_def parse_path_challenge_def parse_path_response_def
    parse_handshake_done_def parse_datagram_def\<close>)

lemma parse_frame_padding:
  assumes "1 \<le> n" "rest = [] \<or> hd rest \<noteq> 0"
  shows "parse_frame (buf_at pre (replicate (nat n) 0 @ rest))
    = (Inr (Padding n), buf_at (pre @ replicate (nat n) 0) rest)"
proof -
  have "varint 0 = [0]" by code_simp
  moreover have "nat n = Suc (nat (n - 1))" using assms by simp
  ultimately show ?thesis
    using parse_frame_at [of 0 parse_padding pre "replicate (nat (n - 1)) 0 @ rest"] assms
    by (simp add: parse_padding_def parse_padding_loop_at)
qed

lemma pull_all_frames:
  assumes "list_all frame_ok fs" "no_adjacent_padding fs"
  shows "\<exists>bss. mapE encode fs = Inr bss
    \<and> (fs \<noteq> [] \<longrightarrow> concat bss \<noteq> [] \<and> (hd (concat bss) = 0 \<longrightarrow> is_Padding (hd fs)))
    \<and> (\<forall>pre. pull_all parse_frame (buf_at pre (concat bss)) = (Inr fs, buf_at (pre @ concat bss) []))"
  using assms
proof (induction fs)
  case Nil
  then show ?case by (simp add: pull_all.simps)
next
  case (Cons f fs)
  then obtain bss where bss: "mapE encode fs = Inr bss"
      "fs \<noteq> [] \<Longrightarrow> concat bss \<noteq> [] \<and> (hd (concat bss) = 0 \<longrightarrow> is_Padding (hd fs))"
      "\<And>pre. pull_all parse_frame (buf_at pre (concat bss)) = (Inr fs, buf_at (pre @ concat bss) [])"
    by (cases fs) auto
  obtain bs where bs: "encode f = Inr bs" "bs \<noteq> []" "hd bs = 0 \<longrightarrow> is_Padding f"
    "\<And>pre. parse_frame (buf_at pre (bs @ concat bss)) = (Inr f, buf_at (pre @ bs) (concat bss))"
  proof (cases "is_Padding f")
    case True
    then obtain n where n: "f = Padding n" "1 \<le> n"
      using Cons.prems by (cases f) (auto simp: frame_ok_def)
    have "concat bss = [] \<or> hd (concat bss) \<noteq> 0"
      using bss True Cons.prems(2) by (cases fs) auto
    with n that [of "replicate (nat n) 0"] show ?thesis
      by (simp add: parse_frame_padding encode_padding_def)
  next
    case False
    with Cons.prems parse_frame_encode [of f] that show ?thesis by auto
  qed
  then have "pull_all parse_frame (buf_at pre (bs @ concat bss)) = (Inr (f # fs), buf_at (pre @ bs @ concat bss) [])" for pre
    by (simp add: pull_all.simps [of parse_frame "buf_at pre (bs @ concat bss)"] bss(3))
  with bs bss(1) show ?case by simp
qed


section \<open>Parsing arbitrary payloads\<close>

abbreviation frame_errors :: "exn set" where
  "frame_errors \<equiv> {FrameParseError, BufferReadError}"

lemma reader_parse_padding [wire_errors]: "reader frame_errors frame_wf (parse_padding t)"
  unfolding parse_padding_def
proof (rule reader_bindS)
  show "reader frame_errors (\<lambda>n. 1 \<le> n) (parse_padding_loop 1)"
    unfolding reader_def
  proof (intro allI impI)
    fix b r b'
    assume "buf_wf b" and eq: "parse_padding_loop 1 b = (r, b')"
    from this(1) obtain pre rest where b: "b = buf_at pre rest" by (rule buf_wf_cases)
    define k where "k = length (takeWhile (\<lambda>x. x = 0) rest)"
    have "takeWhile (\<lambda>x. x = 0) rest = replicate k 0"
      unfolding k_def by (induction rest) auto
    then have rest: "rest = replicate k 0 @ dropWhile (\<lambda>x. x = 0) rest"
      using takeWhile_dropWhile_id [of "\<lambda>x. x = 0" rest] by simp
    have "dropWhile (\<lambda>x. x = 0) rest = [] \<or> hd (dropWhile (\<lambda>x. x = 0) rest) \<noteq> 0"
      using hd_dropWhile [of "\<lambda>x. x = 0" rest] by auto
    from parse_padding_loop_at [OF this, of 1 pre k] eq
    show "buf_wf b' \<and> buf_data b' = buf_data b \<and> buf_position b \<le> buf_position b' \<and>
      (case r of Inl e \<Rightarrow> e \<in> frame_errors | Inr x \<Rightarrow> 1 \<le> x)"
      unfolding b rest [symmetric] using rest by auto
  qed
qed (simp add: reader_retS)

lemma reader_parse_ack_ranges [wire_errors]:
  "reader frame_errors (ranges_ok low) (parse_ack_ranges n low)"
proof (induction n arbitrary: low)
  case (Suc n)
  show ?case
    unfolding parse_ack_ranges.simps Let_def
    by (rule reader_bindS reader_if wire_errors Suc.IH | auto simp: varint_ok_def)+
qed (simp add: reader_retS)

lemma reader_ecn:
  "reader frame_errors ecn_wf
    (if t = ACK_ECN_TYPE
     then bindS pull_varint (\<lambda>e0. bindS pull_varint (\<lambda>e1. bindS pull_varint (\<lambda>c.
       retS (Some \<lparr>ect0 = e0, ect1 = e1, ce = c\<rparr>))))
     else retS None)"
  by (rule reader_if reader_bindS wire_errors | simp add: ecn_wf_def)+

lemma reader_parse_ack [wire_errors]: "reader frame_errors frame_wf (parse_ack t)"
  unfolding parse_ack_def Let_def
  by (rule reader_ecn reader_bindS reader_if wire_errors | simp add: ack_wf_def varint_ok_def)+

lemma reader_if_varint:
  "reader frame_errors varint_ok (if c then pull_varint else retS 0)"
  by (rule reader_if wire_errors | simp)+

lemma reader_length_prefixed:
  "reader frame_errors (\<lambda>_. True) (bindS pull_varint pull_bytes)"
  "reader frame_errors (\<lambda>_. True) (bindS (getS remaining) pull_bytes)"
  by (rule reader_bindS reader_weaken [OF reader_pull_bytes] wire_errors | simp add: varint_ok_def)+

lemma reader_parse_stream [wire_errors]: "reader frame_errors frame_wf (parse_stream t)"
  unfolding parse_stream_def
  by (rule reader_if_varint reader_length_prefixed
      reader_bindS [where p = "if t AND 2 \<noteq> 0 then q else r" and P = "\<lambda>_. True" for q r]
      reader_bindS reader_if wire_errors | simp)+

lemma reader_parse_connection_close [wire_errors]:
  "reader frame_errors frame_wf (parse_connection_close t)"
  unfolding parse_connection_close_def
  by (rule reader_bindS [where p = "if t = 0x1C then q else r"
        and P = "\<lambda>t. case t of None \<Rightarrow> True | Some t \<Rightarrow> varint_ok t" for q r]
      reader_bindS reader_if wire_errors | simp add: varint_ok_nonneg)+

lemma reader_parse_datagram [wire_errors]: "reader frame_errors frame_wf (parse_datagram t)"
  unfolding parse_datagram_def
  by (rule reader_length_prefixed reader_bindS reader_if wire_errors | simp)+

lemma reader_parse_simple [wire_errors]:
  "reader frame_errors frame_wf (parse_ping t)"
  "reader frame_errors frame_wf (parse_reset_stream t)"
  "reader frame_errors frame_wf (parse_stop_sending t)"
  "reader frame_errors frame_wf (parse_crypto t)"
  "reader frame_errors frame_wf (parse_new_token t)"
  "reader frame_errors frame_wf (parse_max_data t)"
  "reader frame_errors frame_wf (parse_max_stream_data t)"
  "reader frame_errors frame_wf (parse_max_streams t)"
  "reader frame_errors frame_wf (parse_data_blocked t)"
  "reader frame_errors frame_wf (parse_stream_data_blocked t)"
  "reader frame_errors frame_wf (parse_streams_blocked t)"
  "reader frame_errors frame_wf (parse_new_connection_id t)"
  "reader frame_errors frame_wf (parse_retire_connection_id t)"
  "reader frame_errors frame_wf (parse_path_challenge t)"
  "reader frame_errors frame_wf (parse_path_response t)"
  "reader frame_errors frame_wf (parse_handshake_done t)"
  unfolding parse_ping_def parse_reset_stream_def parse_stop_sending_def parse_crypto_def
    parse_new_token_def parse_max_data_def parse_max_stream_data_def parse_max_streams_def
    parse_data_blocked_def parse_stream_data_blocked_def parse_streams_blocked_def
    parse_new_connection_id_def parse_retire_connection_id_def parse_path_challenge_def
    parse_path_response_def parse_handshake_done_def
  by (rule reader_bindS wire_errors | simp add: varint_ok_nonneg)+

lemma reader_frame_parser: "map_of FRAME_PARSERS t = Some parser \<Longrightarrow> reader frame_errors frame_wf (parser t)"
  by (drule map_of_SomeD) (auto simp: FRAME_PARSERS_def intro: wire_errors)

lemma reader_parse_frame: "reader frame_errors frame_wf parse_frame"
  unfolding parse_frame_def
proof (rule reader_bindS reader_if wire_errors encode_varint_ok | assumption | simp)+
  fix t
  show "reader frame_errors frame_wf
    (case map_of FRAME_PARSERS t of None \<Rightarrow> raiseS FrameParseError | Some parser \<Rightarrow> parser t)"
    by (cases "map_of FRAME_PARSERS t") (auto intro: wire_errors reader_frame_parser)
qed

lemma parse_frame_advances:
  assumes "buf_wf b" "parse_frame b = (Inr f, b')"
  shows "buf_position b < buf_position b'"
proof -
  from assms(2) obtain t b1 parser where t: "pull_varint b = (Inr t, b1)"
      and parser: "map_of FRAME_PARSERS t = Some parser" "parser t b1 = (Inr f, b')"
    by (auto simp: parse_frame_def bindS_Inr_iff split: if_splits option.splits)
  have "buf_wf b1"
    using readerD_Inr [OF reader_pull_varint assms(1) t] by simp
  with readerD_Inr [OF reader_frame_parser [OF parser(1)] _ parser(2)]
  have "buf_position b1 \<le> buf_position b'" by simp
  with pull_varint_advances [OF t] show ?thesis by simp
qed

interpretation frame_items: item_reader parse_frame frame_errors frame_wf
  by unfold_locales (use reader_parse_frame parse_frame_advances in blast)+


section \<open>Correctness of the frame codec\<close>

text \<open>What the reader makes of a list of frames: a run of padding is one frame.\<close>

fun merge_padding :: "frame list \<Rightarrow> frame list" where
  "merge_padding [] = []"
| "merge_padding (Padding n # fs) =
     (case merge_padding fs of Padding m # gs \<Rightarrow> Padding (n + m) # gs | gs \<Rightarrow> Padding n # gs)"
| "merge_padding (f # fs) = f # merge_padding fs"

lemma merge_padding_Cons: "\<not> is_Padding f \<Longrightarrow> merge_padding (f # fs) = f # merge_padding fs"
  by (cases f) simp_all

lemma merge_padding_Padding:
  obtains (run) m gs where "merge_padding fs = Padding m # gs" "merge_padding (Padding n # fs) = Padding (n + m) # gs"
  | (single) "merge_padding fs = [] \<or> \<not> is_Padding (hd (merge_padding fs))" "merge_padding (Padding n # fs) = Padding n # merge_padding fs"
proof (cases "merge_padding fs")
  case (Cons g gs)
  then show ?thesis using run single by (cases g) simp_all
qed (use single in simp)

lemma merge_padding_Nil_iff [simp]: "merge_padding fs = [] \<longleftrightarrow> fs = []"
  by (induction fs rule: merge_padding.induct) (auto split: list.split frame.split)

lemma no_adjacent_padding_Cons:
  "no_adjacent_padding (f # fs) \<longleftrightarrow> (fs = [] \<or> \<not> (is_Padding f \<and> is_Padding (hd fs))) \<and> no_adjacent_padding fs"
  by (cases fs) auto

lemma merge_padding_ok:
  "list_all frame_ok fs \<Longrightarrow> list_all frame_ok (merge_padding fs) \<and> no_adjacent_padding (merge_padding fs)
    \<and> (\<forall>bss. mapE encode (merge_padding fs) = Inr bss \<longrightarrow> (\<exists>bss'. mapE encode fs = Inr bss' \<and> concat bss' = concat bss))"
proof (induction fs)
  case (Cons f fs)
  then have IH: "list_all frame_ok (merge_padding fs)" "no_adjacent_padding (merge_padding fs)"
    "\<And>bss. mapE encode (merge_padding fs) = Inr bss \<Longrightarrow> \<exists>bss'. mapE encode fs = Inr bss' \<and> concat bss' = concat bss"
    by simp_all
  show ?case
  proof (cases "is_Padding f")
    case True
    then obtain n where n: "f = Padding n" "1 \<le> n" using Cons.prems by (cases f) (auto simp: frame_ok_def)
    show ?thesis
    proof (rule merge_padding_Padding [of fs n])
      fix m gs
      assume run: "merge_padding fs = Padding m # gs" "merge_padding (Padding n # fs) = Padding (n + m) # gs"
      then have m: "1 \<le> m" using IH(1) by (simp add: frame_ok_def)
      have "\<exists>bss'. mapE encode (f # fs) = Inr bss' \<and> concat bss' = concat bss"
        if "mapE encode (Padding (n + m) # gs) = Inr bss" for bss
      proof -
        from that n(2) m obtain cs where cs: "mapE encode gs = Inr cs" "bss = replicate (nat (n + m)) 0 # cs"
          by (auto simp: bindE_Inr_iff encode_padding_def)
        then have "mapE encode (merge_padding fs) = Inr (replicate (nat m) 0 # cs)"
          using m by (simp add: run(1) encode_padding_def)
        from IH(3) [OF this] obtain bss' where "mapE encode fs = Inr bss'" "concat bss' = replicate (nat m) 0 @ concat cs" by auto
        with n m cs show ?thesis
          by (simp add: encode_padding_def nat_add_distrib replicate_add)
      qed
      moreover have "list_all frame_ok (Padding (n + m) # gs)" "no_adjacent_padding (Padding (n + m) # gs)"
        using IH(1,2) n m by (simp_all add: run(1) no_adjacent_padding_Cons frame_ok_def [of "Padding _"])
      ultimately show ?thesis by (simp only: n(1) run(2)) blast
    next
      assume single: "merge_padding fs = [] \<or> \<not> is_Padding (hd (merge_padding fs))" "merge_padding (Padding n # fs) = Padding n # merge_padding fs"
      have "list_all frame_ok (Padding n # merge_padding fs)" "no_adjacent_padding (Padding n # merge_padding fs)"
        using IH(1,2) n single(1) by (auto simp: no_adjacent_padding_Cons frame_ok_def [of "Padding _"])
      moreover have "\<exists>bss'. mapE encode (f # fs) = Inr bss' \<and> concat bss' = concat bss"
        if "mapE encode (Padding n # merge_padding fs) = Inr bss" for bss
        using that IH(3) n by (auto simp: bindE_Inr_iff)
      ultimately show ?thesis by (simp only: n(1) single(2)) blast
    qed
  next
    case False
    with IH Cons.prems show ?thesis
      by (auto simp: merge_padding_Cons no_adjacent_padding_Cons bindE_Inr_iff)
  qed
qed simp

lemma merge_padding_id: "no_adjacent_padding fs \<Longrightarrow> merge_padding fs = fs"
proof (induction fs)
  case (Cons f fs)
  then show ?case by (cases f; cases fs) (auto simp: no_adjacent_padding_Cons split: frame.split)
qed simp

text \<open>
  C18: a payload made of the encodings of well-formed frames parses back to those frames, in order,
  with each run of adjacent padding frames merged into one; so to exactly the same list when no two
  padding frames stand next to each other. The empty payload raises \<open>FrameParseError\<close>.
\<close>

theorem parse_frames_roundtrip:
  assumes "list_all frame_ok fs"
  shows "\<exists>bss. mapE encode fs = Inr bss
    \<and> parse_frames (concat bss) = (if fs = [] then Inl FrameParseError else Inr (merge_padding fs))
    \<and> (no_adjacent_padding fs \<longrightarrow> merge_padding fs = fs)"
proof -
  have ok: "list_all frame_ok (merge_padding fs)" "no_adjacent_padding (merge_padding fs)"
    using merge_padding_ok [OF assms] by simp_all
  from pull_all_frames [OF ok] obtain bss where bss: "mapE encode (merge_padding fs) = Inr bss"
    "fs \<noteq> [] \<longrightarrow> concat bss \<noteq> []"
    "\<forall>pre. pull_all parse_frame (buf_at pre (concat bss)) = (Inr (merge_padding fs), buf_at (pre @ concat bss) [])"
    by (metis merge_padding_Nil_iff)
  from bss(1) merge_padding_ok [OF assms] obtain bss' where "mapE encode fs = Inr bss'" "concat bss' = concat bss" by blast
  with bss merge_padding_id [of fs] show ?thesis
    by (cases "fs = []") (simp_all add: parse_frames_def mk_buffer_at del: concat_eq_Nil_conv)
qed

theorem parse_frames_roundtrip_witness:
  "let fs = [Ack \<lparr>ack_largest = 9, ack_delay = 70, ack_ranges = [(7, 9), (2, 4)], ack_ecn = None\<rparr>,
             Stream \<lparr>stream_id = 4, stream_offset = 300, stream_data = [1, 2], stream_fin = True\<rparr>,
             Padding 3, Padding 2, Ping]
   in \<exists>bss. mapE encode fs = Inr bss \<and> parse_frames (concat bss) = Inr (take 2 fs @ [Padding 5, Ping])"
  unfolding Let_def
  using parse_frames_roundtrip [of "[Ack \<lparr>ack_largest = 9, ack_delay = 70, ack_ranges = [(7, 9), (2, 4)], ack_ecn = None\<rparr>,
    Stream \<lparr>stream_id = 4, stream_offset = 300, stream_data = [1, 2], stream_fin = True\<rparr>, Padding 3, Padding 2, Ping]"]
  by (simp add: frame_ok_def ack_wf_def ecn_wf_def)

text \<open>
  C26: parsing is total on arbitrary bytes. A payload either raises one of the two
  exceptions \<open>connection.py\<close> maps to \<open>FRAME_ENCODING_ERROR\<close>, or gives frames that are
  all well formed: in particular every ACK names descending, disjoint ranges of
  non-negative packet numbers, the first of which ends at the largest acknowledged.
\<close>

theorem parse_frames_total:
  "case parse_frames payload of
     Inl e \<Rightarrow> e \<in> {FrameParseError, BufferReadError}
   | Inr fs \<Rightarrow> list_all frame_wf fs"
  using frame_items.pull_all_result [OF buf_wf_mk, of payload]
  by (auto simp: parse_frames_def)

end
