(* ===== verification/Range_Set.thy ===== *)
theory Range_Set
  imports Dsquic_Prelude "HOL-Library.Product_Lexorder"
begin

text \<open>
  \<open>RangeSet\<close> of \<open>src/dsquic/streams.py\<close>: merged, sorted, half-open integer ranges, the
  bookkeeping of reassembly, acknowledgement tracking and packet number records.

  The locale \<open>range_set\<close> is what its clients rely on: the ranges denote a set of integers,
  \<open>add\<close> unites it with a range, and \<open>contiguous_from\<close> is the end of unbroken coverage.
  \<open>RangeSet\<close> is its interpretation on the list the code keeps.
\<close>

section \<open>Model\<close>

type_synonym range_list = "(int \<times> int) list"

fun rs_add_loop :: "range_list \<Rightarrow> range_list \<Rightarrow> int \<Rightarrow> int \<Rightarrow> range_list \<times> int \<times> int" where
  "rs_add_loop [] merged start stop = (merged, start, stop)"
| "rs_add_loop ((existing_start, existing_end) # ranges) merged start stop =
     (if existing_end < start \<or> stop < existing_start
      then rs_add_loop ranges (merged @ [(existing_start, existing_end)]) start stop
      else rs_add_loop ranges merged (min start existing_start) (max stop existing_end))"

definition rs_add :: "int \<Rightarrow> int \<Rightarrow> range_list \<Rightarrow> range_list" where
  "rs_add start stop ranges =
     (if start \<ge> stop then ranges
      else case rs_add_loop ranges [] start stop of
          (merged, start, stop) \<Rightarrow> sort (merged @ [(start, stop)]))"

fun rs_contiguous_from :: "range_list \<Rightarrow> int \<Rightarrow> int" where
  "rs_contiguous_from [] start = start"
| "rs_contiguous_from ((existing_start, existing_end) # ranges) start =
     (if existing_start \<le> start \<and> start < existing_end then existing_end
      else rs_contiguous_from ranges start)"

definition rs_covers :: "range_list \<Rightarrow> int \<Rightarrow> int \<Rightarrow> bool" where
  "rs_covers ranges start stop \<longleftrightarrow> rs_contiguous_from ranges start \<ge> stop"


section \<open>The interface\<close>

locale range_set =
  fixes add :: "int \<Rightarrow> int \<Rightarrow> 'r \<Rightarrow> 'r"
    and contiguous_from :: "'r \<Rightarrow> int \<Rightarrow> int"
    and covers :: "'r \<Rightarrow> int \<Rightarrow> int \<Rightarrow> bool"
    and empty :: 'r
    and \<alpha> :: "'r \<Rightarrow> int set"
    and inv :: "'r \<Rightarrow> bool"
  assumes empty_inv: "inv empty" and empty_abs: "\<alpha> empty = {}"
    and add_inv: "inv r \<Longrightarrow> inv (add s e r)"
    and add_abs: "inv r \<Longrightarrow> \<alpha> (add s e r) = \<alpha> r \<union> {s..<e}"
    and contiguous_ge: "inv r \<Longrightarrow> s \<le> contiguous_from r s"
    and contiguous_in: "inv r \<Longrightarrow> s \<le> i \<Longrightarrow> i < contiguous_from r s \<Longrightarrow> i \<in> \<alpha> r"
    and contiguous_out: "inv r \<Longrightarrow> contiguous_from r s \<notin> \<alpha> r"
    and covers_eq: "covers r s e \<longleftrightarrow> contiguous_from r s \<ge> e"
begin

lemma covers_abs: "inv r \<Longrightarrow> covers r s e \<longleftrightarrow> {s..<e} \<subseteq> \<alpha> r"
proof
  assume r: "inv r" and sub: "{s..<e} \<subseteq> \<alpha> r"
  show "covers r s e"
    using contiguous_out [OF r, of s] contiguous_ge [OF r, of s] sub
    by (auto simp: covers_eq) (meson atLeastLessThan_iff not_le subsetD)
qed (auto simp: covers_eq intro: contiguous_in)

lemma contiguous_mono:
  assumes "inv r" "inv r'" "\<alpha> r \<subseteq> \<alpha> r'"
  shows "contiguous_from r s \<le> contiguous_from r' s"
proof (rule ccontr)
  assume "\<not> contiguous_from r s \<le> contiguous_from r' s"
  then have "contiguous_from r' s \<in> \<alpha> r"
    using assms contiguous_ge [of r' s] by (intro contiguous_in) auto
  with assms contiguous_out [of r' s] show False by auto
qed

lemma contiguous_unique:
  assumes "inv r" "s \<le> e" "{s..<e} \<subseteq> \<alpha> r" "e \<notin> \<alpha> r"
  shows "contiguous_from r s = e"
proof (rule antisym)
  show "contiguous_from r s \<le> e"
    using contiguous_in [OF assms(1,2)] assms(4) by fastforce
  show "e \<le> contiguous_from r s"
    using covers_abs [OF assms(1), of s e] assms(3) by (simp add: covers_eq)
qed

lemma contiguous_idem:
  "inv r \<Longrightarrow> contiguous_from r (contiguous_from r s) = contiguous_from r s"
  by (rule contiguous_unique) (auto dest: contiguous_out)

lemma covers_add: "inv r \<Longrightarrow> covers (add s e r) s e"
  by (simp add: covers_abs add_inv add_abs)

text \<open>The order of additions, and repeating one, makes no difference to coverage.\<close>

lemma covers_add_commute:
  "inv r \<Longrightarrow> covers (add s e (add s' e' r)) a b \<longleftrightarrow> covers (add s' e' (add s e r)) a b"
  by (simp add: covers_abs add_inv add_abs Un_ac)

end


section \<open>The list implements the interface\<close>

definition rs_abs :: "range_list \<Rightarrow> int set" where
  "rs_abs ranges = (\<Union>(a, b) \<in> set ranges. {a..<b})"

text \<open>Ranges are non-empty, ascending, and do not even touch.\<close>

definition rs_inv :: "range_list \<Rightarrow> bool" where
  "rs_inv ranges \<longleftrightarrow>
     (\<forall>(a, b) \<in> set ranges. a < b) \<and> sorted_wrt (\<lambda>p q. snd p < fst q) ranges"

text \<open>The state of the loop: the ranges kept so far stand apart from the growing one.\<close>

definition loop_inv :: "range_list \<Rightarrow> range_list \<Rightarrow> int \<Rightarrow> int \<Rightarrow> bool" where
  "loop_inv ranges merged start stop \<longleftrightarrow>
     rs_inv (merged @ ranges) \<and> start < stop
     \<and> (\<forall>(a, b) \<in> set merged. b < start \<or> stop < a)"

lemma rs_add_loop_correct:
  assumes "loop_inv ranges merged start stop"
    and "rs_add_loop ranges merged start stop = (merged', start', stop')"
  shows "loop_inv [] merged' start' stop'
    \<and> rs_abs merged' \<union> {start'..<stop'} = rs_abs (merged @ ranges) \<union> {start..<stop}"
  using assms
proof (induction ranges merged start stop rule: rs_add_loop.induct)
  case (1 merged start stop)
  then show ?case by simp
next
  case (2 a b ranges merged start stop)
  show ?case
  proof (cases "b < start \<or> stop < a")
    case True
    with 2 show ?thesis by (auto simp: loop_inv_def)
  next
    case False
    have inv: "rs_inv (merged @ ranges)" "start < stop" "a < b"
      using 2(3) by (auto simp: loop_inv_def rs_inv_def sorted_wrt_append)
    have "d < min start a \<or> max stop b < c" if "(c, d) \<in> set merged" for c d
    proof -
      have "c < d" "d < a" "d < start \<or> stop < c"
        using 2(3) that by (auto simp: loop_inv_def rs_inv_def sorted_wrt_append)
      with False show ?thesis by linarith
    qed
    with inv have "loop_inv ranges merged (min start a) (max stop b)"
      by (auto simp: loop_inv_def)
    moreover have "rs_abs (merged @ ranges) \<union> {min start a..<max stop b}
        = rs_abs (merged @ (a, b) # ranges) \<union> {start..<stop}"
      using inv(2,3) False by (auto simp: rs_abs_def)
    ultimately show ?thesis
      using 2(2,4) False by auto
  qed
qed

lemma sort_separated:
  assumes "\<forall>(a, b) \<in> set ps. a < b"
    and "pairwise (\<lambda>p q. snd p < fst q \<or> snd q < fst p) (set ps)" "distinct ps"
  shows "rs_inv (sort ps)"
proof -
  have "sorted_wrt (<) (sort ps)"
    using assms(3) by (simp add: strict_sorted_iff)
  then have "sorted_wrt (\<lambda>p q. snd p < fst q) (sort ps)"
  proof (rule sorted_wrt_mono_rel [rotated])
    fix p q assume *: "p \<in> set (sort ps)" "q \<in> set (sort ps)" "p < q"
    then have "snd p < fst q \<or> snd q < fst p"
      using assms(2) by (auto simp: pairwise_def)
    moreover have "fst p \<le> fst q"
      using *(3) by (auto simp: less_prod_def')
    moreover have "fst q < snd q"
      using *(2) assms(1) by (simp add: case_prod_beta)
    ultimately show "snd p < fst q" by linarith
  qed
  with assms(1) show ?thesis by (simp add: rs_inv_def)
qed

lemma rs_add_correct:
  assumes "rs_inv r"
  shows "rs_inv (rs_add s e r)" "rs_abs (rs_add s e r) = rs_abs r \<union> {s..<e}"
proof -
  have "rs_inv (rs_add s e r) \<and> rs_abs (rs_add s e r) = rs_abs r \<union> {s..<e}"
  proof (cases "s < e")
    case True
    obtain m s' e' where loop: "rs_add_loop r [] s e = (m, s', e')"
      by (cases "rs_add_loop r [] s e") auto
    have inv: "loop_inv [] m s' e'" and abs: "rs_abs m \<union> {s'..<e'} = rs_abs r \<union> {s..<e}"
      using rs_add_loop_correct [OF _ loop] assms True by (auto simp: loop_inv_def)
    have m: "a < b" "b < s' \<or> e' < a" if "(a, b) \<in> set m" for a b
      using inv that by (auto simp: loop_inv_def rs_inv_def)
    have "s' < e'" and sep: "sorted_wrt (\<lambda>p q. snd p < fst q) m"
      using inv by (auto simp: loop_inv_def rs_inv_def)
    have "sorted_wrt (\<lambda>p q. p \<noteq> q \<and> (snd p < fst q \<or> snd q < fst p)) m"
      using sep by (rule sorted_wrt_mono_rel [rotated]) (use m in fastforce)
    then have d: "distinct m" "pairwise (\<lambda>p q. snd p < fst q \<or> snd q < fst p) (set m)"
      by (induction m) (auto simp: pairwise_insert)
    have "rs_inv (sort (m @ [(s', e')]))"
    proof (rule sort_separated)
      show "\<forall>(a, b)\<in>set (m @ [(s', e')]). a < b" using m \<open>s' < e'\<close> by auto
      show "distinct (m @ [(s', e')])" using d m \<open>s' < e'\<close> by force
      show "pairwise (\<lambda>p q. snd p < fst q \<or> snd q < fst p) (set (m @ [(s', e')]))"
        using d m by (force simp: pairwise_insert)
    qed
    moreover have "rs_abs (sort (m @ [(s', e')])) = rs_abs r \<union> {s..<e}"
      using abs by (auto simp: rs_abs_def)
    ultimately show ?thesis using True by (simp add: rs_add_def loop)
  qed (use assms in \<open>simp add: rs_add_def\<close>)
  then show "rs_inv (rs_add s e r)" "rs_abs (rs_add s e r) = rs_abs r \<union> {s..<e}" by auto
qed

lemma rs_contiguous_from_cases:
  "rs_contiguous_from r s = s \<and> s \<notin> rs_abs r
   \<or> (\<exists>a. (a, rs_contiguous_from r s) \<in> set r \<and> a \<le> s \<and> s < rs_contiguous_from r s)"
  by (induction r s rule: rs_contiguous_from.induct) (auto simp: rs_abs_def)

lemma rs_inv_end_out:
  assumes "rs_inv r" "(a, b) \<in> set r"
  shows "b \<notin> rs_abs r"
proof
  assume "b \<in> rs_abs r"
  then obtain c d where cd: "(c, d) \<in> set r" "c \<le> b" "b < d" by (auto simp: rs_abs_def)
  from assms(2) obtain xs ys where r: "r = xs @ (a, b) # ys" by (meson split_list)
  from cd consider "(c, d) \<in> set xs" | "(c, d) \<in> set ys" by (auto simp: r)
  then show False
    using assms(1) cd by cases (auto simp: r rs_inv_def sorted_wrt_append)
qed

interpretation RangeSet: range_set rs_add rs_contiguous_from rs_covers "[]" rs_abs rs_inv
proof unfold_locales
  fix r s e i
  assume inv: "rs_inv r"
  show "rs_inv (rs_add s e r)" "rs_abs (rs_add s e r) = rs_abs r \<union> {s..<e}"
    using rs_add_correct [OF inv] by auto
  show "s \<le> rs_contiguous_from r s"
    using rs_contiguous_from_cases [of r s] by auto
  show "rs_contiguous_from r s \<notin> rs_abs r"
    using rs_contiguous_from_cases [of r s] rs_inv_end_out [OF inv] by auto
  assume "s \<le> i" "i < rs_contiguous_from r s"
  with rs_contiguous_from_cases [of r s] obtain a where
      "(a, rs_contiguous_from r s) \<in> set r" "a \<le> i" "i < rs_contiguous_from r s"
    by auto
  then show "i \<in> rs_abs r"
    unfolding rs_abs_def by (intro UN_I [of "(a, rs_contiguous_from r s)"]) auto
qed (auto simp: rs_inv_def rs_abs_def rs_covers_def)


section \<open>Correctness\<close>

definition rs_add_all :: "(int \<times> int) list \<Rightarrow> range_list \<Rightarrow> range_list" where
  "rs_add_all adds r = foldl (\<lambda>r (s, e). rs_add s e r) r adds"

definition added :: "(int \<times> int) list \<Rightarrow> int set" where
  "added adds = (\<Union>(s, e) \<in> set adds. {s..<e})"

lemma rs_add_all_correct:
  "rs_inv r \<Longrightarrow> rs_inv (rs_add_all adds r)
     \<and> rs_abs (rs_add_all adds r) = rs_abs r \<union> added adds"
  unfolding rs_add_all_def added_def
proof (induction adds arbitrary: r)
  case (Cons x adds)
  then show ?case
    using rs_add_correct [of r "fst x" "snd x"] by (auto simp: case_prod_beta)
qed simp

text \<open>
  C29: whatever ranges were added, in whatever order and however they overlap, the list
  stays merged, ascending and gap-separated, denotes exactly the union of the added
  ranges, and \<open>covers\<close> and \<open>contiguous_from\<close> answer for that union.
\<close>

theorem range_set_correct:
  "rs_inv (rs_add_all adds [])
    \<and> rs_abs (rs_add_all adds []) = added adds
    \<and> (rs_covers (rs_add_all adds []) start stop \<longleftrightarrow> {start..<stop} \<subseteq> added adds)
    \<and> start \<le> rs_contiguous_from (rs_add_all adds []) start
    \<and> {start..<rs_contiguous_from (rs_add_all adds []) start} \<subseteq> added adds
    \<and> rs_contiguous_from (rs_add_all adds []) start \<notin> added adds"
proof -
  have r: "rs_inv (rs_add_all adds [])" "rs_abs (rs_add_all adds []) = added adds"
    using rs_add_all_correct [of "[]" adds] RangeSet.empty_inv by (auto simp: rs_abs_def)
  then have "{start..<rs_contiguous_from (rs_add_all adds []) start} \<subseteq> added adds"
    using RangeSet.contiguous_in [OF r(1)] by auto
  with r show ?thesis
    using RangeSet.covers_abs [OF r(1)] RangeSet.contiguous_ge [OF r(1)]
      RangeSet.contiguous_out [OF r(1)] by simp
qed

end
