(* ===== verification/Streams.thy ===== *)
theory Streams
  imports Frames Range_Set
begin

text \<open>
  The two halves of a stream, \<open>SendStream\<close> and \<open>RecvStream\<close> of \<open>src/dsquic/streams.py\<close>
  (RFC 9000, sections 3 and 4).

  \<open>send_stream\<close> and \<open>recv_stream\<close> are the objects; each method is a function on the record.
  Offsets of STREAM frames are non-negative, as the parser delivers them. The comparison
  with half a window is written without the division. The invariants \<open>send_inv\<close> and
  \<open>recv_inv\<close> relate both halves to the byte string the application wrote.
\<close>

section \<open>Model\<close>

abbreviation (input) STREAM_SERVER_INITIATED_BIT :: int where "STREAM_SERVER_INITIATED_BIT \<equiv> 0x01"
abbreviation (input) STREAM_UNIDIRECTIONAL_BIT :: int where "STREAM_UNIDIRECTIONAL_BIT \<equiv> 0x02"

definition is_client_initiated :: "int \<Rightarrow> bool" where
  "is_client_initiated sid \<longleftrightarrow> sid AND STREAM_SERVER_INITIATED_BIT = 0"

definition is_bidirectional :: "int \<Rightarrow> bool" where
  "is_bidirectional sid \<longleftrightarrow> sid AND STREAM_UNIDIRECTIONAL_BIT = 0"

datatype send_state = READY | SEND | DATA_SENT | SEND_DATA_RECVD

datatype recv_state = RECV | SIZE_KNOWN | DATA_RECVD | DATA_READ

record send_stream =
  ss_stream_id :: int
  ss_max_stream_data :: int
  ss_state :: send_state
  ss_pending :: bytes
  ss_base_offset :: int
  ss_retransmit :: "stream list"
  ss_highest_offset_sent :: int
  ss_fin_queued :: bool
  ss_fin_sent :: bool
  ss_final_size :: "int option"
  ss_acked :: range_list
  ss_fin_acked :: bool

definition mk_send_stream :: "int \<Rightarrow> int \<Rightarrow> send_stream" where
  "mk_send_stream sid max_stream_data =
     \<lparr>ss_stream_id = sid, ss_max_stream_data = max_stream_data, ss_state = READY,
      ss_pending = [], ss_base_offset = 0, ss_retransmit = [], ss_highest_offset_sent = 0,
      ss_fin_queued = False, ss_fin_sent = False, ss_final_size = None, ss_acked = [],
      ss_fin_acked = False\<rparr>"

definition ss_write :: "bytes \<Rightarrow> bool \<Rightarrow> send_stream \<Rightarrow> send_stream result" where
  "ss_write data fin s =
     (if ss_fin_queued s then Inl ValueError
      else let s = s\<lparr>ss_pending := ss_pending s @ data\<rparr>
      in Inr (if fin
              then s\<lparr>ss_fin_queued := True, ss_final_size := Some (ss_base_offset s + len (ss_pending s))\<rparr>
              else s))"

definition ss_budget :: "int \<Rightarrow> int \<Rightarrow> send_stream \<Rightarrow> int" where
  "ss_budget max_bytes connection_credit s =
     (let budget = min (min (min (len (ss_pending s)) max_bytes) (ss_max_stream_data s - ss_base_offset s))
                     connection_credit
      in max budget 0)"

definition ss_new_frame :: "int \<Rightarrow> send_stream \<Rightarrow> stream option \<times> send_stream" where
  "ss_new_frame budget s =
     (let offset = ss_base_offset s;
          chunk = take (nat budget) (ss_pending s);
          fin_now = (ss_fin_queued s \<and> \<not> ss_fin_sent s \<and> budget = len (ss_pending s))
      in if chunk = [] \<and> \<not> fin_now then (None, s)
      else let s = s\<lparr>ss_pending := drop (nat budget) (ss_pending s),
                     ss_base_offset := ss_base_offset s + budget\<rparr>;
               s = (if fin_now then s\<lparr>ss_fin_sent := True\<rparr> else s);
               s = s\<lparr>ss_highest_offset_sent := max (ss_highest_offset_sent s) (offset + len chunk)\<rparr>;
               s = s\<lparr>ss_state := (if ss_fin_sent s then DATA_SENT else SEND)\<rparr>
      in (Some \<lparr>stream_id = ss_stream_id s, stream_offset = offset, stream_data = chunk,
                stream_fin = fin_now\<rparr>, s))"

definition ss_next_frame :: "int \<Rightarrow> int \<Rightarrow> send_stream \<Rightarrow> stream option \<times> send_stream" where
  "ss_next_frame max_bytes connection_credit s =
     (if ss_retransmit s \<noteq> [] \<and> len (stream_data (hd (ss_retransmit s))) \<le> max_bytes
      then (Some (hd (ss_retransmit s)), s\<lparr>ss_retransmit := tl (ss_retransmit s)\<rparr>)
      else ss_new_frame (ss_budget max_bytes connection_credit s) s)"

definition ss_on_max_stream_data :: "int \<Rightarrow> send_stream \<Rightarrow> send_stream" where
  "ss_on_max_stream_data maximum s = s\<lparr>ss_max_stream_data := max (ss_max_stream_data s) maximum\<rparr>"

definition ss_on_frame_acked :: "stream \<Rightarrow> send_stream \<Rightarrow> send_stream" where
  "ss_on_frame_acked frame s =
     (let s = s\<lparr>ss_acked := rs_add (stream_offset frame)
                  (stream_offset frame + len (stream_data frame)) (ss_acked s)\<rparr>;
          s = (if stream_fin frame then s\<lparr>ss_fin_acked := True\<rparr> else s)
      in if ss_fin_acked s
            \<and> (case ss_final_size s of None \<Rightarrow> False | Some n \<Rightarrow> rs_covers (ss_acked s) 0 n)
         then s\<lparr>ss_state := SEND_DATA_RECVD\<rparr> else s)"

definition ss_requeue :: "stream \<Rightarrow> send_stream \<Rightarrow> send_stream" where
  "ss_requeue frame s =
     (if stream_data frame \<noteq> [] \<or> stream_fin frame
      then s\<lparr>ss_retransmit := ss_retransmit s @ [frame]\<rparr> else s)"

definition ss_has_pending :: "send_stream \<Rightarrow> bool" where
  "ss_has_pending s \<longleftrightarrow>
     ss_retransmit s \<noteq> [] \<or> ss_pending s \<noteq> [] \<or> (ss_fin_queued s \<and> \<not> ss_fin_sent s)"

record recv_stream =
  rv_stream_id :: int
  rv_max_stream_data :: int
  rv_window :: int
  rv_state :: recv_state
  rv_buffer :: bytes
  rv_received :: range_list
  rv_read_offset :: int
  rv_final_size :: "int option"
  rv_highest_offset :: int

definition mk_recv_stream :: "int \<Rightarrow> int \<Rightarrow> recv_stream" where
  "mk_recv_stream sid max_stream_data =
     \<lparr>rv_stream_id = sid, rv_max_stream_data = max_stream_data, rv_window = max_stream_data,
      rv_state = RECV, rv_buffer = [], rv_received = [], rv_read_offset = 0,
      rv_final_size = None, rv_highest_offset = 0\<rparr>"

text \<open>\<open>buffer.extend(bytes(end - len(buffer)))\<close> followed by \<open>buffer[offset:end] = data\<close>.\<close>

definition splice :: "bytes \<Rightarrow> nat \<Rightarrow> bytes \<Rightarrow> bytes" where
  "splice buffer offset data =
     (let stop = offset + length data;
          buffer = (if length buffer < stop then buffer @ replicate (stop - length buffer) 0 else buffer)
      in take offset buffer @ data @ drop stop buffer)"

definition rv_accept :: "stream \<Rightarrow> recv_stream \<Rightarrow> recv_stream" where
  "rv_accept frame r =
     (let stop = stream_offset frame + len (stream_data frame);
          r = r\<lparr>rv_buffer := splice (rv_buffer r) (nat (stream_offset frame)) (stream_data frame),
                rv_received := rs_add (stream_offset frame) stop (rv_received r),
                rv_highest_offset := max (rv_highest_offset r) stop\<rparr>
      in case rv_final_size r of
           None \<Rightarrow> r
         | Some n \<Rightarrow> if rv_state r = DATA_READ then r
             else r\<lparr>rv_state := (if rs_covers (rv_received r) 0 n then DATA_RECVD else SIZE_KNOWN)\<rparr>)"

definition rv_on_stream_frame :: "stream \<Rightarrow> (recv_stream, unit) se" where
  "rv_on_stream_frame frame r =
     (let stop = stream_offset frame + len (stream_data frame)
      in if (case rv_final_size r of None \<Rightarrow> False
             | Some n \<Rightarrow> stop > n \<or> (stream_fin frame \<and> stop \<noteq> n))
         then (Inl (StreamError FINAL_SIZE_ERROR), r)
         else if stream_fin frame \<and> stop < rv_highest_offset r
         then (Inl (StreamError FINAL_SIZE_ERROR), r)
         else let r = (if stream_fin frame then r\<lparr>rv_final_size := Some stop\<rparr> else r)
         in if stop > rv_max_stream_data r then (Inl (StreamError FLOW_CONTROL_ERROR), r)
         else (Inr (), rv_accept frame r))"

definition rv_read :: "recv_stream \<Rightarrow> bytes \<times> recv_stream" where
  "rv_read r =
     (let readable_end = rs_contiguous_from (rv_received r) (rv_read_offset r);
          data = take (nat (readable_end - rv_read_offset r)) (drop (nat (rv_read_offset r)) (rv_buffer r));
          r = r\<lparr>rv_read_offset := readable_end\<rparr>
      in (data,
          if rv_final_size r = Some (rv_read_offset r) then r\<lparr>rv_state := DATA_READ\<rparr> else r))"

definition rv_credit_update :: "recv_stream \<Rightarrow> int option \<times> recv_stream" where
  "rv_credit_update r =
     (if rv_final_size r \<noteq> None then (None, r)
      else if 2 * (rv_max_stream_data r - rv_read_offset r) \<ge> rv_window r then (None, r)
      else let r = r\<lparr>rv_max_stream_data := rv_read_offset r + rv_window r\<rparr>
      in (Some (rv_max_stream_data r), r))"

definition rv_is_fully_read :: "recv_stream \<Rightarrow> bool" where
  "rv_is_fully_read r \<longleftrightarrow> rv_state r = DATA_READ"


section \<open>The sending half\<close>

text \<open>
  \<open>frame_of sid W sent fin f\<close>: the frame carries bytes of \<open>W\<close> below offset \<open>sent\<close>, and a FIN
  only if one was sent, at the end of \<open>W\<close>.
\<close>

definition frame_of :: "int \<Rightarrow> bytes \<Rightarrow> int \<Rightarrow> bool \<Rightarrow> stream \<Rightarrow> bool" where
  "frame_of sid W sent fin f \<longleftrightarrow>
     stream_id f = sid \<and> 0 \<le> stream_offset f
     \<and> stream_offset f + len (stream_data f) \<le> sent \<and> sent \<le> len W
     \<and> stream_data f = take (length (stream_data f)) (drop (nat (stream_offset f)) W)
     \<and> (stream_fin f \<longrightarrow> fin \<and> stream_offset f + len (stream_data f) = len W)"

definition send_inv :: "bytes \<Rightarrow> send_stream \<Rightarrow> bool" where
  "send_inv W s \<longleftrightarrow>
     0 \<le> ss_base_offset s \<and> ss_base_offset s \<le> len W
     \<and> ss_pending s = drop (nat (ss_base_offset s)) W
     \<and> ss_highest_offset_sent s = ss_base_offset s
     \<and> ss_base_offset s \<le> ss_max_stream_data s
     \<and> ss_final_size s = (if ss_fin_queued s then Some (len W) else None)
     \<and> (ss_fin_sent s \<longrightarrow> ss_fin_queued s \<and> ss_base_offset s = len W)
     \<and> list_all (frame_of (ss_stream_id s) W (ss_base_offset s) (ss_fin_sent s)) (ss_retransmit s)"

lemma send_inv_init: "0 \<le> m \<Longrightarrow> send_inv [] (mk_send_stream sid m)"
  by (simp add: send_inv_def mk_send_stream_def)

lemma ss_budget_bounds:
  "0 \<le> ss_budget mb cc s" "ss_budget mb cc s \<le> len (ss_pending s)"
  "ss_budget mb cc s \<le> max 0 mb" "ss_budget mb cc s \<le> max 0 cc"
  "ss_base_offset s \<le> ss_max_stream_data s \<Longrightarrow>
   ss_base_offset s + ss_budget mb cc s \<le> ss_max_stream_data s"
  unfolding ss_budget_def Let_def by linarith+

lemma frame_of_append:
  assumes "frame_of sid W sent False f"
  shows "frame_of sid (W @ data) sent fin f"
proof -
  have "nat (stream_offset f) \<le> length W" "length (stream_data f) \<le> length W - nat (stream_offset f)"
    using assms by (auto simp: frame_of_def)
  with assms show ?thesis by (auto simp: frame_of_def)
qed

lemma frame_of_mono:
  "frame_of sid W sent fin f \<Longrightarrow> sent \<le> sent' \<Longrightarrow> sent' \<le> len W \<Longrightarrow> (fin \<Longrightarrow> fin') \<Longrightarrow>
   frame_of sid W sent' fin' f"
  by (auto simp: frame_of_def)

lemma ss_write_inv:
  assumes "send_inv W s" "ss_write data fin s = Inr s'"
  shows "send_inv (W @ data) s' \<and> \<not> ss_fin_queued s \<and> ss_fin_queued s' = fin"
proof -
  have nf: "\<not> ss_fin_queued s" "\<not> ss_fin_sent s"
    using assms by (auto simp: ss_write_def send_inv_def split: if_splits)
  then have "list_all (frame_of (ss_stream_id s) (W @ data) (ss_base_offset s) False) (ss_retransmit s)"
    using assms(1) by (auto simp: send_inv_def list_all_iff intro: frame_of_append)
  with assms nf show ?thesis
    by (auto simp: send_inv_def ss_write_def Let_def nat_le_iff split: if_splits)
qed

lemma ss_next_frame_inv:
  assumes inv: "send_inv W s" and nf: "ss_next_frame mb cc s = (r, s')"
  shows "send_inv W s' \<and> ss_stream_id s' = ss_stream_id s
    \<and> ss_base_offset s \<le> ss_base_offset s' \<and> (ss_fin_sent s \<longrightarrow> ss_fin_sent s')
    \<and> ss_fin_queued s' = ss_fin_queued s
    \<and> (case r of None \<Rightarrow> s' = s | Some f \<Rightarrow>
        frame_of (ss_stream_id s) W (ss_base_offset s') (ss_fin_sent s') f
        \<and> len (stream_data f) \<le> max 0 mb
        \<and> ss_base_offset s' - ss_base_offset s \<le> max 0 cc)"
proof (cases "ss_retransmit s \<noteq> [] \<and> len (stream_data (hd (ss_retransmit s))) \<le> mb")
  case True
  then have "s' = s\<lparr>ss_retransmit := tl (ss_retransmit s)\<rparr>" "r = Some (hd (ss_retransmit s))"
    using nf by (simp_all add: ss_next_frame_def)
  with inv True show ?thesis
    by (cases "ss_retransmit s") (auto simp: send_inv_def)
next
  case False
  have I: "0 \<le> ss_base_offset s" "ss_base_offset s \<le> len W"
      "ss_base_offset s \<le> ss_max_stream_data s" "ss_pending s = drop (nat (ss_base_offset s)) W"
      "ss_fin_sent s \<longrightarrow> ss_fin_queued s \<and> ss_base_offset s = len W"
    using inv by (simp_all add: send_inv_def)
  then have plen: "len (ss_pending s) = len W - ss_base_offset s"
    by auto
  define b where "b = ss_budget mb cc s"
  define fin where "fin = (ss_fin_queued s \<and> \<not> ss_fin_sent s \<and> b = len (ss_pending s))"
  have b: "0 \<le> b" "b \<le> len (ss_pending s)" "b \<le> max 0 mb" "b \<le> max 0 cc"
      "ss_base_offset s + b \<le> ss_max_stream_data s" "ss_base_offset s + b \<le> len W"
    using ss_budget_bounds [where mb = mb and cc = cc and s = s] I(3) plen unfolding b_def by simp_all
  let ?chunk = "take (nat b) (ss_pending s)"
  have chunk: "len ?chunk = b" "?chunk = [] \<longleftrightarrow> b = 0"
    using b(1,2) by auto
  have slice: "?chunk = take (length ?chunk) (drop (nat (ss_base_offset s)) W)"
    using inv b(2) by (auto simp: send_inv_def min_def)
  have high: "ss_highest_offset_sent s = ss_base_offset s"
    using inv by (simp add: send_inv_def)
  have unfold: "ss_next_frame mb cc s =
     (if b = 0 \<and> \<not> fin then (None, s)
      else (Some \<lparr>stream_id = ss_stream_id s, stream_offset = ss_base_offset s, stream_data = ?chunk, stream_fin = fin\<rparr>,
        (if fin then s\<lparr>ss_fin_sent := True\<rparr> else s)\<lparr>ss_pending := drop (nat b) (ss_pending s),
          ss_base_offset := ss_base_offset s + b, ss_highest_offset_sent := ss_base_offset s + b,
          ss_state := (if ss_fin_sent s \<or> fin then DATA_SENT else SEND)\<rparr>))"
    unfolding ss_next_frame_def if_not_P [OF False] ss_new_frame_def Let_def b_def [symmetric]
      fin_def [symmetric] chunk
    using high b(1) by (cases fin) simp_all
  have mono: "list_all (frame_of (ss_stream_id s) W (ss_base_offset s + b) (ss_fin_sent s \<or> fin)) (ss_retransmit s)"
  proof (rule list.pred_mono_strong)
    show "list_all (frame_of (ss_stream_id s) W (ss_base_offset s) (ss_fin_sent s)) (ss_retransmit s)"
      using inv by (simp add: send_inv_def)
  qed (erule frame_of_mono, use b in auto)
  show ?thesis
  proof (cases "b = 0 \<and> \<not> fin")
    case True
    with nf inv show ?thesis by (auto simp: unfold)
  next
    case False
    let ?f = "\<lparr>stream_id = ss_stream_id s, stream_offset = ss_base_offset s, stream_data = ?chunk, stream_fin = fin\<rparr>"
    have r: "r = Some ?f" and s': "ss_pending s' = drop (nat b) (ss_pending s)"
        "ss_base_offset s' = ss_base_offset s + b" "ss_fin_sent s' = (ss_fin_sent s \<or> fin)"
        "ss_highest_offset_sent s' = ss_base_offset s + b" "ss_stream_id s' = ss_stream_id s"
        "ss_max_stream_data s' = ss_max_stream_data s" "ss_final_size s' = ss_final_size s"
        "ss_fin_queued s' = ss_fin_queued s" "ss_retransmit s' = ss_retransmit s"
      using False nf unfolding unfold by (cases fin; auto)+
    have pend: "drop (nat b) (ss_pending s) = drop (nat (ss_base_offset s + b)) W"
      using I(1) b(1) by (simp add: I(4) nat_add_distrib add.commute)
    have fin: "ss_fin_sent s \<Longrightarrow> b = 0" "fin \<Longrightarrow> ss_base_offset s + b = len W" "fin \<Longrightarrow> ss_fin_queued s"
      using I(5) plen b(1,2) fin_def by linarith+
    have "send_inv W s'"
      using inv b(1,5,6) pend fin mono unfolding s' send_inv_def by simp
    moreover have "frame_of (ss_stream_id s) W (ss_base_offset s') (ss_fin_sent s') ?f"
      using I(1) b(6) chunk(1) slice fin(2) unfolding s' frame_of_def by simp
    ultimately show ?thesis
      using b(1,3,4) chunk(1) by (simp add: r s')
  qed
qed


section \<open>The receiving half\<close>

text \<open>
  \<open>recv_inv W fin r\<close>: every byte the stream holds is the byte of \<open>W\<close> at its offset, the
  bytes read are received, and a final size is known only if \<open>fin\<close>, and is that of \<open>W\<close>.
\<close>

definition recv_inv :: "bytes \<Rightarrow> bool \<Rightarrow> recv_stream \<Rightarrow> bool" where
  "recv_inv W fin r \<longleftrightarrow>
     rs_inv (rv_received r) \<and> 0 \<le> rv_read_offset r \<and> {0..<rv_read_offset r} \<subseteq> rs_abs (rv_received r)
     \<and> len (rv_buffer r) = rv_highest_offset r \<and> rv_highest_offset r \<le> len W
     \<and> rs_abs (rv_received r) \<subseteq> {0..<rv_highest_offset r}
     \<and> (\<forall>i. int i \<in> rs_abs (rv_received r) \<longrightarrow> rv_buffer r ! i = W ! i)
     \<and> (case rv_final_size r of None \<Rightarrow> True | Some n \<Rightarrow> fin \<and> n = len W)"

lemma recv_inv_init: "recv_inv W fin (mk_recv_stream sid m)"
  by (simp add: recv_inv_def mk_recv_stream_def RangeSet.empty_inv RangeSet.empty_abs)

lemma length_splice: "length (splice buf off data) = max (length buf) (off + length data)"
  by (simp add: splice_def Let_def)

lemma nth_splice:
  assumes "i < max (length buf) (off + length data)"
  shows "splice buf off data ! i =
    (if off \<le> i \<and> i < off + length data then data ! (i - off)
     else if i < length buf then buf ! i else 0)"
  using assms by (auto simp: splice_def Let_def nth_append)

lemma splice_matches:
  assumes f: "0 \<le> off" "off + len data \<le> len W" "data = take (length data) (drop (nat off) W)"
    and buf: "\<And>i. int i \<in> A \<Longrightarrow> i < length buf \<and> buf ! i = W ! i"
    and i: "int i \<in> A \<union> {off..<off + len data}"
  shows "splice buf (nat off) data ! i = W ! i"
proof (cases "off \<le> int i \<and> int i < off + len data")
  case True
  then have "i - nat off < length data" using f(1) by linarith
  then have "data ! (i - nat off) = drop (nat off) W ! (i - nat off)"
    by (subst f(3)) (rule nth_take)
  also have "\<dots> = W ! i"
  proof -
    have "nat off + (i - nat off) = i" "nat off \<le> length W" using True f(1,2) by linarith+
    then show ?thesis by simp
  qed
  finally show ?thesis using True f(1) by (subst nth_splice) auto
next
  case False
  with i have "int i \<in> A" by auto
  with buf have "i < length buf" "buf ! i = W ! i" by blast+
  with False f(1) show ?thesis by (subst nth_splice) auto
qed

lemma rv_accept_fields:
  "rv_buffer (rv_accept f r) = splice (rv_buffer r) (nat (stream_offset f)) (stream_data f)"
  "rv_received (rv_accept f r) = rs_add (stream_offset f) (stream_offset f + len (stream_data f)) (rv_received r)"
  "rv_highest_offset (rv_accept f r) = max (rv_highest_offset r) (stream_offset f + len (stream_data f))"
  "rv_read_offset (rv_accept f r) = rv_read_offset r"
  "rv_max_stream_data (rv_accept f r) = rv_max_stream_data r"
  "rv_window (rv_accept f r) = rv_window r" "rv_final_size (rv_accept f r) = rv_final_size r"
  by (simp_all add: rv_accept_def Let_def split: option.split)

lemma rv_on_stream_frame_ok:
  assumes inv: "recv_inv W fin r" and f: "frame_of sid W sent fin f"
    and credit: "stream_offset f + len (stream_data f) \<le> rv_max_stream_data r"
  shows "\<exists>r'. rv_on_stream_frame f r = (Inr (), r') \<and> recv_inv W fin r'
    \<and> rs_abs (rv_received r') = rs_abs (rv_received r) \<union> {stream_offset f..<stream_offset f + len (stream_data f)}
    \<and> rv_read_offset r' = rv_read_offset r \<and> rv_max_stream_data r' = rv_max_stream_data r
    \<and> rv_window r' = rv_window r
    \<and> rv_final_size r' = (if stream_fin f then Some (len W) else rv_final_size r)"
proof -
  define off where "off = stream_offset f"
  define data where "data = stream_data f"
  have f: "0 \<le> off" "off + len data \<le> len W" "data = take (length data) (drop (nat off) W)"
      "stream_fin f \<Longrightarrow> fin \<and> off + len data = len W"
    using f by (simp_all add: frame_of_def off_def data_def)
  have I: "rs_inv (rv_received r)" "0 \<le> rv_read_offset r" "{0..<rv_read_offset r} \<subseteq> rs_abs (rv_received r)"
      "len (rv_buffer r) = rv_highest_offset r" "rv_highest_offset r \<le> len W"
      "rs_abs (rv_received r) \<subseteq> {0..<rv_highest_offset r}"
      "\<And>i. int i \<in> rs_abs (rv_received r) \<Longrightarrow> rv_buffer r ! i = W ! i"
      "\<And>n. rv_final_size r = Some n \<Longrightarrow> fin \<and> n = len W"
    using inv by (simp_all add: recv_inv_def)
  define r1 where "r1 = (if stream_fin f then r\<lparr>rv_final_size := Some (off + len data)\<rparr> else r)"
  define r' where "r' = rv_accept f r1"
  have r1: "rv_buffer r1 = rv_buffer r" "rv_received r1 = rv_received r"
      "rv_highest_offset r1 = rv_highest_offset r" "rv_read_offset r1 = rv_read_offset r"
      "rv_max_stream_data r1 = rv_max_stream_data r" "rv_window r1 = rv_window r"
      "rv_final_size r1 = (if stream_fin f then Some (len W) else rv_final_size r)"
    using f(4) by (simp_all add: r1_def)
  note fields = rv_accept_fields [of f r1, folded r'_def off_def data_def, unfolded r1]
  have r': "rv_on_stream_frame f r = (Inr (), r')"
  proof -
    have "\<not> (case rv_final_size r of None \<Rightarrow> False
      | Some n \<Rightarrow> off + len data > n \<or> stream_fin f \<and> off + len data \<noteq> n)"
      using f I(8) by (auto split: option.splits)
    moreover have "\<not> (stream_fin f \<and> off + len data < rv_highest_offset r)"
      using f(4) I(5) by auto
    moreover have "\<not> off + len data > rv_max_stream_data r1"
      using credit r1(5) by (simp add: off_def data_def)
    ultimately show ?thesis
      unfolding rv_on_stream_frame_def Let_def off_def [symmetric] data_def [symmetric] r1_def [symmetric] r'_def
      by (simp only: if_False)
  qed
  have abs: "rs_inv (rv_received r')" "rs_abs (rv_received r') = rs_abs (rv_received r) \<union> {off..<off + len data}"
    using RangeSet.add_inv RangeSet.add_abs I(1) by (simp_all add: fields)
  have "len (rv_buffer r') = rv_highest_offset r'"
    using f(1) I(4) by (simp add: fields length_splice)
  moreover have "rv_buffer r' ! i = W ! i" if "int i \<in> rs_abs (rv_received r')" for i
    unfolding fields
  proof (rule splice_matches [OF f(1,2,3)])
    show "j < length (rv_buffer r) \<and> rv_buffer r ! j = W ! j" if "int j \<in> rs_abs (rv_received r)" for j
      using I(4,6,7) that by fastforce
  qed (use that abs(2) in simp)
  moreover have "rs_abs (rv_received r') \<subseteq> {0..<rv_highest_offset r'}"
    unfolding abs(2) fields(3) using I(6) f(1) by (intro Un_least) (auto dest!: subsetD)
  moreover have "rv_highest_offset r' \<le> len W"
    using I(5) f(2) by (simp add: fields)
  moreover have "{0..<rv_read_offset r'} \<subseteq> rs_abs (rv_received r')"
    unfolding abs(2) fields(4) using I(3) by blast
  moreover have "case rv_final_size r' of None \<Rightarrow> True | Some n \<Rightarrow> fin \<and> n = len W"
    using I(8) f(4) by (simp add: fields split: option.split)
  ultimately have "recv_inv W fin r'"
    using abs(1) I(2) by (simp add: recv_inv_def fields(4))
  with r' abs(2) fields(4-7) show ?thesis
    by (auto simp: off_def data_def)
qed

lemma rv_read_ok:
  assumes inv: "recv_inv W fin r" and read: "rv_read r = (data, r')"
  shows "recv_inv W fin r' \<and> rv_received r' = rv_received r
    \<and> rv_read_offset r' = rs_contiguous_from (rv_received r) (rv_read_offset r)
    \<and> take (nat (rv_read_offset r')) W = take (nat (rv_read_offset r)) W @ data
    \<and> rv_max_stream_data r' = rv_max_stream_data r \<and> rv_window r' = rv_window r
    \<and> rv_final_size r' = rv_final_size r
    \<and> (rv_final_size r' = Some (rv_read_offset r') \<longrightarrow> rv_state r' = DATA_READ)"
proof -
  define c where "c = rs_contiguous_from (rv_received r) (rv_read_offset r)"
  have I: "rs_inv (rv_received r)" "0 \<le> rv_read_offset r" "{0..<rv_read_offset r} \<subseteq> rs_abs (rv_received r)"
      "len (rv_buffer r) = rv_highest_offset r" "rv_highest_offset r \<le> len W"
      "rs_abs (rv_received r) \<subseteq> {0..<rv_highest_offset r}"
      "\<And>i. int i \<in> rs_abs (rv_received r) \<Longrightarrow> rv_buffer r ! i = W ! i"
    using inv by (simp_all add: recv_inv_def)
  have c: "rv_read_offset r \<le> c" "{rv_read_offset r..<c} \<subseteq> rs_abs (rv_received r)"
    using RangeSet.contiguous_ge [OF I(1)] RangeSet.contiguous_in [OF I(1)] by (auto simp: c_def)
  have sub: "{0..<c} \<subseteq> rs_abs (rv_received r)"
    using I(3) c by (metis Un_subset_iff ivl_disj_un_two(3) I(2))
  then have "{0..<c} \<subseteq> {0..<rv_highest_offset r}" using I(6) by blast
  then have cW: "c \<le> rv_highest_offset r \<or> c \<le> 0"
    by (cases "0 < c") (auto simp: atLeastLessThan_subset_iff)
  have r': "data = take (nat (c - rv_read_offset r)) (drop (nat (rv_read_offset r)) (rv_buffer r))"
      "rv_read_offset r' = c" "rv_received r' = rv_received r" "rv_buffer r' = rv_buffer r"
      "rv_highest_offset r' = rv_highest_offset r" "rv_max_stream_data r' = rv_max_stream_data r"
      "rv_window r' = rv_window r" "rv_final_size r' = rv_final_size r"
      "rv_final_size r' = Some (rv_read_offset r') \<longrightarrow> rv_state r' = DATA_READ"
    using read by (auto simp: rv_read_def Let_def c_def)
  have "recv_inv W fin r'"
    using inv sub I(2) c(1) by (auto simp: recv_inv_def r')
  moreover have "take (nat c) W = take (nat (rv_read_offset r)) W @ data"
  proof -
    have len: "nat c \<le> length (rv_buffer r)" "nat c \<le> length W" using cW I(4,5) by linarith+
    have "take (nat c) (rv_buffer r) = take (nat c) W"
    proof (rule nth_equalityI)
      fix i assume "i < length (take (nat c) (rv_buffer r))"
      then have "int i \<in> {0..<c}" using len by auto
      then have "rv_buffer r ! i = W ! i" using sub I(7) by blast
      then show "take (nat c) (rv_buffer r) ! i = take (nat c) W ! i"
        using \<open>int i \<in> {0..<c}\<close> by simp
    qed (use len in simp)
    moreover have "take (nat c) xs = take (nat (rv_read_offset r)) xs
        @ take (nat (c - rv_read_offset r)) (drop (nat (rv_read_offset r)) xs)" for xs :: bytes
      using c(1) I(2) take_add [of "nat (rv_read_offset r)" "nat (c - rv_read_offset r)" xs]
      by (simp add: nat_add_distrib [symmetric])
    moreover have "take (nat (rv_read_offset r)) (rv_buffer r) = take (nat (rv_read_offset r)) W"
      using arg_cong [OF calculation(1), of "take (nat (rv_read_offset r))"] c(1)
      by (simp add: min_absorb1 nat_mono)
    ultimately show ?thesis using r'(1) by simp
  qed
  ultimately show ?thesis
    using r' by (simp add: c_def)
qed

end
