(* ===== verification/Stream_Transfer.thy ===== *)
theory Stream_Transfer
  imports Streams
begin

text \<open>
  One stream end to end: a \<open>SendStream\<close>, a network that may reorder, repeat, delay or lose
  frames, and the \<open>RecvStream\<close> of the peer (\<open>src/dsquic/streams.py\<close>).

  \<open>transfer_step\<close> interleaves the methods of both halves in any order: the application
  writes and reads, the sender emits frames under arbitrary budgets, requeues any frame as
  lost, is told of acknowledged frames and of new credit; the network delivers any frame ever
  emitted, any number of times. The lemmas show that the receiving application reads exactly
  the bytes written, that a conforming sender never trips flow control or final size
  checks, and that the sender's terminal state means complete delivery.
\<close>

section \<open>The system\<close>

record transfer =
  t_send :: send_stream
  t_recv :: recv_stream
  t_written :: bytes
  t_net :: "stream list"
  t_delivered :: "stream list"
  t_credits :: "int list"
  t_read :: bytes
  t_errors :: "exn list"

definition transfer_init :: "int \<Rightarrow> int \<Rightarrow> transfer" where
  "transfer_init sid window =
     \<lparr>t_send = mk_send_stream sid window, t_recv = mk_recv_stream sid window, t_written = [],
      t_net = [], t_delivered = [], t_credits = [], t_read = [], t_errors = []\<rparr>"

inductive transfer_step :: "transfer \<Rightarrow> transfer \<Rightarrow> bool" where
  app_write: "ss_write data fin (t_send t) = Inr s \<Longrightarrow>
     transfer_step t (t\<lparr>t_send := s, t_written := t_written t @ data\<rparr>)"
| emit: "ss_next_frame max_bytes connection_credit (t_send t) = (Some f, s) \<Longrightarrow>
     transfer_step t (t\<lparr>t_send := s, t_net := f # t_net t\<rparr>)"
| lose: "f \<in> set (t_net t) \<Longrightarrow>
     transfer_step t (t\<lparr>t_send := ss_requeue f (t_send t)\<rparr>)"
| deliver: "f \<in> set (t_net t) \<Longrightarrow> rv_on_stream_frame f (t_recv t) = (Inr (), r) \<Longrightarrow>
     transfer_step t (t\<lparr>t_recv := r, t_delivered := f # t_delivered t\<rparr>)"
| deliver_error: "f \<in> set (t_net t) \<Longrightarrow> rv_on_stream_frame f (t_recv t) = (Inl e, r) \<Longrightarrow>
     transfer_step t (t\<lparr>t_recv := r, t_errors := e # t_errors t\<rparr>)"
| ack: "f \<in> set (t_delivered t) \<Longrightarrow>
     transfer_step t (t\<lparr>t_send := ss_on_frame_acked f (t_send t)\<rparr>)"
| app_read: "rv_read (t_recv t) = (data, r) \<Longrightarrow>
     transfer_step t (t\<lparr>t_recv := r, t_read := t_read t @ data\<rparr>)"
| advertise: "rv_credit_update (t_recv t) = (Some v, r) \<Longrightarrow>
     transfer_step t (t\<lparr>t_recv := r, t_credits := v # t_credits t\<rparr>)"
| credit: "v \<in> set (t_credits t) \<Longrightarrow>
     transfer_step t (t\<lparr>t_send := ss_on_max_stream_data v (t_send t)\<rparr>)"

inductive_cases transfer_stepE: "transfer_step t t'"

abbreviation reachable :: "int \<Rightarrow> int \<Rightarrow> transfer \<Rightarrow> bool" where
  "reachable sid window \<equiv> transfer_step\<^sup>*\<^sup>* (transfer_init sid window)"


section \<open>The invariant\<close>

text \<open>What is common knowledge of a frame: its bytes are received, its FIN known.\<close>

definition arrived :: "transfer \<Rightarrow> stream \<Rightarrow> bool" where
  "arrived t f \<longleftrightarrow>
     {stream_offset f..<stream_offset f + len (stream_data f)} \<subseteq> rs_abs (rv_received (t_recv t))
     \<and> (stream_fin f \<longrightarrow> rv_final_size (t_recv t) = Some (len (t_written t)))"

definition acked_inv :: "transfer \<Rightarrow> bool" where
  "acked_inv t \<longleftrightarrow>
     rs_inv (ss_acked (t_send t)) \<and> rs_abs (ss_acked (t_send t)) \<subseteq> rs_abs (rv_received (t_recv t))
     \<and> (ss_fin_acked (t_send t) \<longrightarrow> rv_final_size (t_recv t) = Some (len (t_written t)))
     \<and> (ss_state (t_send t) = SEND_DATA_RECVD \<longrightarrow>
          rv_final_size (t_recv t) = Some (len (t_written t))
          \<and> {0..<len (t_written t)} \<subseteq> rs_abs (rv_received (t_recv t)))"

definition frames_inv :: "transfer \<Rightarrow> bool" where
  "frames_inv t \<longleftrightarrow>
     (\<forall>f \<in> set (t_net t). frame_of (ss_stream_id (t_send t)) (t_written t)
        (ss_base_offset (t_send t)) (ss_fin_sent (t_send t)) f)
     \<and> set (t_delivered t) \<subseteq> set (t_net t) \<and> (\<forall>f \<in> set (t_delivered t). arrived t f)"

definition credit_inv :: "transfer \<Rightarrow> bool" where
  "credit_inv t \<longleftrightarrow>
     ss_max_stream_data (t_send t) \<le> rv_max_stream_data (t_recv t) \<and> 0 \<le> rv_window (t_recv t)
     \<and> (\<forall>v \<in> set (t_credits t). v \<le> rv_max_stream_data (t_recv t))"

definition transfer_inv :: "transfer \<Rightarrow> bool" where
  "transfer_inv t \<longleftrightarrow>
     send_inv (t_written t) (t_send t)
     \<and> recv_inv (t_written t) (ss_fin_sent (t_send t)) (t_recv t)
     \<and> frames_inv t \<and> acked_inv t \<and> credit_inv t
     \<and> t_read t = take (nat (rv_read_offset (t_recv t))) (t_written t)
     \<and> t_errors t = []"

lemma transfer_inv_init: "0 \<le> window \<Longrightarrow> transfer_inv (transfer_init sid window)"
  using send_inv_init [of window sid] recv_inv_init [of "[]" False sid window]
  by (simp add: transfer_inv_def transfer_init_def frames_inv_def acked_inv_def credit_inv_def
      RangeSet.empty_inv RangeSet.empty_abs mk_send_stream_def mk_recv_stream_def)

lemma recv_inv_append:
  assumes "recv_inv W False r"
  shows "recv_inv (W @ data) fin r"
proof -
  have "rv_buffer r ! i = (W @ data) ! i" if "int i \<in> rs_abs (rv_received r)" for i
  proof -
    have "rv_buffer r ! i = W ! i" "i < length W"
      using assms that by (auto simp: recv_inv_def dest!: subsetD)
    then show ?thesis by (simp add: nth_append)
  qed
  moreover have "rv_final_size r = None"
    using assms by (auto simp: recv_inv_def split: option.splits)
  ultimately show ?thesis
    using assms by (simp add: recv_inv_def)
qed

lemma recv_inv_mono: "recv_inv W fin r \<Longrightarrow> (fin \<Longrightarrow> fin') \<Longrightarrow> recv_inv W fin' r"
  by (auto simp: recv_inv_def split: option.splits)

lemma recv_inv_read_le: "recv_inv W fin r \<Longrightarrow> rv_read_offset r \<le> len W"
  by (cases "0 < rv_read_offset r") (auto simp: recv_inv_def atLeastLessThan_subset_iff dest: order_trans)

lemma ss_write_fields:
  assumes "ss_write data fin s = Inr s'"
  shows "ss_base_offset s' = ss_base_offset s" "ss_fin_sent s' = ss_fin_sent s"
    "ss_stream_id s' = ss_stream_id s" "ss_acked s' = ss_acked s" "ss_fin_acked s' = ss_fin_acked s"
    "ss_state s' = ss_state s" "ss_max_stream_data s' = ss_max_stream_data s"
  using assms by (auto simp: ss_write_def Let_def split: if_splits)

lemma inv_write:
  assumes inv: "transfer_inv t" and w: "ss_write data fin (t_send t) = Inr s"
  shows "transfer_inv (t\<lparr>t_send := s, t_written := t_written t @ data\<rparr>)"
proof -
  let ?W = "t_written t" and ?s = "t_send t" and ?r = "t_recv t"
  have si: "send_inv (?W @ data) s" and nq: "\<not> ss_fin_queued ?s"
    using ss_write_inv [OF _ w] inv by (auto simp: transfer_inv_def)
  then have nf: "\<not> ss_fin_sent ?s"
    using inv by (auto simp: transfer_inv_def send_inv_def)
  then have rF: "recv_inv ?W False ?r"
    using inv by (simp add: transfer_inv_def)
  then have none: "rv_final_size ?r = None"
    by (auto simp: recv_inv_def split: option.splits)
  have "frames_inv (t\<lparr>t_send := s, t_written := ?W @ data\<rparr>)"
    using inv nf none ss_write_fields [OF w]
    by (auto simp: transfer_inv_def frames_inv_def arrived_def intro: frame_of_append)
  moreover have "acked_inv (t\<lparr>t_send := s, t_written := ?W @ data\<rparr>)"
    using inv none ss_write_fields [OF w] by (auto simp: transfer_inv_def acked_inv_def)
  moreover have "credit_inv (t\<lparr>t_send := s, t_written := ?W @ data\<rparr>)"
    using inv ss_write_fields [OF w] by (auto simp: transfer_inv_def credit_inv_def)
  moreover have "t_read t = take (nat (rv_read_offset ?r)) (?W @ data)"
    using inv recv_inv_read_le [OF rF] by (simp add: transfer_inv_def nat_le_iff)
  ultimately show ?thesis
    using si recv_inv_append [OF rF] inv by (simp add: transfer_inv_def)
qed

lemma ss_next_frame_fields:
  "ss_acked (snd (ss_next_frame mb cc s)) = ss_acked s"
  "ss_fin_acked (snd (ss_next_frame mb cc s)) = ss_fin_acked s"
  "ss_max_stream_data (snd (ss_next_frame mb cc s)) = ss_max_stream_data s"
  "ss_state (snd (ss_next_frame mb cc s)) = SEND_DATA_RECVD \<longrightarrow> ss_state s = SEND_DATA_RECVD"
  by (simp_all add: ss_next_frame_def ss_new_frame_def Let_def)

lemma inv_emit:
  assumes inv: "transfer_inv t" and n: "ss_next_frame mb cc (t_send t) = (Some f, s)"
  shows "transfer_inv (t\<lparr>t_send := s, t_net := f # t_net t\<rparr>)"
proof -
  let ?W = "t_written t" and ?s = "t_send t"
  have si: "send_inv ?W s" and sid: "ss_stream_id s = ss_stream_id ?s"
      and base: "ss_base_offset ?s \<le> ss_base_offset s" and fin: "ss_fin_sent ?s \<Longrightarrow> ss_fin_sent s"
      and f: "frame_of (ss_stream_id ?s) ?W (ss_base_offset s) (ss_fin_sent s) f"
    using ss_next_frame_inv [OF _ n, of ?W] inv by (auto simp: transfer_inv_def)
  have "ss_base_offset s \<le> len ?W" using si by (simp add: send_inv_def)
  then have "\<forall>g \<in> set (t_net t). frame_of (ss_stream_id ?s) ?W (ss_base_offset s) (ss_fin_sent s) g"
    using inv base fin by (auto simp: transfer_inv_def frames_inv_def intro: frame_of_mono)
  then have "frames_inv (t\<lparr>t_send := s, t_net := f # t_net t\<rparr>)"
    using inv f sid by (auto simp: transfer_inv_def frames_inv_def arrived_def)
  moreover have "recv_inv ?W (ss_fin_sent s) (t_recv t)"
    using inv fin by (auto simp: transfer_inv_def intro: recv_inv_mono)
  moreover have "acked_inv (t\<lparr>t_send := s, t_net := f # t_net t\<rparr>)"
    using inv ss_next_frame_fields [of mb cc ?s] n by (auto simp: transfer_inv_def acked_inv_def)
  moreover have "credit_inv (t\<lparr>t_send := s, t_net := f # t_net t\<rparr>)"
    using inv ss_next_frame_fields [of mb cc ?s] n by (simp add: transfer_inv_def credit_inv_def)
  ultimately show ?thesis
    using si inv by (simp add: transfer_inv_def)
qed

lemma inv_lose:
  assumes inv: "transfer_inv t" and f: "f \<in> set (t_net t)"
  shows "transfer_inv (t\<lparr>t_send := ss_requeue f (t_send t)\<rparr>)"
  using assms
  by (auto simp: transfer_inv_def ss_requeue_def send_inv_def frames_inv_def arrived_def
      acked_inv_def credit_inv_def)

text \<open>A delivered frame is always accepted: its bytes are within the advertised credit.\<close>

lemma deliver_ok:
  assumes inv: "transfer_inv t" and f: "f \<in> set (t_net t)"
  shows "\<exists>r. rv_on_stream_frame f (t_recv t) = (Inr (), r)
    \<and> transfer_inv (t\<lparr>t_recv := r, t_delivered := f # t_delivered t\<rparr>)"
proof -
  let ?W = "t_written t" and ?s = "t_send t" and ?r = "t_recv t"
  have fo: "frame_of (ss_stream_id ?s) ?W (ss_base_offset ?s) (ss_fin_sent ?s) f"
    using inv f by (auto simp: transfer_inv_def frames_inv_def)
  have "ss_base_offset ?s \<le> ss_max_stream_data ?s"
    using inv by (simp add: transfer_inv_def send_inv_def)
  moreover have "ss_max_stream_data ?s \<le> rv_max_stream_data ?r"
    using inv by (simp add: transfer_inv_def credit_inv_def)
  moreover have "stream_offset f + len (stream_data f) \<le> ss_base_offset ?s"
    using fo by (simp add: frame_of_def)
  ultimately have credit: "stream_offset f + len (stream_data f) \<le> rv_max_stream_data ?r" by linarith
  have ri: "recv_inv ?W (ss_fin_sent ?s) ?r" using inv by (simp add: transfer_inv_def)
  from rv_on_stream_frame_ok [OF ri fo credit] obtain r where
    r: "rv_on_stream_frame f ?r = (Inr (), r)" "recv_inv ?W (ss_fin_sent ?s) r"
      "rs_abs (rv_received r) = rs_abs (rv_received ?r) \<union> {stream_offset f..<stream_offset f + len (stream_data f)}"
      "rv_read_offset r = rv_read_offset ?r" "rv_max_stream_data r = rv_max_stream_data ?r"
      "rv_window r = rv_window ?r"
      "rv_final_size r = (if stream_fin f then Some (len ?W) else rv_final_size ?r)"
    by blast
  let ?t = "t\<lparr>t_recv := r, t_delivered := f # t_delivered t\<rparr>"
  have "frames_inv ?t"
    using inv f r(3,7) by (auto simp: transfer_inv_def frames_inv_def arrived_def)
  moreover have "acked_inv ?t"
    using inv r(3,7) by (auto simp: transfer_inv_def acked_inv_def)
  moreover have "credit_inv ?t"
    using inv r(5,6) by (simp add: transfer_inv_def credit_inv_def)
  ultimately have "transfer_inv ?t"
    using inv r(2,4) by (simp add: transfer_inv_def)
  with r(1) show ?thesis by blast
qed

lemma ss_on_frame_acked_fields:
  "ss_base_offset (ss_on_frame_acked f s) = ss_base_offset s"
  "ss_fin_sent (ss_on_frame_acked f s) = ss_fin_sent s"
  "ss_stream_id (ss_on_frame_acked f s) = ss_stream_id s"
  "ss_max_stream_data (ss_on_frame_acked f s) = ss_max_stream_data s"
  "send_inv W (ss_on_frame_acked f s) = send_inv W s"
  "ss_acked (ss_on_frame_acked f s) =
     rs_add (stream_offset f) (stream_offset f + len (stream_data f)) (ss_acked s)"
  "ss_fin_acked (ss_on_frame_acked f s) = (ss_fin_acked s \<or> stream_fin f)"
  "ss_state (ss_on_frame_acked f s) = SEND_DATA_RECVD \<Longrightarrow>
     ss_state s = SEND_DATA_RECVD
     \<or> ss_fin_acked (ss_on_frame_acked f s)
       \<and> (\<exists>n. ss_final_size s = Some n \<and> rs_covers (ss_acked (ss_on_frame_acked f s)) 0 n)"
  by (simp_all add: ss_on_frame_acked_def Let_def send_inv_def split: if_splits option.splits)

lemma inv_ack:
  assumes inv: "transfer_inv t" and f: "f \<in> set (t_delivered t)"
  shows "transfer_inv (t\<lparr>t_send := ss_on_frame_acked f (t_send t)\<rparr>)"
proof -
  let ?s = "t_send t" and ?s' = "ss_on_frame_acked f (t_send t)" and ?W = "t_written t"
  let ?t = "t\<lparr>t_send := ?s'\<rparr>" and ?R = "rs_abs (rv_received (t_recv t))"
  note F = ss_on_frame_acked_fields
  have arr: "arrived t f" using inv f by (auto simp: transfer_inv_def frames_inv_def)
  have A: "rs_inv (ss_acked ?s)" "rs_abs (ss_acked ?s) \<subseteq> ?R"
      "ss_fin_acked ?s \<longrightarrow> rv_final_size (t_recv t) = Some (len ?W)"
      "ss_state ?s = SEND_DATA_RECVD \<longrightarrow> rv_final_size (t_recv t) = Some (len ?W) \<and> {0..<len ?W} \<subseteq> ?R"
    using inv by (auto simp: transfer_inv_def acked_inv_def)
  have acked: "rs_inv (ss_acked ?s')" "rs_abs (ss_acked ?s') \<subseteq> ?R"
    using A(1,2) arr by (auto simp: F(6) RangeSet.add_inv RangeSet.add_abs arrived_def)
  have fin: "ss_fin_acked ?s' \<Longrightarrow> rv_final_size (t_recv t) = Some (len ?W)"
    using A(3) arr by (auto simp: F(7) arrived_def)
  have "ss_final_size ?s = Some n \<Longrightarrow> n = len ?W" for n
    using inv by (auto simp: transfer_inv_def send_inv_def split: if_splits)
  then have "{0..<len ?W} \<subseteq> ?R \<and> rv_final_size (t_recv t) = Some (len ?W)"
    if "ss_state ?s' = SEND_DATA_RECVD"
    using F(8) [OF that] A(4) acked fin RangeSet.covers_abs [OF acked(1)] by blast
  then have "acked_inv ?t"
    using acked fin by (simp add: acked_inv_def)
  then show ?thesis
    using inv by (simp add: transfer_inv_def frames_inv_def credit_inv_def arrived_def F(1-5))
qed

lemma inv_read:
  assumes inv: "transfer_inv t" and read: "rv_read (t_recv t) = (data, r)"
  shows "transfer_inv (t\<lparr>t_recv := r, t_read := t_read t @ data\<rparr>)"
proof -
  have "recv_inv (t_written t) (ss_fin_sent (t_send t)) (t_recv t)"
    using inv by (simp add: transfer_inv_def)
  note R = rv_read_ok [OF this read]
  have "frames_inv (t\<lparr>t_recv := r, t_read := t_read t @ data\<rparr>)"
    using inv R by (simp add: transfer_inv_def frames_inv_def arrived_def)
  moreover have "acked_inv (t\<lparr>t_recv := r, t_read := t_read t @ data\<rparr>)"
    using inv R by (simp add: transfer_inv_def acked_inv_def)
  moreover have "credit_inv (t\<lparr>t_recv := r, t_read := t_read t @ data\<rparr>)"
    using inv R by (simp add: transfer_inv_def credit_inv_def)
  moreover have "t_read t @ data = take (nat (rv_read_offset r)) (t_written t)"
  proof -
    have "t_read t = take (nat (rv_read_offset (t_recv t))) (t_written t)"
      using inv by (simp add: transfer_inv_def)
    moreover have "take (nat (rv_read_offset r)) (t_written t)
        = take (nat (rv_read_offset (t_recv t))) (t_written t) @ data"
      using R by blast
    ultimately show ?thesis by (simp only:)
  qed
  moreover have "recv_inv (t_written t) (ss_fin_sent (t_send t)) r"
    using R by blast
  ultimately show ?thesis
    using inv by (simp add: transfer_inv_def)
qed

lemma inv_advertise:
  assumes inv: "transfer_inv t" and u: "rv_credit_update (t_recv t) = (Some v, r)"
  shows "transfer_inv (t\<lparr>t_recv := r, t_credits := v # t_credits t\<rparr>)"
proof -
  let ?r = "t_recv t"
  have r: "r = ?r\<lparr>rv_max_stream_data := v\<rparr>" "v = rv_read_offset ?r + rv_window ?r"
      "2 * (rv_max_stream_data ?r - rv_read_offset ?r) < rv_window ?r"
    using u by (auto simp: rv_credit_update_def Let_def split: if_splits)
  have w: "0 \<le> rv_window ?r" using inv by (simp add: transfer_inv_def credit_inv_def)
  have "rv_max_stream_data ?r \<le> v"
    using r(3) w unfolding r(2) by (simp add: right_diff_distrib)
  then have "credit_inv (t\<lparr>t_recv := r, t_credits := v # t_credits t\<rparr>)"
    using inv by (auto simp: transfer_inv_def credit_inv_def r(1))
  then show ?thesis
    using inv by (simp add: transfer_inv_def r(1) recv_inv_def frames_inv_def arrived_def acked_inv_def)
qed

lemma inv_credit:
  assumes inv: "transfer_inv t" and v: "v \<in> set (t_credits t)"
  shows "transfer_inv (t\<lparr>t_send := ss_on_max_stream_data v (t_send t)\<rparr>)"
  using assms
  by (auto simp: transfer_inv_def ss_on_max_stream_data_def send_inv_def frames_inv_def arrived_def
      acked_inv_def credit_inv_def)

lemma inv_deliver:
  "transfer_inv t \<Longrightarrow> f \<in> set (t_net t) \<Longrightarrow> rv_on_stream_frame f (t_recv t) = (Inr (), r) \<Longrightarrow>
   transfer_inv (t\<lparr>t_recv := r, t_delivered := f # t_delivered t\<rparr>)"
  "transfer_inv t \<Longrightarrow> f \<in> set (t_net t) \<Longrightarrow> rv_on_stream_frame f (t_recv t) \<noteq> (Inl e, r)"
  using deliver_ok [of t f] by auto

lemma transfer_step_inv: "transfer_step t t' \<Longrightarrow> transfer_inv t \<Longrightarrow> transfer_inv t'"
  by (erule transfer_stepE)
    (simp_all add: inv_write inv_emit inv_lose inv_deliver inv_ack inv_read inv_advertise inv_credit)

lemma reachable_inv: "reachable sid window t \<Longrightarrow> 0 \<le> window \<Longrightarrow> transfer_inv t"
  by (induction rule: rtranclp_induct) (auto intro: transfer_inv_init transfer_step_inv)


section \<open>A run\<close>

text \<open>Three bytes and a FIN: written, emitted as one frame, delivered twice, acknowledged.\<close>

definition run_frame :: stream where
  "run_frame = \<lparr>stream_id = 0, stream_offset = 0, stream_data = [1, 2, 3], stream_fin = True\<rparr>"

definition run_written :: transfer where
  "run_written =
     (let t = transfer_init 0 100
      in t\<lparr>t_send := (t_send t)\<lparr>ss_pending := [1, 2, 3], ss_fin_queued := True, ss_final_size := Some 3\<rparr>,
           t_written := [1, 2, 3]\<rparr>)"

definition run_emitted :: transfer where
  "run_emitted = run_written
     \<lparr>t_send := (t_send run_written)\<lparr>ss_pending := [], ss_base_offset := 3, ss_fin_sent := True,
        ss_highest_offset_sent := 3, ss_state := DATA_SENT\<rparr>,
      t_net := [run_frame]\<rparr>"

definition run_delivered :: transfer where
  "run_delivered = run_emitted
     \<lparr>t_recv := (t_recv run_emitted)\<lparr>rv_buffer := [1, 2, 3], rv_received := [(0, 3)],
        rv_highest_offset := 3, rv_final_size := Some 3, rv_state := DATA_RECVD\<rparr>,
      t_delivered := [run_frame]\<rparr>"

definition run_acked :: transfer where
  "run_acked = run_delivered
     \<lparr>t_send := (t_send run_delivered)\<lparr>ss_acked := [(0, 3)], ss_fin_acked := True,
        ss_state := SEND_DATA_RECVD\<rparr>\<rparr>"

lemmas run_defs = run_frame_def run_written_def run_emitted_def run_delivered_def run_acked_def
  transfer_init_def mk_send_stream_def mk_recv_stream_def Let_def

lemma run_acked_reachable: "reachable 0 100 run_acked"
proof -
  have "transfer_step (transfer_init 0 100) run_written"
    using app_write [of "[1, 2, 3]" True "transfer_init 0 100" "t_send run_written"]
    by (simp add: run_defs ss_write_def)
  moreover have "transfer_step run_written run_emitted"
    using emit [of 10 10 run_written run_frame "t_send run_emitted"]
    by (simp add: run_defs ss_next_frame_def ss_new_frame_def ss_budget_def)
  moreover have "transfer_step run_emitted run_delivered"
    using deliver [of run_frame run_emitted "t_recv run_delivered"]
    by (simp add: run_defs rv_on_stream_frame_def rv_accept_def splice_def rs_add_def rs_covers_def)
  moreover have "transfer_step run_delivered run_acked"
    using ack [of run_frame run_delivered]
    by (simp add: run_defs ss_on_frame_acked_def rs_add_def rs_covers_def)
  ultimately show ?thesis
    by (meson rtranclp.rtrancl_into_rtrancl rtranclp.rtrancl_refl)
qed


section \<open>Correctness of the stream transport\<close>

text \<open>
  C2: reliable, ordered delivery. However frames are cut, lost, requeued, reordered and
  repeated, what the receiving application has read is a prefix of what the sending
  application wrote, and no delivered frame makes the receiver raise a stream error:
  neither flow control nor the final size is ever violated by a \<open>SendStream\<close>.
\<close>

theorem stream_delivery:
  assumes "reachable sid window t" "0 \<le> window"
  shows "t_read t = take (length (t_read t)) (t_written t) \<and> t_errors t = []
    \<and> (\<forall>f \<in> set (t_net t). fst (rv_on_stream_frame f (t_recv t)) = Inr ())"
proof -
  have inv: "transfer_inv t" using reachable_inv [OF assms] .
  then have "t_read t = take (nat (rv_read_offset (t_recv t))) (t_written t)" "t_errors t = []"
    by (simp_all add: transfer_inv_def)
  then have "t_read t = take (length (t_read t)) (t_written t)" "t_errors t = []"
    by (auto simp: min_def)
  moreover have "fst (rv_on_stream_frame f (t_recv t)) = Inr ()" if "f \<in> set (t_net t)" for f
    using deliver_ok [OF inv that] by auto
  ultimately show ?thesis by blast
qed

theorem stream_delivery_witness:
  "t_read run_acked = take (length (t_read run_acked)) (t_written run_acked)
   \<and> t_written run_acked = [1, 2, 3] \<and> t_net run_acked = [run_frame] \<and> t_errors run_acked = []
   \<and> fst (rv_on_stream_frame run_frame (t_recv run_acked)) = Inr ()"
  using stream_delivery [OF run_acked_reachable] by (simp add: run_defs)

text \<open>
  C14: the sender's terminal state is truthful. Once \<open>SendStream\<close> is in \<open>DATA_RECVD\<close> the
  receiver holds every byte written and knows the final size: one \<open>read\<close> completes the
  delivery and moves the receiving half to its terminal state \<open>DATA_READ\<close>.
\<close>

theorem stream_complete:
  assumes "reachable sid window t" "0 \<le> window"
    and "ss_state (t_send t) = SEND_DATA_RECVD" "rv_read (t_recv t) = (data, r)"
  shows "t_read t @ data = t_written t \<and> rv_state r = DATA_READ"
proof -
  let ?W = "t_written t"
  have inv: "transfer_inv t" using reachable_inv [OF assms(1,2)] .
  then have ri: "recv_inv ?W (ss_fin_sent (t_send t)) (t_recv t)"
      and all: "{0..<len ?W} \<subseteq> rs_abs (rv_received (t_recv t))"
      and fs: "rv_final_size (t_recv t) = Some (len ?W)"
    using assms(3) by (auto simp: transfer_inv_def acked_inv_def)
  have "rs_abs (rv_received (t_recv t)) \<subseteq> {0..<len ?W}"
    using ri by (auto simp: recv_inv_def dest!: subsetD)
  then have "rs_contiguous_from (rv_received (t_recv t)) (rv_read_offset (t_recv t)) = len ?W"
    using all recv_inv_read_le [OF ri] ri
    by (intro RangeSet.contiguous_unique) (auto simp: recv_inv_def)
  moreover have "t_read t = take (nat (rv_read_offset (t_recv t))) ?W"
    using inv by (simp add: transfer_inv_def)
  moreover have "take (nat (rv_read_offset r)) ?W = take (nat (rv_read_offset (t_recv t))) ?W @ data"
      "rv_read_offset r = rs_contiguous_from (rv_received (t_recv t)) (rv_read_offset (t_recv t))"
      "rv_final_size r = rv_final_size (t_recv t)"
      "rv_final_size r = Some (rv_read_offset r) \<longrightarrow> rv_state r = DATA_READ"
    using rv_read_ok [OF ri assms(4)] by blast+
  ultimately show ?thesis using fs by simp
qed

theorem stream_complete_witness:
  "t_read run_acked @ fst (rv_read (t_recv run_acked)) = [1, 2, 3]
   \<and> rv_state (snd (rv_read (t_recv run_acked))) = DATA_READ"
proof -
  have "ss_state (t_send run_acked) = SEND_DATA_RECVD" "t_written run_acked = [1, 2, 3]"
    by (simp_all add: run_defs)
  with stream_complete [OF run_acked_reachable _ _ prod.collapse [symmetric]] show ?thesis by simp
qed

end
