(* ===== verification/Stream_Manager.thy ===== *)
theory Stream_Manager
  imports Streams
begin

text \<open>
  \<open>StreamManager\<close> of \<open>src/dsquic/streams.py\<close>: all streams of one connection, the limits on
  their number (RFC 9000, section 4.6) and connection-level flow control (section 4.1).

  \<open>sm_streams\<close> is the dict of streams in insertion order. A method that raises keeps what it
  wrote before: \<open>on_stream_frame\<close> leaves a created stream behind. The step relation
  \<open>sm_step\<close> interleaves every method of the manager with what the connection does to the
  halves it looks up; \<open>sm_inv\<close> is its invariant.
\<close>

section \<open>Model\<close>

record flow_control_limits =
  fl_max_data :: int
  fl_max_stream_data_bidi_local :: int
  fl_max_stream_data_bidi_remote :: int
  fl_max_stream_data_uni :: int
  fl_max_streams_bidi :: int
  fl_max_streams_uni :: int

record stream_half =
  half_send :: "send_stream option"
  half_recv :: "recv_stream option"

record stream_manager =
  sm_is_client :: bool
  sm_local :: flow_control_limits
  sm_peer :: flow_control_limits
  sm_streams :: "(int \<times> stream_half) list"
  sm_next_bidi_sequence :: int
  sm_max_data :: int
  sm_local_max_data :: int
  sm_data_window :: int
  sm_max_streams_bidi :: int
  sm_max_streams_uni :: int
  sm_local_max_streams_bidi :: int
  sm_local_max_streams_uni :: int
  sm_streams_window_bidi :: int
  sm_streams_window_uni :: int
  sm_data_sent :: int
  sm_data_received :: int

definition mk_stream_manager ::
  "bool \<Rightarrow> flow_control_limits \<Rightarrow> flow_control_limits \<Rightarrow> stream_manager" where
  "mk_stream_manager is_client local peer =
     \<lparr>sm_is_client = is_client, sm_local = local, sm_peer = peer, sm_streams = [],
      sm_next_bidi_sequence = 0, sm_max_data = fl_max_data peer,
      sm_local_max_data = fl_max_data local, sm_data_window = fl_max_data local,
      sm_max_streams_bidi = fl_max_streams_bidi peer, sm_max_streams_uni = fl_max_streams_uni peer,
      sm_local_max_streams_bidi = fl_max_streams_bidi local,
      sm_local_max_streams_uni = fl_max_streams_uni local,
      sm_streams_window_bidi = fl_max_streams_bidi local,
      sm_streams_window_uni = fl_max_streams_uni local,
      sm_data_sent = 0, sm_data_received = 0\<rparr>"

definition sm_open_bidi :: "(stream_manager, int) se" where
  "sm_open_bidi m =
     (if sm_next_bidi_sequence m \<ge> sm_max_streams_bidi m then (Inl StreamLimitReached, m)
      else let type_bits = (if sm_is_client m then 0 else STREAM_SERVER_INITIATED_BIT);
               sid = push_bit 2 (sm_next_bidi_sequence m) OR type_bits;
               half = \<lparr>half_send = Some (mk_send_stream sid (fl_max_stream_data_bidi_remote (sm_peer m))),
                       half_recv = Some (mk_recv_stream sid (fl_max_stream_data_bidi_local (sm_local m)))\<rparr>
      in (Inr sid, m\<lparr>sm_next_bidi_sequence := sm_next_bidi_sequence m + 1,
                     sm_streams := AList.update sid half (sm_streams m)\<rparr>))"

definition sm_update_peer_limits :: "flow_control_limits \<Rightarrow> stream_manager \<Rightarrow> stream_manager" where
  "sm_update_peer_limits peer m =
     m\<lparr>sm_peer := peer, sm_max_data := fl_max_data peer,
       sm_max_streams_bidi := fl_max_streams_bidi peer, sm_max_streams_uni := fl_max_streams_uni peer,
       sm_streams := map (\<lambda>(sid, half). (sid, half\<lparr>half_send :=
         map_option (ss_on_max_stream_data (fl_max_stream_data_bidi_remote peer)) (half_send half)\<rparr>))
         (sm_streams m)\<rparr>"

definition sm_send_stream :: "int \<Rightarrow> stream_manager \<Rightarrow> send_stream result" where
  "sm_send_stream sid m =
     (case map_of (sm_streams m) sid of
        None \<Rightarrow> Inl KeyError
      | Some half \<Rightarrow> (case half_send half of
            None \<Rightarrow> Inl (StreamError STREAM_STATE_ERROR) | Some s \<Rightarrow> Inr s))"

definition sm_recv_stream :: "int \<Rightarrow> stream_manager \<Rightarrow> recv_stream result" where
  "sm_recv_stream sid m =
     (case map_of (sm_streams m) sid of
        None \<Rightarrow> Inl KeyError
      | Some half \<Rightarrow> (case half_recv half of
            None \<Rightarrow> Inl (StreamError STREAM_STATE_ERROR) | Some r \<Rightarrow> Inr r))"

text \<open>Writing back an object that was looked up, as the aliasing of the code does at once.\<close>

definition sm_put_send :: "int \<Rightarrow> send_stream \<Rightarrow> stream_manager \<Rightarrow> stream_manager" where
  "sm_put_send sid s m =
     m\<lparr>sm_streams := AList.map_entry sid (\<lambda>h. h\<lparr>half_send := Some s\<rparr>) (sm_streams m)\<rparr>"

definition sm_put_recv :: "int \<Rightarrow> recv_stream \<Rightarrow> stream_manager \<Rightarrow> stream_manager" where
  "sm_put_recv sid r m =
     m\<lparr>sm_streams := AList.map_entry sid (\<lambda>h. h\<lparr>half_recv := Some r\<rparr>) (sm_streams m)\<rparr>"

definition sm_create_peer_initiated :: "int \<Rightarrow> stream_manager \<Rightarrow> stream_half result" where
  "sm_create_peer_initiated sid m =
     (let local_initiated = (is_client_initiated sid = sm_is_client m)
      in if local_initiated then Inl (StreamError STREAM_STATE_ERROR)
      else let sequence = drop_bit 2 sid
      in if is_bidirectional sid then
        (if sequence \<ge> sm_local_max_streams_bidi m then Inl (StreamError STREAM_LIMIT_ERROR)
         else Inr \<lparr>half_send = Some (mk_send_stream sid (fl_max_stream_data_bidi_local (sm_peer m))),
                   half_recv = Some (mk_recv_stream sid (fl_max_stream_data_bidi_remote (sm_local m)))\<rparr>)
      else if sequence \<ge> sm_local_max_streams_uni m then Inl (StreamError STREAM_LIMIT_ERROR)
      else Inr \<lparr>half_send = None,
                half_recv = Some (mk_recv_stream sid (fl_max_stream_data_uni (sm_local m)))\<rparr>)"

definition sm_lookup_or_create :: "int \<Rightarrow> (stream_manager, stream_half) se" where
  "sm_lookup_or_create sid m =
     (case map_of (sm_streams m) sid of
        Some half \<Rightarrow> (Inr half, m)
      | None \<Rightarrow> (case sm_create_peer_initiated sid m of
            Inl e \<Rightarrow> (Inl e, m)
          | Inr half \<Rightarrow> (Inr half, m\<lparr>sm_streams := AList.update sid half (sm_streams m)\<rparr>)))"

definition sm_receive :: "stream \<Rightarrow> recv_stream \<Rightarrow> (stream_manager, recv_stream) se" where
  "sm_receive frame recv m =
     (let before = rv_highest_offset recv
      in case rv_on_stream_frame frame recv of
          (Inl e, r) \<Rightarrow> (Inl e, sm_put_recv (stream_id frame) r m)
        | (Inr _, r) \<Rightarrow>
            let m = sm_put_recv (stream_id frame) r m;
                m = m\<lparr>sm_data_received := sm_data_received m + (rv_highest_offset r - before)\<rparr>
            in if sm_data_received m > sm_local_max_data m then (Inl (StreamError FLOW_CONTROL_ERROR), m)
               else (Inr r, m))"

definition sm_on_stream_frame :: "stream \<Rightarrow> (stream_manager, recv_stream) se" where
  "sm_on_stream_frame frame =
     bindS (sm_lookup_or_create (stream_id frame)) (\<lambda>half.
       case half_recv half of
         None \<Rightarrow> raiseS (StreamError STREAM_STATE_ERROR)
       | Some recv \<Rightarrow> sm_receive frame recv)"

definition sm_next_frame :: "int \<Rightarrow> int \<Rightarrow> (stream_manager, stream option) se" where
  "sm_next_frame sid max_bytes m =
     (case sm_send_stream sid m of
        Inl e \<Rightarrow> (Inl e, m)
      | Inr stream \<Rightarrow>
          let connection_credit = sm_max_data m - sm_data_sent m;
              before = ss_highest_offset_sent stream
          in case ss_next_frame max_bytes connection_credit stream of
               (frame, stream) \<Rightarrow>
                 let m = sm_put_send sid stream m
                 in (Inr frame,
                     if frame \<noteq> None
                     then m\<lparr>sm_data_sent := sm_data_sent m + (ss_highest_offset_sent stream - before)\<rparr>
                     else m))"

definition sm_writable_streams :: "stream_manager \<Rightarrow> int list" where
  "sm_writable_streams m =
     map fst (filter (\<lambda>(sid, half). case half_send half of None \<Rightarrow> False | Some s \<Rightarrow> ss_has_pending s)
       (sm_streams m))"

definition sm_on_max_data :: "int \<Rightarrow> stream_manager \<Rightarrow> stream_manager" where
  "sm_on_max_data maximum m = m\<lparr>sm_max_data := max (sm_max_data m) maximum\<rparr>"

definition sm_on_max_streams :: "int \<Rightarrow> bool \<Rightarrow> stream_manager \<Rightarrow> stream_manager" where
  "sm_on_max_streams maximum bidirectional m =
     (if bidirectional then m\<lparr>sm_max_streams_bidi := max (sm_max_streams_bidi m) maximum\<rparr>
      else m\<lparr>sm_max_streams_uni := max (sm_max_streams_uni m) maximum\<rparr>)"

text \<open>The streams counted against our own limit: opened by the peer, of the given direction.\<close>

definition sm_peer_streams :: "bool \<Rightarrow> stream_manager \<Rightarrow> (int \<times> stream_half) list" where
  "sm_peer_streams bidirectional m =
     filter (\<lambda>(sid, half). is_client_initiated sid \<noteq> sm_is_client m
       \<and> is_bidirectional sid = bidirectional) (sm_streams m)"

definition sm_max_streams_update :: "bool \<Rightarrow> stream_manager \<Rightarrow> int option \<times> stream_manager" where
  "sm_max_streams_update bidirectional m =
     (let window = (if bidirectional then sm_streams_window_bidi m else sm_streams_window_uni m);
          advertised = (if bidirectional then sm_local_max_streams_bidi m else sm_local_max_streams_uni m);
          opened = len (sm_peer_streams bidirectional m);
          closed = len (filter (\<lambda>(sid, half). case half_recv half of None \<Rightarrow> False
                                  | Some r \<Rightarrow> rv_is_fully_read r) (sm_peer_streams bidirectional m))
      in if 2 * (advertised - opened) \<ge> window then (None, m)
      else let limit = closed + window
      in if limit \<le> advertised then (None, m)
      else (Some limit, if bidirectional then m\<lparr>sm_local_max_streams_bidi := limit\<rparr>
                        else m\<lparr>sm_local_max_streams_uni := limit\<rparr>))"

definition sm_max_data_update :: "stream_manager \<Rightarrow> int option \<times> stream_manager" where
  "sm_max_data_update m =
     (let consumed = dict_sum (\<lambda>half. case half_recv half of None \<Rightarrow> 0 | Some r \<Rightarrow> rv_read_offset r)
                       (sm_streams m)
      in if 2 * (sm_local_max_data m - consumed) \<ge> sm_data_window m then (None, m)
      else let m = m\<lparr>sm_local_max_data := consumed + sm_data_window m\<rparr>
      in (Some (sm_local_max_data m), m))"


section \<open>What the operations do to the accounting\<close>

text \<open>The part of the invariant of a sending half that flow control needs.\<close>

definition send_acct :: "send_stream \<Rightarrow> bool" where
  "send_acct s \<longleftrightarrow>
     0 \<le> ss_base_offset s \<and> ss_highest_offset_sent s = ss_base_offset s
     \<and> ss_base_offset s \<le> ss_max_stream_data s"

lemma send_acct_init: "0 \<le> m \<Longrightarrow> send_acct (mk_send_stream sid m)"
  by (simp add: send_acct_def mk_send_stream_def)

lemma ss_new_frame_acct:
  assumes "send_acct s" "0 \<le> b" "b \<le> len (ss_pending s)" "ss_base_offset s + b \<le> ss_max_stream_data s"
  shows "send_acct (snd (ss_new_frame b s))"
    and "ss_stream_id (snd (ss_new_frame b s)) = ss_stream_id s"
    and "ss_base_offset s \<le> ss_base_offset (snd (ss_new_frame b s))"
    and "ss_base_offset (snd (ss_new_frame b s)) \<le> ss_base_offset s + b"
    and "fst (ss_new_frame b s) = None \<longrightarrow> snd (ss_new_frame b s) = s"
  using assms by (simp_all add: ss_new_frame_def send_acct_def Let_def)

lemma ss_next_frame_acct:
  assumes "send_acct s" "ss_next_frame mb cc s = (f, s')"
  shows "send_acct s' \<and> ss_stream_id s' = ss_stream_id s
    \<and> ss_highest_offset_sent s \<le> ss_highest_offset_sent s'
    \<and> ss_highest_offset_sent s' - ss_highest_offset_sent s \<le> max 0 cc
    \<and> (f = None \<longrightarrow> s' = s)"
proof (cases "ss_retransmit s \<noteq> [] \<and> len (stream_data (hd (ss_retransmit s))) \<le> mb")
  case True
  then show ?thesis using assms by (auto simp: ss_next_frame_def send_acct_def)
next
  case False
  let ?b = "ss_budget mb cc s"
  have b: "0 \<le> ?b" "?b \<le> len (ss_pending s)" "ss_base_offset s + ?b \<le> ss_max_stream_data s" "?b \<le> max 0 cc"
    using ss_budget_bounds [where mb = mb and cc = cc and s = s] assms(1) by (simp_all add: send_acct_def)
  have "s' = snd (ss_new_frame ?b s)" "f = fst (ss_new_frame ?b s)"
    using assms(2) unfolding ss_next_frame_def if_not_P [OF False] by simp_all
  with ss_new_frame_acct [OF assms(1) b(1-3)] b(4) assms(1) show ?thesis
    by (auto simp: send_acct_def)
qed

definition recv_acct :: "recv_stream \<Rightarrow> bool" where
  "recv_acct r \<longleftrightarrow> 0 \<le> rv_highest_offset r \<and> rv_highest_offset r \<le> rv_max_stream_data r \<and> 0 \<le> rv_window r"

lemma recv_acct_init: "0 \<le> m \<Longrightarrow> recv_acct (mk_recv_stream sid m)"
  by (simp add: recv_acct_def mk_recv_stream_def)

lemma rv_on_stream_frame_cases:
  assumes "rv_on_stream_frame f r = (res, r')"
  obtains e where "res = Inl (StreamError e)" "e \<in> {FLOW_CONTROL_ERROR, FINAL_SIZE_ERROR}"
      "rv_highest_offset r' = rv_highest_offset r" "rv_max_stream_data r' = rv_max_stream_data r"
      "rv_window r' = rv_window r"
    | "res = Inr ()" "stream_offset f + len (stream_data f) \<le> rv_max_stream_data r"
      "rv_highest_offset r' = max (rv_highest_offset r) (stream_offset f + len (stream_data f))"
      "rv_max_stream_data r' = rv_max_stream_data r" "rv_window r' = rv_window r"
proof -
  define r1 where "r1 = (if stream_fin f
    then r\<lparr>rv_final_size := Some (stream_offset f + len (stream_data f))\<rparr> else r)"
  have r1: "rv_highest_offset r1 = rv_highest_offset r" "rv_max_stream_data r1 = rv_max_stream_data r"
      "rv_window r1 = rv_window r"
    by (simp_all add: r1_def)
  let ?stop = "stream_offset f + len (stream_data f)"
  have eq: "rv_on_stream_frame f r =
    (if (case rv_final_size r of None \<Rightarrow> False | Some n \<Rightarrow> ?stop > n \<or> stream_fin f \<and> ?stop \<noteq> n)
        \<or> stream_fin f \<and> ?stop < rv_highest_offset r
     then (Inl (StreamError FINAL_SIZE_ERROR), r)
     else if ?stop > rv_max_stream_data r then (Inl (StreamError FLOW_CONTROL_ERROR), r1)
     else (Inr (), rv_accept f r1))"
    unfolding rv_on_stream_frame_def Let_def r1_def [symmetric] r1(2) by (rule if_disj)
  from assms [unfolded eq] consider
      "res = Inl (StreamError FINAL_SIZE_ERROR)" "r' = r"
    | "res = Inl (StreamError FLOW_CONTROL_ERROR)" "r' = r1"
    | "res = Inr ()" "r' = rv_accept f r1" "?stop \<le> rv_max_stream_data r"
    by (auto simp only: prod.inject not_less split: if_split_asm)
  then show thesis
  proof cases
    case 1
    show ?thesis by (rule that(1) [OF 1(1)]) (simp_all add: 1(2))
  next
    case 2
    show ?thesis by (rule that(1) [OF 2(1)]) (simp_all add: 2(2) r1)
  next
    case 3
    then show ?thesis using r1 by (intro that(2)) (simp_all add: rv_accept_fields)
  qed
qed

lemma rv_on_stream_frame_acct:
  assumes "recv_acct r" "rv_on_stream_frame f r = (res, r')"
  shows "recv_acct r' \<and> rv_highest_offset r \<le> rv_highest_offset r'"
  using assms(2) by (rule rv_on_stream_frame_cases) (use assms(1) in \<open>auto simp: recv_acct_def\<close>)


section \<open>The invariant\<close>

definition sent_of :: "stream_half \<Rightarrow> int" where
  "sent_of h = (case half_send h of None \<Rightarrow> 0 | Some s \<Rightarrow> ss_highest_offset_sent s)"

definition received_of :: "stream_half \<Rightarrow> int" where
  "received_of h = (case half_recv h of None \<Rightarrow> 0 | Some r \<Rightarrow> rv_highest_offset r)"

definition half_ok :: "int \<Rightarrow> stream_half \<Rightarrow> bool" where
  "half_ok sid h \<longleftrightarrow>
     (case half_send h of None \<Rightarrow> True | Some s \<Rightarrow> send_acct s \<and> ss_stream_id s = sid)
     \<and> (case half_recv h of None \<Rightarrow> True | Some r \<Rightarrow> recv_acct r)"

definition limits_ok :: "flow_control_limits \<Rightarrow> bool" where
  "limits_ok l \<longleftrightarrow>
     0 \<le> fl_max_data l \<and> 0 \<le> fl_max_stream_data_bidi_local l
     \<and> 0 \<le> fl_max_stream_data_bidi_remote l \<and> 0 \<le> fl_max_stream_data_uni l"

definition local_id :: "stream_manager \<Rightarrow> int \<Rightarrow> int" where
  "local_id m k = 4 * k + (if sm_is_client m then 0 else 1)"

definition sm_inv :: "stream_manager \<Rightarrow> bool" where
  "sm_inv m \<longleftrightarrow>
     distinct (map fst (sm_streams m))
     \<and> (\<forall>(sid, h) \<in> set (sm_streams m). half_ok sid h)
     \<and> limits_ok (sm_local m) \<and> limits_ok (sm_peer m)
     \<and> sm_data_sent m = dict_sum sent_of (sm_streams m)
     \<and> sm_data_received m = dict_sum received_of (sm_streams m)
     \<and> 0 \<le> sm_next_bidi_sequence m
     \<and> (\<forall>sid \<in> fst ` set (sm_streams m). is_client_initiated sid = sm_is_client m \<longrightarrow>
          (\<exists>k. 0 \<le> k \<and> k < sm_next_bidi_sequence m \<and> sid = local_id m k))"

lemma sm_inv_init: "limits_ok l \<Longrightarrow> limits_ok p \<Longrightarrow> sm_inv (mk_stream_manager c l p)"
  by (simp add: sm_inv_def mk_stream_manager_def limits_ok_def)

lemma map_of_half_ok:
  "sm_inv m \<Longrightarrow> map_of (sm_streams m) sid = Some h \<Longrightarrow> half_ok sid h"
  by (auto simp: sm_inv_def dest: map_of_SomeD)

text \<open>Replacing a half keeps the invariant if the accounting is kept.\<close>

lemma sm_inv_map_entry:
  assumes inv: "sm_inv m" and h: "map_of (sm_streams m) sid = Some h" and ok: "half_ok sid (f h)"
    and sent: "ds = sm_data_sent m + (sent_of (f h) - sent_of h)"
    and recv: "dr = sm_data_received m + (received_of (f h) - received_of h)"
  shows "sm_inv (m\<lparr>sm_streams := AList.map_entry sid f (sm_streams m), sm_data_sent := ds,
    sm_data_received := dr\<rparr>)"
proof -
  have "\<forall>(sid', h') \<in> set (AList.map_entry sid f (sm_streams m)). half_ok sid' h'"
    using inv h ok by (auto simp: sm_inv_def set_map_entry)
  then show ?thesis
    using inv h sent recv by (simp add: sm_inv_def dict_sum_map_entry local_id_def)
qed


section \<open>Every operation keeps the invariant\<close>

lemma sm_put_send_inv:
  assumes inv: "sm_inv m" and s: "sm_send_stream sid m = Inr s"
    and s': "send_acct s'" "ss_stream_id s' = ss_stream_id s"
    and ds: "ds = sm_data_sent m + (ss_highest_offset_sent s' - ss_highest_offset_sent s)"
  shows "sm_inv ((sm_put_send sid s' m)\<lparr>sm_data_sent := ds\<rparr>)"
proof -
  obtain h where h: "map_of (sm_streams m) sid = Some h" "half_send h = Some s"
    using s by (auto simp: sm_send_stream_def split: option.splits)
  have "half_ok sid h" using map_of_half_ok [OF inv h(1)] .
  then have "half_ok sid (h\<lparr>half_send := Some s'\<rparr>)"
    using s' h(2) by (simp add: half_ok_def)
  from sm_inv_map_entry [OF inv h(1), of "\<lambda>h. h\<lparr>half_send := Some s'\<rparr>", OF this, of ds "sm_data_received m"]
  show ?thesis
    using ds h(2) by (simp add: sm_put_send_def sent_of_def received_of_def)
qed

lemma sm_put_recv_inv:
  assumes inv: "sm_inv m" and h: "map_of (sm_streams m) sid = Some h" "half_recv h = Some r"
    and r': "recv_acct r'"
    and dr: "dr = sm_data_received m + (rv_highest_offset r' - rv_highest_offset r)"
  shows "sm_inv ((sm_put_recv sid r' m)\<lparr>sm_data_received := dr\<rparr>)"
proof -
  have "half_ok sid h" using map_of_half_ok [OF inv h(1)] .
  then have "half_ok sid (h\<lparr>half_recv := Some r'\<rparr>)"
    using r' by (simp add: half_ok_def)
  then show ?thesis
    using sm_inv_map_entry [OF inv h(1), of "\<lambda>h. h\<lparr>half_recv := Some r'\<rparr>" "sm_data_sent m" dr] dr h(2)
    by (simp add: sm_put_recv_def sent_of_def received_of_def)
qed

lemma sm_next_frame_inv:
  assumes inv: "sm_inv m" and n: "sm_next_frame sid mb m = (res, m')"
  shows "sm_inv m' \<and> sm_data_sent m' \<le> max (sm_data_sent m) (sm_max_data m)"
proof (cases "sm_send_stream sid m")
  case (Inl e)
  with n inv show ?thesis by (simp add: sm_next_frame_def)
next
  case (Inr s)
  obtain f s' where nf: "ss_next_frame mb (sm_max_data m - sm_data_sent m) s = (f, s')"
    by (cases "ss_next_frame mb (sm_max_data m - sm_data_sent m) s")
  have "send_acct s"
    using Inr map_of_half_ok [OF inv] by (fastforce simp: sm_send_stream_def half_ok_def split: option.splits)
  note A = ss_next_frame_acct [OF this nf]
  define ds where "ds = sm_data_sent m + (ss_highest_offset_sent s' - ss_highest_offset_sent s)"
  have "ds \<le> max (sm_data_sent m) (sm_max_data m)"
    using A unfolding ds_def by linarith
  moreover have "sm_inv ((sm_put_send sid s' m)\<lparr>sm_data_sent := ds\<rparr>)"
    using A by (intro sm_put_send_inv [OF inv Inr]) (auto simp: ds_def)
  moreover have "m' = (sm_put_send sid s' m)\<lparr>sm_data_sent := ds\<rparr>"
    using n A by (cases f) (auto simp: sm_next_frame_def Inr nf Let_def ds_def sm_put_send_def)
  ultimately show ?thesis by simp
qed

lemma is_client_initiated_local_id: "is_client_initiated (local_id m k) = sm_is_client m"
  unfolding is_client_initiated_def local_id_def and_one_eq
  by (cases "sm_is_client m"; simp; presburger)

lemma sm_inv_add:
  assumes inv: "sm_inv m" and new: "sid \<notin> fst ` set (sm_streams m)" and ok: "half_ok sid h"
    and zero: "sent_of h = 0" "received_of h = 0"
    and k: "sm_next_bidi_sequence m \<le> k"
    and id: "is_client_initiated sid = sm_is_client m \<longrightarrow> (\<exists>j\<ge>0. j < k \<and> sid = local_id m j)"
  shows "sm_inv (m\<lparr>sm_next_bidi_sequence := k, sm_streams := AList.update sid h (sm_streams m)\<rparr>)"
proof -
  have "\<forall>sid \<in> fst ` set (sm_streams m). is_client_initiated sid = sm_is_client m \<longrightarrow>
          (\<exists>j. 0 \<le> j \<and> j < k \<and> sid = local_id m j)"
    using inv k by (fastforce simp: sm_inv_def)
  then show ?thesis
    using assms by (simp add: sm_inv_def update_fresh [OF new] local_id_def)
qed

lemma open_bidi_id:
  "push_bit 2 (sm_next_bidi_sequence m) OR (if sm_is_client m then 0 else 1)
     = local_id m (sm_next_bidi_sequence m)"
  using or_add_shifted [of 1 2 "sm_next_bidi_sequence m"]
  by (simp add: local_id_def push_bit_eq_mult or.commute)

lemma sm_open_bidi_inv:
  assumes inv: "sm_inv m" and o: "sm_open_bidi m = (Inr sid, m')"
  shows "sm_inv m' \<and> sid \<notin> fst ` set (sm_streams m) \<and> sid = local_id m (sm_next_bidi_sequence m)
    \<and> sm_next_bidi_sequence m < sm_max_streams_bidi m
    \<and> fst ` set (sm_streams m') = insert sid (fst ` set (sm_streams m))"
proof -
  define h where "h = \<lparr>half_send = Some (mk_send_stream sid (fl_max_stream_data_bidi_remote (sm_peer m))),
    half_recv = Some (mk_recv_stream sid (fl_max_stream_data_bidi_local (sm_local m)))\<rparr>"
  have sid: "sid = local_id m (sm_next_bidi_sequence m)" and lim: "sm_next_bidi_sequence m < sm_max_streams_bidi m"
      and m': "m' = m\<lparr>sm_next_bidi_sequence := sm_next_bidi_sequence m + 1,
        sm_streams := AList.update sid h (sm_streams m)\<rparr>"
    using o by (auto simp: sm_open_bidi_def Let_def open_bidi_id h_def split: if_splits)
  have new: "sid \<notin> fst ` set (sm_streams m)"
  proof
    assume "sid \<in> fst ` set (sm_streams m)"
    with inv obtain j where "j < sm_next_bidi_sequence m" "sid = local_id m j"
      by (fastforce simp: sm_inv_def sid is_client_initiated_local_id)
    then show False by (simp add: sid local_id_def)
  qed
  have lims: "limits_ok (sm_local m)" "limits_ok (sm_peer m)" "0 \<le> sm_next_bidi_sequence m"
    using inv by (simp_all add: sm_inv_def)
  have "half_ok sid h"
    using lims by (simp add: h_def half_ok_def send_acct_init recv_acct_init limits_ok_def)
      (simp add: mk_send_stream_def)
  moreover have "sent_of h = 0" "received_of h = 0"
    by (simp_all add: h_def sent_of_def received_of_def mk_send_stream_def mk_recv_stream_def)
  ultimately have "sm_inv m'"
    unfolding m' using new lims(3) sid by (intro sm_inv_add [OF inv]) auto
  with new sid lim show ?thesis by (simp add: m' update_fresh)
qed

lemma sm_create_ok:
  assumes "limits_ok (sm_local m)" "limits_ok (sm_peer m)" "sm_create_peer_initiated sid m = Inr h"
  shows "half_ok sid h \<and> sent_of h = 0 \<and> received_of h = 0 \<and> is_client_initiated sid \<noteq> sm_is_client m"
proof -
  have "half_ok sid \<lparr>half_send = Some (mk_send_stream sid a), half_recv = Some (mk_recv_stream sid b)\<rparr>"
      "half_ok sid \<lparr>half_send = None, half_recv = Some (mk_recv_stream sid b)\<rparr>"
    if "0 \<le> a" "0 \<le> b" for a b
    using that by (simp_all add: half_ok_def send_acct_init recv_acct_init) (simp_all add: mk_send_stream_def)
  with assms show ?thesis
    by (auto simp: sm_create_peer_initiated_def Let_def limits_ok_def sent_of_def received_of_def
        mk_send_stream_def mk_recv_stream_def split: if_splits)
qed

lemma sm_lookup_or_create_inv:
  assumes inv: "sm_inv m" and l: "sm_lookup_or_create sid m = (res, m')"
  shows "sm_inv m'" and "res = Inr h \<Longrightarrow> map_of (sm_streams m') sid = Some h"
    and "res = Inl e \<Longrightarrow> e \<in> {StreamError STREAM_STATE_ERROR, StreamError STREAM_LIMIT_ERROR}"
proof -
  have lims: "limits_ok (sm_local m)" "limits_ok (sm_peer m)" using inv by (simp_all add: sm_inv_def)
  have *: "sm_inv m' \<and> (\<forall>h. res = Inr h \<longrightarrow> map_of (sm_streams m') sid = Some h)
    \<and> (\<forall>e. res = Inl e \<longrightarrow> e \<in> {StreamError STREAM_STATE_ERROR, StreamError STREAM_LIMIT_ERROR})"
  proof (cases "map_of (sm_streams m) sid")
    case None
    then have new: "sid \<notin> fst ` set (sm_streams m)" by (simp add: map_of_eq_None_iff)
    show ?thesis
    proof (cases "sm_create_peer_initiated sid m")
      case (Inl e)
      then have "e \<in> {StreamError STREAM_STATE_ERROR, StreamError STREAM_LIMIT_ERROR}"
        by (auto simp: sm_create_peer_initiated_def Let_def split: if_splits)
      with Inl None l inv show ?thesis by (auto simp: sm_lookup_or_create_def)
    next
      case (Inr h)
      have "sm_inv (m\<lparr>sm_next_bidi_sequence := sm_next_bidi_sequence m,
          sm_streams := AList.update sid h (sm_streams m)\<rparr>)"
        using sm_create_ok [OF lims Inr] new by (intro sm_inv_add [OF inv]) auto
      with Inr None l show ?thesis by (auto simp: sm_lookup_or_create_def update_conv)
    qed
  next
    case (Some h)
    with l inv show ?thesis by (auto simp: sm_lookup_or_create_def)
  qed
  then show "sm_inv m'" "res = Inr h \<Longrightarrow> map_of (sm_streams m') sid = Some h"
    "res = Inl e \<Longrightarrow> e \<in> {StreamError STREAM_STATE_ERROR, StreamError STREAM_LIMIT_ERROR}" by auto
qed

lemma sm_receive_inv:
  assumes inv: "sm_inv m" and h: "map_of (sm_streams m) (stream_id f) = Some h" "half_recv h = Some r"
    and rec: "sm_receive f r m = (res, m')"
  shows "sm_inv m'
    \<and> (case res of
         Inl e \<Rightarrow> e \<in> {StreamError FLOW_CONTROL_ERROR, StreamError FINAL_SIZE_ERROR}
       | Inr _ \<Rightarrow> sm_data_received m' \<le> sm_local_max_data m'
           \<and> stream_offset f + len (stream_data f) \<le> rv_max_stream_data r)"
proof -
  have r: "recv_acct r" using map_of_half_ok [OF inv h(1)] h(2) by (simp add: half_ok_def)
  obtain q r' where q: "rv_on_stream_frame f r = (q, r')" by (cases "rv_on_stream_frame f r")
  note r' = rv_on_stream_frame_acct [OF r q]
  define dr where "dr = sm_data_received m + (rv_highest_offset r' - rv_highest_offset r)"
  have i: "sm_inv ((sm_put_recv (stream_id f) r' m)\<lparr>sm_data_received := dr\<rparr>)"
    using r' by (intro sm_put_recv_inv [OF inv h]) (simp_all add: dr_def)
  from q show ?thesis
  proof (cases rule: rv_on_stream_frame_cases)
    case (1 e)
    then have "sm_put_recv (stream_id f) r' m = (sm_put_recv (stream_id f) r' m)\<lparr>sm_data_received := dr\<rparr>"
      by (simp add: dr_def sm_put_recv_def)
    with i 1 rec show ?thesis by (auto simp: sm_receive_def q)
  next
    case 2
    with i rec show ?thesis
      by (auto simp: sm_receive_def q Let_def dr_def sm_put_recv_def split: if_splits)
  qed
qed

lemma sm_on_stream_frame_inv:
  assumes inv: "sm_inv m" and rec: "sm_on_stream_frame f m = (res, m')"
  shows "sm_inv m'
    \<and> (case res of
         Inl e \<Rightarrow> e \<in> StreamError ` {FLOW_CONTROL_ERROR, STREAM_LIMIT_ERROR, STREAM_STATE_ERROR, FINAL_SIZE_ERROR}
       | Inr _ \<Rightarrow> sm_data_received m' \<le> sm_local_max_data m')"
proof -
  obtain q m1 where q: "sm_lookup_or_create (stream_id f) m = (q, m1)" by (cases "sm_lookup_or_create (stream_id f) m")
  note L = sm_lookup_or_create_inv [OF inv q]
  show ?thesis
  proof (cases q)
    case (Inl e)
    with rec L show ?thesis by (auto simp: sm_on_stream_frame_def q)
  next
    case (Inr h)
    show ?thesis
    proof (cases "half_recv h")
      case None
      with rec L(1) Inr show ?thesis by (auto simp: sm_on_stream_frame_def q)
    next
      case (Some r)
      then have "sm_receive f r m1 = (res, m')" using rec Inr by (simp add: sm_on_stream_frame_def q)
      from sm_receive_inv [OF L(1) L(2) [OF Inr] Some this] show ?thesis
        by (auto split: sum.splits)
    qed
  qed
qed

lemma sm_update_peer_limits_inv:
  assumes inv: "sm_inv m" and peer: "limits_ok peer"
  shows "sm_inv (sm_update_peer_limits peer m)"
proof -
  let ?g = "\<lambda>h. h\<lparr>half_send := map_option (ss_on_max_stream_data (fl_max_stream_data_bidi_remote peer)) (half_send h)\<rparr>"
  have "half_ok sid (?g h)" if "half_ok sid h" for sid h
    using that by (auto simp: half_ok_def ss_on_max_stream_data_def send_acct_def split: option.splits)
  then have ok: "\<forall>(sid, h) \<in> set (map (\<lambda>(sid, h). (sid, ?g h)) (sm_streams m)). half_ok sid h"
    using inv by (auto simp: sm_inv_def)
  have "sent_of (?g h) = sent_of h" "received_of (?g h) = received_of h" for h
    by (auto simp: sent_of_def received_of_def ss_on_max_stream_data_def split: option.splits)
  then have sums: "dict_sum sent_of (map (\<lambda>(sid, h). (sid, ?g h)) (sm_streams m)) = dict_sum sent_of (sm_streams m)"
      "dict_sum received_of (map (\<lambda>(sid, h). (sid, ?g h)) (sm_streams m)) = dict_sum received_of (sm_streams m)"
    by (simp_all add: dict_sum_def comp_def case_prod_beta)
  have keys: "map fst (map (\<lambda>(sid, h). (sid, ?g h)) (sm_streams m)) = map fst (sm_streams m)"
    by (simp add: comp_def case_prod_beta)
  then have "fst ` set (map (\<lambda>(sid, h). (sid, ?g h)) (sm_streams m)) = fst ` set (sm_streams m)"
    by (metis image_set)
  with inv peer ok sums keys show ?thesis
    unfolding sm_update_peer_limits_def sm_inv_def local_id_def
    by (simp del: map_map set_map)
qed

text \<open>The methods the connection calls on a sending or receiving half it looked up.\<close>

inductive send_op :: "send_stream \<Rightarrow> send_stream \<Rightarrow> bool" where
  op_write: "ss_write data fin s = Inr s' \<Longrightarrow> send_op s s'"
| op_max_stream_data: "send_op s (ss_on_max_stream_data v s)"
| op_acked: "send_op s (ss_on_frame_acked f s)"
| op_requeue: "send_op s (ss_requeue f s)"

inductive recv_op :: "recv_stream \<Rightarrow> recv_stream \<Rightarrow> bool" where
  op_read: "rv_read r = (data, r') \<Longrightarrow> recv_op r r'"
| op_credit: "rv_credit_update r = (v, r') \<Longrightarrow> recv_op r r'"

lemma send_op_acct:
  "send_op s s' \<Longrightarrow> send_acct s \<Longrightarrow> send_acct s' \<and> ss_stream_id s' = ss_stream_id s
     \<and> ss_highest_offset_sent s' = ss_highest_offset_sent s"
  by (induction rule: send_op.induct)
    (auto simp: send_acct_def ss_write_def ss_on_max_stream_data_def ss_on_frame_acked_def
      ss_requeue_def Let_def split: if_splits option.splits)

lemma recv_op_acct:
  assumes "recv_op r r'" "recv_acct r"
  shows "recv_acct r' \<and> rv_highest_offset r' = rv_highest_offset r"
  using assms
proof (induction rule: recv_op.induct)
  case (op_read r data r')
  then show ?case by (auto simp: recv_acct_def rv_read_def Let_def split: if_splits)
next
  case (op_credit r v r')
  then show ?case
    by (auto simp: recv_acct_def rv_credit_update_def Let_def split: if_splits)
qed

inductive sm_step :: "stream_manager \<Rightarrow> stream_manager \<Rightarrow> bool" where
  open_bidi: "sm_open_bidi m = (res, m') \<Longrightarrow> sm_step m m'"
| peer_limits: "limits_ok peer \<Longrightarrow> sm_step m (sm_update_peer_limits peer m)"
| stream_frame: "sm_on_stream_frame f m = (res, m') \<Longrightarrow> sm_step m m'"
| next_frame: "sm_next_frame sid max_bytes m = (res, m') \<Longrightarrow> sm_step m m'"
| send_half: "sm_send_stream sid m = Inr s \<Longrightarrow> send_op s s' \<Longrightarrow> sm_step m (sm_put_send sid s' m)"
| recv_half: "sm_recv_stream sid m = Inr r \<Longrightarrow> recv_op r r' \<Longrightarrow> sm_step m (sm_put_recv sid r' m)"
| max_data: "sm_step m (sm_on_max_data v m)"
| max_streams: "sm_step m (sm_on_max_streams v bidirectional m)"
| max_streams_update: "sm_max_streams_update bidirectional m = (v, m') \<Longrightarrow> sm_step m m'"
| max_data_update: "sm_max_data_update m = (v, m') \<Longrightarrow> sm_step m m'"

lemma sm_inv_limits [simp]:
  "sm_inv (m\<lparr>sm_local_max_streams_bidi := v\<rparr>) = sm_inv m"
  "sm_inv (m\<lparr>sm_local_max_streams_uni := v\<rparr>) = sm_inv m"
  "sm_inv (m\<lparr>sm_local_max_data := v\<rparr>) = sm_inv m"
  "sm_inv (m\<lparr>sm_max_streams_bidi := v\<rparr>) = sm_inv m"
  "sm_inv (m\<lparr>sm_max_streams_uni := v\<rparr>) = sm_inv m"
  by (simp_all add: sm_inv_def local_id_def)

lemma sm_step_inv: "sm_step m m' \<Longrightarrow> sm_inv m \<Longrightarrow> sm_inv m'"
proof (induction rule: sm_step.induct)
  case (open_bidi m res m')
  show ?case
  proof (cases res)
    case (Inr sid)
    with sm_open_bidi_inv open_bidi show ?thesis by blast
  qed (use open_bidi in \<open>auto simp: sm_open_bidi_def Let_def split: if_splits\<close>)
next
  case (send_half sid m s s')
  then have "send_acct s"
    using map_of_half_ok by (fastforce simp: sm_send_stream_def half_ok_def split: option.splits)
  note A = send_op_acct [OF send_half.hyps(2) this]
  have "sm_inv ((sm_put_send sid s' m)\<lparr>sm_data_sent := sm_data_sent m\<rparr>)"
    using A by (intro sm_put_send_inv [OF send_half.prems send_half.hyps(1)]) auto
  moreover have "(sm_put_send sid s' m)\<lparr>sm_data_sent := sm_data_sent m\<rparr> = sm_put_send sid s' m"
    by (simp add: sm_put_send_def)
  ultimately show ?case by simp
next
  case (recv_half sid m r r')
  then obtain h where h: "map_of (sm_streams m) sid = Some h" "half_recv h = Some r"
    by (auto simp: sm_recv_stream_def split: option.splits)
  then have "recv_acct r" using map_of_half_ok recv_half by (fastforce simp: half_ok_def)
  note A = recv_op_acct [OF recv_half.hyps(2) this]
  have "sm_inv ((sm_put_recv sid r' m)\<lparr>sm_data_received := sm_data_received m\<rparr>)"
    using A by (intro sm_put_recv_inv [OF recv_half.prems h]) auto
  moreover have "(sm_put_recv sid r' m)\<lparr>sm_data_received := sm_data_received m\<rparr> = sm_put_recv sid r' m"
    by (simp add: sm_put_recv_def)
  ultimately show ?case by simp
next
  case (max_streams_update bidirectional m v m')
  then show ?case
    by (auto simp: sm_max_streams_update_def Let_def split: if_splits)
next
  case (max_data_update m v m')
  then show ?case
    by (auto simp: sm_max_data_update_def Let_def split: if_splits)
next
  case (max_data m v)
  then show ?case by (auto simp: sm_on_max_data_def sm_inv_def local_id_def)
next
  case (max_streams m v bidirectional)
  then show ?case by (simp add: sm_on_max_streams_def)
qed (auto dest: sm_update_peer_limits_inv sm_next_frame_inv sm_on_stream_frame_inv)

lemma sm_reachable_inv:
  assumes "sm_step\<^sup>*\<^sup>* (mk_stream_manager c l p) m" "limits_ok l" "limits_ok p"
  shows "sm_inv m"
  using assms(1) by (induction rule: rtranclp_induct) (auto intro: sm_inv_init [OF assms(2,3)] sm_step_inv)


section \<open>Correctness\<close>

text \<open>No step sends past the limit in force: only \<open>next_frame\<close> adds to the total.\<close>

lemma sm_lookup_sent: "sm_lookup_or_create sid m = (res, m') \<Longrightarrow> sm_data_sent m' = sm_data_sent m"
  by (auto simp: sm_lookup_or_create_def split: option.splits sum.splits)

lemma sm_on_stream_frame_sent:
  assumes "sm_on_stream_frame f m = (res, m')"
  shows "sm_data_sent m' = sm_data_sent m"
proof -
  obtain q m1 where q: "sm_lookup_or_create (stream_id f) m = (q, m1)" by fastforce
  have m1: "sm_data_sent m1 = sm_data_sent m" by (rule sm_lookup_sent [OF q])
  have "sm_data_sent (snd (sm_receive f r m1)) = sm_data_sent m1" for r
    by (simp add: sm_receive_def sm_put_recv_def Let_def split: prod.split sum.split)
  then have "sm_data_sent (snd (sm_on_stream_frame f m)) = sm_data_sent m"
    by (simp add: sm_on_stream_frame_def bindS_def q m1 split: sum.split option.split)
  with assms show ?thesis by simp
qed

lemma sm_step_sent: "sm_step m m' \<Longrightarrow> sm_inv m \<Longrightarrow> sm_data_sent m' \<le> max (sm_data_sent m) (sm_max_data m)"
proof (induction rule: sm_step.induct)
  case (next_frame sid max_bytes m res m')
  then show ?case using sm_next_frame_inv by blast
next
  case (stream_frame f m res m')
  then show ?case using sm_on_stream_frame_sent by fastforce
qed (auto simp: sm_open_bidi_def sm_update_peer_limits_def sm_put_send_def sm_put_recv_def sm_on_max_data_def sm_on_max_streams_def
    sm_max_streams_update_def sm_max_data_update_def Let_def split: if_splits)

text \<open>Reachability with the greatest MAX_DATA that has been in force: a rejection of early data may
  replace a remembered limit by a smaller one.\<close>

inductive sm_reaches :: "bool \<Rightarrow> flow_control_limits \<Rightarrow> flow_control_limits \<Rightarrow> stream_manager \<Rightarrow> int \<Rightarrow> bool"
  for is_client local peer where
  reaches_new: "sm_reaches is_client local peer (mk_stream_manager is_client local peer) (fl_max_data peer)"
| reaches_step: "sm_reaches is_client local peer m granted \<Longrightarrow> sm_step m m' \<Longrightarrow>
    sm_reaches is_client local peer m' (max granted (sm_max_data m'))"

lemma sm_reaches_granted:
  assumes "sm_reaches is_client local peer m granted" "limits_ok local" "limits_ok peer"
  shows "sm_inv m \<and> sm_data_sent m \<le> granted \<and> sm_max_data m \<le> granted"
  using assms(1)
proof (induction rule: sm_reaches.induct)
  case reaches_new
  then show ?case using sm_inv_init [OF assms(2,3)] assms(3) by (simp add: mk_stream_manager_def limits_ok_def)
next
  case (reaches_step m granted m')
  then show ?case using sm_step_inv [of m m'] sm_step_sent [of m m'] by auto
qed

text \<open>
  C13: flow control is respected in every state the manager can reach. The sending credit consumed
  is the sum of the highest offsets sent; it never exceeds the greatest MAX_DATA the peer has
  granted, and no step adds to it beyond the MAX_DATA in force at that moment. No stream is sent
  beyond its own credit. The received total is the sum of the highest offsets received, each within
  the credit advertised for its stream, and a frame is accepted only if it leaves the total within the
  MAX_DATA advertised to the peer.
\<close>

theorem stream_manager_flow_control:
  assumes "sm_reaches is_client local peer m granted" "limits_ok local" "limits_ok peer"
  shows "sm_data_sent m = dict_sum sent_of (sm_streams m) \<and> sm_data_sent m \<le> granted
    \<and> (\<forall>m'. sm_step m m' \<longrightarrow> sm_data_sent m' \<le> max (sm_data_sent m) (sm_max_data m))
    \<and> sm_data_received m = dict_sum received_of (sm_streams m)
    \<and> (\<forall>f r m'. sm_on_stream_frame f m = (Inr r, m') \<longrightarrow> sm_data_received m' \<le> sm_local_max_data m')
    \<and> (\<forall>sid h. map_of (sm_streams m) sid = Some h \<longrightarrow>
         (\<forall>s. half_send h = Some s \<longrightarrow> ss_highest_offset_sent s \<le> ss_max_stream_data s)
         \<and> (\<forall>r. half_recv h = Some r \<longrightarrow> rv_highest_offset r \<le> rv_max_stream_data r))"
proof -
  have inv: "sm_inv m" and granted: "sm_data_sent m \<le> granted" using sm_reaches_granted [OF assms] by simp_all
  have "(\<forall>s. half_send h = Some s \<longrightarrow> ss_highest_offset_sent s \<le> ss_max_stream_data s)
      \<and> (\<forall>r. half_recv h = Some r \<longrightarrow> rv_highest_offset r \<le> rv_max_stream_data r)"
    if "map_of (sm_streams m) sid = Some h" for sid h
    using map_of_half_ok [OF inv that] by (auto simp: half_ok_def send_acct_def recv_acct_def)
  moreover have "sm_data_received m' \<le> sm_local_max_data m'" if "sm_on_stream_frame f m = (Inr r, m')" for f r m'
    using sm_on_stream_frame_inv [OF inv that] by simp
  moreover have "sm_data_sent m' \<le> max (sm_data_sent m) (sm_max_data m)" if "sm_step m m'" for m'
    using sm_step_sent [OF that inv] .
  ultimately show ?thesis using inv granted by (simp add: sm_inv_def)
qed

definition example_limits :: flow_control_limits where
  "example_limits = \<lparr>fl_max_data = 100, fl_max_stream_data_bidi_local = 50,
     fl_max_stream_data_bidi_remote = 50, fl_max_stream_data_uni = 50,
     fl_max_streams_bidi = 2, fl_max_streams_uni = 2\<rparr>"

lemma example_limits_ok: "limits_ok example_limits"
  by (simp add: limits_ok_def example_limits_def)

definition example_reduced :: flow_control_limits where
  "example_reduced = example_limits\<lparr>fl_max_data := 10\<rparr>"

text \<open>A client writes forty bytes of early data, sends them, and learns of a limit of ten.\<close>

definition example_sent :: stream_manager where
  "example_sent = snd (sm_next_frame 0 100 (sm_put_send 0 (projr (ss_write (replicate 40 0) False (mk_send_stream 0 50)))
     (snd (sm_open_bidi (mk_stream_manager True example_limits example_limits)))))"

lemma example_sent_reached:
  "sm_reaches True example_limits example_limits (sm_update_peer_limits example_reduced example_sent) 100"
proof -
  let ?m0 = "mk_stream_manager True example_limits example_limits"
  let ?m1 = "snd (sm_open_bidi ?m0)"
  let ?s = "projr (ss_write (replicate 40 0) False (mk_send_stream 0 50))"
  let ?m2 = "sm_put_send 0 ?s ?m1"
  have "sm_step ?m0 ?m1" by (rule sm_step.open_bidi) (rule surjective_pairing)
  moreover have "sm_send_stream 0 ?m1 = Inr (mk_send_stream 0 50)" "ss_write (replicate 40 0) False (mk_send_stream 0 50) = Inr ?s"
    by code_simp+
  then have "sm_step ?m1 ?m2" by (intro sm_step.send_half send_op.op_write)
  moreover have "sm_step ?m2 example_sent"
    unfolding example_sent_def by (rule sm_step.next_frame) (rule surjective_pairing)
  moreover have "sm_step example_sent (sm_update_peer_limits example_reduced example_sent)"
    by (rule sm_step.peer_limits) (simp add: limits_ok_def example_reduced_def example_limits_def)
  moreover have "sm_max_data ?m1 = 100" "sm_max_data ?m2 = 100" "sm_max_data example_sent = 100" "fl_max_data example_limits = 100"
    "sm_max_data (sm_update_peer_limits example_reduced example_sent) = 10"
    by code_simp+
  ultimately show ?thesis
    using reaches_step [of True example_limits example_limits ?m0 100 ?m1] reaches_step [of True example_limits example_limits ?m1 100 ?m2]
      reaches_step [of True example_limits example_limits ?m2 100 example_sent]
      reaches_step [of True example_limits example_limits example_sent 100 "sm_update_peer_limits example_reduced example_sent"]
      reaches_new [of True example_limits example_limits] by simp
qed

theorem stream_manager_flow_control_witness:
  "sm_data_sent (sm_update_peer_limits example_reduced example_sent)
      = dict_sum sent_of (sm_streams (sm_update_peer_limits example_reduced example_sent))
    \<and> sm_data_sent (sm_update_peer_limits example_reduced example_sent) \<le> 100
    \<and> sm_data_sent (sm_update_peer_limits example_reduced example_sent) = 40"
proof -
  have "sm_data_sent (sm_update_peer_limits example_reduced example_sent) = 40" by code_simp
  then show ?thesis
    using stream_manager_flow_control [OF example_sent_reached example_limits_ok example_limits_ok] by blast
qed

text \<open>
  Opening a bidirectional stream gives an identifier no stream of the connection has,
  of the endpoint's own initiator bit, in sequence, within the peer's limit, and leaves
  every other stream in place.
\<close>

lemma open_bidi_fresh:
  assumes "sm_step\<^sup>*\<^sup>* (mk_stream_manager is_client local peer) m" "limits_ok local" "limits_ok peer"
    and "sm_open_bidi m = (Inr sid, m')"
  shows "sid \<notin> fst ` set (sm_streams m) \<and> is_client_initiated sid = sm_is_client m
    \<and> is_bidirectional sid \<and> drop_bit 2 sid < sm_max_streams_bidi m
    \<and> fst ` set (sm_streams m') = insert sid (fst ` set (sm_streams m))"
proof -
  note O = sm_open_bidi_inv [OF sm_reachable_inv [OF assms(1-3)] assms(4)]
  then have sid: "sid = local_id m (sm_next_bidi_sequence m)" by blast
  have "is_bidirectional sid"
  proof -
    have "sid AND 2 = (sid AND 3) AND 2" by (simp add: and.assoc)
    also have "sid AND 3 = sid mod 4" using and_low_mask [of sid 2] by simp
    finally show ?thesis by (auto simp: is_bidirectional_def sid local_id_def)
  qed
  moreover have "drop_bit 2 sid = sm_next_bidi_sequence m"
    by (simp add: sid local_id_def drop_bit_eq_div)
  ultimately show ?thesis
    using O by (simp add: sid is_client_initiated_local_id)
qed

lemma open_bidi_fresh_witness:
  "\<exists>m' sid. sm_open_bidi (mk_stream_manager False example_limits example_limits) = (Inr sid, m')
    \<and> sid = 1 \<and> is_bidirectional sid \<and> \<not> is_client_initiated sid"
proof -
  let ?m0 = "mk_stream_manager False example_limits example_limits"
  obtain sid m' where m': "sm_open_bidi ?m0 = (Inr sid, m')"
    by (simp add: sm_open_bidi_def mk_stream_manager_def example_limits_def Let_def)
  from open_bidi_fresh [OF _ example_limits_ok example_limits_ok m'] m' show ?thesis
    by (auto simp: sm_open_bidi_def mk_stream_manager_def example_limits_def Let_def)
qed

text \<open>
  An incoming STREAM frame either raises a \<open>StreamError\<close> carrying one of the four
  stream error codes, or is accepted with the connection total within the advertised
  MAX_DATA; in both cases the accounting stays exact.
\<close>

lemma on_stream_frame_outcome:
  assumes "sm_step\<^sup>*\<^sup>* (mk_stream_manager is_client local peer) m" "limits_ok local" "limits_ok peer"
    and "sm_on_stream_frame f m = (res, m')"
  shows "sm_data_received m' = dict_sum received_of (sm_streams m')
    \<and> (case res of
         Inl e \<Rightarrow> \<exists>code \<in> {FLOW_CONTROL_ERROR, STREAM_LIMIT_ERROR, STREAM_STATE_ERROR, FINAL_SIZE_ERROR}.
             e = StreamError code
       | Inr _ \<Rightarrow> sm_data_received m' \<le> sm_local_max_data m')"
proof -
  have "sm_inv m'
    \<and> (case res of
         Inl e \<Rightarrow> e \<in> StreamError ` {FLOW_CONTROL_ERROR, STREAM_LIMIT_ERROR, STREAM_STATE_ERROR, FINAL_SIZE_ERROR}
       | Inr _ \<Rightarrow> sm_data_received m' \<le> sm_local_max_data m')"
    by (rule sm_on_stream_frame_inv [OF sm_reachable_inv [OF assms(1-3)] assms(4)])
  then show ?thesis by (auto simp: sm_inv_def image_iff split: sum.splits)
qed

lemma on_stream_frame_outcome_witness:
  "fst (sm_on_stream_frame \<lparr>stream_id = 9, stream_offset = 0, stream_data = [], stream_fin = False\<rparr>
     (mk_stream_manager False example_limits example_limits)) = Inl (StreamError STREAM_STATE_ERROR)
   \<and> sm_data_received (snd (sm_on_stream_frame
       \<lparr>stream_id = 0, stream_offset = 10, stream_data = [7], stream_fin = False\<rparr>
       (mk_stream_manager False example_limits example_limits))) = 11"
proof
  let ?m0 = "mk_stream_manager False example_limits example_limits"
  show "fst (sm_on_stream_frame \<lparr>stream_id = 9, stream_offset = 0, stream_data = [], stream_fin = False\<rparr> ?m0)
      = Inl (StreamError STREAM_STATE_ERROR)"
    by code_simp
  let ?f = "\<lparr>stream_id = 0, stream_offset = 10, stream_data = [7], stream_fin = False\<rparr>"
  obtain res m' where m': "sm_on_stream_frame ?f ?m0 = (res, m')" by (cases "sm_on_stream_frame ?f ?m0")
  have "dict_sum received_of (sm_streams (snd (sm_on_stream_frame ?f ?m0))) = 11"
    by code_simp
  with on_stream_frame_outcome [OF rtranclp.rtrancl_refl example_limits_ok example_limits_ok m'] m'
  show "sm_data_received (snd (sm_on_stream_frame ?f ?m0)) = 11" by simp
qed

text \<open>
  Adopting the handshake's limits does not lower the credit of streams opened under
  remembered 0-RTT limits: an existing stream keeps the larger of the two, so after a
  rejection that reduced the limit it may send beyond what the peer advertised.
\<close>

lemma update_peer_limits_keeps_stream_credit:
  assumes "map_of (sm_streams m) sid = Some h" "half_send h = Some s"
  shows "\<exists>s'. sm_send_stream sid (sm_update_peer_limits peer m) = Inr s'
    \<and> ss_max_stream_data s' = max (ss_max_stream_data s) (fl_max_stream_data_bidi_remote peer)"
  using assms
  by (simp add: sm_send_stream_def sm_update_peer_limits_def ss_on_max_stream_data_def map_of_map)

lemma update_peer_limits_keeps_stream_credit_witness:
  "\<exists>s'. sm_send_stream 0
      (sm_update_peer_limits (example_limits\<lparr>fl_max_stream_data_bidi_remote := 10\<rparr>)
        (snd (sm_open_bidi (mk_stream_manager True example_limits example_limits)))) = Inr s'
    \<and> ss_max_stream_data s' = 50"
proof -
  let ?m = "snd (sm_open_bidi (mk_stream_manager True example_limits example_limits))"
  have "map_of (sm_streams ?m) 0 = Some \<lparr>half_send = Some (mk_send_stream 0 50), half_recv = Some (mk_recv_stream 0 50)\<rparr>"
    by (simp add: sm_open_bidi_def mk_stream_manager_def example_limits_def Let_def)
  from update_peer_limits_keeps_stream_credit [OF this, of "mk_send_stream 0 50"
      "example_limits\<lparr>fl_max_stream_data_bidi_remote := 10\<rparr>"]
  show ?thesis by (simp add: mk_send_stream_def example_limits_def)
qed

end
