(* ===== verification/Congestion.thy ===== *)
theory Congestion
  imports Frames
begin

text \<open>
  \<open>src/dsquic/congestion.py\<close>: the interface between loss detection and a congestion
  controller, and the records of \<open>src/dsquic/recovery.py\<close> its events carry.

  \<open>controller\<close> is the protocol class as a record of operations on a controller state \<open>'c\<close>;
  the loss detector takes it as an argument. The locale \<open>congestion_controller\<close> is what
  loss detection relies on: the bytes in flight follow the events exactly, and the
  window stays positive.
\<close>

section \<open>Model\<close>

record sent_packet =
  sp_level :: encryption_level
  sp_packet_number :: int
  sp_time_sent :: time
  sp_ack_eliciting :: bool
  sp_in_flight :: bool
  sp_size :: int
  sp_frames :: "frame list"

record 'c controller =
  cc_congestion_window :: "'c \<Rightarrow> int"
  cc_bytes_in_flight :: "'c \<Rightarrow> int"
  cc_pacing_rate :: "time \<Rightarrow> 'c \<Rightarrow> rat option"
  cc_on_packet_sent :: "sent_packet \<Rightarrow> 'c \<Rightarrow> 'c"
  cc_on_packets_acked :: "sent_packet list \<Rightarrow> time \<Rightarrow> 'c \<Rightarrow> 'c"
  cc_on_packets_lost :: "sent_packet list \<Rightarrow> time \<Rightarrow> ('c, unit) se"
  cc_on_packets_discarded :: "sent_packet list \<Rightarrow> 'c \<Rightarrow> 'c"
  cc_on_persistent_congestion :: "'c \<Rightarrow> 'c"
  cc_on_ecn_ce :: "time \<Rightarrow> time \<Rightarrow> 'c \<Rightarrow> 'c"


section \<open>The interface\<close>

definition flight_size :: "sent_packet \<Rightarrow> int" where
  "flight_size p = (if sp_in_flight p then sp_size p else 0)"

definition flight_sizes :: "sent_packet list \<Rightarrow> int" where
  "flight_sizes ps = sum_list (map flight_size ps)"

definition sizes_ok :: "sent_packet list \<Rightarrow> bool" where
  "sizes_ok ps \<longleftrightarrow> list_all (\<lambda>p. 0 \<le> sp_size p) ps"

lemma flight_sizes_simps [simp]:
  "flight_sizes [] = 0"
  "flight_sizes (p # ps) = flight_size p + flight_sizes ps"
  "flight_sizes (ps @ qs) = flight_sizes ps + flight_sizes qs"
  by (simp_all add: flight_sizes_def)

lemma flight_sizes_in_flight: "flight_sizes (filter sp_in_flight ps) = flight_sizes ps"
  by (induction ps) (auto simp: flight_size_def)

lemma sizes_ok_simps [simp]:
  "sizes_ok []" "sizes_ok (p # ps) \<longleftrightarrow> 0 \<le> sp_size p \<and> sizes_ok ps"
  "sizes_ok (ps @ qs) \<longleftrightarrow> sizes_ok ps \<and> sizes_ok qs"
  by (simp_all add: sizes_ok_def)

lemma sizes_ok_filter [simp]: "sizes_ok ps \<Longrightarrow> sizes_ok (filter P ps)"
  by (auto simp: sizes_ok_def list_all_iff)

locale congestion_controller =
  fixes ops :: "'c controller" and inv :: "'c \<Rightarrow> bool"
  assumes window_positive: "inv c \<Longrightarrow> 0 < cc_congestion_window ops c"
    and sent_bytes: "cc_bytes_in_flight ops (cc_on_packet_sent ops p c)
      = cc_bytes_in_flight ops c + flight_size p"
    and acked_bytes: "cc_bytes_in_flight ops (cc_on_packets_acked ops ps now c)
      = cc_bytes_in_flight ops c - flight_sizes ps"
    and lost_returns: "ps \<noteq> [] \<Longrightarrow> fst (cc_on_packets_lost ops ps now c) = Inr ()"
    and lost_bytes: "ps \<noteq> [] \<Longrightarrow> cc_bytes_in_flight ops (snd (cc_on_packets_lost ops ps now c))
      = cc_bytes_in_flight ops c - flight_sizes ps"
    and discarded_bytes: "cc_bytes_in_flight ops (cc_on_packets_discarded ops ps c)
      = cc_bytes_in_flight ops c - flight_sizes ps"
    and persistent_bytes: "cc_bytes_in_flight ops (cc_on_persistent_congestion ops c)
      = cc_bytes_in_flight ops c"
    and ecn_bytes: "cc_bytes_in_flight ops (cc_on_ecn_ce ops t now c) = cc_bytes_in_flight ops c"
    and sent_inv: "inv c \<Longrightarrow> inv (cc_on_packet_sent ops p c)"
    and acked_inv: "inv c \<Longrightarrow> sizes_ok ps \<Longrightarrow> inv (cc_on_packets_acked ops ps now c)"
    and lost_inv: "inv c \<Longrightarrow> ps \<noteq> [] \<Longrightarrow> inv (snd (cc_on_packets_lost ops ps now c))"
    and discarded_inv: "inv c \<Longrightarrow> inv (cc_on_packets_discarded ops ps c)"
    and persistent_inv: "inv c \<Longrightarrow> inv (cc_on_persistent_congestion ops c)"
    and ecn_inv: "inv c \<Longrightarrow> inv (cc_on_ecn_ce ops t now c)"

end
