(* ===== verification/New_Reno.thy ===== *)
theory New_Reno
  imports Congestion
begin

text \<open>
  \<open>src/dsquic/new_reno.py\<close>: the NewReno controller (RFC 9002, section 7 and appendix B).

  The threshold \<open>float("inf")\<close> is \<open>None\<close>. Products and quotients of window and packet
  sizes are exact rationals, truncated as \<open>int()\<close> does. The lemmas show that the controller
  implements the interface of loss detection, that the window never falls below two
  datagrams, and that it is reduced at most once per recovery period.
\<close>

section \<open>Model\<close>

abbreviation (input) LOSS_REDUCTION_FACTOR :: rat where "LOSS_REDUCTION_FACTOR \<equiv> 1 / 2"
abbreviation (input) MINIMUM_WINDOW_DATAGRAMS :: int where "MINIMUM_WINDOW_DATAGRAMS \<equiv> 2"
abbreviation (input) PACING_GAIN :: rat where "PACING_GAIN \<equiv> 5 / 4"
abbreviation (input) INITIAL_WINDOW_FLOOR :: int where "INITIAL_WINDOW_FLOOR \<equiv> 14720"

record new_reno =
  nr_max_datagram_size :: int
  nr_congestion_window :: int
  nr_bytes_in_flight :: int
  nr_slow_start_threshold :: "int option"
  nr_recovery_start_time :: "time option"

definition mk_new_reno :: "int \<Rightarrow> new_reno" where
  "mk_new_reno max_datagram_size =
     \<lparr>nr_max_datagram_size = max_datagram_size,
      nr_congestion_window =
        min (10 * max_datagram_size) (max INITIAL_WINDOW_FLOOR (2 * max_datagram_size)),
      nr_bytes_in_flight = 0, nr_slow_start_threshold = None, nr_recovery_start_time = None\<rparr>"

definition nr_pacing_rate :: "time \<Rightarrow> new_reno \<Rightarrow> rat option" where
  "nr_pacing_rate smoothed_rtt c =
     (if smoothed_rtt \<le> 0 then None
      else Some (PACING_GAIN * of_int (nr_congestion_window c) / smoothed_rtt))"

definition nr_in_recovery :: "time \<Rightarrow> new_reno \<Rightarrow> bool" where
  "nr_in_recovery sent_time c =
     (case nr_recovery_start_time c of None \<Rightarrow> False | Some t \<Rightarrow> sent_time \<le> t)"

definition nr_on_packet_sent :: "sent_packet \<Rightarrow> new_reno \<Rightarrow> new_reno" where
  "nr_on_packet_sent packet c =
     (if sp_in_flight packet
      then c\<lparr>nr_bytes_in_flight := nr_bytes_in_flight c + sp_size packet\<rparr> else c)"

definition nr_ack_one :: "sent_packet \<Rightarrow> new_reno \<Rightarrow> new_reno" where
  "nr_ack_one packet c =
     (if \<not> sp_in_flight packet then c
      else let c = c\<lparr>nr_bytes_in_flight := nr_bytes_in_flight c - sp_size packet\<rparr>
      in if nr_in_recovery (sp_time_sent packet) c then c
      else if (case nr_slow_start_threshold c of None \<Rightarrow> True | Some t \<Rightarrow> nr_congestion_window c < t)
      then c\<lparr>nr_congestion_window := nr_congestion_window c + sp_size packet\<rparr>
      else let growth = of_int (nr_max_datagram_size c * sp_size packet) / of_int (nr_congestion_window c)
      in c\<lparr>nr_congestion_window := nr_congestion_window c + py_int growth\<rparr>)"

definition nr_on_packets_acked :: "sent_packet list \<Rightarrow> time \<Rightarrow> new_reno \<Rightarrow> new_reno" where
  "nr_on_packets_acked packets now c = fold nr_ack_one packets c"

definition nr_leave_flight :: "sent_packet list \<Rightarrow> new_reno \<Rightarrow> new_reno" where
  "nr_leave_flight packets c =
     fold (\<lambda>packet c. if sp_in_flight packet
       then c\<lparr>nr_bytes_in_flight := nr_bytes_in_flight c - sp_size packet\<rparr> else c) packets c"

definition nr_reduce :: "time \<Rightarrow> new_reno \<Rightarrow> new_reno" where
  "nr_reduce now c =
     (let reduced = py_int (of_int (nr_congestion_window c) * LOSS_REDUCTION_FACTOR);
          minimum = MINIMUM_WINDOW_DATAGRAMS * nr_max_datagram_size c
      in c\<lparr>nr_recovery_start_time := Some now, nr_congestion_window := max reduced minimum,
           nr_slow_start_threshold := Some (max reduced minimum)\<rparr>)"

definition nr_on_packets_lost :: "sent_packet list \<Rightarrow> time \<Rightarrow> (new_reno, unit) se" where
  "nr_on_packets_lost packets now c =
     (let c = nr_leave_flight packets c
      in if packets = [] then (Inl ValueError, c)
      else let latest_sent_time = foldl max (sp_time_sent (hd packets)) (map sp_time_sent (tl packets))
      in (Inr (), if nr_in_recovery latest_sent_time c then c else nr_reduce now c))"

definition nr_on_ecn_ce :: "time \<Rightarrow> time \<Rightarrow> new_reno \<Rightarrow> new_reno" where
  "nr_on_ecn_ce sent_time now c = (if nr_in_recovery sent_time c then c else nr_reduce now c)"

definition nr_on_packets_discarded :: "sent_packet list \<Rightarrow> new_reno \<Rightarrow> new_reno" where
  "nr_on_packets_discarded packets c = nr_leave_flight packets c"

definition nr_on_persistent_congestion :: "new_reno \<Rightarrow> new_reno" where
  "nr_on_persistent_congestion c =
     c\<lparr>nr_congestion_window := MINIMUM_WINDOW_DATAGRAMS * nr_max_datagram_size c,
       nr_recovery_start_time := None\<rparr>"

definition NewReno :: "new_reno controller" where
  "NewReno = \<lparr>cc_congestion_window = nr_congestion_window, cc_bytes_in_flight = nr_bytes_in_flight,
     cc_pacing_rate = nr_pacing_rate, cc_on_packet_sent = nr_on_packet_sent,
     cc_on_packets_acked = nr_on_packets_acked, cc_on_packets_lost = nr_on_packets_lost,
     cc_on_packets_discarded = nr_on_packets_discarded,
     cc_on_persistent_congestion = nr_on_persistent_congestion, cc_on_ecn_ce = nr_on_ecn_ce\<rparr>"


section \<open>NewReno implements the interface\<close>

definition nr_inv :: "new_reno \<Rightarrow> bool" where
  "nr_inv c \<longleftrightarrow> 0 < nr_max_datagram_size c \<and> 2 * nr_max_datagram_size c \<le> nr_congestion_window c"

lemma nr_inv_init: "0 < m \<Longrightarrow> nr_inv (mk_new_reno m)"
  by (simp add: nr_inv_def mk_new_reno_def)

lemma nr_ack_one_props:
  "nr_bytes_in_flight (nr_ack_one p c) = nr_bytes_in_flight c - flight_size p"
  "nr_max_datagram_size (nr_ack_one p c) = nr_max_datagram_size c"
  "nr_recovery_start_time (nr_ack_one p c) = nr_recovery_start_time c"
  by (simp_all add: nr_ack_one_def flight_size_def Let_def)

lemma nr_ack_one_window:
  assumes "nr_inv c" "0 \<le> sp_size p"
  shows "nr_congestion_window c \<le> nr_congestion_window (nr_ack_one p c)"
    and "nr_congestion_window (nr_ack_one p c) \<le> nr_congestion_window c + sp_size p"
proof -
  let ?g = "of_int (nr_max_datagram_size c * sp_size p) / of_int (nr_congestion_window c) :: rat"
  have w: "0 < nr_max_datagram_size c" "nr_max_datagram_size c \<le> nr_congestion_window c"
    using assms(1) by (auto simp: nr_inv_def)
  have g0: "0 \<le> ?g" using assms(2) w by simp
  have "nr_max_datagram_size c * sp_size p \<le> nr_congestion_window c * sp_size p"
    using w assms(2) by (simp add: mult_right_mono)
  then have "?g \<le> of_int (sp_size p)"
    using w by (simp add: divide_le_eq mult.commute flip: of_int_mult)
  with g0 have "0 \<le> py_int ?g" "py_int ?g \<le> sp_size p"
    by (simp_all add: py_int_def floor_le_iff)
  then show "nr_congestion_window c \<le> nr_congestion_window (nr_ack_one p c)"
      "nr_congestion_window (nr_ack_one p c) \<le> nr_congestion_window c + sp_size p"
    using assms(2) by (simp_all add: nr_ack_one_def Let_def)
qed


lemma nr_ack_one_inv: "nr_inv c \<Longrightarrow> 0 \<le> sp_size p \<Longrightarrow> nr_inv (nr_ack_one p c)"
  using nr_ack_one_window(1) [of c p] by (simp add: nr_inv_def nr_ack_one_props)

lemma nr_fold_ack_bytes:
  "nr_bytes_in_flight (fold nr_ack_one ps c) = nr_bytes_in_flight c - flight_sizes ps"
  by (induction ps arbitrary: c) (simp_all add: nr_ack_one_props)

lemma nr_fold_ack_inv: "nr_inv c \<Longrightarrow> sizes_ok ps \<Longrightarrow> nr_inv (fold nr_ack_one ps c)"
  by (induction ps arbitrary: c) (simp_all add: nr_ack_one_inv)

lemma nr_leave_flight_eq:
  "nr_leave_flight ps c = c\<lparr>nr_bytes_in_flight := nr_bytes_in_flight c - flight_sizes ps\<rparr>"
  unfolding nr_leave_flight_def by (induction ps arbitrary: c) (simp_all add: flight_size_def)

lemma nr_reduce_inv: "0 < nr_max_datagram_size c \<Longrightarrow> nr_inv (nr_reduce now c)"
  by (simp add: nr_inv_def nr_reduce_def Let_def)

lemma nr_reduce_bytes [simp]: "nr_bytes_in_flight (nr_reduce now c) = nr_bytes_in_flight c"
  by (simp add: nr_reduce_def Let_def)

lemma nr_inv_bytes [simp]: "nr_inv (c\<lparr>nr_bytes_in_flight := n\<rparr>) = nr_inv c"
  by (simp add: nr_inv_def)

lemma nr_in_recovery_bytes [simp]:
  "nr_in_recovery t (c\<lparr>nr_bytes_in_flight := n\<rparr>) = nr_in_recovery t c"
  by (simp add: nr_in_recovery_def)

lemma nr_inv_mds: "nr_inv c \<Longrightarrow> 0 < nr_max_datagram_size c"
  by (simp add: nr_inv_def)

lemmas nr_defs = NewReno_def nr_on_packet_sent_def nr_on_packets_acked_def nr_on_packets_lost_def
  nr_on_packets_discarded_def nr_on_persistent_congestion_def nr_on_ecn_ce_def

interpretation nr: congestion_controller NewReno nr_inv
proof
  fix c :: new_reno and p :: sent_packet and ps :: "sent_packet list" and t now :: time
  show "nr_inv c \<Longrightarrow> 0 < cc_congestion_window NewReno c" by (simp add: nr_defs nr_inv_def)
  show "cc_bytes_in_flight NewReno (cc_on_packet_sent NewReno p c)
      = cc_bytes_in_flight NewReno c + flight_size p"
    by (simp add: nr_defs flight_size_def)
  show "cc_bytes_in_flight NewReno (cc_on_packets_acked NewReno ps now c)
      = cc_bytes_in_flight NewReno c - flight_sizes ps"
    by (simp add: nr_defs nr_fold_ack_bytes)
  show "ps \<noteq> [] \<Longrightarrow> fst (cc_on_packets_lost NewReno ps now c) = Inr ()"
    by (simp add: nr_defs Let_def)
  show "ps \<noteq> [] \<Longrightarrow> cc_bytes_in_flight NewReno (snd (cc_on_packets_lost NewReno ps now c))
      = cc_bytes_in_flight NewReno c - flight_sizes ps"
    by (simp add: nr_defs Let_def nr_leave_flight_eq)
  show "cc_bytes_in_flight NewReno (cc_on_packets_discarded NewReno ps c)
      = cc_bytes_in_flight NewReno c - flight_sizes ps"
    by (simp add: nr_defs nr_leave_flight_eq)
  show "cc_bytes_in_flight NewReno (cc_on_persistent_congestion NewReno c)
      = cc_bytes_in_flight NewReno c"
    by (simp add: nr_defs)
  show "cc_bytes_in_flight NewReno (cc_on_ecn_ce NewReno t now c) = cc_bytes_in_flight NewReno c"
    by (simp add: nr_defs)
  show "nr_inv c \<Longrightarrow> nr_inv (cc_on_packet_sent NewReno p c)" by (simp add: nr_defs)
  show "nr_inv c \<Longrightarrow> sizes_ok ps \<Longrightarrow> nr_inv (cc_on_packets_acked NewReno ps now c)"
    by (simp add: nr_defs nr_fold_ack_inv)
  show "nr_inv c \<Longrightarrow> ps \<noteq> [] \<Longrightarrow> nr_inv (snd (cc_on_packets_lost NewReno ps now c))"
    by (simp add: nr_defs Let_def nr_leave_flight_eq nr_reduce_inv nr_inv_mds)
  show "nr_inv c \<Longrightarrow> nr_inv (cc_on_packets_discarded NewReno ps c)"
    by (simp add: nr_defs nr_leave_flight_eq)
  show "nr_inv c \<Longrightarrow> nr_inv (cc_on_persistent_congestion NewReno c)"
    by (simp add: nr_defs nr_inv_def)
  show "nr_inv c \<Longrightarrow> nr_inv (cc_on_ecn_ce NewReno t now c)"
    by (simp add: nr_defs nr_reduce_inv nr_inv_mds)
qed


section \<open>Sequences of events\<close>

datatype cc_event = Sent sent_packet | Acked "sent_packet list" time | Lost "sent_packet list" time
  | Discarded "sent_packet list" | Persistent | EcnCe time time

fun cc_step :: "cc_event \<Rightarrow> new_reno \<Rightarrow> new_reno" where
  "cc_step (Sent p) c = nr_on_packet_sent p c"
| "cc_step (Acked ps now) c = nr_on_packets_acked ps now c"
| "cc_step (Lost ps now) c = snd (nr_on_packets_lost ps now c)"
| "cc_step (Discarded ps) c = nr_on_packets_discarded ps c"
| "cc_step Persistent c = nr_on_persistent_congestion c"
| "cc_step (EcnCe t now) c = nr_on_ecn_ce t now c"

fun event_ok :: "cc_event \<Rightarrow> bool" where
  "event_ok (Acked ps now) = sizes_ok ps"
| "event_ok _ = True"

text \<open>The event concerns only packets sent no later than \<open>t\<close>; a burst of losses that amounts
  to persistent congestion is excluded.\<close>

fun event_before :: "time \<Rightarrow> cc_event \<Rightarrow> bool" where
  "event_before t (Sent p) = True"
| "event_before t (Acked ps now) = list_all (\<lambda>p. sp_time_sent p \<le> t) ps"
| "event_before t (Lost ps now) = list_all (\<lambda>p. sp_time_sent p \<le> t) ps"
| "event_before t (Discarded ps) = True"
| "event_before t Persistent = False"
| "event_before t (EcnCe sent now) = (sent \<le> t)"

lemma nr_lost_empty: "nr_on_packets_lost [] now c = (Inl ValueError, c)"
  by (simp add: nr_on_packets_lost_def nr_leave_flight_def)

lemma cc_step_inv:
  assumes "nr_inv c" "event_ok e"
  shows "nr_inv (cc_step e c)"
proof (cases e)
  case (Lost ps now)
  then show ?thesis using assms(1) nr.lost_inv [of c ps now]
    by (cases "ps = []") (simp_all add: NewReno_def nr_lost_empty)
qed (use assms nr.sent_inv nr.acked_inv nr.discarded_inv nr.persistent_inv nr.ecn_inv
  in \<open>simp_all add: NewReno_def\<close>)

lemma nr_ack_one_in_recovery:
  "nr_recovery_start_time c = Some t \<Longrightarrow> sp_time_sent p \<le> t
    \<Longrightarrow> nr_congestion_window (nr_ack_one p c) = nr_congestion_window c"
  by (simp add: nr_ack_one_def nr_in_recovery_def)

lemma nr_fold_ack_in_recovery:
  "nr_recovery_start_time c = Some t \<Longrightarrow> list_all (\<lambda>p. sp_time_sent p \<le> t) ps
    \<Longrightarrow> nr_congestion_window (fold nr_ack_one ps c) = nr_congestion_window c
      \<and> nr_recovery_start_time (fold nr_ack_one ps c) = Some t"
  by (induction ps arbitrary: c) (simp_all add: nr_ack_one_in_recovery nr_ack_one_props)

lemma foldl_max_le: "foldl max a xs \<le> (t::rat) \<longleftrightarrow> a \<le> t \<and> list_all (\<lambda>x. x \<le> t) xs"
  by (induction xs arbitrary: a) auto

lemma cc_step_in_recovery:
  assumes "nr_recovery_start_time c = Some t" "event_before t e"
  shows "nr_congestion_window (cc_step e c) = nr_congestion_window c
    \<and> nr_recovery_start_time (cc_step e c) = Some t"
proof (cases e)
  case (Lost ps now)
  show ?thesis
  proof (cases ps)
    case Nil
    then show ?thesis using assms Lost by (simp add: nr_lost_empty)
  next
    case (Cons p qs)
    then show ?thesis using assms Lost
      by (simp add: nr_on_packets_lost_def nr_leave_flight_eq nr_in_recovery_def foldl_max_le
          list.pred_map o_def Let_def)
  qed
qed (use assms in \<open>auto simp: nr_defs nr_fold_ack_in_recovery nr_leave_flight_eq nr_in_recovery_def\<close>)

text \<open>C27: In every sequence of events after construction with a positive datagram size,
  acknowledged packets having non-negative sizes, the congestion window is at least two
  datagrams.\<close>

theorem new_reno_window_floor:
  assumes "0 < m" "list_all event_ok es"
  shows "2 * m \<le> nr_congestion_window (fold cc_step es (mk_new_reno m))"
proof -
  have mds: "nr_max_datagram_size (cc_step e c) = nr_max_datagram_size c" for e c
  proof (cases e)
    case (Acked ps now)
    have "nr_max_datagram_size (fold nr_ack_one ps c) = nr_max_datagram_size c"
      by (induction ps arbitrary: c) (simp_all add: nr_ack_one_props)
    then show ?thesis using Acked by (simp add: nr_on_packets_acked_def)
  qed (simp_all add: nr_defs nr_leave_flight_eq nr_reduce_def Let_def)
  have "nr_inv (fold cc_step es c) \<and> nr_max_datagram_size (fold cc_step es c) = nr_max_datagram_size c"
    if "nr_inv c" for c
    using assms(2) that by (induction es arbitrary: c) (simp_all add: cc_step_inv mds)
  from this [OF nr_inv_init [OF assms(1)]] show ?thesis
    by (simp add: nr_inv_def mk_new_reno_def)
qed

text \<open>C28: One reduction per recovery period: once a loss, or a congestion mark, has opened
  a recovery period at time \<open>t\<close>, no sequence of sends, acknowledgements, losses, discards and
  congestion marks about packets sent up to \<open>t\<close> changes the window.\<close>

theorem new_reno_one_reduction:
  assumes "nr_recovery_start_time c = Some t" "list_all (event_before t) es"
  shows "nr_congestion_window (fold cc_step es c) = nr_congestion_window c"
proof -
  have "nr_congestion_window (fold cc_step es c) = nr_congestion_window c
      \<and> nr_recovery_start_time (fold cc_step es c) = Some t"
    using assms(2,1) by (induction es arbitrary: c) (simp_all add: cc_step_in_recovery)
  then show ?thesis by simp
qed

definition example_packet :: "int \<Rightarrow> time \<Rightarrow> int \<Rightarrow> sent_packet" where
  "example_packet pn t n = \<lparr>sp_level = OneRtt, sp_packet_number = pn, sp_time_sent = t,
     sp_ack_eliciting = True, sp_in_flight = True, sp_size = n, sp_frames = [Ping]\<rparr>"

definition example_cc_events :: "cc_event list" where
  "example_cc_events = [Sent (example_packet 0 1 1200), Sent (example_packet 1 1 1200),
     Sent (example_packet 2 2 1200), Lost [example_packet 0 1 1200] 3,
     Lost [example_packet 2 2 1200] 4, Acked [example_packet 1 1 1200] 5]"

theorem new_reno_window_floor_witness:
  "2 * 1200 \<le> nr_congestion_window (fold cc_step example_cc_events (mk_new_reno 1200))"
  by (rule new_reno_window_floor) (simp_all add: example_cc_events_def example_packet_def)

theorem new_reno_one_reduction_witness:
  "nr_congestion_window (fold cc_step [Lost [example_packet 2 2 1200] 4, EcnCe 1 5,
       Acked [example_packet 1 1 1200] 5] (nr_reduce 3 (mk_new_reno 1200))) = 6000"
proof -
  let ?c = "nr_reduce 3 (mk_new_reno 1200)"
  have "nr_congestion_window ?c = 6000" "nr_recovery_start_time ?c = Some 3"
    by (simp_all add: nr_reduce_def mk_new_reno_def py_int_def Let_def)
  then show ?thesis
    by (subst new_reno_one_reduction [where t = 3]) (simp_all add: example_packet_def)
qed

end
