(* ===== verification/Recovery.thy ===== *)
theory Recovery
  imports New_Reno "HOL-Library.Multiset"
begin

text \<open>
  \<open>src/dsquic/recovery.py\<close>: RTT estimation, ACK processing, loss declaration and the probe
  timeout over the three packet number spaces (RFC 9002, appendix A).

  Every operation takes the congestion controller as a record of operations. Times are
  exact rationals. The back-off \<open>1 << pto_count\<close> is converted to a float when it multiplies the
  duration, which raises \<open>OverflowError\<close> from \<open>pto_count = 1024\<close> on, before the duration is
  truncated: the probe timeout and everything that asks for it return a result. The lemmas of the locale
  \<open>congestion_controller\<close> show that the bytes in flight are exactly the sizes of the tracked
  packets; the properties are stated for NewReno through its interpretation.
\<close>

section \<open>Model\<close>

abbreviation (input) PACKET_THRESHOLD :: int where "PACKET_THRESHOLD \<equiv> 3"
abbreviation (input) TIME_THRESHOLD :: rat where "TIME_THRESHOLD \<equiv> 9 / 8"
abbreviation (input) GRANULARITY :: rat where "GRANULARITY \<equiv> 1 / 1000"
abbreviation (input) INITIAL_RTT :: rat where "INITIAL_RTT \<equiv> 333 / 1000"
abbreviation (input) PERSISTENT_CONGESTION_THRESHOLD :: rat where "PERSISTENT_CONGESTION_THRESHOLD \<equiv> 3"
abbreviation (input) MAX_PTO :: rat where "MAX_PTO \<equiv> 60"

record ack_outcome =
  ao_acked :: "sent_packet list"
  ao_lost :: "sent_packet list"

record timeout_outcome =
  to_lost :: "sent_packet list"
  to_probe_level :: "encryption_level option"

record rtt_estimator =
  rtt_latest :: rat
  rtt_min :: rat
  rtt_smoothed :: rat
  rtt_rttvar :: rat
  rtt_has_sample :: bool

definition mk_rtt :: "rat \<Rightarrow> rtt_estimator" where
  "mk_rtt initial_rtt = \<lparr>rtt_latest = initial_rtt, rtt_min = initial_rtt,
     rtt_smoothed = initial_rtt, rtt_rttvar = initial_rtt / 2, rtt_has_sample = False\<rparr>"

definition rtt_update :: "rat \<Rightarrow> rat \<Rightarrow> rtt_estimator \<Rightarrow> rtt_estimator" where
  "rtt_update sample delay r =
     (if \<not> rtt_has_sample r
      then \<lparr>rtt_latest = sample, rtt_min = sample, rtt_smoothed = sample,
            rtt_rttvar = sample / 2, rtt_has_sample = True\<rparr>
      else let minimum = min (rtt_min r) sample;
               adjusted = (if sample - delay \<ge> minimum then sample - delay else sample)
      in r\<lparr>rtt_latest := sample, rtt_min := minimum,
           rtt_rttvar := 3 / 4 * rtt_rttvar r + 1 / 4 * \<bar>rtt_smoothed r - adjusted\<bar>,
           rtt_smoothed := 7 / 8 * rtt_smoothed r + 1 / 8 * adjusted\<rparr>)"

record space =
  sp_sent :: "(int \<times> sent_packet) list"
  sp_largest_sent :: int
  sp_largest_acked :: int
  sp_loss_time :: "time option"
  sp_discarded :: bool

definition mk_space :: space where
  "mk_space = \<lparr>sp_sent = [], sp_largest_sent = -1, sp_largest_acked = -1,
     sp_loss_time = None, sp_discarded = False\<rparr>"

record 'c loss_detection =
  ld_controller :: 'c
  ld_rtt :: rtt_estimator
  ld_handshake_confirmed :: bool
  ld_is_client :: bool
  ld_max_ack_delay :: rat
  ld_pto_count :: nat
  ld_spaces :: "encryption_level \<Rightarrow> space"
  ld_last_event :: "time option"

definition mk_loss_detection :: "'c \<Rightarrow> bool \<Rightarrow> rat \<Rightarrow> 'c loss_detection" where
  "mk_loss_detection controller is_client max_ack_delay =
     \<lparr>ld_controller = controller, ld_rtt = mk_rtt INITIAL_RTT, ld_handshake_confirmed = False,
      ld_is_client = is_client, ld_max_ack_delay = max_ack_delay, ld_pto_count = 0,
      ld_spaces = (\<lambda>level. mk_space), ld_last_event = None\<rparr>"

definition set_space :: "encryption_level \<Rightarrow> space \<Rightarrow> 'c loss_detection \<Rightarrow> 'c loss_detection" where
  "set_space level sp ld = ld\<lparr>ld_spaces := (ld_spaces ld)(level := sp)\<rparr>"

definition ld_on_packet_sent ::
  "'c controller \<Rightarrow> sent_packet \<Rightarrow> 'c loss_detection \<Rightarrow> 'c loss_detection" where
  "ld_on_packet_sent ops packet ld =
     (let sp = ld_spaces ld (sp_level packet);
          sp = sp\<lparr>sp_sent := AList.update (sp_packet_number packet) packet (sp_sent sp),
                  sp_largest_sent := max (sp_largest_sent sp) (sp_packet_number packet)\<rparr>
      in (set_space (sp_level packet) sp ld)
           \<lparr>ld_last_event := Some (sp_time_sent packet),
            ld_controller := cc_on_packet_sent ops packet (ld_controller ld)\<rparr>)"

definition ld_largest_acked :: "encryption_level \<Rightarrow> 'c loss_detection \<Rightarrow> int" where
  "ld_largest_acked level ld = sp_largest_acked (ld_spaces ld level)"

definition ld_unacked :: "encryption_level \<Rightarrow> 'c loss_detection \<Rightarrow> sent_packet list" where
  "ld_unacked level ld = map snd (sort_key fst (sp_sent (ld_spaces ld level)))"

text \<open>The inner loop of \<open>on_ack_received\<close>: pop the packets of one range.\<close>

definition pop_range ::
  "int \<times> int \<Rightarrow> sent_packet list \<times> (int \<times> sent_packet) list
    \<Rightarrow> sent_packet list \<times> (int \<times> sent_packet) list" where
  "pop_range r st =
     (let hit = (\<lambda>(pn, p). fst r \<le> pn \<and> pn \<le> snd r)
      in (fst st @ map snd (filter hit (snd st)), filter (\<lambda>x. \<not> hit x) (snd st)))"

definition ld_spans_persistent_congestion :: "sent_packet list \<Rightarrow> 'c loss_detection \<Rightarrow> bool" where
  "ld_spans_persistent_congestion lost ld =
     (let eliciting = filter sp_ack_eliciting lost
      in if length eliciting < 2 then False
      else let duration = (rtt_smoothed (ld_rtt ld) + max (4 * rtt_rttvar (ld_rtt ld)) GRANULARITY
                 + ld_max_ack_delay ld) * PERSISTENT_CONGESTION_THRESHOLD;
               span = sp_time_sent (last eliciting) - sp_time_sent (hd eliciting)
      in duration < span)"

fun detect_loop :: "time \<Rightarrow> time \<Rightarrow> (int \<times> sent_packet) list \<Rightarrow> space \<times> sent_packet list
    \<Rightarrow> space \<times> sent_packet list" where
  "detect_loop lost_before loss_delay [] st = st"
| "detect_loop lost_before loss_delay ((packet_number, packet) # rest) (sp, lost) =
     detect_loop lost_before loss_delay rest
       (if packet_number > sp_largest_acked sp then (sp, lost)
        else if packet_number \<le> sp_largest_acked sp - PACKET_THRESHOLD
          \<or> sp_time_sent packet \<le> lost_before
        then (sp\<lparr>sp_sent := AList.delete packet_number (sp_sent sp)\<rparr>, lost @ [packet])
        else let candidate = sp_time_sent packet + loss_delay
        in (if (case sp_loss_time sp of None \<Rightarrow> True | Some t \<Rightarrow> candidate < t)
            then sp\<lparr>sp_loss_time := Some candidate\<rparr> else sp, lost))"

definition ld_loss_delay :: "'c loss_detection \<Rightarrow> time" where
  "ld_loss_delay ld =
     max (TIME_THRESHOLD * max (rtt_latest (ld_rtt ld)) (rtt_smoothed (ld_rtt ld))) GRANULARITY"

definition ld_report_lost ::
  "'c controller \<Rightarrow> sent_packet list \<Rightarrow> time \<Rightarrow> ('c loss_detection, unit) se" where
  "ld_report_lost ops lost now ld =
     (let in_flight_lost = filter sp_in_flight lost
      in if in_flight_lost = [] then (Inr (), ld)
      else case cc_on_packets_lost ops in_flight_lost now (ld_controller ld) of
        (Inl e, c) \<Rightarrow> (Inl e, ld\<lparr>ld_controller := c\<rparr>)
      | (Inr _, c) \<Rightarrow> (Inr (), ld\<lparr>ld_controller :=
          (if rtt_has_sample (ld_rtt ld) \<and> ld_spans_persistent_congestion in_flight_lost ld
           then cc_on_persistent_congestion ops c else c)\<rparr>))"

definition ld_detect_and_remove_lost ::
  "'c controller \<Rightarrow> encryption_level \<Rightarrow> time \<Rightarrow> ('c loss_detection, sent_packet list) se" where
  "ld_detect_and_remove_lost ops level now ld =
     (let loss_delay = ld_loss_delay ld;
          sp = (ld_spaces ld level)\<lparr>sp_loss_time := None\<rparr>;
          (sp, lost) = detect_loop (now - loss_delay) loss_delay (sort_key fst (sp_sent sp)) (sp, [])
      in bindS (ld_report_lost ops lost now) (\<lambda>_. retS lost) (set_space level sp ld))"

definition ld_sample_rtt ::
  "sent_packet list \<Rightarrow> int \<Rightarrow> rat \<Rightarrow> time \<Rightarrow> 'c loss_detection \<Rightarrow> 'c loss_detection" where
  "ld_sample_rtt newly_acked largest delay now ld =
     (let largest_newly = last newly_acked
      in if sp_packet_number largest_newly = largest \<and> list_ex sp_ack_eliciting newly_acked
      then let latest_rtt = now - sp_time_sent largest_newly;
               delay = (if ld_handshake_confirmed ld then min delay (ld_max_ack_delay ld)
                            else delay)
      in ld\<lparr>ld_rtt := rtt_update latest_rtt delay (ld_rtt ld)\<rparr>
      else ld)"

definition ld_on_ack_received ::
  "'c controller \<Rightarrow> encryption_level \<Rightarrow> ack \<Rightarrow> rat \<Rightarrow> time \<Rightarrow> ('c loss_detection, ack_outcome) se" where
  "ld_on_ack_received ops level ack delay now ld =
     (let ld = ld\<lparr>ld_last_event := Some now\<rparr>; sp = ld_spaces ld level
      in if ack_largest ack > sp_largest_sent sp then (Inl AckOfUnsentPacket, ld)
      else let (newly_acked, remaining) = fold pop_range (ack_ranges ack) ([], sp_sent sp)
      in if newly_acked = [] then (Inr \<lparr>ao_acked = [], ao_lost = []\<rparr>, ld)
      else let newly_acked = sort_key sp_packet_number newly_acked;
               sp = sp\<lparr>sp_sent := remaining,
                       sp_largest_acked := max (sp_largest_acked sp) (ack_largest ack)\<rparr>;
               ld = ld_sample_rtt newly_acked (ack_largest ack) delay now (set_space level sp ld);
               ld = ld\<lparr>ld_pto_count := 0, ld_controller := cc_on_packets_acked ops
                       (filter sp_in_flight newly_acked) now (ld_controller ld)\<rparr>
      in bindS (ld_detect_and_remove_lost ops level now)
           (\<lambda>lost. retS \<lparr>ao_acked = newly_acked, ao_lost = lost\<rparr>) ld)"

definition ld_pto :: "'c loss_detection \<Rightarrow> time" where
  "ld_pto ld = rtt_smoothed (ld_rtt ld) + max (4 * rtt_rttvar (ld_rtt ld)) GRANULARITY
     + ld_max_ack_delay ld"

text \<open>\<open>duration * (1 << pto_count)\<close>: the largest shift a float can represent is \<open>1 << 1023\<close>.\<close>

definition ld_pto_duration :: "encryption_level \<Rightarrow> 'c loss_detection \<Rightarrow> time result" where
  "ld_pto_duration level ld =
     (let duration = rtt_smoothed (ld_rtt ld) + max (4 * rtt_rttvar (ld_rtt ld)) GRANULARITY;
          duration = (if level = OneRtt then duration + ld_max_ack_delay ld else duration)
      in if ld_pto_count ld \<ge> 1024 then Inl OverflowError
      else Inr (min (duration * 2 ^ ld_pto_count ld) MAX_PTO))"

text \<open>\<open>min(candidates, key=lambda item: item[0])\<close>: the first of the earliest.\<close>

fun earliest :: "(time \<times> encryption_level) list \<Rightarrow> (time \<times> encryption_level) option" where
  "earliest [] = None"
| "earliest (c # cs) = Some (foldl (\<lambda>best x. if fst x < fst best then x else best) c cs)"

definition ld_earliest_loss_time :: "'c loss_detection \<Rightarrow> (time \<times> encryption_level) option" where
  "ld_earliest_loss_time ld = earliest (concat (map (\<lambda>level.
     case sp_loss_time (ld_spaces ld level) of
       None \<Rightarrow> [] | Some t \<Rightarrow> if sp_discarded (ld_spaces ld level) then [] else [(t, level)])
     all_levels))"

definition ld_pto_candidate :: "'c loss_detection \<Rightarrow> encryption_level \<Rightarrow> (time \<times> encryption_level) list result" where
  "ld_pto_candidate ld level =
     (if sp_discarded (ld_spaces ld level) then Inr []
      else if level = OneRtt \<and> \<not> ld_handshake_confirmed ld then Inr []
      else case filter sp_ack_eliciting (map snd (sp_sent (ld_spaces ld level))) of
        [] \<Rightarrow> Inr []
      | p # ps \<Rightarrow> bindE (ld_pto_duration level ld) (\<lambda>duration.
          Inr [(foldl max (sp_time_sent p) (map sp_time_sent ps) + duration, level)]))"

definition ld_earliest_pto :: "'c loss_detection \<Rightarrow> (time \<times> encryption_level) option result" where
  "ld_earliest_pto ld = bindE (mapE (ld_pto_candidate ld) all_levels) (\<lambda>candidates. Inr (earliest (concat candidates)))"

definition ld_probe_level :: "'c loss_detection \<Rightarrow> encryption_level" where
  "ld_probe_level ld = (if \<not> sp_discarded (ld_spaces ld Initial) then Initial else Handshake)"

definition ld_anti_deadlock_pto :: "'c loss_detection \<Rightarrow> time option result" where
  "ld_anti_deadlock_pto ld = (case ld_last_event ld of None \<Rightarrow> Inr None
     | Some t \<Rightarrow> bindE (ld_pto_duration (ld_probe_level ld) ld) (\<lambda>duration. Inr (Some (t + duration))))"

definition ld_loss_detection_timeout :: "'c loss_detection \<Rightarrow> time option result" where
  "ld_loss_detection_timeout ld =
     (case ld_earliest_loss_time ld of Some loss \<Rightarrow> Inr (Some (fst loss))
      | None \<Rightarrow> bindE (ld_earliest_pto ld) (\<lambda>pto. case pto of Some pto \<Rightarrow> Inr (Some (fst pto))
      | None \<Rightarrow> if ld_is_client ld \<and> \<not> ld_handshake_confirmed ld then ld_anti_deadlock_pto ld
                else Inr None))"

definition ld_on_loss_detection_timeout ::
  "'c controller \<Rightarrow> time \<Rightarrow> ('c loss_detection, timeout_outcome) se" where
  "ld_on_loss_detection_timeout ops now ld =
     (let ld = ld\<lparr>ld_last_event := Some now\<rparr>
      in case ld_earliest_loss_time ld of
        Some loss \<Rightarrow> bindS (ld_detect_and_remove_lost ops (snd loss) now)
          (\<lambda>lost. retS \<lparr>to_lost = lost, to_probe_level = None\<rparr>) ld
      | None \<Rightarrow> let ld = ld\<lparr>ld_pto_count := ld_pto_count ld + 1\<rparr>
        in case ld_earliest_pto ld of
          Inl e \<Rightarrow> (Inl e, ld)
        | Inr (Some pto) \<Rightarrow> (Inr \<lparr>to_lost = [], to_probe_level = Some (snd pto)\<rparr>, ld)
        | Inr None \<Rightarrow> (Inr \<lparr>to_lost = [], to_probe_level = Some (ld_probe_level ld)\<rparr>, ld))"

definition ld_restart_space ::
  "'c controller \<Rightarrow> encryption_level \<Rightarrow> 'c loss_detection \<Rightarrow> sent_packet list \<times> 'c loss_detection" where
  "ld_restart_space ops level ld =
     (let sp = ld_spaces ld level; sent = map snd (sp_sent sp)
      in (sent, (set_space level (sp\<lparr>sp_sent := [], sp_loss_time := None\<rparr>) ld)
           \<lparr>ld_pto_count := 0, ld_controller :=
              cc_on_packets_discarded ops (filter sp_in_flight sent) (ld_controller ld)\<rparr>))"

definition ld_discard_space ::
  "'c controller \<Rightarrow> encryption_level \<Rightarrow> 'c loss_detection \<Rightarrow> 'c loss_detection" where
  "ld_discard_space ops level ld =
     (let sp = ld_spaces ld level; sent = map snd (sp_sent sp)
      in (set_space level (sp\<lparr>sp_sent := [], sp_loss_time := None, sp_discarded := True\<rparr>) ld)
           \<lparr>ld_pto_count := 0, ld_controller :=
              cc_on_packets_discarded ops (filter sp_in_flight sent) (ld_controller ld)\<rparr>)"

definition ld_ack_eliciting_in_flight :: "'c loss_detection \<Rightarrow> bool" where
  "ld_ack_eliciting_in_flight ld = list_ex (\<lambda>level. \<not> sp_discarded (ld_spaces ld level)
     \<and> list_ex (\<lambda>(pn, p). sp_ack_eliciting p) (sp_sent (ld_spaces ld level))) all_levels"


lemma snd_bindS_retS [simp]: "snd (bindS m (\<lambda>x. retS (f x)) s) = snd (m s)"
  by (simp add: bindS_def retS_def split: prod.split sum.split)


section \<open>Losses\<close>

text \<open>The condition of the loss loop, and the packets that wait for the time threshold.\<close>

definition is_lost :: "int \<Rightarrow> time \<Rightarrow> int \<times> sent_packet \<Rightarrow> bool" where
  "is_lost la lost_before x \<longleftrightarrow> fst x \<le> la \<and> (fst x \<le> la - 3 \<or> sp_time_sent (snd x) \<le> lost_before)"

definition is_pending :: "int \<Rightarrow> time \<Rightarrow> int \<times> sent_packet \<Rightarrow> bool" where
  "is_pending la lost_before x \<longleftrightarrow> fst x \<le> la \<and> \<not> is_lost la lost_before x"

definition earlier :: "time option \<Rightarrow> time \<Rightarrow> time option" where
  "earlier t x = Some (case t of None \<Rightarrow> x | Some t \<Rightarrow> min t x)"

lemma foldl_earlier: "foldl earlier None xs = (if xs = [] then None else Some (Min (set xs)))"
  by (induction xs rule: rev_induct) (auto simp: earlier_def min.commute)

lemma detect_loop_eq:
  "detect_loop lb d xs (sp, lost) =
     (let la = sp_largest_acked sp; gone = filter (is_lost la lb) xs
      in (sp\<lparr>sp_sent := filter (\<lambda>x. fst x \<notin> fst ` set gone) (sp_sent sp),
             sp_loss_time := foldl earlier (sp_loss_time sp)
               (map (\<lambda>x. sp_time_sent (snd x) + d) (filter (is_pending la lb) xs))\<rparr>,
          lost @ map snd gone))"
proof (induction xs arbitrary: sp lost)
  case (Cons x xs)
  obtain pn p where x: "x = (pn, p)" by force
  consider (ahead) "sp_largest_acked sp < pn"
    | (lost) "pn \<le> sp_largest_acked sp" "is_lost (sp_largest_acked sp) lb x"
    | (pending) "pn \<le> sp_largest_acked sp" "\<not> is_lost (sp_largest_acked sp) lb x" by linarith
  then show ?case
  proof cases
    case ahead
    then show ?thesis by (simp add: x Cons.IH is_lost_def is_pending_def)
  next
    case lost
    moreover from lost have "pn \<le> sp_largest_acked sp - 3 \<or> sp_time_sent p \<le> lb"
      by (simp add: is_lost_def x)
    ultimately show ?thesis
      by (simp add: x Cons.IH is_pending_def AList.delete_eq Let_def case_prod_unfold eq_commute
          filter_filter conj_commute)
  next
    case pending
    then have "\<not> pn \<le> sp_largest_acked sp - 3" "\<not> sp_time_sent p \<le> lb"
      by (auto simp: is_lost_def x)
    with pending show ?thesis
      by (cases "sp_loss_time sp")
        (simp_all add: x Cons.IH is_pending_def Let_def earlier_def min_def not_less)
  qed
qed simp

definition space_ok :: "encryption_level \<Rightarrow> space \<Rightarrow> bool" where
  "space_ok level sp \<longleftrightarrow> distinct (map fst (sp_sent sp)) \<and> sp_largest_acked sp \<le> sp_largest_sent sp
     \<and> list_all (\<lambda>x. fst x = sp_packet_number (snd x) \<and> fst x \<le> sp_largest_sent sp
          \<and> 0 \<le> sp_size (snd x) \<and> sp_level (snd x) = level) (sp_sent sp)"

lemma filter_keys_eq:
  "distinct (map fst xs) \<Longrightarrow> filter (\<lambda>x. fst x \<notin> fst ` {y \<in> set xs. P y}) xs = filter (\<lambda>x. \<not> P x) xs"
  by (rule filter_cong) (force simp: distinct_map inj_on_def)+

text \<open>What one run of the loss loop does to a space.\<close>

lemma detect_space:
  assumes "distinct (map fst (sp_sent sp))"
  shows "detect_loop lb d (sort_key fst (sp_sent sp)) (sp, []) =
    (sp\<lparr>sp_sent := filter (\<lambda>x. \<not> is_lost (sp_largest_acked sp) lb x) (sp_sent sp),
        sp_loss_time := foldl earlier (sp_loss_time sp) (map (\<lambda>x. sp_time_sent (snd x) + d)
          (filter (is_pending (sp_largest_acked sp) lb) (sort_key fst (sp_sent sp))))\<rparr>,
     map snd (sort_key fst (filter (is_lost (sp_largest_acked sp) lb) (sp_sent sp))))"
  by (simp add: detect_loop_eq Let_def filter_keys_eq [OF assms] filter_sort)

lemma space_ok_filter:
  "space_ok level sp \<Longrightarrow> sp_largest_acked sp' = sp_largest_acked sp
    \<Longrightarrow> sp_largest_sent sp' = sp_largest_sent sp \<Longrightarrow> sp_sent sp' = filter P (sp_sent sp)
    \<Longrightarrow> space_ok level sp'"
  by (auto simp: space_ok_def list_all_iff distinct_map_filter)

lemma mset_filter_or:
  "mset (filter P xs) + mset (filter Q (filter (\<lambda>x. \<not> P x) xs)) = mset (filter (\<lambda>x. P x \<or> Q x) xs)"
  by (induction xs) (auto simp: filter_filter_mset)

lemma pop_range_fold:
  "snd (fold pop_range rs (acked, sent))
     = filter (\<lambda>x. \<not> list_ex (\<lambda>r. fst r \<le> fst x \<and> fst x \<le> snd r) rs) sent"
  "mset (fst (fold pop_range rs (acked, sent)))
     = mset acked + mset (map snd (filter (\<lambda>x. list_ex (\<lambda>r. fst r \<le> fst x \<and> fst x \<le> snd r) rs) sent))"
proof (induction rs arbitrary: acked sent)
  case (Cons r rs)
  let ?hit = "\<lambda>x :: int \<times> sent_packet. fst r \<le> fst x \<and> fst x \<le> snd r"
  let ?later = "\<lambda>x :: int \<times> sent_packet. list_ex (\<lambda>r. fst r \<le> fst x \<and> fst x \<le> snd r) rs"
  have step: "pop_range r (acked, sent)
      = (acked @ map snd (filter ?hit sent), filter (\<lambda>x. \<not> ?hit x) sent)" for acked sent
    by (simp add: pop_range_def case_prod_unfold)
  { case 1
    show ?case by (simp add: step Cons.IH(1) filter_filter) }
  { case 2
    from mset_filter_or [THEN arg_cong, of "image_mset snd" ?hit sent ?later] show ?case
      by (simp add: step Cons.IH(2) union_assoc del: filter_filter) }
qed simp_all


section \<open>Bytes in flight\<close>

definition ld_tracked :: "encryption_level \<Rightarrow> 'c loss_detection \<Rightarrow> sent_packet list" where
  "ld_tracked level ld = map snd (sp_sent (ld_spaces ld level))"

definition ld_flight :: "'c loss_detection \<Rightarrow> int" where
  "ld_flight ld = (\<Sum>level\<leftarrow>all_levels. flight_sizes (ld_tracked level ld))"

definition ld_inv :: "'c controller \<Rightarrow> ('c \<Rightarrow> bool) \<Rightarrow> 'c loss_detection \<Rightarrow> bool" where
  "ld_inv ops good ld \<longleftrightarrow> good (ld_controller ld)
     \<and> cc_bytes_in_flight ops (ld_controller ld) = ld_flight ld
     \<and> (\<forall>level. space_ok level (ld_spaces ld level))"

lemma set_space_simps [simp]:
  "ld_spaces (set_space level sp ld) = (ld_spaces ld)(level := sp)"
  "ld_controller (set_space level sp ld) = ld_controller ld"
  "ld_rtt (set_space level sp ld) = ld_rtt ld"
  "ld_loss_delay (set_space level sp ld) = ld_loss_delay ld"
  by (simp_all add: set_space_def ld_loss_delay_def)

lemma ld_flight_cong: "ld_spaces ld = ld_spaces ld' \<Longrightarrow> ld_flight ld = ld_flight ld'"
  by (simp add: ld_flight_def ld_tracked_def)

lemma ld_flight_set:
  "ld_spaces ld' = (ld_spaces ld)(level := sp) \<Longrightarrow> ld_flight ld' =
     ld_flight ld - flight_sizes (ld_tracked level ld) + flight_sizes (map snd (sp_sent sp))"
  by (cases level) (simp_all add: ld_flight_def ld_tracked_def all_levels_def)

lemma flight_sizes_mset: "mset ps = mset qs \<Longrightarrow> flight_sizes ps = flight_sizes qs"
  by (metis flight_sizes_def mset_map sum_mset_sum_list)

lemma mset_filter_split:
  "mset (map f xs) = mset (map f (filter P xs)) + mset (map f (filter (\<lambda>x. \<not> P x) xs))"
  by (induction xs) auto

lemma flight_sizes_union:
  assumes "mset ps = mset qs + mset rs"
  shows "flight_sizes rs = flight_sizes ps - flight_sizes qs"
  using flight_sizes_mset [of ps "qs @ rs"] assms by simp

text \<open>The space and the packets a run of the loss loop leaves.\<close>

definition ld_lost :: "encryption_level \<Rightarrow> time \<Rightarrow> 'c loss_detection \<Rightarrow> (int \<times> sent_packet) list" where
  "ld_lost level now ld = (let sp = ld_spaces ld level
     in filter (is_lost (sp_largest_acked sp) (now - ld_loss_delay ld)) (sp_sent sp))"

definition ld_swept :: "encryption_level \<Rightarrow> time \<Rightarrow> 'c loss_detection \<Rightarrow> space" where
  "ld_swept level now ld = (let sp = ld_spaces ld level; la = sp_largest_acked sp;
       lb = now - ld_loss_delay ld
     in sp\<lparr>sp_sent := filter (\<lambda>x. \<not> is_lost la lb x) (sp_sent sp),
           sp_loss_time := foldl earlier None (map (\<lambda>x. sp_time_sent (snd x) + ld_loss_delay ld)
             (filter (is_pending la lb) (sort_key fst (sp_sent sp))))\<rparr>)"

lemma detect_eq:
  assumes "distinct (map fst (sp_sent (ld_spaces ld level)))"
  shows "ld_detect_and_remove_lost ops level now ld =
    bindS (ld_report_lost ops (map snd (sort_key fst (ld_lost level now ld))) now)
      (\<lambda>_. retS (map snd (sort_key fst (ld_lost level now ld))))
      (set_space level (ld_swept level now ld) ld)"
  using detect_space [of "(ld_spaces ld level)\<lparr>sp_loss_time := None\<rparr>"] assms
  by (simp add: ld_detect_and_remove_lost_def ld_lost_def ld_swept_def Let_def)

lemma ld_swept_ok: "space_ok level (ld_spaces ld level) \<Longrightarrow> space_ok level (ld_swept level now ld)"
  by (rule space_ok_filter [where sp = "ld_spaces ld level"]) (simp_all add: ld_swept_def Let_def)

lemma ld_swept_mset:
  "mset (ld_tracked level ld)
    = mset (map snd (ld_lost level now ld)) + mset (map snd (sp_sent (ld_swept level now ld)))"
proof -
  have "sp_sent (ld_swept level now ld) = filter (\<lambda>x. \<not> is_lost (sp_largest_acked (ld_spaces ld level))
      (now - ld_loss_delay ld) x) (sp_sent (ld_spaces ld level))"
    by (simp add: ld_swept_def Let_def)
  then show ?thesis unfolding ld_lost_def ld_tracked_def Let_def by (simp only: mset_filter_split)
qed

lemmas ld_swept_flight = ld_swept_mset [THEN flight_sizes_union]

lemma flight_sizes_sorted: "flight_sizes (map snd (sort_key fst xs)) = flight_sizes (map snd xs)"
  by (rule flight_sizes_mset) simp

text \<open>The packets an ACK frame newly acknowledges, and the space once they are gone.\<close>

definition ld_acked :: "encryption_level \<Rightarrow> ack \<Rightarrow> 'c loss_detection \<Rightarrow> (int \<times> sent_packet) list" where
  "ld_acked level a ld = filter (\<lambda>x. list_ex (\<lambda>r. fst r \<le> fst x \<and> fst x \<le> snd r) (ack_ranges a))
     (sp_sent (ld_spaces ld level))"

definition ld_unhit :: "encryption_level \<Rightarrow> ack \<Rightarrow> 'c loss_detection \<Rightarrow> space" where
  "ld_unhit level a ld = (let sp = ld_spaces ld level
     in sp\<lparr>sp_sent := filter (\<lambda>x. \<not> list_ex (\<lambda>r. fst r \<le> fst x \<and> fst x \<le> snd r) (ack_ranges a)) (sp_sent sp),
           sp_largest_acked := max (sp_largest_acked sp) (ack_largest a)\<rparr>)"

lemma ld_unhit_mset:
  "mset (ld_tracked level ld)
    = mset (map snd (ld_acked level a ld)) + mset (map snd (sp_sent (ld_unhit level a ld)))"
proof -
  have "sp_sent (ld_unhit level a ld) = filter (\<lambda>x. \<not> list_ex (\<lambda>r. fst r \<le> fst x \<and> fst x \<le> snd r)
      (ack_ranges a)) (sp_sent (ld_spaces ld level))"
    by (simp add: ld_unhit_def Let_def)
  then show ?thesis unfolding ld_acked_def ld_tracked_def by (simp only: mset_filter_split)
qed

lemmas ld_unhit_flight = ld_unhit_mset [THEN flight_sizes_union]

lemma ld_unhit_ok:
  "space_ok level (ld_spaces ld level) \<Longrightarrow> ack_largest a \<le> sp_largest_sent (ld_spaces ld level)
    \<Longrightarrow> space_ok level (ld_unhit level a ld)"
  by (auto simp: space_ok_def ld_unhit_def Let_def list_all_iff distinct_map_filter)

text \<open>An ACK of sent packets either acknowledges nothing new, or updates the space, the RTT
  estimate and the controller before it looks for losses.\<close>

lemma on_ack_cases:
  assumes "ack_largest a \<le> sp_largest_sent (ld_spaces ld level)"
  obtains (nothing) "ld_acked level a ld = []" "ld_on_ack_received ops level a d now ld
      = (Inr \<lparr>ao_acked = [], ao_lost = []\<rparr>, ld\<lparr>ld_last_event := Some now\<rparr>)"
  | (something) newly ld' where "ld_acked level a ld \<noteq> []"
      "mset newly = mset (map snd (ld_acked level a ld))"
      "ld_spaces ld' = (ld_spaces ld)(level := ld_unhit level a ld)"
      "ld_controller ld' = cc_on_packets_acked ops (filter sp_in_flight newly) now (ld_controller ld)"
      "ld_on_ack_received ops level a d now ld = bindS (ld_detect_and_remove_lost ops level now)
         (\<lambda>lost. retS \<lparr>ao_acked = newly, ao_lost = lost\<rparr>) ld'"
proof -
  obtain xs ys where f: "fold pop_range (ack_ranges a) ([], sp_sent (ld_spaces ld level)) = (xs, ys)"
    by force
  have xs: "mset xs = mset (map snd (ld_acked level a ld))"
    using pop_range_fold(2) [of "ack_ranges a" "[]" "sp_sent (ld_spaces ld level)"]
    by (simp add: f ld_acked_def)
  have ys: "(ld_spaces ld level)\<lparr>sp_sent := ys, sp_largest_acked :=
      max (sp_largest_acked (ld_spaces ld level)) (ack_largest a)\<rparr> = ld_unhit level a ld"
    using pop_range_fold(1) [of "ack_ranges a" "[]" "sp_sent (ld_spaces ld level)"]
    by (simp add: f ld_unhit_def Let_def)
  show thesis
  proof (cases "xs = []")
    case True
    then have "ld_acked level a ld = []" using xs by simp
    moreover have "ld_on_ack_received ops level a d now ld
        = (Inr \<lparr>ao_acked = [], ao_lost = []\<rparr>, ld\<lparr>ld_last_event := Some now\<rparr>)"
      using assms f True by (simp add: ld_on_ack_received_def)
    ultimately show ?thesis by (rule nothing)
  next
    case False
    let ?newly = "sort_key sp_packet_number xs"
    let ?ld = "ld_sample_rtt ?newly (ack_largest a) d now
      (set_space level (ld_unhit level a ld) (ld\<lparr>ld_last_event := Some now\<rparr>))"
    have sample: "ld_spaces ?ld = (ld_spaces ld)(level := ld_unhit level a ld)"
      "ld_controller ?ld = ld_controller ld"
      by (simp_all add: ld_sample_rtt_def Let_def)
    have "ld_acked level a ld \<noteq> []" using xs False by auto
    then show ?thesis
    proof (rule something [of ?newly "?ld\<lparr>ld_pto_count := 0, ld_controller :=
        cc_on_packets_acked ops (filter sp_in_flight ?newly) now (ld_controller ?ld)\<rparr>"])
      show "ld_on_ack_received ops level a d now ld = bindS (ld_detect_and_remove_lost ops level now)
         (\<lambda>lost. retS \<lparr>ao_acked = ?newly, ao_lost = lost\<rparr>) (?ld\<lparr>ld_pto_count := 0, ld_controller :=
        cc_on_packets_acked ops (filter sp_in_flight ?newly) now (ld_controller ?ld)\<rparr>)"
        using assms False by (simp add: ld_on_ack_received_def f Let_def flip: ys)
    qed (simp_all add: xs sample)
  qed
qed

context congestion_controller
begin

lemma report_lost:
  "\<exists>c. ld_report_lost ops lost now ld = (Inr (), ld\<lparr>ld_controller := c\<rparr>)
    \<and> cc_bytes_in_flight ops c = cc_bytes_in_flight ops (ld_controller ld) - flight_sizes lost
    \<and> (inv (ld_controller ld) \<longrightarrow> inv c)"
proof (cases "filter sp_in_flight lost = []")
  case True
  then have "flight_sizes lost = 0" using flight_sizes_in_flight [of lost] by simp
  then show ?thesis using True
    by (intro exI [of _ "ld_controller ld"]) (simp add: ld_report_lost_def)
next
  case False
  then obtain c where c: "cc_on_packets_lost ops (filter sp_in_flight lost) now (ld_controller ld)
      = (Inr (), c)"
    using lost_returns by (metis prod.collapse)
  have "cc_bytes_in_flight ops c = cc_bytes_in_flight ops (ld_controller ld) - flight_sizes lost"
    using lost_bytes [OF False, of now "ld_controller ld"] by (simp add: c flight_sizes_in_flight)
  moreover have "inv (ld_controller ld) \<longrightarrow> inv c"
    using lost_inv [OF _ False, of "ld_controller ld" now] by (simp add: c)
  ultimately show ?thesis using False persistent_inv [of c]
    by (intro exI [of _ "if rtt_has_sample (ld_rtt ld)
        \<and> ld_spans_persistent_congestion (filter sp_in_flight lost) ld
      then cc_on_persistent_congestion ops c else c"])
      (simp add: ld_report_lost_def c persistent_bytes)
qed

lemma detect_and_remove_lost:
  assumes "distinct (map fst (sp_sent (ld_spaces ld level)))"
  shows "\<exists>c. ld_detect_and_remove_lost ops level now ld =
      (Inr (map snd (sort_key fst (ld_lost level now ld))),
       (set_space level (ld_swept level now ld) ld)\<lparr>ld_controller := c\<rparr>)
    \<and> cc_bytes_in_flight ops c = cc_bytes_in_flight ops (ld_controller ld)
        - flight_sizes (map snd (ld_lost level now ld))
    \<and> (inv (ld_controller ld) \<longrightarrow> inv c)"
  using report_lost [of "map snd (sort_key fst (ld_lost level now ld))" now
      "set_space level (ld_swept level now ld) ld"]
  by (auto simp: detect_eq [OF assms] bindS_def retS_def flight_sizes_sorted)

lemma detect_inv:
  assumes "ld_inv ops inv ld"
  shows "ld_inv ops inv (snd (ld_detect_and_remove_lost ops level now ld))"
proof -
  have ok: "space_ok l (ld_spaces ld l)" for l using assms by (simp add: ld_inv_def)
  then have "distinct (map fst (sp_sent (ld_spaces ld level)))" by (simp add: space_ok_def)
  from detect_and_remove_lost [OF this, of now] obtain c where
    eq: "ld_detect_and_remove_lost ops level now ld =
      (Inr (map snd (sort_key fst (ld_lost level now ld))),
       (set_space level (ld_swept level now ld) ld)\<lparr>ld_controller := c\<rparr>)"
    and c: "cc_bytes_in_flight ops c = cc_bytes_in_flight ops (ld_controller ld)
        - flight_sizes (map snd (ld_lost level now ld))" "inv (ld_controller ld) \<longrightarrow> inv c"
    by blast
  have "ld_flight ((set_space level (ld_swept level now ld) ld)\<lparr>ld_controller := c\<rparr>)
      = ld_flight ld - flight_sizes (map snd (ld_lost level now ld))"
    using ld_swept_flight [of level now ld]
    by (subst ld_flight_set [where ld = ld and level = level]) (simp, linarith)
  then show ?thesis using assms c ok by (simp add: eq ld_inv_def ld_swept_ok)
qed


lemma on_ack_inv:
  assumes inv: "ld_inv ops inv ld"
  shows "ld_inv ops inv (snd (ld_on_ack_received ops level a d now ld))"
proof (cases "ack_largest a \<le> sp_largest_sent (ld_spaces ld level)")
  case False
  then show ?thesis using inv
    by (simp add: ld_on_ack_received_def Let_def ld_inv_def ld_flight_def ld_tracked_def)
next
  case True
  then show ?thesis
  proof (cases rule: on_ack_cases [where ops = ops and d = d and now = now])
    case nothing
    then show ?thesis using inv by (simp add: ld_inv_def ld_flight_def ld_tracked_def)
  next
    case (something newly ld')
    have ok: "space_ok l (ld_spaces ld l)" for l using inv by (simp add: ld_inv_def)
    have fl: "flight_sizes newly = flight_sizes (map snd (ld_acked level a ld))"
      by (rule flight_sizes_mset) (rule something(2))
    have "set newly \<subseteq> snd ` set (sp_sent (ld_spaces ld level))"
      using something(2) [THEN mset_eq_setD] by (auto simp: ld_acked_def)
    then have "sizes_ok newly" using ok [of level] by (auto simp: sizes_ok_def space_ok_def list_all_iff)
    then have c: "inv (ld_controller ld')" using inv by (simp add: something(4) ld_inv_def acked_inv)
    have "ld_flight ld' = ld_flight ld - flight_sizes newly"
      using ld_flight_set [OF something(3)] ld_unhit_flight [of level a ld] fl by linarith
    then have "cc_bytes_in_flight ops (ld_controller ld') = ld_flight ld'"
      using inv by (simp add: something(4) acked_bytes flight_sizes_in_flight ld_inv_def)
    with c ok True have "ld_inv ops inv ld'"
      by (simp add: ld_inv_def something(3) ld_unhit_ok)
    from detect_inv [OF this, of level now] show ?thesis
      by (simp add: something(5))
  qed
qed

lemma on_packet_sent_inv:
  assumes inv: "ld_inv ops inv ld" and "0 \<le> sp_size p"
    and fresh: "sp_largest_sent (ld_spaces ld (sp_level p)) < sp_packet_number p"
  shows "ld_inv ops inv (ld_on_packet_sent ops p ld)"
proof -
  have ok: "space_ok l (ld_spaces ld l)" for l using inv by (simp add: ld_inv_def)
  let ?sp = "ld_spaces ld (sp_level p)"
  have new: "sp_packet_number p \<notin> fst ` set (sp_sent ?sp)"
    using ok [of "sp_level p"] fresh by (force simp: space_ok_def list_all_iff)
  then have up: "AList.update (sp_packet_number p) p (sp_sent ?sp) = sp_sent ?sp @ [(sp_packet_number p, p)]"
    by (rule update_fresh)
  have "space_ok (sp_level p) (?sp\<lparr>sp_sent := sp_sent ?sp @ [(sp_packet_number p, p)],
      sp_largest_sent := max (sp_largest_sent ?sp) (sp_packet_number p)\<rparr>)"
    using ok [of "sp_level p"] new assms(2) fresh by (auto simp: space_ok_def list_all_iff)
  moreover have "ld_flight (ld_on_packet_sent ops p ld) = ld_flight ld + flight_size p"
    by (subst ld_flight_set [where ld = ld and level = "sp_level p"],
        simp add: ld_on_packet_sent_def up Let_def) (simp add: ld_tracked_def)
  ultimately show ?thesis using inv ok
    by (simp add: ld_inv_def ld_on_packet_sent_def Let_def up sent_bytes sent_inv)
qed

lemma emptied_inv:
  assumes inv: "ld_inv ops inv ld" and "sp_sent sp = []" "sp_largest_acked sp \<le> sp_largest_sent sp"
    and "ld_spaces ld' = (ld_spaces ld)(level := sp)"
    and "ld_controller ld' = cc_on_packets_discarded ops
      (filter sp_in_flight (map snd (sp_sent (ld_spaces ld level)))) (ld_controller ld)"
  shows "ld_inv ops inv ld'"
proof -
  have "ld_flight ld' = ld_flight ld - flight_sizes (ld_tracked level ld)"
    using ld_flight_set [OF assms(4)] by (simp add: assms(2))
  moreover have "space_ok level sp" using assms(2,3) by (simp add: space_ok_def)
  ultimately show ?thesis using inv
    by (simp add: ld_inv_def assms(4,5) discarded_bytes flight_sizes_in_flight discarded_inv ld_tracked_def)
qed

lemma restart_inv: "ld_inv ops inv ld \<Longrightarrow> ld_inv ops inv (snd (ld_restart_space ops level ld))"
  by (rule emptied_inv [where level = level and sp = "(ld_spaces ld level)\<lparr>sp_sent := [], sp_loss_time := None\<rparr>"])
    (simp_all add: ld_restart_space_def Let_def ld_inv_def space_ok_def)

lemma discard_inv: "ld_inv ops inv ld \<Longrightarrow> ld_inv ops inv (ld_discard_space ops level ld)"
  by (rule emptied_inv [where level = level and sp = "(ld_spaces ld level)
      \<lparr>sp_sent := [], sp_loss_time := None, sp_discarded := True\<rparr>"])
    (simp_all add: ld_discard_space_def Let_def ld_inv_def space_ok_def)

lemma ld_inv_cong:
  "ld_inv ops inv ld \<Longrightarrow> ld_spaces ld' = ld_spaces ld \<Longrightarrow> ld_controller ld' = ld_controller ld
    \<Longrightarrow> ld_inv ops inv ld'"
  by (simp add: ld_inv_def ld_flight_def ld_tracked_def)

lemma timeout_inv:
  assumes "ld_inv ops inv ld"
  shows "ld_inv ops inv (snd (ld_on_loss_detection_timeout ops now ld))"
proof (cases "ld_earliest_loss_time (ld\<lparr>ld_last_event := Some now\<rparr>)")
  case None
  then show ?thesis using assms
    by (simp add: ld_on_loss_detection_timeout_def Let_def ld_inv_cong split: option.split sum.split)
next
  case (Some loss)
  have "ld_inv ops inv (ld\<lparr>ld_last_event := Some now\<rparr>)" using assms by (rule ld_inv_cong) simp_all
  from detect_inv [OF this, of "snd loss" now] Some show ?thesis
    by (simp add: ld_on_loss_detection_timeout_def)
qed

end


section \<open>Runs of the loss detector\<close>

text \<open>What the connection does to a loss detector: it reports sent packets under fresh packet
  numbers, ACK frames and timer expirations, restarts and discards spaces, confirms the handshake,
  and forwards congestion marks to the controller.\<close>

inductive ld_step :: "'c controller \<Rightarrow> 'c loss_detection \<Rightarrow> 'c loss_detection \<Rightarrow> bool"
  for ops where
  step_sent: "0 \<le> sp_size p \<Longrightarrow> sp_largest_sent (ld_spaces ld (sp_level p)) < sp_packet_number p
    \<Longrightarrow> ld_step ops ld (ld_on_packet_sent ops p ld)"
| step_ack: "ld_step ops ld (snd (ld_on_ack_received ops level a d now ld))"
| step_timeout: "ld_step ops ld (snd (ld_on_loss_detection_timeout ops now ld))"
| step_restart: "ld_step ops ld (snd (ld_restart_space ops level ld))"
| step_discard: "ld_step ops ld (ld_discard_space ops level ld)"
| step_confirm: "ld_step ops ld (ld\<lparr>ld_handshake_confirmed := True\<rparr>)"
| step_ecn: "ld_step ops ld (ld\<lparr>ld_controller := cc_on_ecn_ce ops t now (ld_controller ld)\<rparr>)"

definition ld_reachable :: "'c controller \<Rightarrow> 'c \<Rightarrow> 'c loss_detection \<Rightarrow> bool" where
  "ld_reachable ops c0 ld \<longleftrightarrow>
     (\<exists>is_client mad. (ld_step ops)\<^sup>*\<^sup>* (mk_loss_detection c0 is_client mad) ld)"

context congestion_controller
begin

lemma ld_inv_init:
  "inv c \<Longrightarrow> cc_bytes_in_flight ops c = 0 \<Longrightarrow> ld_inv ops inv (mk_loss_detection c is_client mad)"
  by (simp add: ld_inv_def ld_flight_def ld_tracked_def mk_loss_detection_def mk_space_def
      space_ok_def all_levels_def)

lemma ld_step_inv: "ld_step ops ld ld' \<Longrightarrow> ld_inv ops inv ld \<Longrightarrow> ld_inv ops inv ld'"
proof (induction rule: ld_step.induct)
  case (step_ecn ld t now)
  then show ?case by (simp add: ld_inv_def ecn_inv ecn_bytes ld_flight_def ld_tracked_def)
qed (auto intro: on_packet_sent_inv on_ack_inv timeout_inv restart_inv discard_inv
  elim: ld_inv_cong)

lemma ld_reachable_inv:
  assumes "ld_reachable ops c ld" "inv c" "cc_bytes_in_flight ops c = 0"
  shows "ld_inv ops inv ld"
proof -
  have "ld_inv ops inv ld'" if "(ld_step ops)\<^sup>*\<^sup>* ld ld'" "ld_inv ops inv ld" for ld ld'
    using that by (induction rule: rtranclp_induct) (auto intro: ld_step_inv)
  then show ?thesis using assms ld_inv_init by (auto simp: ld_reachable_def)
qed

lemma on_ack_partition:
  assumes inv: "ld_inv ops inv ld" and sent: "ack_largest a \<le> sp_largest_sent (ld_spaces ld level)"
  shows "\<exists>acked lost ld'. ld_on_ack_received ops level a d now ld
        = (Inr \<lparr>ao_acked = acked, ao_lost = lost\<rparr>, ld')
      \<and> mset (ld_tracked level ld) = mset acked + mset lost + mset (ld_tracked level ld')
      \<and> set acked = {p \<in> set (ld_tracked level ld). \<exists>(low, high) \<in> set (ack_ranges a).
           low \<le> sp_packet_number p \<and> sp_packet_number p \<le> high}
      \<and> (\<forall>l. l \<noteq> level \<longrightarrow> ld_spaces ld' l = ld_spaces ld l)"
proof -
  have ok: "space_ok level (ld_spaces ld level)" using inv by (simp add: ld_inv_def)
  have hit: "set (map snd (ld_acked level a ld)) = {p \<in> set (ld_tracked level ld).
      \<exists>(low, high) \<in> set (ack_ranges a). low \<le> sp_packet_number p \<and> sp_packet_number p \<le> high}"
    using ok by (auto simp: ld_acked_def ld_tracked_def list_ex_iff space_ok_def list_all_iff image_iff) force+
  from sent show ?thesis
  proof (cases rule: on_ack_cases [where ops = ops and d = d and now = now])
    case nothing
    then show ?thesis using hit by (simp add: ld_tracked_def)
  next
    case (something newly ld')
    have "distinct (map fst (sp_sent (ld_spaces ld' level)))"
      using ld_unhit_ok [OF ok sent] by (simp add: something(3) space_ok_def)
    from detect_and_remove_lost [OF this, of now] obtain c where
      "ld_detect_and_remove_lost ops level now ld' = (Inr (map snd (sort_key fst (ld_lost level now ld'))),
        (set_space level (ld_swept level now ld') ld')\<lparr>ld_controller := c\<rparr>)" by blast
    then have eq: "ld_on_ack_received ops level a d now ld = (Inr \<lparr>ao_acked = newly,
        ao_lost = map snd (sort_key fst (ld_lost level now ld'))\<rparr>,
        (set_space level (ld_swept level now ld') ld')\<lparr>ld_controller := c\<rparr>)"
      by (simp add: something(5) bindS_def retS_def)
    have "mset (map snd (sp_sent (ld_unhit level a ld)))
        = mset (map snd (ld_lost level now ld')) + mset (map snd (sp_sent (ld_swept level now ld')))"
      using ld_swept_mset [of level ld' now] by (simp only: ld_tracked_def something(3) fun_upd_same)
    then have "mset (ld_tracked level ld) = mset newly
        + (mset (map snd (ld_lost level now ld')) + mset (map snd (sp_sent (ld_swept level now ld'))))"
      by (simp only: ld_unhit_mset [of level ld a] something(2))
    moreover have "set newly = set (map snd (ld_acked level a ld))"
      by (rule mset_eq_setD) (rule something(2))
    ultimately show ?thesis unfolding eq hit [symmetric]
      by (simp add: ld_tracked_def something(3) add.assoc)
  qed
qed

end

lemma earliest_None [simp]: "earliest cs = None \<longleftrightarrow> cs = []"
  by (cases cs) simp_all

lemma earliest_Some: "earliest cs = Some c \<Longrightarrow> c \<in> set cs \<and> (\<forall>x \<in> set cs. fst c \<le> fst x)"
proof (cases cs)
  case (Cons y ys)
  let ?pick = "\<lambda>best x :: time \<times> encryption_level. if fst x < fst best then x else best"
  have "foldl ?pick y ys \<in> insert y (set ys) \<and> (\<forall>x \<in> insert y (set ys). fst (foldl ?pick y ys) \<le> fst x)"
  proof (induction ys arbitrary: y)
    case (Cons z zs)
    from Cons [of "?pick y z"] show ?case by (auto split: if_splits)
  qed simp
  then show "earliest cs = Some c \<Longrightarrow> ?thesis" using Cons by simp
qed simp


section \<open>The RTT estimate\<close>

definition rtt_run :: "(rat \<times> rat) list \<Rightarrow> rtt_estimator" where
  "rtt_run samples = fold (\<lambda>(sample, delay). rtt_update sample delay) samples (mk_rtt INITIAL_RTT)"

definition rtt_inv :: "rat list \<Rightarrow> rtt_estimator \<Rightarrow> bool" where
  "rtt_inv xs r \<longleftrightarrow> rtt_has_sample r \<and> rtt_latest r \<in> set xs \<and> rtt_min r = Min (set xs)
     \<and> rtt_min r \<le> rtt_smoothed r \<and> rtt_smoothed r \<le> Max (set xs)
     \<and> 0 \<le> rtt_rttvar r \<and> rtt_rttvar r \<le> Max (set xs)"

lemma rtt_inv_first: "0 \<le> x \<Longrightarrow> rtt_inv [x] (rtt_update x d (mk_rtt i))"
  by (simp add: rtt_inv_def rtt_update_def mk_rtt_def)

lemma blend_bounds:
  fixes v g M :: rat
  assumes "0 \<le> v" "v \<le> M" "0 \<le> g" "g \<le> M"
  shows "0 \<le> 3 / 4 * v + 1 / 4 * g" "3 / 4 * v + 1 / 4 * g \<le> M"
  using assms by linarith+

lemma rtt_inv_update:
  assumes inv: "rtt_inv xs r" and "list_all (\<lambda>x. 0 \<le> x) xs" "0 \<le> x" "0 \<le> d"
  shows "rtt_inv (xs @ [x]) (rtt_update x d r)"
proof -
  let ?m = "min (rtt_min r) x"
  let ?M = "max (Max (set xs)) x"
  define adj where "adj = (if x - d \<ge> ?m then x - d else x)"
  have r: "rtt_has_sample r" "rtt_min r = Min (set xs)" "rtt_min r \<le> rtt_smoothed r"
    "rtt_smoothed r \<le> Max (set xs)" "0 \<le> rtt_rttvar r" "rtt_rttvar r \<le> Max (set xs)"
    and ne: "xs \<noteq> []"
    using inv by (auto simp: rtt_inv_def)
  have "0 \<le> Min (set xs)" using assms(2) ne by (simp add: list_all_iff)
  then have m0: "0 \<le> ?m" using r(2) assms(3) by simp
  have "?m \<le> adj" "adj \<le> ?M" using assms(4) by (auto simp: adj_def)
  moreover have "?m \<le> rtt_smoothed r" "rtt_smoothed r \<le> ?M" using r by auto
  ultimately have sm: "?m \<le> 7 / 8 * rtt_smoothed r + 1 / 8 * adj"
    "7 / 8 * rtt_smoothed r + 1 / 8 * adj \<le> ?M" and gap: "\<bar>rtt_smoothed r - adj\<bar> \<le> ?M"
    using m0 by linarith+
  have var: "0 \<le> 3 / 4 * rtt_rttvar r + 1 / 4 * \<bar>rtt_smoothed r - adj\<bar>"
    "3 / 4 * rtt_rttvar r + 1 / 4 * \<bar>rtt_smoothed r - adj\<bar> \<le> ?M"
    using blend_bounds [OF r(5) _ abs_ge_zero gap] r(6) by simp_all
  have upd: "rtt_update x d r = r\<lparr>rtt_latest := x, rtt_min := ?m,
      rtt_rttvar := 3 / 4 * rtt_rttvar r + 1 / 4 * \<bar>rtt_smoothed r - adj\<bar>,
      rtt_smoothed := 7 / 8 * rtt_smoothed r + 1 / 8 * adj\<rparr>"
    using r(1) by (simp add: rtt_update_def adj_def Let_def)
  have mm: "Min (set (xs @ [x])) = ?m" "Max (set (xs @ [x])) = ?M"
    using ne r(2) by (simp_all add: Min_insert2 min.commute max.commute)
  show ?thesis using sm var r(1) by (simp only: rtt_inv_def upd mm) simp
qed

lemma rtt_run_inv:
  "samples \<noteq> [] \<Longrightarrow> list_all (\<lambda>(x, d). 0 \<le> x \<and> 0 \<le> d) samples \<Longrightarrow> rtt_inv (map fst samples) (rtt_run samples)"
proof (induction samples rule: rev_induct)
  case (snoc s samples)
  obtain x d where s: "s = (x, d)" by force
  show ?case
  proof (cases "samples = []")
    case True
    then show ?thesis using snoc.prems by (simp add: s rtt_run_def rtt_inv_first)
  next
    case False
    then have "rtt_inv (map fst samples) (rtt_run samples)" using snoc by simp
    moreover have "list_all (\<lambda>x. 0 \<le> x) (map fst samples)" "0 \<le> x" "0 \<le> d"
      using snoc.prems by (auto simp: s list_all_iff)
    ultimately show ?thesis using rtt_inv_update by (simp add: s rtt_run_def)
  qed
qed simp

text \<open>After any non-empty sequence of RTT samples with non-negative samples and delays,
  the minimum is the smallest sample, and the smoothed RTT lies between the smallest and
  the largest sample whatever acknowledgement delays the peer reports.\<close>

lemma rtt_smoothed_between_samples:
  assumes "samples \<noteq> []" "list_all (\<lambda>(x, d). 0 \<le> x \<and> 0 \<le> d) samples"
  shows "rtt_min (rtt_run samples) = Min (fst ` set samples)
    \<and> Min (fst ` set samples) \<le> rtt_smoothed (rtt_run samples)
    \<and> rtt_smoothed (rtt_run samples) \<le> Max (fst ` set samples)"
  using rtt_run_inv [OF assms] by (simp add: rtt_inv_def)

lemma rtt_smoothed_between_samples_witness:
  "rtt_min (rtt_run [(1/10, 0), (1/5, 1/20), (1/20, 1)]) = 1/20
    \<and> 1/20 \<le> rtt_smoothed (rtt_run [(1/10, 0), (1/5, 1/20), (1/20, 1)])"
  using rtt_smoothed_between_samples [of "[(1/10, 0), (1/5, 1/20), (1/20, 1)]"] by simp


section \<open>Properties\<close>

text \<open>In every state a loss detector over NewReno reaches, the controller's bytes in flight
  are exactly the sizes of the in-flight packets still tracked in the three packet number spaces:
  no packet is counted twice, and none is forgotten.\<close>

lemma bytes_in_flight_exact:
  assumes "ld_reachable NewReno (mk_new_reno m) ld" "0 < m"
  shows "nr_bytes_in_flight (ld_controller ld)
    = (\<Sum>level\<leftarrow>all_levels. \<Sum>p\<leftarrow>ld_tracked level ld. if sp_in_flight p then sp_size p else 0)"
proof -
  have "cc_bytes_in_flight NewReno (mk_new_reno m) = 0" by (simp add: NewReno_def mk_new_reno_def)
  from nr.ld_reachable_inv [OF assms(1) nr_inv_init [OF assms(2)] this]
  show ?thesis by (simp add: ld_inv_def ld_flight_def flight_sizes_def flight_size_def [abs_def] NewReno_def)
qed

text \<open>C22: An ACK frame that names only sent packet numbers is processed without error and
  partitions the tracked packets of its space: each is acknowledged, which is the case exactly when
  one of the ranges names it, or declared lost, or still tracked, and only one of these.
  The other packet number spaces are not touched.\<close>

theorem on_ack_received_partition:
  assumes "ld_reachable NewReno (mk_new_reno m) ld" "0 < m"
    and "ack_largest a \<le> sp_largest_sent (ld_spaces ld level)"
  shows "\<exists>acked lost ld'. ld_on_ack_received NewReno level a d now ld
        = (Inr \<lparr>ao_acked = acked, ao_lost = lost\<rparr>, ld')
      \<and> mset (ld_tracked level ld) = mset acked + mset lost + mset (ld_tracked level ld')
      \<and> set acked = {p \<in> set (ld_tracked level ld). \<exists>(low, high) \<in> set (ack_ranges a).
           low \<le> sp_packet_number p \<and> sp_packet_number p \<le> high}
      \<and> (\<forall>l. l \<noteq> level \<longrightarrow> ld_spaces ld' l = ld_spaces ld l)"
proof -
  have "cc_bytes_in_flight NewReno (mk_new_reno m) = 0" by (simp add: NewReno_def mk_new_reno_def)
  from nr.ld_reachable_inv [OF assms(1) nr_inv_init [OF assms(2)] this] assms(3)
  show ?thesis by (rule nr.on_ack_partition)
qed

text \<open>C38: An ACK frame raises an error exactly when it names a packet number beyond the
  largest sent in its space. The error is \<open>AckOfUnsentPacket\<close>, and the tracked packets, the
  congestion controller and the RTT estimate are then as before.\<close>

theorem ack_of_unsent_packet:
  assumes "ld_reachable NewReno (mk_new_reno m) ld" "0 < m"
  shows "case ld_on_ack_received NewReno level a d now ld of
      (Inl e, ld') \<Rightarrow> sp_largest_sent (ld_spaces ld level) < ack_largest a \<and> e = AckOfUnsentPacket
        \<and> ld' = ld\<lparr>ld_last_event := Some now\<rparr>
    | (Inr _, ld') \<Rightarrow> ack_largest a \<le> sp_largest_sent (ld_spaces ld level)"
proof (cases "ack_largest a \<le> sp_largest_sent (ld_spaces ld level)")
  case True
  have "cc_bytes_in_flight NewReno (mk_new_reno m) = 0" by (simp add: NewReno_def mk_new_reno_def)
  from nr.on_ack_partition [OF nr.ld_reachable_inv [OF assms(1) nr_inv_init [OF assms(2)] this] True]
  obtain out ld' where "ld_on_ack_received NewReno level a d now ld = (Inr out, ld')" by blast
  then show ?thesis using True by simp
qed (simp add: ld_on_ack_received_def)

text \<open>The packets the loss loop declares lost, the packets it keeps, and the loss timer, over
  the tracked packets of a well-formed space.\<close>

definition due_for_loss :: "int \<Rightarrow> time \<Rightarrow> time \<Rightarrow> sent_packet \<Rightarrow> bool" where
  "due_for_loss la delay now p \<longleftrightarrow> sp_packet_number p \<le> la
     \<and> (sp_packet_number p \<le> la - 3 \<or> sp_time_sent p + delay \<le> now)"

lemma swept_sets:
  assumes ok: "space_ok level (ld_spaces ld level)"
    and defs: "la = ld_largest_acked level ld" "delay = ld_loss_delay ld"
    and due: "due = (\<lambda>p. sp_time_sent p + delay)
      ` {p \<in> set (ld_tracked level ld). \<not> due_for_loss la delay now p \<and> sp_packet_number p \<le> la}"
  shows "snd ` set (ld_lost level now ld) = {p \<in> set (ld_tracked level ld). due_for_loss la delay now p}"
    and "snd ` set (sp_sent (ld_swept level now ld))
      = {p \<in> set (ld_tracked level ld). \<not> due_for_loss la delay now p}"
    and "sp_loss_time (ld_swept level now ld) = (if due = {} then None else Some (Min due))"
proof -
  have key: "x \<in> set (sp_sent (ld_spaces ld level)) \<Longrightarrow> fst x = sp_packet_number (snd x)" for x
    using ok by (auto simp: space_ok_def list_all_iff)
  have gone: "is_lost la (now - delay) x = due_for_loss la delay now (snd x)"
    if "x \<in> set (sp_sent (ld_spaces ld level))" for x
    using key [OF that] by (auto simp: is_lost_def due_for_loss_def algebra_simps)
  show "snd ` set (ld_lost level now ld) = {p \<in> set (ld_tracked level ld). due_for_loss la delay now p}"
    using gone by (force simp: ld_lost_def Let_def ld_tracked_def defs ld_largest_acked_def)
  show "snd ` set (sp_sent (ld_swept level now ld))
      = {p \<in> set (ld_tracked level ld). \<not> due_for_loss la delay now p}"
    using gone by (force simp: ld_swept_def Let_def ld_tracked_def defs ld_largest_acked_def)
  have "due = (\<lambda>x. sp_time_sent (snd x) + delay) ` {x \<in> set (sp_sent (ld_spaces ld level)).
      is_pending la (now - delay) x}"
    using gone key by (force simp: due ld_tracked_def is_pending_def)
  then show "sp_loss_time (ld_swept level now ld) = (if due = {} then None else Some (Min due))"
    by (auto simp: ld_swept_def Let_def defs ld_largest_acked_def foldl_earlier filter_empty_conv)
qed

text \<open>C11: The loss loop returns exactly the tracked packets at or below the largest
  acknowledged that are three or more packet numbers behind it, or were sent a loss delay ago or
  earlier. They are no longer tracked, no other packet is dropped, and the loss timer of
  the space is the earliest time at which a packet left behind the largest acknowledged
  will be due, or unset when there is none.\<close>

theorem loss_detection_complete:
  assumes "ld_reachable NewReno (mk_new_reno m) ld" "0 < m"
    and defs: "la = ld_largest_acked level ld" "delay = ld_loss_delay ld"
  shows "\<exists>lost ld'. ld_detect_and_remove_lost NewReno level now ld = (Inr lost, ld')
    \<and> set lost = {p \<in> set (ld_tracked level ld). due_for_loss la delay now p}
    \<and> set (ld_tracked level ld') = set (ld_tracked level ld) - set lost
    \<and> (case sp_loss_time (ld_spaces ld' level) of
         None \<Rightarrow> \<forall>p \<in> set (ld_tracked level ld'). la < sp_packet_number p
       | Some t \<Rightarrow> (\<exists>p \<in> set (ld_tracked level ld'). sp_packet_number p \<le> la \<and> t = sp_time_sent p + delay)
           \<and> (\<forall>p \<in> set (ld_tracked level ld'). sp_packet_number p \<le> la \<longrightarrow> t \<le> sp_time_sent p + delay))"
proof -
  have "cc_bytes_in_flight NewReno (mk_new_reno m) = 0" by (simp add: NewReno_def mk_new_reno_def)
  from nr.ld_reachable_inv [OF assms(1) nr_inv_init [OF assms(2)] this]
  have ok: "space_ok level (ld_spaces ld level)" by (simp add: ld_inv_def)
  then have "distinct (map fst (sp_sent (ld_spaces ld level)))" by (simp add: space_ok_def)
  from nr.detect_and_remove_lost [OF this, of now] obtain c where
    eq: "ld_detect_and_remove_lost NewReno level now ld =
      (Inr (map snd (sort_key fst (ld_lost level now ld))),
       (set_space level (ld_swept level now ld) ld)\<lparr>ld_controller := c\<rparr>)" by blast
  let ?left = "{p \<in> set (ld_tracked level ld). \<not> due_for_loss la delay now p}"
  let ?due = "(\<lambda>p. sp_time_sent p + delay)
      ` {p \<in> set (ld_tracked level ld). \<not> due_for_loss la delay now p \<and> sp_packet_number p \<le> la}"
  note sets = swept_sets [OF ok defs refl, of now]
  have left: "set (ld_tracked level ((set_space level (ld_swept level now ld) ld)\<lparr>ld_controller := c\<rparr>)) = ?left"
    using sets(2) by (simp add: ld_tracked_def)
  have timer: "case sp_loss_time (ld_swept level now ld) of
         None \<Rightarrow> \<forall>p \<in> ?left. la < sp_packet_number p
       | Some t \<Rightarrow> (\<exists>p \<in> ?left. sp_packet_number p \<le> la \<and> t = sp_time_sent p + delay)
           \<and> (\<forall>p \<in> ?left. sp_packet_number p \<le> la \<longrightarrow> t \<le> sp_time_sent p + delay)"
  proof (cases "?due = {}")
    case True
    then show ?thesis unfolding sets(3) by fastforce
  next
    case False
    define t where "t = Min ?due"
    have "t \<in> ?due" "\<forall>x \<in> ?due. t \<le> x" unfolding t_def using False by (auto intro: Min_in Min_le)
    with False show ?thesis unfolding sets(3) t_def [symmetric] by auto
  qed
  let ?ld = "(set_space level (ld_swept level now ld) ld)\<lparr>ld_controller := c\<rparr>"
  have lost: "set (map snd (sort_key fst (ld_lost level now ld)))
      = {p \<in> set (ld_tracked level ld). due_for_loss la delay now p}"
    using sets(1) by simp
  have at: "sp_loss_time (ld_spaces ?ld level) = sp_loss_time (ld_swept level now ld)" by simp
  show ?thesis
    by (intro exI conjI, rule eq, rule lost, unfold left lost at) (blast, rule timer)
qed

lemma set_all_levels [simp]: "set all_levels = UNIV"
  by (auto simp: all_levels_def intro: encryption_level.exhaust)

lemma loss_candidates:
  "x \<in> set (concat (map (\<lambda>level. case sp_loss_time (ld_spaces ld level) of
       None \<Rightarrow> [] | Some t \<Rightarrow> if sp_discarded (ld_spaces ld level) then [] else [(t, level)]) all_levels))
   \<longleftrightarrow> \<not> sp_discarded (ld_spaces ld (snd x)) \<and> sp_loss_time (ld_spaces ld (snd x)) = Some (fst x)"
  by (cases x) (auto split: option.splits if_splits)

lemma earliest_loss_Some:
  assumes "ld_earliest_loss_time ld = Some loss"
  shows "sp_loss_time (ld_spaces ld (snd loss)) = Some (fst loss)"
    and "\<not> sp_discarded (ld_spaces ld l) \<Longrightarrow> sp_loss_time (ld_spaces ld l) = Some s \<Longrightarrow> fst loss \<le> s"
proof -
  note * = earliest_Some [OF assms [unfolded ld_earliest_loss_time_def]]
  show "sp_loss_time (ld_spaces ld (snd loss)) = Some (fst loss)"
    using conjunct1 [OF *] unfolding loss_candidates by simp
  show "fst loss \<le> s" if "\<not> sp_discarded (ld_spaces ld l)" "sp_loss_time (ld_spaces ld l) = Some s"
  proof -
    have "fst loss \<le> fst (s, l)"
      by (rule bspec [OF conjunct2 [OF *]]) (unfold loss_candidates, use that in simp)
    then show ?thesis by simp
  qed
qed

lemma earliest_loss_None:
  assumes "ld_earliest_loss_time ld = None"
  shows "\<not> (\<not> sp_discarded (ld_spaces ld l) \<and> sp_loss_time (ld_spaces ld l) = Some s)"
  using assms loss_candidates [of "(s, l)" ld]
  unfolding ld_earliest_loss_time_def earliest_None by (metis emptyE fst_conv list.set(1) snd_conv)

text \<open>A loss time that is set in a space that is in use.\<close>

definition pending_loss :: "'c loss_detection \<Rightarrow> encryption_level \<Rightarrow> time \<Rightarrow> bool" where
  "pending_loss ld level t \<longleftrightarrow> \<not> sp_discarded (ld_spaces ld level) \<and> sp_loss_time (ld_spaces ld level) = Some t"

text \<open>The spaces whose ack-eliciting packets a probe timeout waits for, and the time that timeout
  would fire: the latest of their sending times plus the backed-off duration.\<close>

definition awaits_ack :: "'c loss_detection \<Rightarrow> encryption_level \<Rightarrow> bool" where
  "awaits_ack ld level \<longleftrightarrow> \<not> sp_discarded (ld_spaces ld level) \<and> (level = OneRtt \<longrightarrow> ld_handshake_confirmed ld)
     \<and> (\<exists>p \<in> set (ld_tracked level ld). sp_ack_eliciting p)"

definition probe_time :: "'c loss_detection \<Rightarrow> encryption_level \<Rightarrow> time" where
  "probe_time ld level = Max (sp_time_sent ` {p \<in> set (ld_tracked level ld). sp_ack_eliciting p})
     + min ((rtt_smoothed (ld_rtt ld) + max (4 * rtt_rttvar (ld_rtt ld)) GRANULARITY
         + (if level = OneRtt then ld_max_ack_delay ld else 0)) * 2 ^ ld_pto_count ld) MAX_PTO"

lemma foldl_max_Max: "foldl max x xs = Max (set (x # xs))" for x :: "'a :: linorder"
proof -
  have "(\<lambda>y z. max z y) = (max :: 'a \<Rightarrow> 'a \<Rightarrow> 'a)" by (intro ext max.commute)
  then show ?thesis by (simp only: Max.set_eq_fold foldl_conv_fold)
qed

lemma pto_candidate_eq:
  "ld_pto_candidate ld level =
     (if \<not> awaits_ack ld level then Inr []
      else if ld_pto_count ld \<ge> 1024 then Inl OverflowError else Inr [(probe_time ld level, level)])"
proof (cases "filter sp_ack_eliciting (map snd (sp_sent (ld_spaces ld level)))")
  case Nil
  then have "\<not> (\<exists>p \<in> set (ld_tracked level ld). sp_ack_eliciting p)"
    by (auto simp: ld_tracked_def filter_empty_conv)
  with Nil show ?thesis by (simp add: ld_pto_candidate_def awaits_ack_def)
next
  case (Cons q qs)
  have qs: "set (q # qs) = {p \<in> set (ld_tracked level ld). sp_ack_eliciting p}"
    unfolding Cons [symmetric] by (auto simp: ld_tracked_def)
  then have some: "\<exists>p \<in> set (ld_tracked level ld). sp_ack_eliciting p" by (auto intro: list.set_intros)
  have "foldl max (sp_time_sent q) (map sp_time_sent qs)
      = Max (sp_time_sent ` {p \<in> set (ld_tracked level ld). sp_ack_eliciting p})"
    unfolding foldl_max_Max qs [symmetric] by simp
  with Cons some show ?thesis
    by (auto simp: ld_pto_candidate_def awaits_ack_def ld_pto_duration_def probe_time_def Let_def)
qed

lemma earliest_pto_eq:
  "ld_earliest_pto ld = (if \<forall>l. \<not> awaits_ack ld l then Inr None
     else if ld_pto_count ld \<ge> 1024 then Inl OverflowError
     else Inr (earliest (map (\<lambda>l. (probe_time ld l, l)) (filter (awaits_ack ld) all_levels))))"
proof -
  have all: "(\<forall>l. \<not> awaits_ack ld l) \<longleftrightarrow> \<not> awaits_ack ld Initial \<and> \<not> awaits_ack ld Handshake \<and> \<not> awaits_ack ld OneRtt"
    by (metis encryption_level.exhaust)
  show ?thesis
    unfolding all by (simp add: ld_earliest_pto_def all_levels_def pto_candidate_eq)
qed

text \<open>C23: The timer cannot be lost. While an ack-eliciting packet is outstanding in a space
  that is in use, with the application space counting once the handshake is confirmed, asking for
  the loss-detection timeout gives a time: the earliest pending loss time if there is one,
  and otherwise the earliest over such spaces of the latest ack-eliciting sending time plus
  the backed-off probe timeout, which is at most sixty seconds. The one exception is a back-off of 1024
  or more with no loss time pending, where the code raises \<open>OverflowError\<close>.\<close>

theorem loss_timer_armed:
  assumes "\<not> sp_discarded (ld_spaces ld level)" "level \<noteq> OneRtt \<or> ld_handshake_confirmed ld"
    and "p \<in> set (ld_tracked level ld)" "sp_ack_eliciting p"
  shows "if \<exists>l s. pending_loss ld l s
    then \<exists>t l. ld_loss_detection_timeout ld = Inr (Some t) \<and> pending_loss ld l t \<and> (\<forall>l s. pending_loss ld l s \<longrightarrow> t \<le> s)
    else if ld_pto_count ld \<ge> 1024 then ld_loss_detection_timeout ld = Inl OverflowError
    else \<exists>t l. ld_loss_detection_timeout ld = Inr (Some t) \<and> awaits_ack ld l \<and> t = probe_time ld l
      \<and> (\<forall>l. awaits_ack ld l \<longrightarrow> t \<le> probe_time ld l)
      \<and> (\<exists>q \<in> set (ld_tracked level ld). sp_ack_eliciting q \<and> t \<le> sp_time_sent q + 60)"
proof (cases "ld_earliest_loss_time ld")
  case (Some loss)
  note * = earliest_loss_Some [OF this]
  have "pending_loss ld (snd loss) (fst loss)"
    using earliest_Some [OF Some [unfolded ld_earliest_loss_time_def]] unfolding loss_candidates by (simp add: pending_loss_def)
  moreover have "\<forall>l s. pending_loss ld l s \<longrightarrow> fst loss \<le> s" using *(2) by (auto simp: pending_loss_def)
  ultimately show ?thesis using Some by (auto simp: ld_loss_detection_timeout_def)
next
  case None
  have none: "\<not> (\<exists>l s. pending_loss ld l s)" using earliest_loss_None [OF None] by (auto simp: pending_loss_def)
  have waits: "awaits_ack ld level" using assms by (auto simp: awaits_ack_def)
  let ?cs = "map (\<lambda>l. (probe_time ld l, l)) (filter (awaits_ack ld) all_levels)"
  have cs: "x \<in> set ?cs \<longleftrightarrow> awaits_ack ld (snd x) \<and> fst x = probe_time ld (snd x)" for x by (cases x) auto
  obtain pto where pto: "earliest ?cs = Some pto"
    using waits cs [of "(probe_time ld level, level)"] by (metis earliest_None empty_iff fst_conv list.set(1) option.exhaust snd_conv)
  note e = earliest_Some [OF pto]
  have least: "fst pto \<le> probe_time ld l" if "awaits_ack ld l" for l
    using conjunct2 [OF e] cs [of "(probe_time ld l, l)"] that by fastforce
  let ?T = "{q \<in> set (ld_tracked level ld). sp_ack_eliciting q}"
  have "Max (sp_time_sent ` ?T) \<in> sp_time_sent ` ?T" using assms(3,4) by (intro Max_in) auto
  then obtain q where q: "q \<in> ?T" "Max (sp_time_sent ` ?T) = sp_time_sent q" by auto
  have "fst pto \<le> sp_time_sent q + 60"
    using least [OF waits] by (simp add: probe_time_def q(2))
  then have "\<exists>q \<in> set (ld_tracked level ld). sp_ack_eliciting q \<and> fst pto \<le> sp_time_sent q + 60" using q(1) by blast
  moreover have "awaits_ack ld (snd pto)" "fst pto = probe_time ld (snd pto)"
    using conjunct1 [OF e] unfolding cs by simp_all
  ultimately show ?thesis
    using None none least waits pto by (auto simp: ld_loss_detection_timeout_def earliest_pto_eq)
qed


section \<open>A concrete run\<close>

text \<open>Five packets sent by a client in the application space, and an ACK of the last.\<close>

definition example_ld :: "new_reno loss_detection" where
  "example_ld = fold (ld_on_packet_sent NewReno)
     [example_packet 0 0 1200, example_packet 1 (1/100) 1200, example_packet 2 (2/100) 900,
      example_packet 3 (3/100) 1200, example_packet 4 (4/100) 50]
     (mk_loss_detection (mk_new_reno 1200) True (1/40))"

definition example_ack :: ack where
  "example_ack = \<lparr>ack_largest = 4, ack_delay = 0, ack_ranges = [(4, 4)], ack_ecn = None\<rparr>"

lemmas example_ld_defs = example_ld_def ld_on_packet_sent_def mk_loss_detection_def mk_space_def
  set_space_def example_packet_def example_ack_def

lemma ld_sends_reachable:
  "ld_reachable NewReno c ld \<Longrightarrow> 0 \<le> sp_size p \<Longrightarrow>
    sp_largest_sent (ld_spaces ld (sp_level p)) < sp_packet_number p
    \<Longrightarrow> ld_reachable NewReno c (ld_on_packet_sent NewReno p ld)"
  unfolding ld_reachable_def by (meson rtranclp.rtrancl_into_rtrancl step_sent)

lemma example_ld_reachable: "ld_reachable NewReno (mk_new_reno 1200) example_ld"
  unfolding example_ld_def fold_simps comp_apply id_apply
  by (intro ld_sends_reachable)
    (auto simp: ld_reachable_def example_ld_defs Let_def)

lemma example_ld_tracked:
  "ld_tracked OneRtt example_ld = [example_packet 0 0 1200, example_packet 1 (1/100) 1200,
     example_packet 2 (2/100) 900, example_packet 3 (3/100) 1200, example_packet 4 (4/100) 50]"
  "ld_tracked Initial example_ld = []" "ld_tracked Handshake example_ld = []"
  "sp_largest_sent (ld_spaces example_ld OneRtt) = 4"
  by (simp_all add: ld_tracked_def example_ld_defs Let_def)

lemma bytes_in_flight_exact_witness: "nr_bytes_in_flight (ld_controller example_ld) = 4550"
  using bytes_in_flight_exact [OF example_ld_reachable]
  by (simp add: example_ld_tracked all_levels_def example_packet_def)

theorem on_ack_received_partition_witness:
  "\<exists>acked lost ld'. ld_on_ack_received NewReno OneRtt example_ack 0 1 example_ld
        = (Inr \<lparr>ao_acked = acked, ao_lost = lost\<rparr>, ld') \<and> set acked = {example_packet 4 (4/100) 50}
      \<and> mset (ld_tracked OneRtt example_ld) = mset acked + mset lost + mset (ld_tracked OneRtt ld')"
proof -
  have "{p \<in> set (ld_tracked OneRtt example_ld). \<exists>(low, high) \<in> set (ack_ranges example_ack).
      low \<le> sp_packet_number p \<and> sp_packet_number p \<le> high} = {example_packet 4 (4/100) 50}"
    by (auto simp: example_ld_tracked example_ack_def example_packet_def)
  moreover have "(0::int) < 1200" "ack_largest example_ack \<le> sp_largest_sent (ld_spaces example_ld OneRtt)"
    by (simp_all add: example_ld_tracked(4) example_ack_def)
  from on_ack_received_partition [OF example_ld_reachable this, of 0 1] obtain acked lost ld' where
    "ld_on_ack_received NewReno OneRtt example_ack 0 1 example_ld
        = (Inr \<lparr>ao_acked = acked, ao_lost = lost\<rparr>, ld')"
    "mset (ld_tracked OneRtt example_ld) = mset acked + mset lost + mset (ld_tracked OneRtt ld')"
    "set acked = {p \<in> set (ld_tracked OneRtt example_ld). \<exists>(low, high) \<in> set (ack_ranges example_ack).
           low \<le> sp_packet_number p \<and> sp_packet_number p \<le> high}" by blast
  ultimately show ?thesis by simp
qed

theorem ack_of_unsent_packet_witness:
  "ld_on_ack_received NewReno OneRtt (example_ack\<lparr>ack_largest := 5\<rparr>) 0 1 example_ld
    = (Inl AckOfUnsentPacket, example_ld\<lparr>ld_last_event := Some 1\<rparr>)"
  using ack_of_unsent_packet [OF example_ld_reachable, where level = OneRtt
      and a = "example_ack\<lparr>ack_largest := 5\<rparr>" and d = 0 and now = 1]
  by (auto simp: example_ld_tracked(4) split: prod.splits sum.splits)

theorem loss_detection_complete_witness:
  "\<exists>lost ld'. ld_detect_and_remove_lost NewReno OneRtt 1 example_ld = (Inr lost, ld') \<and> lost = []"
proof -
  have "ld_largest_acked OneRtt example_ld = -1"
    by (simp add: ld_largest_acked_def example_ld_defs Let_def)
  then have "{p \<in> set (ld_tracked OneRtt example_ld). due_for_loss (ld_largest_acked OneRtt example_ld)
      (ld_loss_delay example_ld) 1 p} = {}"
    by (auto simp: example_ld_tracked due_for_loss_def example_packet_def)
  moreover have "(0::int) < 1200" by simp
  from loss_detection_complete [OF example_ld_reachable this refl refl, of OneRtt 1] obtain lost ld' where
    "ld_detect_and_remove_lost NewReno OneRtt 1 example_ld = (Inr lost, ld')"
    "set lost = {p \<in> set (ld_tracked OneRtt example_ld). due_for_loss (ld_largest_acked OneRtt example_ld)
      (ld_loss_delay example_ld) 1 p}" by blast
  ultimately have "ld_detect_and_remove_lost NewReno OneRtt 1 example_ld = (Inr lost, ld')" "set lost = {}"
    by (simp_all only:)
  then show ?thesis by simp
qed

theorem loss_timer_armed_witness:
  "(\<exists>t. ld_loss_detection_timeout (example_ld\<lparr>ld_handshake_confirmed := True\<rparr>) = Inr (Some t) \<and> t \<le> 60 + 4/100)
    \<and> ld_loss_detection_timeout (example_ld\<lparr>ld_handshake_confirmed := True, ld_pto_count := 1024\<rparr>) = Inl OverflowError"
proof -
  let ?ld = "example_ld\<lparr>ld_handshake_confirmed := True\<rparr>" and ?ld' = "example_ld\<lparr>ld_handshake_confirmed := True, ld_pto_count := 1024\<rparr>"
  have "\<not> sp_discarded (ld_spaces ?ld OneRtt)" "\<forall>l. sp_loss_time (ld_spaces ?ld l) = None" "ld_pto_count ?ld = 0"
    by (simp_all add: example_ld_defs Let_def)
  moreover have "ld_tracked OneRtt ?ld = ld_tracked OneRtt example_ld" "ld_tracked OneRtt ?ld' = ld_tracked OneRtt example_ld"
    by (simp_all add: ld_tracked_def)
  ultimately show ?thesis
    using loss_timer_armed [of ?ld OneRtt "example_packet 0 0 1200"] loss_timer_armed [of ?ld' OneRtt "example_packet 0 0 1200"]
    by (auto simp: example_ld_tracked example_packet_def pending_loss_def)
qed

end
