(* ===== verification/Crypto.thy ===== *)
theory Crypto
  imports Buffer
begin

text \<open>
  What the sources use of the \<open>cryptography\<close> package, and the key schedule of
  \<open>src/dsquic/tls.py\<close> (RFC 8446, section 7.1).

  The package is not part of the repository: its functions are the fields of the record
  \<open>prims\<close>, an argument of every definition that calls them. \<open>prims_ok\<close> collects what the
  package documents: the key and nonce sizes the ciphers accept, the lengths of their
  outputs, that decryption inverts encryption and accepts nothing else, and that
  Diffie-Hellman agrees. \<open>toy_prims\<close> satisfies it and serves the witnesses. A hash object is
  the bytes fed to it so far.
\<close>

section \<open>Primitives\<close>

datatype public_key = RsaPublicKey bytes | EcPublicKey bytes | OtherPublicKey
datatype signing_key = RsaPrivateKey bytes | EcPrivateKey bytes

type_synonym aead = "bytes \<Rightarrow> bytes \<Rightarrow> bytes \<Rightarrow> bytes \<Rightarrow> bytes result"

record prims =
  prim_sha256 :: "bytes \<Rightarrow> bytes"
  prim_hmac :: "bytes \<Rightarrow> bytes \<Rightarrow> bytes"
  prim_hkdf_expand :: "bytes \<Rightarrow> bytes \<Rightarrow> int \<Rightarrow> bytes"
  prim_aesgcm_encrypt :: aead
  prim_aesgcm_decrypt :: aead
  prim_chacha_encrypt :: aead
  prim_chacha_decrypt :: aead
  prim_aes_ecb :: "bytes \<Rightarrow> bytes \<Rightarrow> bytes result"
  prim_chacha20 :: "bytes \<Rightarrow> bytes \<Rightarrow> bytes \<Rightarrow> bytes result"
  prim_x25519_public :: "bytes \<Rightarrow> bytes"
  prim_x25519_exchange :: "bytes \<Rightarrow> bytes \<Rightarrow> bytes result"
  prim_rsa_sign :: "bytes \<Rightarrow> bytes \<Rightarrow> bytes \<Rightarrow> bytes"
  prim_ec_sign :: "bytes \<Rightarrow> bytes \<Rightarrow> bytes \<Rightarrow> bytes"
  prim_certificate_key :: "bytes \<Rightarrow> public_key result"
  prim_rsa_verify :: "bytes \<Rightarrow> bytes \<Rightarrow> bytes \<Rightarrow> unit result"
  prim_ec_verify :: "bytes \<Rightarrow> bytes \<Rightarrow> bytes \<Rightarrow> unit result"
  prim_verify_chain :: "bytes list \<Rightarrow> rat option \<Rightarrow> string \<Rightarrow> bytes \<Rightarrow> bytes list \<Rightarrow> unit result"

text \<open>An AEAD appends a 16-byte tag, and decryption accepts exactly what encryption produced.\<close>

definition aead_ok :: "aead \<Rightarrow> aead \<Rightarrow> bool" where
  "aead_ok enc dec \<longleftrightarrow>
     (\<forall>k n d a c. enc k n d a = Inr c \<longrightarrow> length c = length d + 16 \<and> dec k n c a = Inr d)
     \<and> (\<forall>k n d a c. dec k n c a = Inr d \<longrightarrow> enc k n d a = Inr c)"

definition aes_key_ok :: "bytes \<Rightarrow> bool" where
  "aes_key_ok k \<longleftrightarrow> length k \<in> {16, 24, 32}"

definition gcm_nonce_ok :: "bytes \<Rightarrow> bool" where
  "gcm_nonce_ok n \<longleftrightarrow> 8 \<le> length n \<and> length n \<le> 128"

definition gcm_ok :: "prims \<Rightarrow> bool" where
  "gcm_ok P \<longleftrightarrow> aead_ok (prim_aesgcm_encrypt P) (prim_aesgcm_decrypt P)
     \<and> (\<forall>k n d a. aes_key_ok k \<and> gcm_nonce_ok n \<longrightarrow> (\<exists>c. prim_aesgcm_encrypt P k n d a = Inr c))
     \<and> (\<forall>k n c a. aes_key_ok k \<longrightarrow> (case prim_aesgcm_decrypt P k n c a of
          Inl e \<Rightarrow> e = (if gcm_nonce_ok n then InvalidTag else ValueError) | Inr d \<Rightarrow> gcm_nonce_ok n))"

definition chacha_ok :: "prims \<Rightarrow> bool" where
  "chacha_ok P \<longleftrightarrow> aead_ok (prim_chacha_encrypt P) (prim_chacha_decrypt P)
     \<and> (\<forall>k n d a. length k = 32 \<and> length n = 12 \<longrightarrow> (\<exists>c. prim_chacha_encrypt P k n d a = Inr c))"

definition mask_ok :: "prims \<Rightarrow> bool" where
  "mask_ok P \<longleftrightarrow>
     (\<forall>k s. aes_key_ok k \<and> length s = 16 \<longrightarrow> (\<exists>m. prim_aes_ecb P k s = Inr m \<and> length m = 16))
     \<and> (\<forall>k n d. length k = 32 \<and> length n = 16
          \<longrightarrow> (\<exists>m. prim_chacha20 P k n d = Inr m \<and> length m = length d))"

definition hash_ok :: "prims \<Rightarrow> bool" where
  "hash_ok P \<longleftrightarrow> (\<forall>k i l. 0 \<le> l \<and> l \<le> 255 * 32 \<longrightarrow> len (prim_hkdf_expand P k i l) = l)
     \<and> (\<forall>d. length (prim_sha256 P d) = 32) \<and> (\<forall>k d. length (prim_hmac P k d) = 32)"

definition dh_ok :: "prims \<Rightarrow> bool" where
  "dh_ok P \<longleftrightarrow> (\<forall>a. length (prim_x25519_public P a) = 32)
     \<and> (\<forall>a b. prim_x25519_exchange P a (prim_x25519_public P b)
          = prim_x25519_exchange P b (prim_x25519_public P a))"

definition prims_ok :: "prims \<Rightarrow> bool" where
  "prims_ok P \<longleftrightarrow> gcm_ok P \<and> chacha_ok P \<and> mask_ok P \<and> hash_ok P \<and> dh_ok P"

lemma prims_okD:
  assumes "prims_ok P"
  shows "gcm_ok P" "chacha_ok P" "mask_ok P" "hash_ok P" "dh_ok P"
  using assms by (simp_all add: prims_ok_def)

lemma aead_okD:
  assumes "aead_ok enc dec"
  shows "enc k n d a = Inr c \<Longrightarrow> length c = length d + 16"
    and "enc k n d a = Inr c \<Longrightarrow> dec k n c a = Inr d"
    and "dec k n c a = Inr d \<Longrightarrow> enc k n d a = Inr c"
  using assms unfolding aead_ok_def by blast+

lemma hash_okD:
  assumes "hash_ok P"
  shows "0 \<le> l \<Longrightarrow> l \<le> 255 * 32 \<Longrightarrow> len (prim_hkdf_expand P k i l) = l"
    and "length (prim_sha256 P d) = 32" and "length (prim_hmac P k d) = 32"
  using assms by (simp_all add: hash_ok_def)

lemma gcm_decrypt:
  assumes "gcm_ok P" "aes_key_ok k"
  shows "prim_aesgcm_decrypt P k n c a = Inl e \<Longrightarrow> e = (if gcm_nonce_ok n then InvalidTag else ValueError)"
    and "\<not> gcm_nonce_ok n \<Longrightarrow> prim_aesgcm_decrypt P k n c a = Inl ValueError"
proof -
  have *: "case prim_aesgcm_decrypt P k n c a of
      Inl e \<Rightarrow> e = (if gcm_nonce_ok n then InvalidTag else ValueError) | Inr d \<Rightarrow> gcm_nonce_ok n"
    using assms by (simp add: gcm_ok_def)
  then show "prim_aesgcm_decrypt P k n c a = Inl e \<Longrightarrow> e = (if gcm_nonce_ok n then InvalidTag else ValueError)"
    by simp
  show "\<not> gcm_nonce_ok n \<Longrightarrow> prim_aesgcm_decrypt P k n c a = Inl ValueError"
    using * by (simp split: sum.splits)
qed

lemma gcm_encrypt: "gcm_ok P \<Longrightarrow> aes_key_ok k \<Longrightarrow> gcm_nonce_ok n \<Longrightarrow> \<exists>c. prim_aesgcm_encrypt P k n d a = Inr c"
  by (simp add: gcm_ok_def)

lemma gcm_aead: "gcm_ok P \<Longrightarrow> aead_ok (prim_aesgcm_encrypt P) (prim_aesgcm_decrypt P)"
  by (simp add: gcm_ok_def)


section \<open>Model: HKDF and the key schedule\<close>

abbreviation (input) SHA256_LENGTH :: int where "SHA256_LENGTH \<equiv> 32"
abbreviation (input) MESSAGE_HASH_TYPE :: int where "MESSAGE_HASH_TYPE \<equiv> 254"
abbreviation (input) TLS_AES_128_GCM_SHA256 :: int where "TLS_AES_128_GCM_SHA256 \<equiv> 0x1301"
abbreviation (input) TLS_CHACHA20_POLY1305_SHA256 :: int where "TLS_CHACHA20_POLY1305_SHA256 \<equiv> 0x1303"

definition zeros :: "nat \<Rightarrow> bytes" where
  "zeros n = replicate n 0"

definition hkdf_label :: "bytes \<Rightarrow> bytes \<Rightarrow> int \<Rightarrow> bytes result" where
  "hkdf_label label context l =
     (let full_label = ascii ''tls13 '' @ label
      in catE [to_bytes 2 l, byte1 (len full_label), Inr full_label,
               byte1 (len context), Inr context])"

definition hkdf_expand_label :: "prims \<Rightarrow> bytes \<Rightarrow> bytes \<Rightarrow> bytes \<Rightarrow> int \<Rightarrow> bytes result" where
  "hkdf_expand_label P secret label context l =
     bindE (hkdf_label label context l) (\<lambda>info. Inr (prim_hkdf_expand P secret info l))"

definition hkdf_extract :: "prims \<Rightarrow> bytes \<Rightarrow> bytes \<Rightarrow> bytes" where
  "hkdf_extract P salt input_key_material = prim_hmac P salt input_key_material"

definition sha256 :: "prims \<Rightarrow> bytes \<Rightarrow> bytes" where
  "sha256 P data = prim_sha256 P data"

definition EMPTY_TRANSCRIPT_HASH :: "prims \<Rightarrow> bytes" where
  "EMPTY_TRANSCRIPT_HASH P = sha256 P []"

record key_schedule =
  ks_transcript :: bytes
  ks_secret :: bytes

definition mk_key_schedule :: "prims \<Rightarrow> bytes option \<Rightarrow> key_schedule" where
  "mk_key_schedule P psk =
     (let ikm = (case psk of Some psk \<Rightarrow> psk | None \<Rightarrow> zeros 32)
      in \<lparr>ks_transcript = [], ks_secret = hkdf_extract P (zeros 32) ikm\<rparr>)"

definition update_transcript :: "bytes \<Rightarrow> key_schedule \<Rightarrow> key_schedule" where
  "update_transcript handshake_message ks = ks\<lparr>ks_transcript := ks_transcript ks @ handshake_message\<rparr>"

definition transcript_hash :: "prims \<Rightarrow> key_schedule \<Rightarrow> bytes" where
  "transcript_hash P ks = prim_sha256 P (ks_transcript ks)"

definition replace_transcript_with_message_hash :: "prims \<Rightarrow> key_schedule \<Rightarrow> key_schedule result" where
  "replace_transcript_with_message_hash P ks =
     (let digest = transcript_hash P ks
      in bindE (catE [byte1 MESSAGE_HASH_TYPE, to_bytes 3 (len digest), Inr digest])
           (\<lambda>synthetic. Inr (ks\<lparr>ks_transcript := synthetic\<rparr>)))"

definition derive :: "prims \<Rightarrow> bytes \<Rightarrow> key_schedule \<Rightarrow> bytes result" where
  "derive P label ks = hkdf_expand_label P (ks_secret ks) label (transcript_hash P ks) SHA256_LENGTH"

definition add_ecdhe :: "prims \<Rightarrow> bytes \<Rightarrow> key_schedule \<Rightarrow> key_schedule result" where
  "add_ecdhe P shared_secret ks =
     bindE (hkdf_expand_label P (ks_secret ks) (ascii ''derived'') (EMPTY_TRANSCRIPT_HASH P) SHA256_LENGTH)
       (\<lambda>derived. Inr (ks\<lparr>ks_secret := hkdf_extract P derived shared_secret\<rparr>))"

definition advance_to_master :: "prims \<Rightarrow> key_schedule \<Rightarrow> key_schedule result" where
  "advance_to_master P ks =
     bindE (hkdf_expand_label P (ks_secret ks) (ascii ''derived'') (EMPTY_TRANSCRIPT_HASH P) SHA256_LENGTH)
       (\<lambda>derived. Inr (ks\<lparr>ks_secret := hkdf_extract P derived (zeros 32)\<rparr>))"

definition binder_key :: "prims \<Rightarrow> key_schedule \<Rightarrow> bytes result" where
  "binder_key P ks =
     hkdf_expand_label P (ks_secret ks) (ascii ''res binder'') (EMPTY_TRANSCRIPT_HASH P) SHA256_LENGTH"

definition client_early_traffic_secret :: "prims \<Rightarrow> key_schedule \<Rightarrow> bytes result" where
  "client_early_traffic_secret P ks = derive P (ascii ''c e traffic'') ks"

definition resumption_master_secret :: "prims \<Rightarrow> key_schedule \<Rightarrow> bytes result" where
  "resumption_master_secret P ks = derive P (ascii ''res master'') ks"

definition client_handshake_traffic_secret :: "prims \<Rightarrow> key_schedule \<Rightarrow> bytes result" where
  "client_handshake_traffic_secret P ks = derive P (ascii ''c hs traffic'') ks"

definition server_handshake_traffic_secret :: "prims \<Rightarrow> key_schedule \<Rightarrow> bytes result" where
  "server_handshake_traffic_secret P ks = derive P (ascii ''s hs traffic'') ks"

definition client_application_traffic_secret :: "prims \<Rightarrow> key_schedule \<Rightarrow> bytes result" where
  "client_application_traffic_secret P ks = derive P (ascii ''c ap traffic'') ks"

definition server_application_traffic_secret :: "prims \<Rightarrow> key_schedule \<Rightarrow> bytes result" where
  "server_application_traffic_secret P ks = derive P (ascii ''s ap traffic'') ks"

definition resumption_psk :: "prims \<Rightarrow> bytes \<Rightarrow> bytes \<Rightarrow> bytes result" where
  "resumption_psk P master ticket_nonce =
     hkdf_expand_label P master (ascii ''resumption'') ticket_nonce SHA256_LENGTH"

definition finished_verify_data :: "prims \<Rightarrow> bytes \<Rightarrow> bytes \<Rightarrow> bytes result" where
  "finished_verify_data P base_secret hash =
     bindE (hkdf_expand_label P base_secret (ascii ''finished'') [] SHA256_LENGTH)
       (\<lambda>finished_key. Inr (prim_hmac P finished_key hash))"


section \<open>The label is an injective encoding\<close>

definition label_ok :: "bytes \<Rightarrow> bytes \<Rightarrow> int \<Rightarrow> bool" where
  "label_ok label context l \<longleftrightarrow>
     length label < 250 \<and> length context < 256 \<and> 0 \<le> l \<and> l < 65536"

lemma hkdf_label_eq:
  assumes "label_ok label context l"
  shows "hkdf_label label context l = Inr (to_be 2 l @ word_of_nat (6 + length label)
    # ascii ''tls13 '' @ label @ word_of_nat (length context) # context)"
  using assms byte1_len [of "6 + length label"] byte1_len [of "length context"]
  by (simp add: hkdf_label_def label_ok_def)

lemma word_of_nat_byte_inj: "m < 256 \<Longrightarrow> n < 256 \<Longrightarrow> (word_of_nat m :: byte) = word_of_nat n \<longleftrightarrow> m = n"
  by (metis of_nat_eq_iff uint_byte_of_nat)

lemma to_be_inj: "0 \<le> v \<Longrightarrow> v < 256 ^ n \<Longrightarrow> 0 \<le> w \<Longrightarrow> w < 256 ^ n \<Longrightarrow> to_be n v = to_be n w \<longleftrightarrow> v = w"
  by (metis from_be_to_be_id)

text \<open>The HKDF label structure determines the label, the context and the length, so that
  keys derived from one secret under different labels, transcripts or sizes
  never come from the same input.\<close>

lemma hkdf_label_injective:
  assumes "label_ok label context l" "label_ok label' context' l'"
    and eq: "hkdf_label label context l = hkdf_label label' context' l'"
  shows "label = label' \<and> context = context' \<and> l = l'"
proof -
  have b: "0 \<le> l" "l < 256 ^ 2" "0 \<le> l'" "l' < 256 ^ 2" "6 + length label < 256" "6 + length label' < 256"
    using assms(1,2) by (simp_all add: label_ok_def)
  have "to_be 2 l @ word_of_nat (6 + length label) # ascii ''tls13 '' @ label @ word_of_nat (length context) # context
      = to_be 2 l' @ word_of_nat (6 + length label') # ascii ''tls13 '' @ label' @ word_of_nat (length context') # context'"
    using eq by (simp only: hkdf_label_eq assms(1,2) sum.inject)
  then have "to_be 2 l = to_be 2 l'" "(word_of_nat (6 + length label) :: byte) = word_of_nat (6 + length label')"
    and rest: "label @ word_of_nat (length context) # context = label' @ word_of_nat (length context') # context'"
    by simp_all
  then have "l = l'" "length label = length label'"
    using b by (simp_all add: to_be_inj word_of_nat_byte_inj del: of_nat_add)
  with rest show ?thesis by simp
qed

lemma hkdf_label_injective_witness:
  "hkdf_label (ascii ''quic key'') [] 16 \<noteq> hkdf_label (ascii ''quic hp'') [] 16"
proof
  assume "hkdf_label (ascii ''quic key'') [] 16 = hkdf_label (ascii ''quic hp'') [] 16"
  then have "ascii ''quic key'' = ascii ''quic hp''"
    by (rule hkdf_label_injective [THEN conjunct1, rotated 2]) (simp_all add: label_ok_def)
  then have "length (ascii ''quic key'') = length (ascii ''quic hp'')" by (rule arg_cong)
  then show False by simp
qed

lemma hkdf_expand_label_Inr:
  "label_ok label context l \<Longrightarrow> hkdf_expand_label P secret label context l
     = Inr (prim_hkdf_expand P secret (projr (hkdf_label label context l)) l)"
  by (simp add: hkdf_expand_label_def hkdf_label_eq)

lemma hkdf_expand_label_length:
  "hash_ok P \<Longrightarrow> hkdf_expand_label P secret label context l = Inr k \<Longrightarrow> 0 \<le> l \<Longrightarrow> l \<le> 8160 \<Longrightarrow> len k = l"
  by (auto simp: hkdf_expand_label_def bindE_Inr_iff hash_okD)


section \<open>An instance of the primitives\<close>

definition toy_tag :: "bytes \<Rightarrow> bytes \<Rightarrow> bytes \<Rightarrow> bytes \<Rightarrow> bytes" where
  "toy_tag k n d a = take 16 (a @ n @ k @ d @ replicate 16 0)"

definition toy_encrypt :: "(bytes \<Rightarrow> bytes \<Rightarrow> bool) \<Rightarrow> aead" where
  "toy_encrypt ok k n d a = (if ok k n then Inr (d @ toy_tag k n d a) else Inl ValueError)"

definition toy_decrypt :: "(bytes \<Rightarrow> bytes \<Rightarrow> bool) \<Rightarrow> aead" where
  "toy_decrypt ok k n c a =
     (if \<not> ok k n then Inl ValueError
      else if length c < 16 then Inl InvalidTag
      else let d = take (length c - 16) c
      in if drop (length c - 16) c = toy_tag k n d a then Inr d else Inl InvalidTag)"

definition pad_to :: "nat \<Rightarrow> bytes \<Rightarrow> bytes" where
  "pad_to n bs = take n (bs @ replicate n 0)"

definition toy_prims :: prims where
  "toy_prims =
     \<lparr>prim_sha256 = pad_to 32, prim_hmac = (\<lambda>k d. pad_to 32 (rev d @ k)),
      prim_hkdf_expand = (\<lambda>k i l. pad_to (nat l) (rev i @ k)),
      prim_aesgcm_encrypt = toy_encrypt (\<lambda>k n. aes_key_ok k \<and> gcm_nonce_ok n),
      prim_aesgcm_decrypt = toy_decrypt (\<lambda>k n. aes_key_ok k \<and> gcm_nonce_ok n),
      prim_chacha_encrypt = toy_encrypt (\<lambda>k n. length k = 32 \<and> length n = 12),
      prim_chacha_decrypt = toy_decrypt (\<lambda>k n. length k = 32 \<and> length n = 12),
      prim_aes_ecb = (\<lambda>k s. Inr (pad_to 16 s)),
      prim_chacha20 = (\<lambda>k n d. Inr (pad_to (length d) n)),
      prim_x25519_public = pad_to 32, prim_x25519_exchange = (\<lambda>a b. Inr (pad_to 32 [])),
      prim_rsa_sign = (\<lambda>k content r. content), prim_ec_sign = (\<lambda>k content r. content),
      prim_certificate_key = (\<lambda>c. Inr (RsaPublicKey c)),
      prim_rsa_verify = (\<lambda>k s content. if s = content then Inr () else Inl InvalidSignature),
      prim_ec_verify = (\<lambda>k s content. if s = content then Inr () else Inl InvalidSignature),
      prim_verify_chain = (\<lambda>cas t name leaf rest. if leaf \<in> set cas then Inr () else Inl VerificationError)\<rparr>"

lemma length_toy_tag [simp]: "length (toy_tag k n d a) = 16"
  by (simp add: toy_tag_def)

lemma length_pad_to [simp]: "length (pad_to n bs) = n"
  by (simp add: pad_to_def)

lemma toy_aead_ok: "aead_ok (toy_encrypt ok) (toy_decrypt ok)"
proof -
  have "c = take (length c - 16) c @ toy_tag k n (take (length c - 16) c) a"
    if "drop (length c - 16) c = toy_tag k n (take (length c - 16) c) a" for k n c a
    using that by (metis append_take_drop_id)
  then show ?thesis
    by (auto simp: aead_ok_def toy_encrypt_def toy_decrypt_def Let_def split: if_splits)
qed

lemma toy_prims_ok: "prims_ok toy_prims"
proof -
  have "gcm_ok toy_prims"
    by (auto simp: gcm_ok_def toy_prims_def toy_aead_ok toy_encrypt_def toy_decrypt_def Let_def
        split: sum.split)
  moreover have "chacha_ok toy_prims"
    by (simp add: chacha_ok_def toy_prims_def toy_aead_ok toy_encrypt_def)
  moreover have "mask_ok toy_prims" "hash_ok toy_prims" "dh_ok toy_prims"
    by (simp_all add: mask_ok_def hash_ok_def dh_ok_def toy_prims_def)
  ultimately show ?thesis by (simp add: prims_ok_def)
qed

end
