(* ===== verification/Protection.thy ===== *)
theory Protection
  imports Crypto Packet
begin

text \<open>
  \<open>src/dsquic/protection.py\<close>: packet keys, the AEAD and header protection
  (RFC 9001, sections 5 and 6).

  Subscripts raise \<open>IndexError\<close> and negative ones count from the end, as in Python. The lemmas
  show that unprotecting inverts protecting, that only what protecting produces is
  accepted, and that no two packet numbers share a nonce.
\<close>

section \<open>Model\<close>

definition INITIAL_SALT_V1 :: bytes where
  "INITIAL_SALT_V1 = [0x38, 0x76, 0x2c, 0xf7, 0xf5, 0x59, 0x34, 0xb3, 0x4d, 0x17, 0x9a, 0xe6,
     0xa4, 0xc8, 0x0c, 0xad, 0xcc, 0xbb, 0x7f, 0x0a]"

abbreviation (input) AEAD_TAG_LENGTH :: nat where "AEAD_TAG_LENGTH \<equiv> 16"

definition RETRY_INTEGRITY_KEY :: bytes where
  "RETRY_INTEGRITY_KEY = [0xbe, 0x0c, 0x69, 0x0b, 0x9f, 0x66, 0x57, 0x5a, 0x1d, 0x76, 0x6b, 0x54,
     0xe3, 0x68, 0xc8, 0x4e]"

definition RETRY_INTEGRITY_NONCE :: bytes where
  "RETRY_INTEGRITY_NONCE = [0x46, 0x15, 0x99, 0xd3, 0x5d, 0x63, 0x2b, 0xf2, 0x23, 0x98, 0x25, 0xbb]"

abbreviation (input) SAMPLE_LENGTH :: nat where "SAMPLE_LENGTH \<equiv> 16"
abbreviation (input) MAX_PN_LENGTH :: nat where "MAX_PN_LENGTH \<equiv> 4"
abbreviation (input) PN_LENGTH_BITS :: byte where "PN_LENGTH_BITS \<equiv> 0x03"
abbreviation (input) LONG_PROTECTED_BITS :: byte where "LONG_PROTECTED_BITS \<equiv> 0x0F"
abbreviation (input) SHORT_PROTECTED_BITS :: byte where "SHORT_PROTECTED_BITS \<equiv> 0x1F"
abbreviation (input) KEY_PHASE_BIT :: byte where "KEY_PHASE_BIT \<equiv> 0x04"

record packet_keys =
  pk_key :: bytes
  pk_iv :: bytes
  pk_hp :: bytes
  pk_cipher_suite :: int

record initial_secrets =
  is_client_secret :: bytes
  is_server_secret :: bytes

definition derive_initial_secrets :: "prims \<Rightarrow> bytes \<Rightarrow> initial_secrets result" where
  "derive_initial_secrets P client_dcid =
     (let initial_secret = hkdf_extract P INITIAL_SALT_V1 client_dcid
      in bindE (hkdf_expand_label P initial_secret (ascii ''client in'') [] 32) (\<lambda>client.
         bindE (hkdf_expand_label P initial_secret (ascii ''server in'') [] 32) (\<lambda>server.
           Inr \<lparr>is_client_secret = client, is_server_secret = server\<rparr>)))"

definition derive_packet_keys :: "prims \<Rightarrow> bytes \<Rightarrow> int \<Rightarrow> packet_keys result" where
  "derive_packet_keys P secret cipher_suite =
     (let key_length = (if cipher_suite = TLS_CHACHA20_POLY1305_SHA256 then 32 else 16)
      in bindE (hkdf_expand_label P secret (ascii ''quic key'') [] key_length) (\<lambda>key.
         bindE (hkdf_expand_label P secret (ascii ''quic iv'') [] 12) (\<lambda>iv.
         bindE (hkdf_expand_label P secret (ascii ''quic hp'') [] key_length) (\<lambda>hp.
           Inr \<lparr>pk_key = key, pk_iv = iv, pk_hp = hp, pk_cipher_suite = cipher_suite\<rparr>))))"

text \<open>\<open>_aead\<close>: the cipher the suite selects.\<close>

definition aead_encrypt :: "prims \<Rightarrow> packet_keys \<Rightarrow> bytes \<Rightarrow> bytes \<Rightarrow> bytes \<Rightarrow> bytes result" where
  "aead_encrypt P keys =
     (if pk_cipher_suite keys = TLS_CHACHA20_POLY1305_SHA256
      then prim_chacha_encrypt P (pk_key keys) else prim_aesgcm_encrypt P (pk_key keys))"

definition aead_decrypt :: "prims \<Rightarrow> packet_keys \<Rightarrow> bytes \<Rightarrow> bytes \<Rightarrow> bytes \<Rightarrow> bytes result" where
  "aead_decrypt P keys =
     (if pk_cipher_suite keys = TLS_CHACHA20_POLY1305_SHA256
      then prim_chacha_decrypt P (pk_key keys) else prim_aesgcm_decrypt P (pk_key keys))"

definition next_generation :: "prims \<Rightarrow> bytes \<Rightarrow> packet_keys \<Rightarrow> (bytes \<times> packet_keys) result" where
  "next_generation P secret keys =
     bindE (hkdf_expand_label P secret (ascii ''quic ku'') [] SHA256_LENGTH) (\<lambda>updated.
     bindE (derive_packet_keys P updated (pk_cipher_suite keys)) (\<lambda>derived.
       Inr (updated, derived\<lparr>pk_hp := pk_hp keys\<rparr>)))"

definition header_protection_mask :: "prims \<Rightarrow> packet_keys \<Rightarrow> bytes \<Rightarrow> bytes result" where
  "header_protection_mask P keys sample =
     (if pk_cipher_suite keys = TLS_CHACHA20_POLY1305_SHA256
      then prim_chacha20 P (pk_hp keys) sample (zeros 5)
      else bindE (prim_aes_ecb P (pk_hp keys) sample) (\<lambda>block. Inr (take 5 block)))"

definition nonce :: "bytes \<Rightarrow> int \<Rightarrow> bytes result" where
  "nonce iv packet_number =
     bindE (to_bytes (length iv) packet_number) (\<lambda>bs. Inr (map2 (XOR) iv bs))"

definition get_at :: "int \<Rightarrow> bytes \<Rightarrow> byte result" where
  "get_at i xs = (let j = (if i < 0 then len xs + i else i)
     in if 0 \<le> j \<and> j < len xs then Inr (xs ! nat j) else Inl IndexError)"

definition xor_at :: "int \<Rightarrow> byte \<Rightarrow> bytes \<Rightarrow> bytes result" where
  "xor_at i m xs = (let j = (if i < 0 then len xs + i else i)
     in if 0 \<le> j \<and> j < len xs then Inr (xs[nat j := xs ! nat j XOR m]) else Inl IndexError)"

fun mask_packet_number :: "bytes \<Rightarrow> int \<Rightarrow> nat list \<Rightarrow> bytes \<Rightarrow> bytes result" where
  "mask_packet_number msk pn_offset [] protected = Inr protected"
| "mask_packet_number msk pn_offset (i # rest) protected =
     bindE (get_at (1 + int i) msk) (\<lambda>m.
     bindE (xor_at (pn_offset + int i) m protected) (mask_packet_number msk pn_offset rest))"

definition protected_bits :: "byte \<Rightarrow> byte" where
  "protected_bits first = (if first AND 0x80 \<noteq> 0 then LONG_PROTECTED_BITS else SHORT_PROTECTED_BITS)"

definition protect :: "prims \<Rightarrow> packet_keys \<Rightarrow> bytes \<Rightarrow> bytes \<Rightarrow> int \<Rightarrow> bytes result" where
  "protect P keys header payload packet_number =
     bindE (get_at 0 header) (\<lambda>first.
       let pn_length = unat (first AND PN_LENGTH_BITS) + 1
       in bindE (nonce (pk_iv keys) packet_number) (\<lambda>n.
          bindE (aead_encrypt P keys n payload header) (\<lambda>ciphertext.
            let sample_offset = MAX_PN_LENGTH - pn_length;
                sample = take SAMPLE_LENGTH (drop sample_offset ciphertext)
            in bindE (header_protection_mask P keys sample) (\<lambda>msk.
               bindE (get_at 0 msk) (\<lambda>m.
               bindE (xor_at 0 (m AND protected_bits first) (header @ ciphertext))
                 (mask_packet_number msk (len header - int pn_length) [0..<pn_length]))))))"

record unprotected_header =
  uh_packet_number :: int
  uh_key_phase :: bool
  uh_header :: bytes
  uh_ciphertext :: bytes

definition remove_header_protection ::
  "prims \<Rightarrow> packet_keys \<Rightarrow> bytes \<Rightarrow> nat \<Rightarrow> int \<Rightarrow> unprotected_header result" where
  "remove_header_protection P keys packet pn_offset largest_pn =
     (let sample_start = pn_offset + MAX_PN_LENGTH;
          sample = take SAMPLE_LENGTH (drop sample_start packet)
      in if length sample < SAMPLE_LENGTH then Inl ValueError
      else bindE (header_protection_mask P keys sample) (\<lambda>msk.
           bindE (get_at 0 packet) (\<lambda>p0.
           bindE (get_at 0 msk) (\<lambda>m0.
             let first = p0 XOR (m0 AND protected_bits p0);
                 pn_length = unat (first AND PN_LENGTH_BITS) + 1
             in bindE (mapE (\<lambda>i. bindE (get_at (int (pn_offset + i)) packet) (\<lambda>b.
                    bindE (get_at (1 + int i) msk) (\<lambda>m. Inr (b XOR m)))) [0..<pn_length]) (\<lambda>pn_bytes.
                Inr \<lparr>uh_packet_number = decode_packet_number largest_pn (from_be pn_bytes) (pn_length * 8),
                  uh_key_phase = (first AND KEY_PHASE_BIT \<noteq> 0),
                  uh_header = [first] @ drop 1 (take pn_offset packet) @ pn_bytes,
                  uh_ciphertext = drop (pn_offset + pn_length) packet\<rparr>)))))"

definition decrypt_payload :: "prims \<Rightarrow> packet_keys \<Rightarrow> unprotected_header \<Rightarrow> bytes result" where
  "decrypt_payload P keys unprotected =
     bindE (nonce (pk_iv keys) (uh_packet_number unprotected)) (\<lambda>n.
       aead_decrypt P keys n (uh_ciphertext unprotected) (uh_header unprotected))"

definition unprotect :: "prims \<Rightarrow> packet_keys \<Rightarrow> bytes \<Rightarrow> nat \<Rightarrow> int \<Rightarrow> (int \<times> bytes) result" where
  "unprotect P keys packet pn_offset largest_pn =
     bindE (remove_header_protection P keys packet pn_offset largest_pn) (\<lambda>unprotected.
     bindE (decrypt_payload P keys unprotected) (\<lambda>payload.
       Inr (uh_packet_number unprotected, payload)))"

definition retry_integrity_tag :: "prims \<Rightarrow> bytes \<Rightarrow> bytes \<Rightarrow> bytes result" where
  "retry_integrity_tag P original_destination_cid retry_without_tag =
     bindE (catE [byte1 (len original_destination_cid), Inr original_destination_cid,
                  Inr retry_without_tag]) (\<lambda>pseudo.
       prim_aesgcm_encrypt P RETRY_INTEGRITY_KEY RETRY_INTEGRITY_NONCE [] pseudo)"


section \<open>Masking\<close>

lemma get_at_nth [simp]: "i < length xs \<Longrightarrow> get_at (int i) xs = Inr (xs ! i)"
  by (simp add: get_at_def)

lemma get_at_Suc [simp]: "Suc i < length xs \<Longrightarrow> get_at (1 + int i) xs = Inr (xs ! Suc i)"
  using get_at_nth [of "Suc i" xs] by simp

lemma get_at_0 [simp]: "get_at 0 (x # xs) = Inr x"
  by (simp add: get_at_def)

lemma xor_at_0 [simp]: "xor_at 0 m (x # xs) = Inr ((x XOR m) # xs)"
  by (simp add: xor_at_def)

lemma xor_at_append [simp]: "i = len pre \<Longrightarrow> xor_at i m (pre @ x # post) = Inr (pre @ (x XOR m) # post)"
  by (simp add: xor_at_def)

text \<open>The masked packet number field; the mask bytes follow the first.\<close>

definition pn_mask :: "bytes \<Rightarrow> nat \<Rightarrow> nat \<Rightarrow> bytes" where
  "pn_mask msk j n = take n (drop (Suc j) msk)"

lemma pn_mask_Suc: "Suc j < length msk \<Longrightarrow> pn_mask msk j (Suc n) = msk ! Suc j # pn_mask msk (Suc j) n"
  by (simp add: pn_mask_def take_Suc_conv_app_nth Cons_nth_drop_Suc [symmetric])

lemma mask_packet_number_at:
  "len pre = off + int j \<Longrightarrow> j + length xs < length msk \<Longrightarrow>
   mask_packet_number msk off [j..<j + length xs] (pre @ xs @ post)
     = Inr (pre @ map2 (XOR) xs (pn_mask msk j (length xs)) @ post)"
proof (induction xs arbitrary: j pre)
  case (Cons x xs)
  have "[j..<j + length (x # xs)] = j # [Suc j..<Suc j + length xs]"
    by (simp add: upt_rec)
  with Cons.prems Cons.IH [of "pre @ [x XOR msk ! Suc j]" "Suc j"] show ?case
    by (simp add: pn_mask_Suc)
qed (simp add: pn_mask_def)

lemma unmask_packet_number_at:
  "length pre = off + j \<Longrightarrow> j + length xs < length msk \<Longrightarrow>
   mapE (\<lambda>i. bindE (get_at (int (off + i)) (pre @ xs @ post)) (\<lambda>b.
      bindE (get_at (1 + int i) msk) (\<lambda>m. Inr (b XOR m)))) [j..<j + length xs]
     = Inr (map2 (XOR) xs (pn_mask msk j (length xs)))"
proof (induction xs arbitrary: j pre)
  case (Cons x xs)
  have "[j..<j + length (x # xs)] = j # [Suc j..<Suc j + length xs]"
    by (simp add: upt_rec)
  moreover have "get_at (int (off + j)) (pre @ (x # xs) @ post) = Inr x"
    using Cons.prems get_at_nth [of "off + j" "pre @ (x # xs) @ post"] by (simp add: nth_append)
  ultimately show ?case
    using Cons.prems Cons.IH [of "pre @ [x]" "Suc j"] by (simp add: pn_mask_Suc del: of_nat_add)
qed (simp add: pn_mask_def)

lemma map2_xor_involution: "length xs = length ms \<Longrightarrow> map2 (XOR) (map2 (XOR) xs ms) ms = (xs :: bytes)"
  by (induction xs ms rule: list_induct2) (simp_all add: xor.assoc)

lemma length_pn_mask [simp]: "j + n < length msk \<Longrightarrow> length (pn_mask msk j n) = n"
  by (simp add: pn_mask_def)

lemma protected_bits_cases: "protected_bits f = 0x0F \<or> protected_bits f = 0x1F"
  by (simp add: protected_bits_def)

lemma protected_bits_masked [simp]: "protected_bits (f XOR (m AND protected_bits f)) = protected_bits f"
proof -
  have "(m AND protected_bits f) AND 0x80 = 0"
    using protected_bits_cases [of f] by (auto simp: and.assoc)
  then have "(f XOR (m AND protected_bits f)) AND 0x80 = f AND 0x80"
    by (simp add: bit_eq_iff bit_simps) blast
  then show ?thesis by (simp add: protected_bits_def)
qed


section \<open>Keys\<close>

definition keys_ok :: "packet_keys \<Rightarrow> bool" where
  "keys_ok keys \<longleftrightarrow> length (pk_iv keys) = 12
     \<and> (if pk_cipher_suite keys = TLS_CHACHA20_POLY1305_SHA256
        then length (pk_key keys) = 32 \<and> length (pk_hp keys) = 32
        else aes_key_ok (pk_key keys) \<and> aes_key_ok (pk_hp keys))"

lemma derive_packet_keys_ok:
  assumes "hash_ok P"
  obtains keys where "derive_packet_keys P secret suite = Inr keys" "keys_ok keys"
    "pk_cipher_suite keys = suite"
proof -
  let ?l = "if suite = TLS_CHACHA20_POLY1305_SHA256 then 32 else 16 :: int"
  have l: "0 \<le> ?l" "?l \<le> 8160" by simp_all
  have ex: "\<exists>k. hkdf_expand_label P secret (ascii label) [] l = Inr k \<and> len k = l"
    if "length label < 250" "0 \<le> l" "l \<le> 8160" for label l
    using that hkdf_expand_label_Inr [of "ascii label" "[]" l P secret]
      hash_okD(1) [OF assms] by (auto simp: label_ok_def)
  obtain key where key: "hkdf_expand_label P secret (ascii ''quic key'') [] ?l = Inr key" "len key = ?l"
    using ex [OF _ l, of "''quic key''"] by auto
  obtain iv where iv: "hkdf_expand_label P secret (ascii ''quic iv'') [] 12 = Inr iv" "len iv = 12"
    using ex [of "''quic iv''" 12] by auto
  obtain hp where hp: "hkdf_expand_label P secret (ascii ''quic hp'') [] ?l = Inr hp" "len hp = ?l"
    using ex [OF _ l, of "''quic hp''"] by auto
  show ?thesis
  proof (rule that)
    show "derive_packet_keys P secret suite
        = Inr \<lparr>pk_key = key, pk_iv = iv, pk_hp = hp, pk_cipher_suite = suite\<rparr>"
      by (simp only: derive_packet_keys_def Let_def key(1) iv(1) hp(1) bindE_simps)
  qed (use key(2) iv(2) hp(2) in \<open>auto simp: keys_ok_def aes_key_ok_def split: if_splits\<close>)
qed

lemma header_protection_mask_ok:
  assumes "mask_ok P" "keys_ok keys" "length sample = 16"
  shows "\<exists>m. header_protection_mask P keys sample = Inr m \<and> length m = 5"
proof (cases "pk_cipher_suite keys = TLS_CHACHA20_POLY1305_SHA256")
  case True
  then have "\<exists>m. prim_chacha20 P (pk_hp keys) sample (zeros 5) = Inr m \<and> length m = length (zeros 5)"
    using assms by (simp add: mask_ok_def keys_ok_def)
  then show ?thesis using True by (auto simp: header_protection_mask_def zeros_def)
next
  case False
  then have "\<exists>m. prim_aes_ecb P (pk_hp keys) sample = Inr m \<and> length m = 16"
    using assms by (simp add: mask_ok_def keys_ok_def)
  then show ?thesis using False by (auto simp: header_protection_mask_def)
qed

lemma aead_encrypt_ok:
  assumes "prims_ok P" "keys_ok keys" "length n = 12"
  obtains c where "aead_encrypt P keys n d a = Inr c"
proof (cases "pk_cipher_suite keys = TLS_CHACHA20_POLY1305_SHA256")
  case True
  then have "\<exists>c. prim_chacha_encrypt P (pk_key keys) n d a = Inr c"
    using assms prims_okD(2) [OF assms(1)] by (simp add: keys_ok_def chacha_ok_def)
  then show ?thesis using that True by (auto simp: aead_encrypt_def)
next
  case False
  then have "\<exists>c. prim_aesgcm_encrypt P (pk_key keys) n d a = Inr c"
    using assms by (intro gcm_encrypt prims_okD(1)) (simp_all add: keys_ok_def gcm_nonce_ok_def)
  then show ?thesis using that False by (auto simp: aead_encrypt_def)
qed

lemma aead_keys:
  assumes "prims_ok P"
  shows "aead_encrypt P keys n d a = Inr c \<Longrightarrow> length c = length d + 16"
    and "aead_encrypt P keys n d a = Inr c \<Longrightarrow> aead_decrypt P keys n c a = Inr d"
    and "aead_decrypt P keys n c a = Inr d \<Longrightarrow> aead_encrypt P keys n d a = Inr c"
proof -
  have ok: "aead_ok (prim_aesgcm_encrypt P) (prim_aesgcm_decrypt P)"
    "aead_ok (prim_chacha_encrypt P) (prim_chacha_decrypt P)"
    using prims_okD(1,2) [OF assms] by (simp_all add: gcm_ok_def chacha_ok_def)
  show "aead_encrypt P keys n d a = Inr c \<Longrightarrow> length c = length d + 16"
    using aead_okD(1) [OF ok(1)] aead_okD(1) [OF ok(2)] by (auto simp: aead_encrypt_def split: if_splits)
  show "aead_encrypt P keys n d a = Inr c \<Longrightarrow> aead_decrypt P keys n c a = Inr d"
    using aead_okD(2) [OF ok(1)] aead_okD(2) [OF ok(2)]
    by (auto simp: aead_encrypt_def aead_decrypt_def split: if_splits)
  show "aead_decrypt P keys n c a = Inr d \<Longrightarrow> aead_encrypt P keys n d a = Inr c"
    using aead_okD(3) [OF ok(1)] aead_okD(3) [OF ok(2)]
    by (auto simp: aead_encrypt_def aead_decrypt_def split: if_splits)
qed

lemma nonce_ok:
  "0 \<le> pn \<Longrightarrow> pn < 2 ^ 62 \<Longrightarrow> length iv = 12 \<Longrightarrow> nonce iv pn = Inr (map2 (XOR) iv (to_be 12 pn))"
  by (simp add: nonce_def)


section \<open>Protecting and unprotecting\<close>

text \<open>What header protection does to a header of the form first byte, body, packet number.\<close>

lemma protect_eq:
  assumes "nonce (pk_iv keys) pn = Inr n" and "aead_encrypt P keys n payload (first # mid @ pnb) = Inr c"
    and "header_protection_mask P keys (take 16 (drop (4 - length pnb) c)) = Inr (m # ms)"
    and pnb: "length pnb = unat (first AND 3) + 1" "length pnb \<le> length ms"
  shows "protect P keys (first # mid @ pnb) payload pn
    = Inr ((first XOR (m AND protected_bits first)) # mid @ map2 (XOR) pnb (take (length pnb) ms) @ c)"
  using assms(1-3) pnb
    mask_packet_number_at [of "(first XOR (m AND protected_bits first)) # mid" "len (first # mid)" 0 pnb "m # ms" c]
  by (simp add: protect_def pn_mask_def)

lemma remove_header_protection_eq:
  assumes "header_protection_mask P keys (take 16 (drop (4 - length pnb) c)) = Inr (m # ms)"
    and "16 \<le> length c - (4 - length pnb)" "length pnb \<le> 4" "length pnb \<le> length ms"
    and f: "f = p0 XOR (m AND protected_bits p0)" and pnb: "length pnb = unat (f AND 3) + 1"
  shows "remove_header_protection P keys (p0 # mid @ pnb @ c) (Suc (length mid)) largest
    = Inr \<lparr>uh_packet_number = decode_packet_number largest (from_be (map2 (XOR) pnb (take (length pnb) ms)))
             (length pnb * 8),
           uh_key_phase = (f AND 4 \<noteq> 0),
           uh_header = f # mid @ map2 (XOR) pnb (take (length pnb) ms),
           uh_ciphertext = c\<rparr>"
proof -
  have sample: "take 16 (drop (Suc (length mid) + 4) (p0 # mid @ pnb @ c)) = take 16 (drop (4 - length pnb) c)"
    using assms(3) by (simp add: numeral_eq_Suc)
  have "mapE (\<lambda>i. bindE (get_at (int (Suc (length mid) + i)) (p0 # mid @ pnb @ c)) (\<lambda>b.
      bindE (get_at (1 + int i) (m # ms)) (\<lambda>m. Inr (b XOR m)))) [0..<length pnb]
     = Inr (map2 (XOR) pnb (take (length pnb) ms))"
    using unmask_packet_number_at [of "p0 # mid" "Suc (length mid)" 0 pnb "m # ms" c] assms(4)
    by (simp add: pn_mask_def)
  then show ?thesis
    using assms(1,2) pnb unfolding remove_header_protection_def Let_def sample f [symmetric]
    by (simp add: f [symmetric] min_def)
qed

lemma pn_length_le: "unat (f AND 3 :: byte) \<le> 3"
proof -
  have "f AND 3 \<le> (3 :: byte)" by (rule word_and_le1)
  then have "unat (f AND 3) \<le> unat (3 :: byte)" by (simp only: word_le_nat_alt)
  then show ?thesis by simp
qed

lemma length5: "length m = 5 \<Longrightarrow> \<exists>x xs. m = x # xs \<and> length xs = 4"
  by (cases m) simp_all

lemma derived_keys_ok: "prims_ok P \<Longrightarrow> derive_packet_keys P secret suite = Inr keys \<Longrightarrow> keys_ok keys"
  using derive_packet_keys_ok [OF prims_okD(4), of P secret suite] by auto

lemma protect_opened:
  assumes P: "prims_ok P" and kok: "keys_ok keys"
    and n: "unat (first AND 3) + 1 = n" "4 \<le> n + length payload"
    and pn: "0 \<le> pn" "pn < 2 ^ 62"
    and window: "largest + 1 - 2 ^ (8 * n - 1) < pn" "pn \<le> largest + 1 + 2 ^ (8 * n - 1)"
  shows "\<exists>m tail u. protect P keys (first # mid @ to_be n pn) payload pn
      = Inr ((first XOR (m AND protected_bits first)) # mid @ tail)
    \<and> remove_header_protection P keys ((first XOR (m AND protected_bits first)) # mid @ tail) (Suc (length mid)) largest = Inr u
    \<and> uh_packet_number u = pn \<and> uh_key_phase u = (first AND 4 \<noteq> 0) \<and> uh_header u = first # mid @ to_be n pn
    \<and> decrypt_payload P keys u = Inr payload"
proof -
  let ?pnb = "to_be n pn"
  from kok obtain nn where nn: "nonce (pk_iv keys) pn = Inr nn" "length nn = 12"
    using nonce_ok [OF pn] by (auto simp: keys_ok_def)
  from aead_encrypt_ok [OF P kok nn(2)] obtain c where
    c: "aead_encrypt P keys nn payload (first # mid @ ?pnb) = Inr c" by blast
  have lc: "length c = length payload + 16" using aead_keys(1) [OF P c] .
  have n4: "n \<le> 4" using n(1) pn_length_le [of first] by simp
  have "length (take 16 (drop (4 - n) c)) = 16" using lc n(2) by simp
  from header_protection_mask_ok [OF prims_okD(3) [OF P] kok this] obtain m ms where
    mm: "header_protection_mask P keys (take 16 (drop (4 - n) c)) = Inr (m # ms)" "length ms = 4"
    by (metis length5)
  have packet: "protect P keys (first # mid @ ?pnb) payload pn
      = Inr ((first XOR (m AND protected_bits first)) # mid @ map2 (XOR) ?pnb (take n ms) @ c)"
    using protect_eq [OF nn(1) c, of m ms] mm n(1) n4 by simp
  have inv: "map2 (XOR) (map2 (XOR) ?pnb (take n ms)) (take n ms) = ?pnb"
    using mm(2) n4 by (intro map2_xor_involution) simp
  have "(256 :: int) ^ n = 2 ^ (8 * n)" by (simp add: power_mult)
  then have dec: "decode_packet_number largest (from_be ?pnb) (n * 8) = pn"
    using decode_packet_number_window [of "8 * n" pn largest] pn window n(1)
    by (simp add: from_be_to_be mult.commute)
  have "remove_header_protection P keys ((first XOR (m AND protected_bits first)) # mid
      @ map2 (XOR) ?pnb (take n ms) @ c) (Suc (length mid)) largest
    = Inr \<lparr>uh_packet_number = pn, uh_key_phase = (first AND 4 \<noteq> 0),
           uh_header = first # mid @ ?pnb, uh_ciphertext = c\<rparr>"
    using remove_header_protection_eq [of P keys "map2 (XOR) ?pnb (take n ms)" c m ms first
        "first XOR (m AND protected_bits first)" mid largest] mm n n4 lc inv dec
    by (simp add: xor.assoc)
  then show ?thesis using packet aead_keys(2) [OF P c] nn(1)
    by (intro exI [of _ m] exI [of _ "map2 (XOR) ?pnb (take n ms) @ c"]) (simp add: decrypt_payload_def)
qed

lemma unprotect_protect:
  assumes P: "prims_ok P" and kok: "keys_ok keys"
    and n: "unat (first AND 3) + 1 = n" "4 \<le> n + length payload"
    and pn: "0 \<le> pn" "pn < 2 ^ 62"
    and window: "largest + 1 - 2 ^ (8 * n - 1) < pn" "pn \<le> largest + 1 + 2 ^ (8 * n - 1)"
  shows "\<exists>packet u. protect P keys (first # mid @ to_be n pn) payload pn = Inr packet
    \<and> remove_header_protection P keys packet (Suc (length mid)) largest = Inr u
    \<and> uh_header u = first # mid @ to_be n pn \<and> uh_key_phase u = (first AND 4 \<noteq> 0)
    \<and> unprotect P keys packet (Suc (length mid)) largest = Inr (pn, payload)"
  using protect_opened [OF assms, of mid] by (auto simp: unprotect_def)

text \<open>C8: What one endpoint protects the other unprotects: with keys derived from the same
  secret for either cipher suite, a header that ends with the low bytes of the packet number
  in the length its first byte announces, enough bytes to sample, and a packet number within
  the window of the largest received, removing header protection recovers the header byte for
  byte and its key phase, and unprotecting returns the full packet number and the payload.\<close>

theorem protect_unprotect:
  assumes P: "prims_ok P" and keys: "derive_packet_keys P secret suite = Inr keys"
    and n: "unat (first AND 3) + 1 = n" "4 \<le> n + length payload"
    and pn: "0 \<le> pn" "pn < 2 ^ 62"
    and window: "largest + 1 - 2 ^ (8 * n - 1) < pn" "pn \<le> largest + 1 + 2 ^ (8 * n - 1)"
  shows "\<exists>packet u. protect P keys (first # mid @ to_be n pn) payload pn = Inr packet
    \<and> remove_header_protection P keys packet (Suc (length mid)) largest = Inr u
    \<and> uh_header u = first # mid @ to_be n pn \<and> uh_key_phase u = (first AND 4 \<noteq> 0)
    \<and> unprotect P keys packet (Suc (length mid)) largest = Inr (pn, payload)"
  using derived_keys_ok [OF P keys] by (rule unprotect_protect [OF P]) (rule n pn window)+

lemma split_packet:
  assumes "0 < off" "off + 20 \<le> length packet" "n \<le> 4"
  obtains p0 mid pnb c where "packet = p0 # mid @ pnb @ c" "packet ! 0 = p0" "length pnb = n"
    "Suc (length mid) = off" "take 16 (drop (4 - length pnb) c) = take 16 (drop (off + 4) packet)"
proof
  have "packet = take off packet @ take n (drop off packet) @ drop (off + n) packet"
    by (metis add.commute append_take_drop_id drop_drop)
  moreover have "take off packet = packet ! 0 # drop 1 (take off packet)"
    using assms by (cases packet) (auto simp: take_Cons')
  ultimately show "packet = packet ! 0 # drop 1 (take off packet) @ take n (drop off packet)
      @ drop (off + n) packet" by (metis append_Cons)
qed (use assms in \<open>simp_all add: add.commute\<close>)

text \<open>C17: Unprotecting accepts only packets that protecting produces: if a packet is accepted
  with a packet number and a payload, then protecting that payload, under that packet number and the
  header that removing header protection uncovered, gives back exactly the bytes that were received.\<close>

theorem unprotect_authentic:
  assumes P: "prims_ok P" and keys: "derive_packet_keys P secret suite = Inr keys"
    and off: "0 < off" and un: "unprotect P keys packet off largest = Inr (pn, payload)"
  shows "\<exists>u. remove_header_protection P keys packet off largest = Inr u \<and> uh_packet_number u = pn
    \<and> protect P keys (uh_header u) payload pn = Inr packet"
proof -
  have kok: "keys_ok keys" using derived_keys_ok [OF P keys] .
  have "length (take 16 (drop (off + 4) packet)) = 16"
    using un by (auto simp: unprotect_def remove_header_protection_def Let_def split: if_splits)
  then have long: "off + 20 \<le> length packet" by simp
  then have s16: "length (take 16 (drop (off + 4) packet)) = 16" by simp
  from header_protection_mask_ok [OF prims_okD(3) [OF P] kok s16] obtain m ms where
    mm: "header_protection_mask P keys (take 16 (drop (off + 4) packet)) = Inr (m # ms)" "length ms = 4"
    by (metis length5)
  define f where "f = packet ! 0 XOR (m AND protected_bits (packet ! 0))"
  define n where "n = unat (f AND 3) + 1"
  have n4: "n \<le> 4" unfolding n_def using pn_length_le [of f] by simp
  obtain p0 mid pnb c where packet: "packet = p0 # mid @ pnb @ c" and p0: "packet ! 0 = p0"
    and lens: "length pnb = n" "Suc (length mid) = off"
    and sample: "take 16 (drop (4 - length pnb) c) = take 16 (drop (off + 4) packet)"
    by (rule split_packet [OF off long n4])
  have lc: "16 \<le> length c - (4 - length pnb)" using s16 unfolding sample [symmetric] by simp
  have f: "f = p0 XOR (m AND protected_bits p0)" using f_def p0 by simp
  define xs where "xs = map2 (XOR) pnb (take n ms)"
  have rem: "remove_header_protection P keys packet off largest
    = Inr \<lparr>uh_packet_number = decode_packet_number largest (from_be xs) (n * 8),
           uh_key_phase = (f AND 4 \<noteq> 0), uh_header = f # mid @ xs, uh_ciphertext = c\<rparr>"
    using remove_header_protection_eq [OF _ lc _ _ f, of P keys ms mid largest] mm n4 lens
    unfolding packet [symmetric] sample by (simp add: n_def xs_def)
  from un obtain nn where nn: "nonce (pk_iv keys) pn = Inr nn"
    and dec: "aead_decrypt P keys nn c (f # mid @ xs) = Inr payload"
    by (auto simp: unprotect_def rem decrypt_payload_def bindE_Inr_iff)
  have lx: "length xs = n" using lens mm(2) n4 by (simp add: xs_def)
  have "protect P keys (f # mid @ xs) payload pn
      = Inr ((f XOR (m AND protected_bits f)) # mid @ map2 (XOR) xs (take n ms) @ c)"
    using protect_eq [OF nn aead_keys(3) [OF P dec], of m ms] mm sample lens lx n4 by (simp add: n_def)
  moreover have "map2 (XOR) xs (take n ms) = pnb"
    unfolding xs_def using lens mm(2) n4 by (intro map2_xor_involution) simp
  moreover have "f XOR (m AND protected_bits f) = p0" by (simp add: f xor.assoc)
  moreover have "pn = decode_packet_number largest (from_be xs) (n * 8)"
    using un by (auto simp: unprotect_def rem bindE_Inr_iff)
  ultimately show ?thesis using packet rem by auto
qed

text \<open>No two packets under one key share a nonce: different packet numbers give different
  nonces.\<close>

lemma nonce_unique:
  assumes "length iv = 12" "0 \<le> pn" "pn < 2 ^ 62" "0 \<le> pn'" "pn' < 2 ^ 62" "nonce iv pn = nonce iv pn'"
  shows "pn = pn'"
proof -
  have "map2 (XOR) (map2 (XOR) iv (to_be 12 pn)) iv = to_be 12 pn" if "length iv = 12" for pn and iv :: bytes
  proof -
    have "map2 (XOR) iv (to_be 12 pn) = map2 (XOR) (to_be 12 pn) iv"
      using that by (simp add: list_eq_iff_nth_eq xor.commute)
    then show ?thesis using map2_xor_involution [of "to_be 12 pn" iv] that by simp
  qed
  then have "to_be 12 pn = to_be 12 pn'"
    using assms nonce_ok [of pn iv] nonce_ok [of pn' iv] by (metis sum.inject(2))
  then show ?thesis using assms to_be_inj [of pn 12 pn'] by simp
qed

definition toy_keys :: packet_keys where
  "toy_keys = projr (derive_packet_keys toy_prims [1, 2, 3] TLS_AES_128_GCM_SHA256)"

lemma toy_keys: "derive_packet_keys toy_prims [1, 2, 3] TLS_AES_128_GCM_SHA256 = Inr toy_keys"
  by (rule derive_packet_keys_ok [OF prims_okD(4) [OF toy_prims_ok], of "[1, 2, 3]"
        TLS_AES_128_GCM_SHA256]) (simp add: toy_keys_def)

theorem protect_unprotect_witness:
  "\<exists>packet u. protect toy_prims toy_keys (0x41 # [7, 7, 7] @ to_be 2 10007) [1, 0, 0] 10007 = Inr packet
    \<and> remove_header_protection toy_prims toy_keys packet (Suc (length [7, 7, 7 :: byte])) 10000 = Inr u
    \<and> uh_header u = 0x41 # [7, 7, 7] @ to_be 2 10007 \<and> uh_key_phase u = (0x41 AND 4 \<noteq> (0 :: byte))
    \<and> unprotect toy_prims toy_keys packet (Suc (length [7, 7, 7 :: byte])) 10000 = Inr (10007, [1, 0, 0])"
  by (rule protect_unprotect [OF toy_prims_ok toy_keys]) simp_all

theorem unprotect_authentic_witness:
  "\<exists>packet u. remove_header_protection toy_prims toy_keys packet 4 10000 = Inr u
    \<and> protect toy_prims toy_keys (uh_header u) [1, 0, 0] 10007 = Inr packet
    \<and> unprotect toy_prims toy_keys packet 4 10000 = Inr (10007, [1, 0, 0])"
proof -
  obtain packet where "unprotect toy_prims toy_keys packet (Suc (length [7, 7, 7 :: byte])) 10000
      = Inr (10007, [1, 0, 0])"
    using unprotect_protect [OF toy_prims_ok derived_keys_ok [OF toy_prims_ok toy_keys], where first = "0x41"
        and n = 2 and payload = "[1, 0, 0]" and pn = 10007 and largest = 10000 and mid = "[7, 7, 7]"] by auto
  then have un: "unprotect toy_prims toy_keys packet 4 10000 = Inr (10007, [1, 0, 0])"
    by (simp add: eval_nat_numeral)
  from unprotect_authentic [OF toy_prims_ok toy_keys _ un] un show ?thesis by auto
qed

lemma nonce_unique_witness: "nonce (zeros 12) 5 \<noteq> nonce (zeros 12) 6"
  using nonce_unique [of "zeros 12" 5 6] by (auto simp: zeros_def)

end
