(* ===== verification/Retry_Tokens.thy ===== *)
theory Retry_Tokens
  imports Protection
begin

text \<open>
  \<open>src/dsquic/retry.py\<close>: Retry packets and address validation tokens
  (RFC 9000, sections 8.1 and 17.2.5).

  \<open>os.urandom\<close> is an argument: each function that draws a nonce takes it. The clock is
  a rational, and \<open>int(now)\<close> truncates. The lemmas show that the client accepts
  the Retry a server builds, that a token validates for the address and the lifetime it was
  minted for, and that nothing else validates.
\<close>

section \<open>Model\<close>

abbreviation (input) NONCE_LENGTH :: nat where "NONCE_LENGTH \<equiv> 12"

definition RETRY_TOKEN :: bytes where "RETRY_TOKEN = [1]"
definition NEW_TOKEN :: bytes where "NEW_TOKEN = [2]"

record retry_context =
  rc_original_destination_cid :: bytes
  rc_source_cid :: bytes

definition is_retry :: "bytes \<Rightarrow> bool" where
  "is_retry data =
     (if length data < 5 \<or> uint (data ! 0) AND HEADER_FORM_LONG = 0 then False
      else if from_be (drop 1 (take 5 data)) \<noteq> QUIC_V1 then False
      else PacketType (drop_bit 4 (uint (data ! 0) AND 0x30)) = Inr RETRY)"

definition pull_retry :: "prims \<Rightarrow> bytes \<Rightarrow> bytes \<Rightarrow> (buffer, retry) se" where
  "pull_retry P data original_destination_cid =
     bindS pull_uint8 (\<lambda>first.
     if first AND HEADER_FORM_LONG = 0 then raiseS HeaderParseError
     else bindS pull_uint32 (\<lambda>version.
     if version \<noteq> QUIC_V1 then raiseS (UnsupportedVersion version)
     else bindS (liftS (PacketType (drop_bit 4 (first AND 0x30)))) (\<lambda>packet_type.
     if packet_type \<noteq> RETRY then raiseS HeaderParseError
     else bindS (bindS pull_uint8 pull_bytes) (\<lambda>destination_cid.
     bindS (bindS pull_uint8 pull_bytes) (\<lambda>source_cid.
     if len destination_cid > MAX_CID_LENGTH \<or> len source_cid > MAX_CID_LENGTH
     then raiseS HeaderParseError
     else bindS (liftS (retry_integrity_tag P original_destination_cid
              (take (length data - AEAD_TAG_LENGTH) data))) (\<lambda>expected.
     if drop (length data - AEAD_TAG_LENGTH) data \<noteq> expected then raiseS HeaderParseError
     else bindS (getS buf_position) (\<lambda>pos.
       retS \<lparr>retry_version = version, retry_destination_cid = destination_cid,
         retry_source_cid = source_cid,
         retry_token = drop pos (take (length data - AEAD_TAG_LENGTH) data)\<rparr>)))))))"

definition parse_retry :: "prims \<Rightarrow> bytes \<Rightarrow> bytes \<Rightarrow> retry result" where
  "parse_retry P data original_destination_cid =
     (if length data < AEAD_TAG_LENGTH then Inl HeaderParseError
      else fst (pull_retry P data original_destination_cid (mk_buffer data)))"

definition build_retry :: "prims \<Rightarrow> bytes \<Rightarrow> bytes \<Rightarrow> bytes \<Rightarrow> bytes \<Rightarrow> bytes result" where
  "build_retry P destination_cid source_cid token original_destination_cid =
     bindE (catE [byte1 (HEADER_FORM_LONG OR FIXED_BIT OR push_bit 4 (packet_type_value RETRY)),
        to_bytes 4 QUIC_V1, byte1 (len destination_cid), Inr destination_cid,
        byte1 (len source_cid), Inr source_cid, Inr token]) (\<lambda>header.
     bindE (retry_integrity_tag P original_destination_cid header) (\<lambda>tag. Inr (header @ tag)))"

definition mint_token :: "prims \<Rightarrow> bytes \<Rightarrow> bytes \<Rightarrow> bytes \<Rightarrow> bytes \<Rightarrow> rat \<Rightarrow> bytes result" where
  "mint_token P n key original_destination_cid client_address now =
     bindE (catE [encode_varint (len original_destination_cid), Inr original_destination_cid,
        encode_varint (len client_address), Inr client_address, to_bytes 8 (py_int now)]) (\<lambda>payload.
     bindE (prim_aesgcm_encrypt P key n payload RETRY_TOKEN) (\<lambda>sealed.
       Inr (RETRY_TOKEN @ n @ sealed)))"

text \<open>The decryption of a token; \<open>InvalidTag\<close> becomes \<open>TokenError\<close>.\<close>

definition open_token :: "prims \<Rightarrow> bytes \<Rightarrow> bytes \<Rightarrow> bytes \<Rightarrow> bytes result" where
  "open_token P key kind token =
     (let n = take NONCE_LENGTH (drop (length kind) token);
          sealed = drop (length kind + NONCE_LENGTH) token
      in case prim_aesgcm_decrypt P key n sealed kind of
           Inl e \<Rightarrow> Inl (if e = InvalidTag then TokenError else e)
         | Inr payload \<Rightarrow> Inr payload)"

definition token_times :: "bytes \<Rightarrow> bytes \<Rightarrow> int \<Rightarrow> rat \<Rightarrow> rat \<Rightarrow> (buffer, unit) se" where
  "token_times address client_address issued now lifetime =
     (if address \<noteq> client_address then raiseS TokenError
      else if now - of_int issued > lifetime then raiseS TokenError else retS ())"

definition pull_token :: "bytes \<Rightarrow> rat \<Rightarrow> rat \<Rightarrow> (buffer, bytes) se" where
  "pull_token client_address now lifetime =
     bindS (bindS pull_varint pull_bytes) (\<lambda>original_destination_cid.
     bindS (bindS pull_varint pull_bytes) (\<lambda>address.
     bindS (pull_bytes 8) (\<lambda>issued.
     bindS (token_times address client_address (from_be issued) now lifetime) (\<lambda>_.
       retS original_destination_cid))))"

definition validate_token :: "prims \<Rightarrow> bytes \<Rightarrow> bytes \<Rightarrow> bytes \<Rightarrow> rat \<Rightarrow> rat \<Rightarrow> bytes result" where
  "validate_token P key token client_address now lifetime =
     (if take (length RETRY_TOKEN) token \<noteq> RETRY_TOKEN then Inl TokenError
      else bindE (open_token P key RETRY_TOKEN token) (\<lambda>payload.
        fst (pull_token client_address now lifetime (mk_buffer payload))))"

definition mint_new_token :: "prims \<Rightarrow> bytes \<Rightarrow> bytes \<Rightarrow> bytes \<Rightarrow> rat \<Rightarrow> bytes result" where
  "mint_new_token P n key client_address now =
     bindE (catE [encode_varint (len client_address), Inr client_address,
        to_bytes 8 (py_int now)]) (\<lambda>payload.
     bindE (prim_aesgcm_encrypt P key n payload NEW_TOKEN) (\<lambda>sealed.
       Inr (NEW_TOKEN @ n @ sealed)))"

definition pull_new_token :: "bytes \<Rightarrow> rat \<Rightarrow> rat \<Rightarrow> (buffer, unit) se" where
  "pull_new_token client_address now lifetime =
     bindS (bindS pull_varint pull_bytes) (\<lambda>address.
     bindS (pull_bytes 8) (\<lambda>issued.
       token_times address client_address (from_be issued) now lifetime))"

definition validate_new_token :: "prims \<Rightarrow> bytes \<Rightarrow> bytes \<Rightarrow> bytes \<Rightarrow> rat \<Rightarrow> rat \<Rightarrow> unit result" where
  "validate_new_token P key token client_address now lifetime =
     (if take (length NEW_TOKEN) token \<noteq> NEW_TOKEN then Inl TokenError
      else bindE (open_token P key NEW_TOKEN token) (\<lambda>payload.
        fst (pull_new_token client_address now lifetime (mk_buffer payload))))"


section \<open>Retry packets\<close>

lemma retry_integrity_tag_ok:
  assumes "prims_ok P" "length odcid < 256"
  obtains tag where "retry_integrity_tag P odcid header = Inr tag" "length tag = 16"
proof -
  have "aes_key_ok RETRY_INTEGRITY_KEY" "gcm_nonce_ok RETRY_INTEGRITY_NONCE"
    by (simp_all add: aes_key_ok_def gcm_nonce_ok_def RETRY_INTEGRITY_KEY_def RETRY_INTEGRITY_NONCE_def)
  with gcm_encrypt [OF prims_okD(1) [OF assms(1)]]
  obtain tag where "prim_aesgcm_encrypt P RETRY_INTEGRITY_KEY RETRY_INTEGRITY_NONCE []
      (word_of_nat (length odcid) # odcid @ header) = Inr tag" by blast
  moreover from aead_okD(1) [OF gcm_aead [OF prims_okD(1) [OF assms(1)]] this] have "length tag = 16" by simp
  ultimately show ?thesis using assms(2) that by (simp add: retry_integrity_tag_def byte1_len)
qed

definition retry_bytes :: "bytes \<Rightarrow> bytes \<Rightarrow> bytes \<Rightarrow> bytes" where
  "retry_bytes d s token = 0xF0 # to_be 4 1 @ word_of_nat (length d) # d @ word_of_nat (length s) # s @ token"

lemma build_retry_eq:
  assumes "length d < 256" "length s < 256"
  shows "build_retry P d s token odcid = bindE (retry_integrity_tag P odcid (retry_bytes d s token))
    (\<lambda>tag. Inr (retry_bytes d s token @ tag))"
  using assms by (simp add: build_retry_def retry_bytes_def byte1_len push_bit_eq_mult)

text \<open>C33: The client accepts the Retry packet a server builds for the connection ID of its
  Initial packet, recognises it as one, and recovers both connection IDs and the token.\<close>

theorem retry_roundtrip:
  assumes P: "prims_ok P" and "length d \<le> 20" "length s \<le> 20" "length odcid < 256"
  shows "\<exists>data. build_retry P d s token odcid = Inr data \<and> is_retry data
    \<and> parse_retry P data odcid = Inr \<lparr>retry_version = 1, retry_destination_cid = d,
        retry_source_cid = s, retry_token = token\<rparr>"
proof -
  let ?h = "retry_bytes d s token"
  obtain tag where tag: "retry_integrity_tag P odcid ?h = Inr tag" "length tag = 16"
    by (rule retry_integrity_tag_ok [OF P assms(4)])
  have cut: "take (length (?h @ tag) - 16) (?h @ tag) = ?h" "drop (length (?h @ tag) - 16) (?h @ tag) = tag"
    using tag(2) by simp_all
  let ?pre = "0xF0 # to_be 4 1 @ word_of_nat (length d) # d @ word_of_nat (length s) # s :: bytes"
  have "length ?pre = 7 + (length d + length s)" by simp
  then have "drop (7 + (length d + length s)) (?pre @ token) = token" by (metis append_eq_conv_conj)
  then have rest: "drop (7 + (length d + length s)) (240 # to_be 4 1 @ word_of_nat (length d) # d
      @ word_of_nat (length s) # s @ token) = token"
    by (simp only: append_Cons append_assoc)
  have type: "PacketType (drop_bit 4 (uint (0xF0 :: byte) AND 0x30)) = Inr RETRY"
    by (simp add: PacketType_def drop_bit_eq_div)
  have "is_retry (?h @ tag)"
    using type by (simp add: is_retry_def retry_bytes_def take_Cons' )
  moreover have "pull_retry P (?h @ tag) odcid (mk_buffer (?h @ tag)) = (Inr \<lparr>retry_version = 1,
      retry_destination_cid = d, retry_source_cid = s, retry_token = token\<rparr>, buf_at
        (0xF0 # to_be 4 1 @ word_of_nat (length d) # d @ word_of_nat (length s) # s) (token @ tag))"
    unfolding pull_retry_def cut tag(1) mk_buffer_at
    using type rest assms(2,3) by (simp add: retry_bytes_def wire_simps)
  ultimately show ?thesis
    using assms(2,3) tag by (simp add: build_retry_eq parse_retry_def)
qed

theorem retry_roundtrip_witness:
  "\<exists>data. build_retry toy_prims [1, 2] [3] [9, 9] [5, 5, 5] = Inr data \<and> is_retry data
    \<and> parse_retry toy_prims data [5, 5, 5] = Inr \<lparr>retry_version = 1, retry_destination_cid = [1, 2],
        retry_source_cid = [3], retry_token = [9, 9]\<rparr>"
  by (rule retry_roundtrip [OF toy_prims_ok]) simp_all


section \<open>Tokens\<close>

definition clock_ok :: "rat \<Rightarrow> bool" where
  "clock_ok now \<longleftrightarrow> 0 \<le> now \<and> now < 2 ^ 64"

lemma clock_ok_trunc:
  assumes "clock_ok now"
  shows "to_bytes 8 (py_int now) = Inr (to_be 8 (py_int now))" "0 \<le> py_int now" "py_int now < 256 ^ 8"
    "of_int (py_int now) \<le> now" "now < of_int (py_int now) + 1"
proof -
  have t: "py_int now = \<lfloor>now\<rfloor>" "0 \<le> \<lfloor>now\<rfloor>" using assms by (simp_all add: clock_ok_def py_int_def)
  moreover have "\<lfloor>now\<rfloor> < 2 ^ 64" using assms by (simp add: clock_ok_def floor_less_iff)
  ultimately show "to_bytes 8 (py_int now) = Inr (to_be 8 (py_int now))" "0 \<le> py_int now" "py_int now < 256 ^ 8"
    by simp_all
  show "of_int (py_int now) \<le> now" "now < of_int (py_int now) + 1" unfolding t by linarith+
qed

lemma open_token_sealed:
  assumes "prims_ok P" "length n = 12" "length kind = 1" "prim_aesgcm_encrypt P key n payload kind = Inr sealed"
  shows "open_token P key kind (kind @ n @ sealed) = Inr payload"
  using aead_okD(2) [OF gcm_aead [OF prims_okD(1) [OF assms(1)]] assms(4)] assms(2,3)
  by (simp add: open_token_def)

text \<open>C34: A Retry token validates at the address it was minted for until its lifetime has
  passed, and gives back the original destination connection ID; at any other address
  it is refused.\<close>

theorem retry_token_roundtrip:
  assumes P: "prims_ok P" and key: "aes_key_ok key" and n: "length n = 12"
    and fits: "varint_ok (len odcid)" "varint_ok (len address)" "clock_ok issued"
  shows "\<exists>token. mint_token P n key odcid address issued = Inr token
    \<and> validate_token P key token address' now lifetime =
        (if address' = address \<and> now - of_int \<lfloor>issued\<rfloor> \<le> lifetime then Inr odcid else Inl TokenError)"
proof -
  let ?payload = "varint (len odcid) @ odcid @ varint (len address) @ address @ to_be 8 (py_int issued)"
  obtain sealed where s: "prim_aesgcm_encrypt P key n ?payload RETRY_TOKEN = Inr sealed"
    using gcm_encrypt [OF prims_okD(1) [OF P] key, of n] n by (auto simp: gcm_nonce_ok_def)
  have floor: "py_int issued = \<lfloor>issued\<rfloor>" using fits(3) by (simp add: py_int_def clock_ok_def)
  have "mint_token P n key odcid address issued = Inr (RETRY_TOKEN @ n @ sealed)"
    using s fits by (simp add: mint_token_def clock_ok_trunc)
  moreover have "open_token P key RETRY_TOKEN (RETRY_TOKEN @ n @ sealed) = Inr ?payload"
    using open_token_sealed [OF P n _ s] by (simp add: RETRY_TOKEN_def)
  moreover have "fst (pull_token address' now lifetime (mk_buffer ?payload))
      = (if address' = address \<and> now - of_int \<lfloor>issued\<rfloor> \<le> lifetime then Inr odcid else Inl TokenError)"
    using fits clock_ok_trunc [OF fits(3)]
    by (auto simp: pull_token_def mk_buffer_at wire_simps token_times_def floor)
  ultimately show ?thesis by (simp add: validate_token_def)
qed

theorem retry_token_roundtrip_witness:
  "\<exists>token. mint_token toy_prims (zeros 12) (zeros 32) [8, 8] [127, 0, 0, 1] 1000 = Inr token
    \<and> validate_token toy_prims (zeros 32) token [127, 0, 0, 1] 1010 30 = Inr [8, 8]"
  using retry_token_roundtrip [OF toy_prims_ok, of "zeros 32" "zeros 12" "[8, 8]" "[127, 0, 0, 1]" 1000
      "[127, 0, 0, 1]" 1010 30]
  by (simp add: zeros_def aes_key_ok_def clock_ok_def)

text \<open>The same for a token sent in a NEW_TOKEN frame, which binds the address only.\<close>

lemma new_token_roundtrip:
  assumes P: "prims_ok P" and key: "aes_key_ok key" and n: "length n = 12"
    and fits: "varint_ok (len address)" "clock_ok issued"
  shows "\<exists>token. mint_new_token P n key address issued = Inr token
    \<and> validate_new_token P key token address' now lifetime =
        (if address' = address \<and> now - of_int \<lfloor>issued\<rfloor> \<le> lifetime then Inr () else Inl TokenError)
    \<and> validate_token P key token address' now lifetime = Inl TokenError"
proof -
  let ?payload = "varint (len address) @ address @ to_be 8 (py_int issued)"
  obtain sealed where s: "prim_aesgcm_encrypt P key n ?payload NEW_TOKEN = Inr sealed"
    using gcm_encrypt [OF prims_okD(1) [OF P] key, of n] n by (auto simp: gcm_nonce_ok_def)
  have floor: "py_int issued = \<lfloor>issued\<rfloor>" using fits(2) by (simp add: py_int_def clock_ok_def)
  have "mint_new_token P n key address issued = Inr (NEW_TOKEN @ n @ sealed)"
    using s fits by (simp add: mint_new_token_def clock_ok_trunc)
  moreover have "open_token P key NEW_TOKEN (NEW_TOKEN @ n @ sealed) = Inr ?payload"
    using open_token_sealed [OF P n _ s] by (simp add: NEW_TOKEN_def)
  moreover have "fst (pull_new_token address' now lifetime (mk_buffer ?payload))
      = (if address' = address \<and> now - of_int \<lfloor>issued\<rfloor> \<le> lifetime then Inr () else Inl TokenError)"
    using fits clock_ok_trunc [OF fits(2)]
    by (auto simp: pull_new_token_def mk_buffer_at wire_simps token_times_def floor)
  moreover have "validate_token P key (NEW_TOKEN @ n @ sealed) address' now lifetime = Inl TokenError"
    by (simp add: validate_token_def NEW_TOKEN_def RETRY_TOKEN_def)
  ultimately show ?thesis by (simp add: validate_new_token_def)
qed

lemma new_token_roundtrip_witness:
  "\<exists>token. mint_new_token toy_prims (zeros 12) (zeros 32) [127, 0, 0, 1] 1000 = Inr token
    \<and> validate_new_token toy_prims (zeros 32) token [127, 0, 0, 1] 1010 30 = Inr ()
    \<and> validate_token toy_prims (zeros 32) token [127, 0, 0, 1] 1010 30 = Inl TokenError"
  using new_token_roundtrip [OF toy_prims_ok, of "zeros 32" "zeros 12" "[127, 0, 0, 1]" 1000
      "[127, 0, 0, 1]" 1010 30]
  by (simp add: zeros_def aes_key_ok_def clock_ok_def)

text \<open>What validating arbitrary bytes raises. A token that announces itself as a Retry
  token but is shorter than nine bytes raises \<open>ValueError\<close> from the cipher, not \<open>TokenError\<close>;
  any other token that was not sealed under the server's key raises \<open>TokenError\<close>.\<close>

lemma validate_token_errors:
  assumes P: "prims_ok P" and key: "aes_key_ok key"
    and bad: "\<And>n payload sealed. prim_aesgcm_encrypt P key n payload RETRY_TOKEN = Inr sealed
      \<Longrightarrow> token \<noteq> RETRY_TOKEN @ n @ sealed"
  shows "validate_token P key token address now lifetime
    = Inl (if take 1 token = RETRY_TOKEN \<and> length token < 9 then ValueError else TokenError)"
proof (cases "take 1 token = RETRY_TOKEN")
  case True
  let ?n = "take 12 (drop 1 token)" and ?sealed = "drop 13 token"
  have "token = RETRY_TOKEN @ ?n @ ?sealed"
    by (metis True append_take_drop_id drop_drop numeral_plus_one semiring_norm(5) semiring_norm(2))
  then have no: "prim_aesgcm_decrypt P key ?n ?sealed RETRY_TOKEN \<noteq> Inr payload" for payload
    using bad aead_okD(3) [OF gcm_aead [OF prims_okD(1) [OF P]]] by blast
  then obtain e where e: "prim_aesgcm_decrypt P key ?n ?sealed RETRY_TOKEN = Inl e"
    by (metis sum.exhaust)
  have "gcm_nonce_ok ?n \<longleftrightarrow> \<not> length token < 9" by (auto simp: gcm_nonce_ok_def)
  with gcm_decrypt(1) [OF prims_okD(1) [OF P] key e] e True show ?thesis
    by (simp add: validate_token_def open_token_def RETRY_TOKEN_def)
qed (simp add: validate_token_def RETRY_TOKEN_def)

lemma validate_token_errors_witness:
  "validate_token toy_prims (zeros 32) [1] [127, 0, 0, 1] 0 30 = Inl ValueError"
proof -
  have "[1] \<noteq> RETRY_TOKEN @ n @ sealed"
    if "prim_aesgcm_encrypt toy_prims (zeros 32) n payload RETRY_TOKEN = Inr sealed" for n payload sealed
    using aead_okD(1) [OF gcm_aead [OF prims_okD(1) [OF toy_prims_ok]] that]
    by (auto simp: RETRY_TOKEN_def)
  from validate_token_errors [OF toy_prims_ok _ this] show ?thesis
    by (simp add: aes_key_ok_def zeros_def RETRY_TOKEN_def)
qed

end
