(* ===== verification/Hq.thy ===== *)
theory Hq
  imports Dsquic_Prelude
begin

text \<open>
  \<open>src/dsquic/hq.py\<close>: the hq-interop request line.

  \<open>str.rstrip\<close>, \<open>str.strip\<close> and \<open>str.split\<close> are written out for the characters ASCII has. The
  lemmas show that a server reads back the path a client encodes whatever
  terminator it uses, and that no accepted path climbs out of the document root.
\<close>

section \<open>Model\<close>

definition CR :: char where "CR = CHR 0x0D"
definition LF :: char where "LF = CHR 0x0A"
definition SLASH :: char where "SLASH = CHR ''/''"

definition is_space :: "char \<Rightarrow> bool" where
  "is_space c = (let n = of_char c :: nat in 9 \<le> n \<and> n \<le> 13 \<or> 28 \<le> n \<and> n \<le> 32)"

definition rstrip :: "(char \<Rightarrow> bool) \<Rightarrow> string \<Rightarrow> string" where
  "rstrip P s = rev (dropWhile P (rev s))"

definition strip :: "string \<Rightarrow> string" where
  "strip s = rstrip is_space (dropWhile is_space s)"

fun split_on :: "char \<Rightarrow> string \<Rightarrow> string list" where
  "split_on c [] = [[]]"
| "split_on c (x # xs) =
     (if x = c then [] # split_on c xs
      else case split_on c xs of [] \<Rightarrow> [[x]] | w # ws \<Rightarrow> (x # w) # ws)"

definition starts_with :: "string \<Rightarrow> string \<Rightarrow> bool" where
  "starts_with s prefix = (take (length prefix) s = prefix)"

definition encode_request :: "string \<Rightarrow> bytes result" where
  "encode_request path =
     (if \<not> starts_with path ''/'' then Inl ValueError
      else encode_ascii (''GET '' @ path @ [CR, LF]))"

definition parse_request :: "bytes \<Rightarrow> string result" where
  "parse_request data =
     (case decode_ascii data of
        Inl _ \<Rightarrow> Inl HqError
      | Inr line \<Rightarrow>
          let line = rstrip (\<lambda>c. c = CR \<or> c = LF) line
          in if LF \<in> set line \<or> CR \<in> set line then Inl HqError
          else if \<not> starts_with line ''GET '' then Inl HqError
          else let path = strip (drop (length ''GET '') line)
          in if \<not> starts_with path ''/'' then Inl HqError
          else if ''..'' \<in> set (split_on SLASH path) then Inl HqError
          else Inr path)"


section \<open>Correctness\<close>

lemma rstrip_id: "s = [] \<or> \<not> P (last s) \<Longrightarrow> rstrip P s = s"
  by (cases s rule: rev_cases) (auto simp: rstrip_def)

lemma rstrip_append:
  assumes "list_all P t"
  shows "rstrip P (s @ t) = rstrip P s"
proof -
  have "dropWhile P (rev t @ rev s) = dropWhile P (rev s)"
    using assms by (intro dropWhile_append2) (auto simp: list_all_iff)
  then show ?thesis by (simp add: rstrip_def)
qed

lemma strip_id: "s = [] \<or> \<not> is_space (hd s) \<and> \<not> is_space (last s) \<Longrightarrow> strip s = s"
  by (cases s) (simp_all add: strip_def rstrip_id del: last.simps)

lemma set_strip: "set (strip s) \<subseteq> set s"
  by (auto simp: strip_def rstrip_def dest!: set_dropWhileD)

text \<open>A path a request line can carry.\<close>

definition path_ok :: "string \<Rightarrow> bool" where
  "path_ok path \<longleftrightarrow> starts_with path ''/'' \<and> list_all (\<lambda>c. (of_char c :: nat) < 128) path
     \<and> CR \<notin> set path \<and> LF \<notin> set path \<and> \<not> is_space (last path) \<and> ''..'' \<notin> set (split_on SLASH path)"

lemma starts_slash: "starts_with path ''/'' \<longleftrightarrow> (\<exists>rest. path = CHR ''/'' # rest)"
  by (cases path) (auto simp: starts_with_def)

lemma parse_request_line:
  assumes "decode_ascii data = Inr line0" "rstrip (\<lambda>c. c = CR \<or> c = LF) line0 = get @ path"
    and get: "''GET '' = get" and ok: "path_ok path"
  shows "parse_request data = Inr path"
proof -
  have "path \<noteq> []" "\<not> is_space (hd path)" "\<not> is_space (last path)"
    using ok by (auto simp: path_ok_def starts_slash is_space_def Let_def)
  then have "strip path = path" by (simp add: strip_id)
  moreover have "CR \<notin> set get" "LF \<notin> set get" unfolding get [symmetric] by (simp_all add: CR_def LF_def)
  ultimately show ?thesis
    using assms(1,2) ok unfolding parse_request_def get by (simp add: path_ok_def starts_with_def [of _ get])
qed

text \<open>A server recovers the path of a request whatever terminator the client ends the
  line with: CRLF, as this client does, a bare LF, or none.\<close>

lemma request_roundtrip:
  assumes ok: "path_ok path" and t: "terminator \<in> {[CR, LF], [LF], []}"
  shows "\<exists>data. encode_request path = Inr (ascii (''GET '' @ path @ [CR, LF]))
    \<and> encode_ascii (''GET '' @ path @ terminator) = Inr data \<and> parse_request data = Inr path"
proof -
  have p: "path \<noteq> []" "CR \<notin> set path" "LF \<notin> set path"
    using ok by (auto simp: path_ok_def starts_slash)
  have chars: "list_all (\<lambda>c. (of_char c :: nat) < 128) (''GET '' @ path @ t)"
    if "t \<in> {[CR, LF], [LF], []}" for t
    using that ok by (auto simp: path_ok_def CR_def LF_def)
  then have enc: "encode_ascii (''GET '' @ path @ t) = Inr (ascii (''GET '' @ path @ t))"
    if "t \<in> {[CR, LF], [LF], []}" for t
    using that by (simp only: encode_ascii_def if_P)
  have "last path \<noteq> CR" "last path \<noteq> LF" using p by (metis last_in_set)+
  then have line: "rstrip (\<lambda>c. c = CR \<or> c = LF) (''GET '' @ path @ terminator) = ''GET '' @ path"
    using t p(1) rstrip_append [of "\<lambda>c. c = CR \<or> c = LF" terminator "''GET '' @ path"]
    by (auto simp: rstrip_id)
  have "decode_ascii (ascii (''GET '' @ path @ terminator)) = Inr (''GET '' @ path @ terminator)"
    by (rule decode_encode_ascii) (rule enc [OF t])
  then have "parse_request (ascii (''GET '' @ path @ terminator)) = Inr path"
    by (rule parse_request_line [OF _ line refl ok])
  moreover have "encode_request path = Inr (ascii (''GET '' @ path @ [CR, LF]))"
    using ok enc [of "[CR, LF]"] unfolding encode_request_def by (simp only: path_ok_def) simp
  ultimately show ?thesis using enc [OF t] by blast
qed

lemma example_path_ok: "path_ok ''/a/b.txt''"
  by code_simp

lemma request_roundtrip_witness:
  "\<exists>data. encode_request ''/a/b.txt'' = Inr (ascii (''GET '' @ ''/a/b.txt'' @ [CR, LF]))
    \<and> encode_ascii (''GET '' @ ''/a/b.txt'' @ [LF]) = Inr data \<and> parse_request data = Inr ''/a/b.txt''"
  by (rule request_roundtrip [OF example_path_ok]) (rule insertI2, rule insertI1)

text \<open>C35: Whatever bytes arrive, parsing a request raises \<open>HqError\<close> or gives a path that begins
  with a slash, has no \<open>..\<close> segment and no line break.\<close>

theorem parse_request_safe:
  "outcome {HqError} (\<lambda>path. starts_with path ''/'' \<and> ''..'' \<notin> set (split_on SLASH path)
     \<and> CR \<notin> set path \<and> LF \<notin> set path) (parse_request data)"
proof (cases "decode_ascii data")
  case (Inl e)
  then show ?thesis by (simp add: parse_request_def)
next
  case (Inr line0)
  define line where "line = rstrip (\<lambda>c. c = CR \<or> c = LF) line0"
  define path where "path = strip (drop (length ''GET '') line)"
  have "set path \<subseteq> set line" unfolding path_def by (rule subset_trans [OF set_strip set_drop_subset])
  moreover have "parse_request data =
      (if LF \<in> set line \<or> CR \<in> set line \<or> \<not> starts_with line ''GET '' \<or> \<not> starts_with path ''/''
          \<or> ''..'' \<in> set (split_on SLASH path) then Inl HqError else Inr path)"
    unfolding parse_request_def Inr sum.case Let_def line_def [symmetric] path_def [symmetric]
    by (simp only: if_disj disj_assoc)
  ultimately show ?thesis by (simp only: outcome_simps split: if_split) blast
qed

end
