(* ===== verification/Qlog.thy ===== *)
theory Qlog
  imports Frames
begin

text \<open>
  Trace events, \<open>src/dsquic/qlog.py\<close>. A trace is the list of the objects handed to \<open>_record\<close>,
  as values of \<open>json\<close>; the text \<open>json.dumps\<close> makes of them is not modelled, since the clock
  readings in it are idealised as rationals. A Python string whose characters come from outside
  is represented by its UTF-8 encoding, \<open>JText\<close>.
\<close>

section \<open>Model\<close>

datatype json =
    JStr string
  | JText bytes
  | JInt int
  | JNum rat
  | JBool bool
  | JList "json list"
  | JObj "(string \<times> json) list"

text \<open>\<open>FRAME_TYPES\<close>, on the classes of \<open>frames.py\<close>; every one of them has an entry.\<close>

fun frame_type :: "frame \<Rightarrow> string" where
  "frame_type (Padding _) = ''padding''"
| "frame_type Ping = ''ping''"
| "frame_type (Ack _) = ''ack''"
| "frame_type (ResetStream _ _ _) = ''reset_stream''"
| "frame_type (StopSending _ _) = ''stop_sending''"
| "frame_type (Crypto _) = ''crypto''"
| "frame_type (NewToken _) = ''new_token''"
| "frame_type (Stream _) = ''stream''"
| "frame_type (MaxData _) = ''max_data''"
| "frame_type (MaxStreamData _ _) = ''max_stream_data''"
| "frame_type (MaxStreams _ _) = ''max_streams''"
| "frame_type (DataBlocked _) = ''data_blocked''"
| "frame_type (StreamDataBlocked _ _) = ''stream_data_blocked''"
| "frame_type (StreamsBlocked _ _) = ''streams_blocked''"
| "frame_type (NewConnectionId _ _ _ _) = ''new_connection_id''"
| "frame_type (RetireConnectionId _) = ''retire_connection_id''"
| "frame_type (PathChallenge _) = ''path_challenge''"
| "frame_type (PathResponse _) = ''path_response''"
| "frame_type (ConnectionClose _) = ''connection_close''"
| "frame_type HandshakeDone = ''handshake_done''"
| "frame_type (Datagram _) = ''datagram''"

text \<open>The attributes of a frame that \<open>FRAME_FIELDS\<close> names, in its order.\<close>

fun frame_fields :: "frame \<Rightarrow> (string \<times> json) list" where
  "frame_fields (ResetStream sid _ _) = [(''stream_id'', JInt sid)]"
| "frame_fields (StopSending sid _) = [(''stream_id'', JInt sid)]"
| "frame_fields (Crypto f) = [(''offset'', JInt (crypto_offset f))]"
| "frame_fields (Stream f) =
     [(''stream_id'', JInt (stream_id f)), (''offset'', JInt (stream_offset f)), (''fin'', JBool (stream_fin f))]"
| "frame_fields (MaxData maximum) = [(''maximum'', JInt maximum)]"
| "frame_fields (MaxStreamData sid maximum) = [(''stream_id'', JInt sid), (''maximum'', JInt maximum)]"
| "frame_fields (MaxStreams maximum _) = [(''maximum'', JInt maximum)]"
| "frame_fields (DataBlocked limit) = [(''limit'', JInt limit)]"
| "frame_fields (StreamDataBlocked sid limit) = [(''stream_id'', JInt sid), (''limit'', JInt limit)]"
| "frame_fields (StreamsBlocked limit _) = [(''limit'', JInt limit)]"
| "frame_fields _ = []"

fun ack_fields :: "frame \<Rightarrow> (string \<times> json) list" where
  "ack_fields (Ack a) =
     (''acked_ranges'', JList (map (\<lambda>(low, high). JList [JInt low, JInt high]) (ack_ranges a)))
     # (case ack_ecn a of None \<Rightarrow> []
        | Some e \<Rightarrow> [(''ect0'', JInt (ect0 e)), (''ect1'', JInt (ect1 e)), (''ce'', JInt (ce e))])"
| "ack_fields _ = []"

definition frame_detail :: "frame \<Rightarrow> json" where
  "frame_detail f = JObj ((''frame_type'', JStr (frame_type f)) # frame_fields f @ ack_fields f)"

record qlog_trace =
  qt_emitted :: "json list"
  qt_reference_time :: time

definition mk_qlog_trace :: "string \<Rightarrow> string \<Rightarrow> bool \<Rightarrow> time \<Rightarrow> string option \<Rightarrow> qlog_trace" where
  "mk_qlog_trace version group_id is_client reference_time wall_clock_time =
     (let reference = [(''clock_type'', JStr ''monotonic''), (''epoch'', JStr ''unknown'')]
            @ (case wall_clock_time of None \<Rightarrow> [] | Some t \<Rightarrow> [(''wall_clock_time'', JStr t)])
      in \<lparr>qt_emitted =
           [JObj [(''file_schema'', JStr ''urn:ietf:params:qlog:file:sequential''),
                  (''serialization_format'', JStr ''application/qlog+json-seq''),
                  (''qlog_version'', JStr ''0.3''), (''qlog_format'', JStr ''JSON-SEQ''),
                  (''title'', JStr ''dsquic qlog''), (''code_version'', JStr version),
                  (''trace'', JObj
                     [(''event_schemas'', JList [JStr ''urn:ietf:params:qlog:events:quic-13'']),
                      (''vantage_point'', JObj [(''type'', JStr (if is_client then ''client'' else ''server''))]),
                      (''common_fields'', JObj [(''group_id'', JStr group_id), (''reference_time'', JObj reference)])])]],
          qt_reference_time = reference_time\<rparr>)"

definition qlog_log :: "time \<Rightarrow> string \<Rightarrow> (string \<times> json) list \<Rightarrow> qlog_trace \<Rightarrow> qlog_trace" where
  "qlog_log now name data t =
     t\<lparr>qt_emitted := qt_emitted t @
       [JObj [(''time'', JNum ((now - qt_reference_time t) * 1000)), (''name'', JStr name), (''data'', JObj data)]]\<rparr>"

end
