(* ===== verification/Tls_Messages.thy ===== *)
theory Tls_Messages
  imports Buffer
begin

text \<open>
  \<open>src/dsquic/tls.py\<close>, the codecs of the handshake messages (RFC 8446, section 4).

  Each \<open>encode_*\<close> and \<open>_parse_*\<close> function is a definition; \<open>buf.pull_bytes(buf.pull_uint16())\<close>
  and its relatives are \<open>pull_vec8\<close>, \<open>pull_vec16\<close> and \<open>pull_vec24\<close>. The lemmas show that every
  message that fits its length fields is read back, and which errors a parser raises.
\<close>

section \<open>Model\<close>

datatype handshake_type = CLIENT_HELLO | SERVER_HELLO | NEW_SESSION_TICKET | ENCRYPTED_EXTENSIONS
  | CERTIFICATE | CERTIFICATE_VERIFY | FINISHED

fun handshake_type_value :: "handshake_type \<Rightarrow> int" where
  "handshake_type_value CLIENT_HELLO = 1"
| "handshake_type_value SERVER_HELLO = 2"
| "handshake_type_value NEW_SESSION_TICKET = 4"
| "handshake_type_value ENCRYPTED_EXTENSIONS = 8"
| "handshake_type_value CERTIFICATE = 11"
| "handshake_type_value CERTIFICATE_VERIFY = 15"
| "handshake_type_value FINISHED = 20"

definition HandshakeType :: "int \<Rightarrow> handshake_type result" where
  "HandshakeType v =
     (if v = 1 then Inr CLIENT_HELLO else if v = 2 then Inr SERVER_HELLO
      else if v = 4 then Inr NEW_SESSION_TICKET else if v = 8 then Inr ENCRYPTED_EXTENSIONS
      else if v = 11 then Inr CERTIFICATE else if v = 15 then Inr CERTIFICATE_VERIFY
      else if v = 20 then Inr FINISHED else Inl ValueError)"

abbreviation (input) TLS_LEGACY_VERSION :: int where "TLS_LEGACY_VERSION \<equiv> 0x0303"

record extension =
  ext_type :: int
  ext_data :: bytes

record client_hello =
  ch_random :: bytes
  ch_legacy_session_id :: bytes
  ch_cipher_suites :: "int list"
  ch_extensions :: "extension list"

record server_hello =
  sh_random :: bytes
  sh_legacy_session_id_echo :: bytes
  sh_cipher_suite :: int
  sh_extensions :: "extension list"

record certificate_entry =
  ce_data :: bytes
  ce_extensions :: "extension list"

record certificate =
  cert_request_context :: bytes
  cert_entries :: "certificate_entry list"

record certificate_verify =
  cv_algorithm :: int
  cv_signature :: bytes

record new_session_ticket =
  nst_lifetime :: int
  nst_age_add :: int
  nst_nonce :: bytes
  nst_ticket :: bytes
  nst_extensions :: "extension list"

datatype handshake_message =
    ClientHello client_hello
  | ServerHello server_hello
  | EncryptedExtensions "extension list"
  | Certificate certificate
  | CertificateVerify certificate_verify
  | Finished bytes
  | NewSessionTicket new_session_ticket

text \<open>\<open>_MESSAGE_TYPE_OF\<close>.\<close>

fun message_type_of :: "handshake_message \<Rightarrow> handshake_type" where
  "message_type_of (ClientHello _) = CLIENT_HELLO"
| "message_type_of (ServerHello _) = SERVER_HELLO"
| "message_type_of (EncryptedExtensions _) = ENCRYPTED_EXTENSIONS"
| "message_type_of (Certificate _) = CERTIFICATE"
| "message_type_of (CertificateVerify _) = CERTIFICATE_VERIFY"
| "message_type_of (Finished _) = FINISHED"
| "message_type_of (NewSessionTicket _) = NEW_SESSION_TICKET"

definition vec :: "nat \<Rightarrow> bytes \<Rightarrow> bytes result" where
  "vec width data = catE [to_bytes width (len data), Inr data]"

definition encode_extension :: "extension \<Rightarrow> bytes result" where
  "encode_extension ext = catE [to_bytes 2 (ext_type ext), vec 2 (ext_data ext)]"

definition encode_extensions :: "extension list \<Rightarrow> bytes result" where
  "encode_extensions extensions = bindE (catE (map encode_extension extensions)) (vec 2)"

definition pull_vec8 :: "(buffer, bytes) se" where "pull_vec8 = bindS pull_uint8 pull_bytes"
definition pull_vec16 :: "(buffer, bytes) se" where "pull_vec16 = bindS pull_uint16 pull_bytes"
definition pull_vec24 :: "(buffer, bytes) se" where "pull_vec24 = bindS pull_uint24 pull_bytes"

definition pull_extension :: "(buffer, extension) se" where
  "pull_extension =
     bindS pull_uint16 (\<lambda>ty. bindS pull_vec16 (\<lambda>data. retS \<lparr>ext_type = ty, ext_data = data\<rparr>))"

definition parse_extensions :: "(buffer, extension list) se" where
  "parse_extensions =
     bindS pull_vec16 (\<lambda>block. liftS (fst (pull_all pull_extension (mk_buffer block))))"

definition encode_handshake_message :: "handshake_type \<Rightarrow> bytes \<Rightarrow> bytes result" where
  "encode_handshake_message message_type body = catE [byte1 (handshake_type_value message_type), vec 3 body]"

definition encode_client_hello :: "client_hello \<Rightarrow> bytes result" where
  "encode_client_hello hello =
     bindE (catE (map (to_bytes 2) (ch_cipher_suites hello))) (\<lambda>suites.
     bindE (catE [to_bytes 2 TLS_LEGACY_VERSION, Inr (ch_random hello),
        vec 1 (ch_legacy_session_id hello), vec 2 suites, vec 1 [0],
        encode_extensions (ch_extensions hello)]) (encode_handshake_message CLIENT_HELLO))"

definition encode_server_hello :: "server_hello \<Rightarrow> bytes result" where
  "encode_server_hello hello =
     bindE (catE [to_bytes 2 TLS_LEGACY_VERSION, Inr (sh_random hello),
        vec 1 (sh_legacy_session_id_echo hello), to_bytes 2 (sh_cipher_suite hello), Inr [0],
        encode_extensions (sh_extensions hello)]) (encode_handshake_message SERVER_HELLO)"

definition encode_new_session_ticket :: "new_session_ticket \<Rightarrow> bytes result" where
  "encode_new_session_ticket message =
     bindE (catE [to_bytes 4 (nst_lifetime message), to_bytes 4 (nst_age_add message),
        vec 1 (nst_nonce message), vec 2 (nst_ticket message),
        encode_extensions (nst_extensions message)]) (encode_handshake_message NEW_SESSION_TICKET)"

definition encode_encrypted_extensions :: "extension list \<Rightarrow> bytes result" where
  "encode_encrypted_extensions extensions =
     bindE (encode_extensions extensions) (encode_handshake_message ENCRYPTED_EXTENSIONS)"

definition encode_certificate_entry :: "certificate_entry \<Rightarrow> bytes result" where
  "encode_certificate_entry entry =
     catE [vec 3 (ce_data entry), encode_extensions (ce_extensions entry)]"

definition encode_certificate :: "certificate \<Rightarrow> bytes result" where
  "encode_certificate message =
     bindE (catE (map encode_certificate_entry (cert_entries message))) (\<lambda>entries.
     bindE (catE [vec 1 (cert_request_context message), vec 3 entries])
       (encode_handshake_message CERTIFICATE))"

definition encode_certificate_verify :: "certificate_verify \<Rightarrow> bytes result" where
  "encode_certificate_verify message =
     bindE (catE [to_bytes 2 (cv_algorithm message), vec 2 (cv_signature message)])
       (encode_handshake_message CERTIFICATE_VERIFY)"

definition encode_finished :: "bytes \<Rightarrow> bytes result" where
  "encode_finished verify_data = encode_handshake_message FINISHED verify_data"

definition parse_client_hello :: "(buffer, client_hello) se" where
  "parse_client_hello =
     bindS pull_uint16 (\<lambda>version.
     if version \<noteq> TLS_LEGACY_VERSION then raiseS HandshakeParseError
     else bindS (pull_bytes 32) (\<lambda>random.
     bindS pull_vec8 (\<lambda>session_id.
     bindS pull_vec16 (\<lambda>suites_block.
     bindS (liftS (fst (pull_all pull_uint16 (mk_buffer suites_block)))) (\<lambda>cipher_suites.
     bindS pull_vec8 (\<lambda>compression.
     if compression \<noteq> [0] then raiseS HandshakeParseError
     else bindS parse_extensions (\<lambda>extensions.
       retS \<lparr>ch_random = random, ch_legacy_session_id = session_id,
             ch_cipher_suites = cipher_suites, ch_extensions = extensions\<rparr>)))))))"

definition parse_server_hello :: "(buffer, server_hello) se" where
  "parse_server_hello =
     bindS pull_uint16 (\<lambda>version.
     if version \<noteq> TLS_LEGACY_VERSION then raiseS HandshakeParseError
     else bindS (pull_bytes 32) (\<lambda>random.
     bindS pull_vec8 (\<lambda>session_id_echo.
     bindS pull_uint16 (\<lambda>cipher_suite.
     bindS pull_uint8 (\<lambda>compression.
     if compression \<noteq> 0 then raiseS HandshakeParseError
     else bindS parse_extensions (\<lambda>extensions.
       retS \<lparr>sh_random = random, sh_legacy_session_id_echo = session_id_echo,
             sh_cipher_suite = cipher_suite, sh_extensions = extensions\<rparr>))))))"

definition pull_certificate_entry :: "(buffer, certificate_entry) se" where
  "pull_certificate_entry =
     bindS pull_vec24 (\<lambda>data. bindS parse_extensions (\<lambda>extensions.
       retS \<lparr>ce_data = data, ce_extensions = extensions\<rparr>))"

definition parse_certificate :: "(buffer, certificate) se" where
  "parse_certificate =
     bindS pull_vec8 (\<lambda>request_context.
     bindS pull_vec24 (\<lambda>entries_block.
     bindS (liftS (fst (pull_all pull_certificate_entry (mk_buffer entries_block)))) (\<lambda>entries.
       retS \<lparr>cert_request_context = request_context, cert_entries = entries\<rparr>)))"

definition parse_new_session_ticket :: "(buffer, new_session_ticket) se" where
  "parse_new_session_ticket =
     bindS pull_uint32 (\<lambda>lifetime. bindS pull_uint32 (\<lambda>age_add. bindS pull_vec8 (\<lambda>nonce.
     bindS pull_vec16 (\<lambda>ticket. bindS parse_extensions (\<lambda>extensions.
       retS \<lparr>nst_lifetime = lifetime, nst_age_add = age_add, nst_nonce = nonce,
             nst_ticket = ticket, nst_extensions = extensions\<rparr>)))))"

definition parse_certificate_verify :: "(buffer, certificate_verify) se" where
  "parse_certificate_verify =
     bindS pull_uint16 (\<lambda>algorithm. bindS pull_vec16 (\<lambda>signature.
       retS \<lparr>cv_algorithm = algorithm, cv_signature = signature\<rparr>))"

definition parse_body :: "handshake_type \<Rightarrow> (buffer, handshake_message) se" where
  "parse_body message_type =
     (case message_type of
        CLIENT_HELLO \<Rightarrow> bindS parse_client_hello (\<lambda>m. retS (ClientHello m))
      | SERVER_HELLO \<Rightarrow> bindS parse_server_hello (\<lambda>m. retS (ServerHello m))
      | ENCRYPTED_EXTENSIONS \<Rightarrow> bindS parse_extensions (\<lambda>m. retS (EncryptedExtensions m))
      | CERTIFICATE \<Rightarrow> bindS parse_certificate (\<lambda>m. retS (Certificate m))
      | CERTIFICATE_VERIFY \<Rightarrow> bindS parse_certificate_verify (\<lambda>m. retS (CertificateVerify m))
      | FINISHED \<Rightarrow> bindS (bindS (getS remaining) pull_bytes) (\<lambda>m. retS (Finished m))
      | NEW_SESSION_TICKET \<Rightarrow> bindS parse_new_session_ticket (\<lambda>m. retS (NewSessionTicket m)))"

definition parse_whole :: "handshake_type \<Rightarrow> bytes \<Rightarrow> handshake_message result" where
  "parse_whole message_type body =
     (case parse_body message_type (mk_buffer body) of
        (Inl e, b) \<Rightarrow> Inl e
      | (Inr message, b) \<Rightarrow> if \<not> is_empty b then Inl HandshakeParseError else Inr message)"

definition pull_handshake_message :: "(buffer, handshake_message \<times> nat) se" where
  "pull_handshake_message =
     bindS pull_uint8 (\<lambda>ty.
     bindS (liftS (case HandshakeType ty of Inl _ \<Rightarrow> Inl HandshakeParseError | Inr t \<Rightarrow> Inr t)) (\<lambda>message_type.
     bindS pull_vec24 (\<lambda>body.
     bindS (liftS (parse_whole message_type body)) (\<lambda>message.
     bindS (getS buf_position) (\<lambda>position. retS (message, position))))))"

definition parse_handshake_message :: "bytes \<Rightarrow> (handshake_message \<times> nat) result" where
  "parse_handshake_message data = fst (pull_handshake_message (mk_buffer data))"

fun encode_message :: "handshake_message \<Rightarrow> bytes result" where
  "encode_message (ClientHello m) = encode_client_hello m"
| "encode_message (ServerHello m) = encode_server_hello m"
| "encode_message (EncryptedExtensions m) = encode_encrypted_extensions m"
| "encode_message (Certificate m) = encode_certificate m"
| "encode_message (CertificateVerify m) = encode_certificate_verify m"
| "encode_message (Finished m) = encode_finished m"
| "encode_message (NewSessionTicket m) = encode_new_session_ticket m"


section \<open>Vectors and extensions\<close>

definition fits16 :: "int \<Rightarrow> bool" where "fits16 v \<longleftrightarrow> 0 \<le> v \<and> v < 65536"

lemma vec_ok: "len data < 256 ^ w \<Longrightarrow> vec w data = Inr (to_be w (len data) @ data)"
  by (simp add: vec_def)

lemma to_be_one [simp]: "to_be (Suc 0) (int n) = [word_of_nat n]" "to_be 1 (int n) = [word_of_nat n]" "to_be (Suc 0) 1 = [1]"
  by (simp_all add: to_be.simps)

lemma pull_vecs_at [wire_simps]:
  "length d < 256 \<Longrightarrow> pull_vec8 (buf_at pre (word_of_nat (length d) # d @ rest))
     = (Inr d, buf_at (pre @ word_of_nat (length d) # d) rest)"
  "length d < 65536 \<Longrightarrow> pull_vec16 (buf_at pre (to_be 2 (len d) @ d @ rest))
     = (Inr d, buf_at (pre @ to_be 2 (len d) @ d) rest)"
  "length d < 16777216 \<Longrightarrow> pull_vec24 (buf_at pre (to_be 3 (len d) @ d @ rest))
     = (Inr d, buf_at (pre @ to_be 3 (len d) @ d) rest)"
  by (simp_all add: pull_vec8_def pull_vec16_def pull_vec24_def wire_simps)

definition extension_ok :: "extension \<Rightarrow> bool" where
  "extension_ok ext \<longleftrightarrow> fits16 (ext_type ext) \<and> length (ext_data ext) < 65536"

lemma encode_extension_ok:
  "extension_ok ext \<Longrightarrow> encode_extension ext
     = Inr (to_be 2 (ext_type ext) @ to_be 2 (len (ext_data ext)) @ ext_data ext)"
  by (simp add: extension_ok_def fits16_def encode_extension_def vec_ok)

interpretation extension_codec: byte_codec encode_extension pull_extension extension_ok
  by unfold_locales
    (auto simp: encode_extension_ok extension_ok_def fits16_def pull_extension_def wire_simps)

lemma catE_codec: "mapE f xs = Inr bss \<Longrightarrow> catE (map f xs) = Inr (concat bss)"
  by (induction xs arbitrary: bss) (auto simp: bindE_Inr_iff)

definition extension_bytes :: "extension list \<Rightarrow> bytes" where
  "extension_bytes exts = concat (map (\<lambda>ext. projr (encode_extension ext)) exts)"

definition extensions_ok :: "extension list \<Rightarrow> bool" where
  "extensions_ok exts \<longleftrightarrow> list_all extension_ok exts \<and> length (extension_bytes exts) < 65536"

lemma mapE_encode_extension:
  "list_all extension_ok exts \<Longrightarrow> mapE encode_extension exts = Inr (map (\<lambda>ext. projr (encode_extension ext)) exts)"
  by (rule mapE_Inr_all) (auto simp: list_all_iff encode_extension_ok)

lemma encode_extensions_ok:
  assumes "extensions_ok exts"
  shows "encode_extensions exts = Inr (to_be 2 (len (extension_bytes exts)) @ extension_bytes exts)"
proof -
  have "catE (map encode_extension exts) = Inr (extension_bytes exts)"
    using assms by (simp add: extensions_ok_def extension_bytes_def catE_codec [OF mapE_encode_extension])
  then show ?thesis using assms by (simp add: encode_extensions_def extensions_ok_def vec_ok)
qed

lemma parse_extensions_at [wire_simps]:
  assumes "extensions_ok exts"
  shows "parse_extensions (buf_at pre (to_be 2 (len (extension_bytes exts)) @ extension_bytes exts @ rest))
    = (Inr exts, buf_at (pre @ to_be 2 (len (extension_bytes exts)) @ extension_bytes exts) rest)"
  using assms extension_codec.pull_all_enc [OF _ mapE_encode_extension, of exts "[]"]
  by (simp add: parse_extensions_def extensions_ok_def wire_simps mk_buffer_at extension_bytes_def)

lemma parse_extensions_all [wire_simps]:
  assumes "extensions_ok exts"
  shows "parse_extensions (buf_at pre (to_be 2 (len (extension_bytes exts)) @ extension_bytes exts))
    = (Inr exts, buf_at (pre @ to_be 2 (len (extension_bytes exts)) @ extension_bytes exts) [])"
  using parse_extensions_at [OF assms, of pre "[]"] by simp

definition entry_ok :: "certificate_entry \<Rightarrow> bool" where
  "entry_ok entry \<longleftrightarrow> length (ce_data entry) < 16777216 \<and> extensions_ok (ce_extensions entry)"

lemma encode_certificate_entry_ok:
  "entry_ok entry \<Longrightarrow> encode_certificate_entry entry = Inr (to_be 3 (len (ce_data entry)) @ ce_data entry
     @ to_be 2 (len (extension_bytes (ce_extensions entry))) @ extension_bytes (ce_extensions entry))"
  by (simp add: entry_ok_def encode_certificate_entry_def vec_ok encode_extensions_ok)

interpretation entry_codec: byte_codec encode_certificate_entry pull_certificate_entry entry_ok
  by unfold_locales
    (auto simp: encode_certificate_entry_ok entry_ok_def pull_certificate_entry_def wire_simps)

definition entry_bytes :: "certificate_entry list \<Rightarrow> bytes" where
  "entry_bytes entries = concat (map (\<lambda>e. projr (encode_certificate_entry e)) entries)"

lemma mapE_encode_entry:
  "list_all entry_ok es \<Longrightarrow> mapE encode_certificate_entry es = Inr (map (\<lambda>e. projr (encode_certificate_entry e)) es)"
  by (rule mapE_Inr_all) (auto simp: list_all_iff encode_certificate_entry_ok)

lemma entries_at:
  assumes "list_all entry_ok es"
  shows "catE (map encode_certificate_entry es) = Inr (entry_bytes es)"
    and "fst (pull_all pull_certificate_entry (mk_buffer (entry_bytes es))) = Inr es"
  using assms entry_codec.pull_all_enc [OF assms mapE_encode_entry [OF assms], of "[]"]
  by (simp_all add: entry_bytes_def catE_codec [OF mapE_encode_entry] mk_buffer_at)

definition suite_bytes :: "int list \<Rightarrow> bytes" where
  "suite_bytes suites = concat (map (to_be 2) suites)"

lemma suites_at:
  assumes "list_all fits16 suites"
  shows "catE (map (to_bytes 2) suites) = Inr (suite_bytes suites)"
    and "fst (pull_all pull_uint16 (mk_buffer (suite_bytes suites))) = Inr suites"
proof -
  have m: "mapE (to_bytes 2) suites = Inr (map (to_be 2) suites)"
    using assms by (intro mapE_Inr_all) (auto simp: list_all_iff fits16_def)
  show "catE (map (to_bytes 2) suites) = Inr (suite_bytes suites)"
    by (simp add: suite_bytes_def catE_codec [OF m])
  show "fst (pull_all pull_uint16 (mk_buffer (suite_bytes suites))) = Inr suites"
    using uint16_codec.pull_all_enc [OF _ m, of "[]"] assms
    by (simp add: suite_bytes_def mk_buffer_at fits16_def [abs_def])
qed

lemma length_suite_bytes: "length (suite_bytes suites) = 2 * length suites"
  by (induction suites) (simp_all add: suite_bytes_def)


section \<open>Messages\<close>

text \<open>The sizes the length fields of a message can express.\<close>

fun message_ok :: "handshake_message \<Rightarrow> bool" where
  "message_ok (ClientHello m) \<longleftrightarrow> length (ch_random m) = 32 \<and> length (ch_legacy_session_id m) < 256
     \<and> list_all fits16 (ch_cipher_suites m) \<and> length (ch_cipher_suites m) < 32768
     \<and> extensions_ok (ch_extensions m)"
| "message_ok (ServerHello m) \<longleftrightarrow> length (sh_random m) = 32 \<and> length (sh_legacy_session_id_echo m) < 256
     \<and> fits16 (sh_cipher_suite m) \<and> extensions_ok (sh_extensions m)"
| "message_ok (EncryptedExtensions m) \<longleftrightarrow> extensions_ok m"
| "message_ok (Certificate m) \<longleftrightarrow> length (cert_request_context m) < 256
     \<and> list_all entry_ok (cert_entries m) \<and> length (entry_bytes (cert_entries m)) < 16700000"
| "message_ok (CertificateVerify m) \<longleftrightarrow> fits16 (cv_algorithm m) \<and> length (cv_signature m) < 65536"
| "message_ok (Finished m) \<longleftrightarrow> length m < 16777216"
| "message_ok (NewSessionTicket m) \<longleftrightarrow> 0 \<le> nst_lifetime m \<and> nst_lifetime m < 4294967296
     \<and> 0 \<le> nst_age_add m \<and> nst_age_add m < 4294967296 \<and> length (nst_nonce m) < 256
     \<and> length (nst_ticket m) < 65536 \<and> extensions_ok (nst_extensions m)"

lemma extensions_ok_len: "extensions_ok exts \<Longrightarrow> length (extension_bytes exts) < 65536"
  by (simp add: extensions_ok_def)

lemma parse_whole_at:
  "parse_body ty (buf_at [] body) = (Inr m, buf_at pre []) \<Longrightarrow> parse_whole ty body = Inr m"
  by (simp add: parse_whole_def mk_buffer_at)

lemmas encode_message_defs = encode_client_hello_def encode_server_hello_def
  encode_encrypted_extensions_def encode_certificate_def encode_certificate_verify_def
  encode_finished_def encode_new_session_ticket_def

text \<open>Every well-formed message has a body that its parser reads back to the end.\<close>

definition has_body :: "handshake_message \<Rightarrow> bytes \<Rightarrow> bool" where
  "has_body m body \<longleftrightarrow> encode_message m = encode_handshake_message (message_type_of m) body
     \<and> length body < 16777216 \<and> parse_whole (message_type_of m) body = Inr m"

lemma client_hello_body:
  assumes ok: "length (ch_random h) = 32" "length (ch_legacy_session_id h) < 256"
     "list_all fits16 (ch_cipher_suites h)" "length (ch_cipher_suites h) < 32768" "extensions_ok (ch_extensions h)"
  shows "has_body (ClientHello h) (to_be 2 0x0303 @ ch_random h @ word_of_nat (length (ch_legacy_session_id h))
    # ch_legacy_session_id h @ to_be 2 (len (suite_bytes (ch_cipher_suites h))) @ suite_bytes (ch_cipher_suites h)
    @ 1 # 0 # to_be 2 (len (extension_bytes (ch_extensions h))) @ extension_bytes (ch_extensions h))"
    (is "has_body _ ?body")
proof -
  have length_suite: "length (suite_bytes (ch_cipher_suites h)) < 65536"
    using ok(4) by (simp add: length_suite_bytes)
  have "parse_whole CLIENT_HELLO ?body = Inr (ClientHello h)"
    using ok pull_vecs_at(1) [of "[0]"]
    by (intro parse_whole_at) (simp add: parse_body_def parse_client_hello_def wire_simps suites_at length_suite)
  then show ?thesis using ok extensions_ok_len [OF ok(5)] length_suite
    by (simp add: has_body_def encode_client_hello_def suites_at vec_ok encode_extensions_ok)
qed

lemma server_hello_body:
  assumes ok: "length (sh_random h) = 32" "length (sh_legacy_session_id_echo h) < 256"
     "fits16 (sh_cipher_suite h)" "extensions_ok (sh_extensions h)"
  shows "has_body (ServerHello h) (to_be 2 0x0303 @ sh_random h @ word_of_nat (length (sh_legacy_session_id_echo h))
    # sh_legacy_session_id_echo h @ to_be 2 (sh_cipher_suite h)
    @ 0 # to_be 2 (len (extension_bytes (sh_extensions h))) @ extension_bytes (sh_extensions h))"
    (is "has_body _ ?body")
proof -
  have "parse_whole SERVER_HELLO ?body = Inr (ServerHello h)"
    using ok by (intro parse_whole_at)
      (simp add: parse_body_def parse_server_hello_def wire_simps fits16_def)
  then show ?thesis using ok extensions_ok_len [OF ok(4)]
    by (simp add: has_body_def encode_server_hello_def vec_ok encode_extensions_ok fits16_def)
qed

lemma encrypted_extensions_body:
  assumes "extensions_ok exts"
  shows "has_body (EncryptedExtensions exts) (to_be 2 (len (extension_bytes exts)) @ extension_bytes exts)"
    (is "has_body _ ?body")
proof -
  have "parse_whole ENCRYPTED_EXTENSIONS ?body = Inr (EncryptedExtensions exts)"
    using assms by (intro parse_whole_at) (simp add: parse_body_def wire_simps)
  then show ?thesis using assms extensions_ok_len [OF assms]
    by (simp add: has_body_def encode_encrypted_extensions_def encode_extensions_ok)
qed

lemma certificate_body:
  assumes ok: "length (cert_request_context c) < 256" "list_all entry_ok (cert_entries c)"
    "length (entry_bytes (cert_entries c)) < 16700000"
  shows "has_body (Certificate c) (word_of_nat (length (cert_request_context c)) # cert_request_context c
    @ to_be 3 (len (entry_bytes (cert_entries c))) @ entry_bytes (cert_entries c))"
    (is "has_body _ ?body")
proof -
  have "parse_whole CERTIFICATE ?body = Inr (Certificate c)"
    using ok pull_vecs_at(3) [of "entry_bytes (cert_entries c)" _ "[]"]
    by (intro parse_whole_at) (simp add: parse_body_def parse_certificate_def wire_simps entries_at)
  then show ?thesis using ok
    by (simp add: has_body_def encode_certificate_def vec_ok entries_at)
qed

lemma certificate_verify_body:
  assumes ok: "fits16 (cv_algorithm v)" "length (cv_signature v) < 65536"
  shows "has_body (CertificateVerify v) (to_be 2 (cv_algorithm v) @ to_be 2 (len (cv_signature v)) @ cv_signature v)"
    (is "has_body _ ?body")
proof -
  have "parse_whole CERTIFICATE_VERIFY ?body = Inr (CertificateVerify v)"
    using ok pull_vecs_at(2) [of "cv_signature v" _ "[]"]
    by (intro parse_whole_at) (simp add: parse_body_def parse_certificate_verify_def wire_simps fits16_def)
  then show ?thesis using ok
    by (simp add: has_body_def encode_certificate_verify_def vec_ok fits16_def)
qed

lemma finished_body:
  assumes "length v < 16777216"
  shows "has_body (Finished v) v"
proof -
  have "parse_whole FINISHED v = Inr (Finished v)"
    by (intro parse_whole_at) (simp add: parse_body_def wire_simps)
  then show ?thesis using assms by (simp add: has_body_def encode_finished_def)
qed

lemma new_session_ticket_body:
  assumes ok: "0 \<le> nst_lifetime t" "nst_lifetime t < 4294967296" "0 \<le> nst_age_add t"
    "nst_age_add t < 4294967296" "length (nst_nonce t) < 256" "length (nst_ticket t) < 65536"
    "extensions_ok (nst_extensions t)"
  shows "has_body (NewSessionTicket t) (to_be 4 (nst_lifetime t) @ to_be 4 (nst_age_add t)
    @ word_of_nat (length (nst_nonce t)) # nst_nonce t @ to_be 2 (len (nst_ticket t)) @ nst_ticket t
    @ to_be 2 (len (extension_bytes (nst_extensions t))) @ extension_bytes (nst_extensions t))"
    (is "has_body _ ?body")
proof -
  have "parse_whole NEW_SESSION_TICKET ?body = Inr (NewSessionTicket t)"
    using ok by (intro parse_whole_at) (simp add: parse_body_def parse_new_session_ticket_def wire_simps)
  then show ?thesis using ok extensions_ok_len [OF ok(7)]
    by (simp add: has_body_def encode_new_session_ticket_def vec_ok encode_extensions_ok)
qed

lemma message_has_body: "message_ok m \<Longrightarrow> \<exists>body. has_body m body"
  by (cases m) (auto intro: client_hello_body server_hello_body encrypted_extensions_body certificate_body
      certificate_verify_body finished_body new_session_ticket_body)

lemma HandshakeType_value [simp]: "HandshakeType (handshake_type_value t) = Inr t"
  by (cases t) (simp_all add: HandshakeType_def)

lemma encode_handshake_message_ok:
  "length body < 16777216 \<Longrightarrow> encode_handshake_message t body
     = Inr (word_of_int (handshake_type_value t) # to_be 3 (len body) @ body)"
  by (cases t) (simp_all add: encode_handshake_message_def vec_ok byte1_def)

lemma uint_handshake_type [simp]: "uint (word_of_int (handshake_type_value t) :: byte) = handshake_type_value t"
  by (cases t) (simp_all add: uint_word_of_int_8)

lemma parse_handshake_message_at:
  assumes "has_body m body"
  shows "\<exists>data. encode_message m = Inr data \<and> length data = 4 + length body
    \<and> parse_handshake_message (data @ rest) = Inr (m, length data)"
  using assms
  by (simp add: has_body_def encode_handshake_message_ok parse_handshake_message_def mk_buffer_at
      pull_handshake_message_def wire_simps)

text \<open>C30: Every handshake message that fits its length fields is encoded, and parsing the
  encoding, whatever follows it, gives the message back and the number of bytes it took.\<close>

theorem handshake_message_roundtrip:
  assumes "message_ok m"
  shows "\<exists>data. encode_message m = Inr data
    \<and> parse_handshake_message (data @ rest) = Inr (m, length data)"
  using message_has_body [OF assms] parse_handshake_message_at by blast

theorem handshake_message_roundtrip_witness:
  "\<exists>data. encode_message (CertificateVerify \<lparr>cv_algorithm = 0x0804, cv_signature = [1, 2, 3]\<rparr>) = Inr data
    \<and> parse_handshake_message (data @ [7])
        = Inr (CertificateVerify \<lparr>cv_algorithm = 0x0804, cv_signature = [1, 2, 3]\<rparr>, length data)"
  by (rule handshake_message_roundtrip) (simp add: fits16_def)


section \<open>What a parser can raise\<close>

abbreviation (input) parse_errors :: "exn set" where
  "parse_errors \<equiv> {BufferReadError, HandshakeParseError}"

lemma reader_parse_errors: "reader {BufferReadError} Q p \<Longrightarrow> reader parse_errors Q p"
  by (rule reader_weaken) auto

lemma reader_pull_uint24: "reader {BufferReadError} (\<lambda>v. 0 \<le> v) pull_uint24"
  unfolding pull_uint24_def using reader_weaken [OF reader_from_be [of 16777216 3]] by simp

lemma reader_vecs:
  assumes E: "BufferReadError \<in> E"
  shows "reader E (\<lambda>_. True) pull_vec8" "reader E (\<lambda>_. True) pull_vec16" "reader E (\<lambda>_. True) pull_vec24"
proof -
  have bytes: "reader E (\<lambda>_. True) (pull_bytes n)" if "0 \<le> n" for n
    using reader_weaken [OF reader_pulls(1) [OF E that] subset_refl] by simp
  show "reader E (\<lambda>_. True) pull_vec8"
    unfolding pull_vec8_def by (rule reader_bindS [OF reader_pulls(2) [OF E]]) (rule bytes, simp)
  show "reader E (\<lambda>_. True) pull_vec16"
    unfolding pull_vec16_def by (rule reader_bindS [OF reader_pulls(3) [OF E]]) (rule bytes, simp)
  have "reader E (\<lambda>v. 0 \<le> v) pull_uint24"
    using reader_weaken [OF reader_pull_uint24, of E "\<lambda>v. 0 \<le> v"] E by simp
  then show "reader E (\<lambda>_. True) pull_vec24"
    unfolding pull_vec24_def by (rule reader_bindS) (rule bytes)
qed

lemma reader_liftS_outcome: "outcome E P r \<Longrightarrow> reader E P (liftS r)"
  by (simp add: reader_def outcome_def)

lemma pull_uint16_advances: "pull_uint16 b = (Inr v, b') \<Longrightarrow> buf_position b < buf_position b'"
  by (auto simp: pull_uint16_def bindS_Inr_iff pull_bytes_def Let_def split: if_splits)

lemma pull_uint24_advances: "pull_uint24 b = (Inr v, b') \<Longrightarrow> buf_position b < buf_position b'"
  by (auto simp: pull_uint24_def bindS_Inr_iff pull_bytes_def Let_def split: if_splits)

interpretation suite_items: item_reader pull_uint16 "{BufferReadError}" "\<lambda>v. 0 \<le> v \<and> v < 65536"
  by unfold_locales (use reader_pull_uint16 pull_uint16_advances in auto)

lemma reader_extension_data:
  "reader {BufferReadError} (\<lambda>_. True) (bindS pull_vec16 (\<lambda>data. retS \<lparr>ext_type = ty, ext_data = data\<rparr>))"
  by (rule reader_bindS reader_vecs reader_retS | simp)+

interpretation extension_items: item_reader pull_extension "{BufferReadError}" "\<lambda>_. True"
proof unfold_locales
  show "reader {BufferReadError} (\<lambda>_. True) pull_extension"
    unfolding pull_extension_def by (rule reader_bindS [OF reader_pull_uint16 reader_extension_data])
  fix b x b'
  assume "buf_wf b" "pull_extension b = (Inr x, b')"
  then show "buf_position b < buf_position b'"
    unfolding pull_extension_def
    by (intro bindS_advances [OF _ _ reader_pull_uint16 reader_extension_data pull_uint16_advances])
qed

lemma pull_all_extensions: "outcome {BufferReadError} (\<lambda>_. True) (fst (pull_all pull_extension (mk_buffer block)))"
  by (rule outcome_mono [OF extension_items.pull_all_outcome]) simp_all

lemma reader_parse_extensions: "BufferReadError \<in> E \<Longrightarrow> reader E (\<lambda>_. True) parse_extensions"
  unfolding parse_extensions_def
  by (rule reader_bindS [OF reader_vecs(2)], assumption)
    (rule reader_liftS_outcome, rule outcome_mono [OF pull_all_extensions], simp_all)

lemma reader_entry_rest:
  "reader {BufferReadError} (\<lambda>_. True) (bindS parse_extensions (\<lambda>exts. retS \<lparr>ce_data = d, ce_extensions = exts\<rparr>))"
  by (rule reader_bindS [OF reader_parse_extensions]) (simp_all add: reader_retS)

interpretation entry_items: item_reader pull_certificate_entry "{BufferReadError}" "\<lambda>_. True"
proof unfold_locales
  show "reader {BufferReadError} (\<lambda>_. True) pull_certificate_entry"
    unfolding pull_certificate_entry_def
    by (rule reader_bindS [OF reader_vecs(3) reader_entry_rest]) simp
  fix b x b'
  assume wf: "buf_wf b" and eq: "pull_certificate_entry b = (Inr x, b')"
  have adv: "buf_position b < buf_position c" if "pull_vec24 b = (Inr y, c)" for y c
    using that unfolding pull_vec24_def
    by (rule bindS_advances [OF _ wf reader_pull_uint24 reader_pull_bytes pull_uint24_advances])
  from eq show "buf_position b < buf_position b'"
    unfolding pull_certificate_entry_def
    by (rule bindS_advances [OF _ wf reader_vecs(3) [OF singletonI] reader_entry_rest adv])
qed

lemma pull_all_entries: "outcome {BufferReadError} (\<lambda>_. True) (fst (pull_all pull_certificate_entry (mk_buffer block)))"
  by (rule outcome_mono [OF entry_items.pull_all_outcome]) simp_all

lemma pull_all_suites: "outcome {BufferReadError} (\<lambda>_. True) (fst (pull_all pull_uint16 (mk_buffer block)))"
  by (rule outcome_mono [OF suite_items.pull_all_outcome]) simp_all

lemma reader_blocks:
  assumes "BufferReadError \<in> E"
  shows "reader E (\<lambda>_. True) (liftS (fst (pull_all pull_uint16 (mk_buffer block))))"
    and "reader E (\<lambda>_. True) (liftS (fst (pull_all pull_certificate_entry (mk_buffer block))))"
  using reader_liftS_outcome [OF outcome_mono [OF pull_all_suites]]
    reader_liftS_outcome [OF outcome_mono [OF pull_all_entries]] assms by simp_all

lemma reader_then:
  assumes "reader E P p" "\<And>x. reader E (\<lambda>_. True) (f x)"
  shows "reader E (\<lambda>_. True) (bindS p f)"
  using assms by (rule reader_bindS)

lemma reader_guard: "e \<in> E \<Longrightarrow> reader E Q q \<Longrightarrow> reader E Q (if c then raiseS e else q)"
  by (simp add: reader_raiseS)

lemma reader_hellos:
  "reader parse_errors (\<lambda>_. True) parse_client_hello" "reader parse_errors (\<lambda>_. True) parse_server_hello"
  unfolding parse_client_hello_def parse_server_hello_def
  by (rule reader_then reader_vecs reader_parse_extensions reader_blocks reader_pulls reader_guard reader_retS
      | simp)+

lemma reader_certificates:
  "reader parse_errors (\<lambda>_. True) parse_certificate" "reader parse_errors (\<lambda>_. True) parse_certificate_verify"
  "reader parse_errors (\<lambda>_. True) parse_new_session_ticket"
  unfolding parse_certificate_def parse_certificate_verify_def parse_new_session_ticket_def
  by (rule reader_then reader_vecs reader_parse_extensions reader_blocks reader_pulls reader_retS | simp)+

lemma reader_rest: "reader parse_errors (\<lambda>_. True) (bindS (getS remaining) pull_bytes)"
  by (rule reader_bindS [OF reader_getS_remaining])
    (rule reader_weaken [OF reader_pull_bytes], simp_all)

lemma reader_parse_body: "reader parse_errors (\<lambda>_. True) (parse_body t)"
  unfolding parse_body_def
  by (cases t, simp_all only: handshake_type.case)
    (rule reader_rest reader_hellos reader_certificates reader_parse_extensions reader_then reader_retS | simp)+

lemma parse_whole_outcome: "outcome parse_errors (\<lambda>_. True) (parse_whole t body)"
  using reader_outcome [OF reader_parse_body buf_wf_mk, of t body]
  by (auto simp: parse_whole_def outcome_def split: prod.splits sum.splits)

lemma parse_outcome:
  "outcome {BufferReadError, HandshakeParseError} (\<lambda>_. True) (parse_handshake_message data)"
proof -
  have ty: "reader parse_errors (\<lambda>_. True)
      (liftS (case HandshakeType v of Inl _ \<Rightarrow> Inl HandshakeParseError | Inr t \<Rightarrow> Inr t))" for v
    by (rule reader_liftS_outcome) (simp split: sum.split)
  have "reader parse_errors (\<lambda>_. True) pull_handshake_message"
    unfolding pull_handshake_message_def
    by (rule reader_then ty reader_liftS_outcome parse_whole_outcome reader_vecs reader_pulls
        reader_getS_position reader_retS | simp)+
  from reader_outcome [OF this buf_wf_mk] show ?thesis by (simp add: parse_handshake_message_def)
qed

end
