(* ===== verification/Tls_Tickets.thy ===== *)
theory Tls_Tickets
  imports Crypto Tls_Messages
begin

text \<open>
  Session tickets and the \<open>pre_shared_key\<close> extension of \<open>src/dsquic/tls.py\<close>
  (RFC 8446, sections 4.2.11 and 4.6.1): sealing and opening a ticket, the identities and binders a
  client offers, and the part of a ClientHello a binder covers. \<open>os.urandom\<close> is the
  argument \<open>n\<close> of \<open>seal_ticket\<close>.
\<close>

section \<open>Model\<close>

abbreviation (input) TICKET_NONCE_LENGTH :: nat where "TICKET_NONCE_LENGTH \<equiv> 12"
abbreviation (input) ILLEGAL_PARAMETER :: int where "ILLEGAL_PARAMETER \<equiv> 47"
abbreviation (input) DECODE_ERROR :: int where "DECODE_ERROR \<equiv> 50"

record session_ticket =
  st_identity :: bytes
  st_psk :: bytes
  st_age_add :: int
  st_lifetime :: int
  st_received_at :: rat
  st_max_early_data_size :: int
  st_alpn :: string
  st_transport_parameters :: bytes
  st_cipher_suite :: int

record ticket_state =
  ts_psk :: bytes
  ts_age_add :: int
  ts_alpn :: string
  ts_transport_parameters :: bytes
  ts_issued_at :: int
  ts_cipher_suite :: int

definition seal_ticket :: "prims \<Rightarrow> bytes \<Rightarrow> bytes \<Rightarrow> ticket_state \<Rightarrow> bytes result" where
  "seal_ticket P n key state =
     bindE (catE [to_bytes 8 (ts_issued_at state), to_bytes 4 (ts_age_add state),
        to_bytes 2 (ts_cipher_suite state), bindE (encode_ascii (ts_alpn state)) (vec 1),
        vec 2 (ts_transport_parameters state), Inr (ts_psk state)]) (\<lambda>plaintext.
     bindE (prim_aesgcm_encrypt P key n plaintext []) (\<lambda>sealed. Inr (n @ sealed)))"

definition pull_ticket :: "rat \<Rightarrow> rat \<Rightarrow> (buffer, ticket_state) se" where
  "pull_ticket now lifetime =
     bindS (pull_bytes 8) (\<lambda>issued_bytes.
       let issued = from_be issued_bytes
       in if now - of_int issued > lifetime then raiseS TicketError
       else bindS pull_uint32 (\<lambda>age_add.
            bindS pull_uint16 (\<lambda>cipher_suite.
            bindS (bindS pull_vec8 (\<lambda>bs. liftS (decode_ascii bs))) (\<lambda>alpn.
            bindS pull_vec16 (\<lambda>transport_parameters.
            bindS (pull_bytes SHA256_LENGTH) (\<lambda>psk.
              retS \<lparr>ts_psk = psk, ts_age_add = age_add, ts_alpn = alpn,
                ts_transport_parameters = transport_parameters, ts_issued_at = issued,
                ts_cipher_suite = cipher_suite\<rparr>))))))"

definition open_ticket :: "prims \<Rightarrow> bytes \<Rightarrow> bytes \<Rightarrow> rat \<Rightarrow> rat \<Rightarrow> ticket_state result" where
  "open_ticket P key ticket now lifetime =
     (let n = take TICKET_NONCE_LENGTH ticket; sealed = drop TICKET_NONCE_LENGTH ticket
      in case prim_aesgcm_decrypt P key n sealed [] of
           Inl e \<Rightarrow> Inl (if e = InvalidTag then TicketError else e)
         | Inr plaintext \<Rightarrow> fst (pull_ticket now lifetime (mk_buffer plaintext)))"

record psk_identity =
  pi_identity :: bytes
  pi_obfuscated_ticket_age :: int

definition encode_psk_identity :: "psk_identity \<Rightarrow> bytes result" where
  "encode_psk_identity i = catE [vec 2 (pi_identity i), to_bytes 4 (pi_obfuscated_ticket_age i)]"

definition encode_offered_psks :: "psk_identity list \<Rightarrow> bytes list \<Rightarrow> bytes result" where
  "encode_offered_psks identities binders =
     bindE (catE (map encode_psk_identity identities)) (\<lambda>offered.
     catE [vec 2 offered, bindE (catE (map (vec 1) binders)) (vec 2)])"

definition pull_psk_identity :: "(buffer, psk_identity) se" where
  "pull_psk_identity =
     bindS pull_vec16 (\<lambda>identity. bindS pull_uint32 (\<lambda>age.
       retS \<lparr>pi_identity = identity, pi_obfuscated_ticket_age = age\<rparr>))"

definition pull_offered_psks :: "(buffer, psk_identity list \<times> bytes list) se" where
  "pull_offered_psks =
     bindS pull_vec16 (\<lambda>identities_block.
     bindS (liftS (fst (pull_all pull_psk_identity (mk_buffer identities_block)))) (\<lambda>identities.
     bindS pull_vec16 (\<lambda>binders_block.
     bindS (liftS (fst (pull_all pull_vec8 (mk_buffer binders_block)))) (\<lambda>binders.
     if length identities \<noteq> length binders then raiseS (TlsAlert ILLEGAL_PARAMETER)
     else retS (identities, binders)))))"

definition parse_offered_psks :: "bytes \<Rightarrow> (psk_identity list \<times> bytes list) result" where
  "parse_offered_psks data = fst (pull_offered_psks (mk_buffer data))"

definition binder_transcript :: "bytes \<Rightarrow> nat \<Rightarrow> bytes result" where
  "binder_transcript client_hello binder_count =
     (let trailing = 2 + binder_count * (1 + 32)
      in if length client_hello \<le> trailing then Inl (TlsAlert DECODE_ERROR)
      else Inr (take (length client_hello - trailing) client_hello))"


section \<open>Tickets\<close>

text \<open>What the fields of a sealed ticket can hold.\<close>

definition ticket_ok :: "ticket_state \<Rightarrow> bool" where
  "ticket_ok state \<longleftrightarrow> length (ts_psk state) = 32
     \<and> 0 \<le> ts_issued_at state \<and> ts_issued_at state < 2 ^ 64
     \<and> 0 \<le> ts_age_add state \<and> ts_age_add state < 2 ^ 32 \<and> fits16 (ts_cipher_suite state)
     \<and> list_all (\<lambda>c. (of_char c :: nat) < 128) (ts_alpn state) \<and> length (ts_alpn state) < 256
     \<and> length (ts_transport_parameters state) < 65536"

definition ticket_plaintext :: "ticket_state \<Rightarrow> bytes" where
  "ticket_plaintext state = to_be 8 (ts_issued_at state) @ to_be 4 (ts_age_add state)
     @ to_be 2 (ts_cipher_suite state) @ word_of_nat (length (ts_alpn state)) # ascii (ts_alpn state)
     @ to_be 2 (len (ts_transport_parameters state)) @ ts_transport_parameters state @ ts_psk state"

lemma seal_ticket_eq:
  "ticket_ok state \<Longrightarrow> seal_ticket P n key state
     = bindE (prim_aesgcm_encrypt P key n (ticket_plaintext state) []) (\<lambda>sealed. Inr (n @ sealed))"
  by (simp add: seal_ticket_def ticket_ok_def fits16_def encode_ascii_def vec_ok ticket_plaintext_def)

lemma pull_ticket_at:
  assumes ok: "ticket_ok state"
  shows "fst (pull_ticket now lifetime (buf_at [] (ticket_plaintext state)))
    = (if now - of_int (ts_issued_at state) > lifetime then Inl TicketError else Inr state)"
proof -
  have f: "0 \<le> ts_issued_at state" "ts_issued_at state < 256 ^ 8" "0 \<le> ts_age_add state"
      "ts_age_add state < 2 ^ 32" "0 \<le> ts_cipher_suite state" "ts_cipher_suite state < 2 ^ 16"
    and l: "length (ts_alpn state) < 256" "length (ts_transport_parameters state) < 65536"
      "length (ts_psk state) = 32"
    and a: "encode_ascii (ts_alpn state) = Inr (ascii (ts_alpn state))"
    using ok by (simp_all add: ticket_ok_def fits16_def encode_ascii_def)
  have v: "pull_vec8 (buf_at pre (word_of_nat (length (ts_alpn state)) # ascii (ts_alpn state) @ rest))
      = (Inr (ascii (ts_alpn state)), buf_at (pre @ word_of_nat (length (ts_alpn state)) # ascii (ts_alpn state)) rest)"
    for pre rest
    using pull_vecs_at(1) [of "ascii (ts_alpn state)"] l(1) by simp
  show ?thesis
    using f l by (simp add: pull_ticket_def ticket_plaintext_def wire_simps v decode_encode_ascii [OF a])
qed

text \<open>A sealed ticket opens to the state that was sealed into it until its lifetime has
  passed, and raises \<open>TicketError\<close> from then on.\<close>

lemma sealed_ticket_opens:
  assumes "prims_ok P" "aes_key_ok key" "length n = 12" "ticket_ok state"
  obtains ticket where "seal_ticket P n key state = Inr ticket" "length ticket = 28 + length (ticket_plaintext state)"
    "\<And>now lifetime. open_ticket P key ticket now lifetime
       = (if now - of_int (ts_issued_at state) > lifetime then Inl TicketError else Inr state)"
proof -
  have gcm: "gcm_ok P" using assms(1) by (rule prims_okD)
  obtain c where c: "prim_aesgcm_encrypt P key n (ticket_plaintext state) [] = Inr c"
    using gcm_encrypt [OF gcm assms(2), of n] assms(3) by (auto simp: gcm_nonce_ok_def)
  note ok = aead_okD(1,2) [OF gcm_aead [OF gcm] c]
  show thesis
    by (rule that [of "n @ c"])
      (use assms(3) ok in \<open>simp_all add: seal_ticket_eq [OF assms(4)] c open_ticket_def mk_buffer_at pull_ticket_at [OF assms(4)]\<close>)
qed

lemma sealed_plaintext:
  assumes "prims_ok P" "open_ticket P key ticket now lifetime = Inr state"
  shows "\<exists>plaintext. prim_aesgcm_encrypt P key (take 12 ticket) plaintext [] = Inr (drop 12 ticket)
    \<and> now - of_int (ts_issued_at state) \<le> lifetime \<and> ts_issued_at state = from_be (take 8 plaintext)"
proof -
  obtain d where d: "prim_aesgcm_decrypt P key (take 12 ticket) (drop 12 ticket) [] = Inr d"
      and st: "fst (pull_ticket now lifetime (mk_buffer d)) = Inr state"
    using assms(2) by (auto simp: open_ticket_def Let_def split: sum.splits)
  have "prim_aesgcm_encrypt P key (take 12 ticket) d [] = Inr (drop 12 ticket)"
    using aead_okD [OF gcm_aead [OF prims_okD(1) [OF assms(1)]]] d by blast
  moreover have "now - of_int (ts_issued_at state) \<le> lifetime \<and> ts_issued_at state = from_be (take 8 d)"
  proof -
    obtain b where "pull_ticket now lifetime (buf_at [] d) = (Inr state, b)"
      using st by (cases "pull_ticket now lifetime (buf_at [] d)") (auto simp: mk_buffer_at)
    then obtain i b1 where "pull_bytes 8 (buf_at [] d) = (Inr i, b1)"
        "now - of_int (from_be i) \<le> lifetime" "ts_issued_at state = from_be i"
      by (auto simp: pull_ticket_def bindS_Inr_iff Let_def split: if_splits)
    then show ?thesis by (auto simp: pull_bytes_at_Inr_iff)
  qed
  ultimately show ?thesis by blast
qed


section \<open>Offered identities and binders\<close>

definition psk_identity_ok :: "psk_identity \<Rightarrow> bool" where
  "psk_identity_ok i \<longleftrightarrow> length (pi_identity i) < 65536
     \<and> 0 \<le> pi_obfuscated_ticket_age i \<and> pi_obfuscated_ticket_age i < 2 ^ 32"

lemma encode_psk_identity_ok:
  "psk_identity_ok i \<Longrightarrow> encode_psk_identity i = Inr (to_be 2 (len (pi_identity i)) @ pi_identity i
     @ to_be 4 (pi_obfuscated_ticket_age i))"
  by (simp add: psk_identity_ok_def encode_psk_identity_def vec_ok)

interpretation psk_codec: byte_codec encode_psk_identity pull_psk_identity psk_identity_ok
  by unfold_locales
    (auto simp: encode_psk_identity_ok psk_identity_ok_def pull_psk_identity_def wire_simps)

interpretation binder_codec: byte_codec "vec 1" pull_vec8 "\<lambda>b. length b < 256"
  by unfold_locales (auto simp: vec_ok wire_simps)

definition psk_bytes :: "psk_identity list \<Rightarrow> bytes" where
  "psk_bytes identities = concat (map (\<lambda>i. projr (encode_psk_identity i)) identities)"

definition binder_bytes :: "bytes list \<Rightarrow> bytes" where
  "binder_bytes binders = concat (map (\<lambda>b. word_of_nat (length b) # b) binders)"

definition offer_ok :: "psk_identity list \<Rightarrow> bytes list \<Rightarrow> bool" where
  "offer_ok identities binders \<longleftrightarrow> list_all psk_identity_ok identities \<and> list_all (\<lambda>b. length b < 256) binders
     \<and> length (psk_bytes identities) < 65536 \<and> length (binder_bytes binders) < 65536"

lemma mapE_psk: "list_all psk_identity_ok is \<Longrightarrow> mapE encode_psk_identity is = Inr (map (\<lambda>i. projr (encode_psk_identity i)) is)"
  by (rule mapE_Inr_all) (auto simp: list_all_iff encode_psk_identity_ok)

lemma mapE_binders: "list_all (\<lambda>b. length b < 256) bs \<Longrightarrow> mapE (vec 1) bs = Inr (map (\<lambda>b. word_of_nat (length b) # b) bs)"
  by (rule mapE_Inr_all) (auto simp: list_all_iff vec_ok)

lemma encode_offered_psks_ok:
  "offer_ok is bs \<Longrightarrow> encode_offered_psks is bs
     = Inr (to_be 2 (len (psk_bytes is)) @ psk_bytes is @ to_be 2 (len (binder_bytes bs)) @ binder_bytes bs)"
  by (simp add: offer_ok_def encode_offered_psks_def psk_bytes_def binder_bytes_def vec_ok
      catE_codec [OF mapE_psk] catE_codec [OF mapE_binders, unfolded One_nat_def])

lemma parse_offered_psks_at:
  assumes "offer_ok is bs"
  shows "parse_offered_psks (to_be 2 (len (psk_bytes is)) @ psk_bytes is
      @ to_be 2 (len (binder_bytes bs)) @ binder_bytes bs)
    = (if length is \<noteq> length bs then Inl (TlsAlert ILLEGAL_PARAMETER) else Inr (is, bs))"
proof -
  have "pull_all pull_psk_identity (buf_at [] (psk_bytes is)) = (Inr is, buf_at (psk_bytes is) [])"
    using psk_codec.pull_all_enc [OF _ mapE_psk, of "is" "[]"] assms by (simp add: offer_ok_def psk_bytes_def)
  moreover have "pull_all pull_vec8 (buf_at [] (binder_bytes bs)) = (Inr bs, buf_at (binder_bytes bs) [])"
    using binder_codec.pull_all_enc [OF _ mapE_binders, of bs "[]"] assms by (simp add: offer_ok_def binder_bytes_def)
  moreover have "pull_vec16 (buf_at pre (to_be 2 (len (binder_bytes bs)) @ binder_bytes bs))
      = (Inr (binder_bytes bs), buf_at (pre @ to_be 2 (len (binder_bytes bs)) @ binder_bytes bs) [])" for pre
    using pull_vecs_at(2) [of "binder_bytes bs" pre "[]"] assms by (simp add: offer_ok_def)
  ultimately show ?thesis
    using assms by (simp add: parse_offered_psks_def pull_offered_psks_def mk_buffer_at wire_simps offer_ok_def)
qed

text \<open>The identities and binders of an offer come back from its encoding, and
  an offer whose binders do not match its identities one to one raises an
  \<open>illegal_parameter\<close> alert.\<close>

lemma offered_psks_roundtrip:
  assumes "offer_ok identities binders"
  shows "\<exists>data. encode_offered_psks identities binders = Inr data \<and> parse_offered_psks data =
    (if length identities = length binders then Inr (identities, binders) else Inl (TlsAlert 47))"
  using assms by (simp add: encode_offered_psks_ok parse_offered_psks_at)

text \<open>A binder is computed over what precedes the binders.\<close>

lemma binder_transcript_append:
  "length (binder_bytes binders) = n * 33 \<Longrightarrow> pre \<noteq> [] \<Longrightarrow>
   binder_transcript (pre @ to_be 2 l @ binder_bytes binders) n = Inr pre"
  by (simp add: binder_transcript_def Let_def)

lemma length_binder_bytes: "list_all (\<lambda>b. length b = 32) bs \<Longrightarrow> length (binder_bytes bs) = length bs * 33"
  by (induction bs) (simp_all add: binder_bytes_def)


section \<open>Witnesses\<close>

lemma offered_psks_roundtrip_witness:
  "\<exists>data. encode_offered_psks [\<lparr>pi_identity = [1, 2], pi_obfuscated_ticket_age = 5\<rparr>] [zeros 32] = Inr data
     \<and> parse_offered_psks data = Inr ([\<lparr>pi_identity = [1, 2], pi_obfuscated_ticket_age = 5\<rparr>], [zeros 32])"
proof -
  have "offer_ok [\<lparr>pi_identity = [1, 2], pi_obfuscated_ticket_age = 5\<rparr>] [zeros 32]"
    by (simp add: offer_ok_def psk_identity_ok_def psk_bytes_def encode_psk_identity_ok binder_bytes_def zeros_def)
  from offered_psks_roundtrip [OF this] show ?thesis by simp
qed

end
