(* ===== verification/Tls_Handshake.thy ===== *)
theory Tls_Handshake
  imports Tls_Tickets Transport_Parameters
begin

text \<open>
  What the two handshake machines of \<open>src/dsquic/tls.py\<close> share: events and alerts, the readers of the
  extensions they exchange, the CertificateVerify signature, and the class
  \<open>_Handshake\<close>, whose attributes are the record \<open>handshake\<close> that the client's and the
  server's state extend.

  A key log callback is the list of the lines it was called with, \<open>None\<close> when there is no
  callback. A private X25519 key is its 32 bytes. The bytes received at a level and
  not yet consumed are \<open>hs_buffers\<close>; the loop of \<open>receive\<close> takes the handler of the subclass as
  an argument, as the method \<open>_handle\<close> is overridden.
\<close>

section \<open>Model\<close>

abbreviation (input) TLS_1_3 :: int where "TLS_1_3 \<equiv> 0x0304"
abbreviation (input) X25519_GROUP :: int where "X25519_GROUP \<equiv> 0x001D"
abbreviation (input) RSA_PSS_RSAE_SHA256 :: int where "RSA_PSS_RSAE_SHA256 \<equiv> 0x0804"
abbreviation (input) ECDSA_SECP256R1_SHA256 :: int where "ECDSA_SECP256R1_SHA256 \<equiv> 0x0403"
abbreviation (input) MAX_EARLY_DATA_SIZE :: int where "MAX_EARLY_DATA_SIZE \<equiv> 0xFFFFFFFF"
abbreviation (input) TICKET_AGE_TOLERANCE_MS :: rat where "TICKET_AGE_TOLERANCE_MS \<equiv> 10000"
abbreviation (input) PSK_DHE_KE :: byte where "PSK_DHE_KE \<equiv> 1"
abbreviation (input) SESSION_TICKET_LIFETIME :: int where "SESSION_TICKET_LIFETIME \<equiv> 7200"

definition SUPPORTED_CIPHER_SUITES :: "int list" where
  "SUPPORTED_CIPHER_SUITES = [TLS_AES_128_GCM_SHA256, TLS_CHACHA20_POLY1305_SHA256]"

definition SUPPORTED_GROUPS :: "int list" where
  "SUPPORTED_GROUPS = [X25519_GROUP]"

text \<open>\<open>ExtensionType\<close>.\<close>

abbreviation (input) SERVER_NAME :: int where "SERVER_NAME \<equiv> 0"
abbreviation (input) GROUPS_EXT :: int where "GROUPS_EXT \<equiv> 10"
abbreviation (input) SIGNATURE_ALGORITHMS :: int where "SIGNATURE_ALGORITHMS \<equiv> 13"
abbreviation (input) ALPN :: int where "ALPN \<equiv> 16"
abbreviation (input) PRE_SHARED_KEY :: int where "PRE_SHARED_KEY \<equiv> 41"
abbreviation (input) EARLY_DATA :: int where "EARLY_DATA \<equiv> 42"
abbreviation (input) SUPPORTED_VERSIONS :: int where "SUPPORTED_VERSIONS \<equiv> 43"
abbreviation (input) PSK_KEY_EXCHANGE_MODES :: int where "PSK_KEY_EXCHANGE_MODES \<equiv> 45"
abbreviation (input) KEY_SHARE :: int where "KEY_SHARE \<equiv> 51"
abbreviation (input) QUIC_TRANSPORT_PARAMETERS :: int where "QUIC_TRANSPORT_PARAMETERS \<equiv> 0x39"

text \<open>Alerts.\<close>

abbreviation (input) UNEXPECTED_MESSAGE :: int where "UNEXPECTED_MESSAGE \<equiv> 10"
abbreviation (input) HANDSHAKE_FAILURE :: int where "HANDSHAKE_FAILURE \<equiv> 40"
abbreviation (input) BAD_CERTIFICATE :: int where "BAD_CERTIFICATE \<equiv> 42"
abbreviation (input) DECRYPT_ERROR :: int where "DECRYPT_ERROR \<equiv> 51"
abbreviation (input) PROTOCOL_VERSION :: int where "PROTOCOL_VERSION \<equiv> 70"
abbreviation (input) MISSING_EXTENSION :: int where "MISSING_EXTENSION \<equiv> 109"
abbreviation (input) UNSUPPORTED_EXTENSION :: int where "UNSUPPORTED_EXTENSION \<equiv> 110"
abbreviation (input) NO_APPLICATION_PROTOCOL :: int where "NO_APPLICATION_PROTOCOL \<equiv> 120"

datatype direction = CLIENT | SERVER

datatype tls_event =
    SendData encryption_level bytes
  | SecretAvailable encryption_level direction bytes int
  | HandshakeComplete string bytes

definition HELLO_RETRY_REQUEST_RANDOM :: bytes where
  "HELLO_RETRY_REQUEST_RANDOM =
     [0xcf, 0x21, 0xad, 0x74, 0xe5, 0x9a, 0x61, 0x11, 0xbe, 0x1d, 0x8c, 0x02, 0x1e, 0x65, 0xb8, 0x91,
      0xc2, 0xa2, 0x11, 0x16, 0x7a, 0xbb, 0x8c, 0x5e, 0x07, 0x9e, 0x09, 0xe2, 0xc8, 0xa8, 0x33, 0x9c]"

definition CERTIFICATE_VERIFY_CONTEXT :: bytes where
  "CERTIFICATE_VERIFY_CONTEXT =
     replicate 64 0x20 @ ascii ''TLS 1.3, server CertificateVerify'' @ [0]"


subsection \<open>Extensions\<close>

fun find_extension :: "extension list \<Rightarrow> int \<Rightarrow> bytes option" where
  "find_extension [] ty = None"
| "find_extension (e # es) ty = (if ext_type e = ty then Some (ext_data e) else find_extension es ty)"

text \<open>A list of \<open>Extension(type, data)\<close>, the data computed in order.\<close>

definition extension_list :: "(int \<times> bytes result) list \<Rightarrow> extension list result" where
  "extension_list items = mapE (\<lambda>(ty, d). bindE d (\<lambda>data. Inr \<lparr>ext_type = ty, ext_data = data\<rparr>)) items"

definition key_share_entry :: "int \<Rightarrow> bytes \<Rightarrow> bytes result" where
  "key_share_entry grp public_key = catE [to_bytes 2 grp, vec 2 public_key]"

definition pull_key_share :: "(buffer, int \<times> bytes) se" where
  "pull_key_share = bindS pull_uint16 (\<lambda>grp. bindS pull_vec16 (\<lambda>public_key. retS (grp, public_key)))"

definition parse_key_share_entry :: "bytes \<Rightarrow> (int \<times> bytes) result" where
  "parse_key_share_entry data =
     fst (bindS pull_uint16 (\<lambda>grp.
            if grp \<notin> set SUPPORTED_GROUPS then raiseS (TlsAlert ILLEGAL_PARAMETER)
            else bindS pull_vec16 (\<lambda>public_key. retS (grp, public_key))) (mk_buffer data))"

text \<open>\<open>Buffer(data).pull_bytes(int.from_bytes(data[:2], "big") + 2)[2:]\<close>\<close>

definition inner_block :: "bytes \<Rightarrow> bytes result" where
  "inner_block data =
     bindE (fst (pull_bytes (from_be (take 2 data) + 2) (mk_buffer data))) (\<lambda>bs. Inr (drop 2 bs))"

function find_key_share :: "buffer \<Rightarrow> bytes option result" where
  "find_key_share b =
     (if is_empty b then Inr None
      else case pull_key_share b of
          (Inl e, b') \<Rightarrow> Inl e
        | (Inr (grp, public_key), b') \<Rightarrow>
            if grp = X25519_GROUP then Inr (Some public_key)
            else if remaining b' < remaining b \<and> 0 \<le> remaining b' then find_key_share b'
            else Inl Diverges)"
  by pat_completeness auto
termination
  by (relation "measure (\<lambda>b. nat (remaining b))") auto

declare find_key_share.simps [simp del]

definition client_key_share :: "bytes \<Rightarrow> bytes option result" where
  "client_key_share entries = bindE (inner_block entries) (\<lambda>block. find_key_share (mk_buffer block))"

definition parse_supported_groups :: "bytes \<Rightarrow> int list result" where
  "parse_supported_groups data =
     bindE (inner_block data) (\<lambda>block. fst (pull_all pull_uint16 (mk_buffer block)))"

definition alpn_extension :: "string list \<Rightarrow> bytes result" where
  "alpn_extension protocols =
     bindE (catE (map (\<lambda>protocol. bindE (encode_ascii protocol) (vec 1)) protocols)) (vec 2)"

definition pull_protocol :: "(buffer, string) se" where
  "pull_protocol = bindS pull_vec8 (\<lambda>bs. liftS (decode_ascii bs))"

definition parse_alpn :: "bytes \<Rightarrow> string list result" where
  "parse_alpn data =
     bindE (inner_block data) (\<lambda>block. fst (pull_all pull_protocol (mk_buffer block)))"

text \<open>\<open>sub in data\<close> on byte strings.\<close>

fun bytes_in :: "bytes \<Rightarrow> bytes \<Rightarrow> bool" where
  "bytes_in sub [] \<longleftrightarrow> sub = []"
| "bytes_in sub (b # bs) \<longleftrightarrow> take (length sub) (b # bs) = sub \<or> bytes_in sub bs"


subsection \<open>CertificateVerify\<close>

definition sign_certificate_verify :: "prims \<Rightarrow> bytes \<Rightarrow> signing_key \<Rightarrow> bytes \<Rightarrow> int \<times> bytes" where
  "sign_certificate_verify P salt key hash =
     (let content = CERTIFICATE_VERIFY_CONTEXT @ hash
      in case key of
           RsaPrivateKey k \<Rightarrow> (RSA_PSS_RSAE_SHA256, prim_rsa_sign P k content salt)
         | EcPrivateKey k \<Rightarrow> (ECDSA_SECP256R1_SHA256, prim_ec_sign P k content salt))"

definition check_signature :: "prims \<Rightarrow> public_key \<Rightarrow> certificate_verify \<Rightarrow> bytes \<Rightarrow> unit result" where
  "check_signature P public_key message content =
     (case public_key of
        RsaPublicKey k \<Rightarrow> if cv_algorithm message = RSA_PSS_RSAE_SHA256
          then prim_rsa_verify P k (cv_signature message) content else Inl (TlsAlert ILLEGAL_PARAMETER)
      | EcPublicKey k \<Rightarrow> if cv_algorithm message = ECDSA_SECP256R1_SHA256
          then prim_ec_verify P k (cv_signature message) content else Inl (TlsAlert ILLEGAL_PARAMETER)
      | OtherPublicKey \<Rightarrow> Inl (TlsAlert ILLEGAL_PARAMETER))"

definition verify_certificate_verify :: "prims \<Rightarrow> bytes \<Rightarrow> certificate_verify \<Rightarrow> bytes \<Rightarrow> unit result" where
  "verify_certificate_verify P leaf_certificate message hash =
     bindE (prim_certificate_key P leaf_certificate) (\<lambda>public_key.
       case check_signature P public_key message (CERTIFICATE_VERIFY_CONTEXT @ hash) of
         Inl e \<Rightarrow> Inl (if e = InvalidSignature then TlsAlert DECRYPT_ERROR else e)
       | Inr _ \<Rightarrow> Inr ())"


subsection \<open>Shared state\<close>

record handshake =
  hs_schedule :: key_schedule
  hs_events :: "tls_event list"
  hs_now :: time
  hs_buffers :: "encryption_level \<Rightarrow> bytes"
  hs_client_hs_secret :: bytes
  hs_server_hs_secret :: bytes
  hs_keylog :: "string list option"
  hs_client_random :: bytes
  hs_cipher_suite :: int
  hs_rng :: rng

definition hex_digit :: "nat \<Rightarrow> char" where
  "hex_digit d = ''0123456789abcdef'' ! d"

definition hex :: "bytes \<Rightarrow> string" where
  "hex bs = concat (map (\<lambda>b. [hex_digit (unat b div 16), hex_digit (unat b mod 16)]) bs)"

definition keylog_line :: "string \<Rightarrow> bytes \<Rightarrow> ('a handshake_scheme, unit) se" where
  "keylog_line label secret =
     modS (\<lambda>s. s\<lparr>hs_keylog := map_option (\<lambda>ls. ls @ [label @ '' '' @ hex (hs_client_random s) @ '' '' @ hex secret])
       (hs_keylog s)\<rparr>)"

definition take_tls_events :: "('a handshake_scheme, tls_event list) se" where
  "take_tls_events s = (Inr (hs_events s), s\<lparr>hs_events := []\<rparr>)"

text \<open>A draw from \<open>os.urandom\<close>.\<close>

definition urandom :: "nat \<Rightarrow> ('a handshake_scheme, bytes) se" where
  "urandom n s = (Inr (hs_rng s 0 n), s\<lparr>hs_rng := rest_rng (hs_rng s)\<rparr>)"

definition emit :: "tls_event \<Rightarrow> ('a handshake_scheme, unit) se" where
  "emit e = modS (\<lambda>s. s\<lparr>hs_events := hs_events s @ [e]\<rparr>)"

text \<open>\<open>if condition: raise TlsAlert(alert, ...)\<close>\<close>

definition refuse :: "bool \<Rightarrow> int \<Rightarrow> ('s, unit) se" where
  "refuse condition alert = whenS condition (raiseS (TlsAlert alert))"

text \<open>\<open>self.schedule.method(...)\<close>, for methods that read the schedule and for those that change it.\<close>

definition ask_schedule :: "(key_schedule \<Rightarrow> 'b result) \<Rightarrow> ('a handshake_scheme, 'b) se" where
  "ask_schedule f = bindS (getS hs_schedule) (\<lambda>ks. liftS (f ks))"

definition step_schedule :: "(key_schedule \<Rightarrow> key_schedule result) \<Rightarrow> ('a handshake_scheme, unit) se" where
  "step_schedule f = bindS (ask_schedule f) (\<lambda>ks. modS (\<lambda>s. s\<lparr>hs_schedule := ks\<rparr>))"

definition feed :: "bytes \<Rightarrow> ('a handshake_scheme, unit) se" where
  "feed raw = modS (\<lambda>s. s\<lparr>hs_schedule := update_transcript raw (hs_schedule s)\<rparr>)"

type_synonym 'a handler = "encryption_level \<Rightarrow> handshake_message \<Rightarrow> bytes \<Rightarrow> ('a handshake_scheme, unit) se"

text \<open>One complete message at the front of a buffer, and what follows it.\<close>

definition split_message :: "bytes \<Rightarrow> (bytes \<times> bytes) option" where
  "split_message buffer =
     (let header_length = 4
      in if length buffer < header_length then None
      else let l = header_length + nat (from_be (take 3 (drop 1 buffer)))
      in if length buffer < l then None else Some (take l buffer, drop l buffer))"

text \<open>
  The loop of \<open>receive\<close>. An iteration takes at least the four bytes of a message header
  out of the buffer; a handler that put bytes back could keep the loop from ending.
\<close>

function receive_loop :: "'a handler \<Rightarrow> encryption_level \<Rightarrow> 'a handshake_scheme \<Rightarrow> unit result \<times> 'a handshake_scheme" where
  "receive_loop handle level s =
     (case split_message (hs_buffers s level) of
        None \<Rightarrow> (Inr (), s)
      | Some (raw, rest) \<Rightarrow>
        let s1 = s\<lparr>hs_buffers := (hs_buffers s)(level := rest)\<rparr>
        in case parse_handshake_message raw of
             Inl e \<Rightarrow> (Inl e, s1)
           | Inr (message, _) \<Rightarrow>
               (case handle level message raw s1 of
                  (Inl e, s2) \<Rightarrow> (Inl e, s2)
                | (Inr _, s2) \<Rightarrow>
                    if length (hs_buffers s2 level) < length (hs_buffers s level)
                    then receive_loop handle level s2
                    else (Inl Diverges, s2)))"
  by pat_completeness auto
termination
  by (relation "measure (\<lambda>(h, level, s). length (hs_buffers s level))") auto

declare receive_loop.simps [simp del]

definition receive_with :: "'a handler \<Rightarrow> encryption_level \<Rightarrow> bytes \<Rightarrow> time \<Rightarrow> ('a handshake_scheme, unit) se" where
  "receive_with handle level data now s =
     receive_loop handle level
       (s\<lparr>hs_now := now, hs_buffers := (hs_buffers s)(level := hs_buffers s level @ data)\<rparr>)"

definition require :: "handshake_type \<times> encryption_level \<Rightarrow> encryption_level \<Rightarrow> handshake_message
    \<Rightarrow> ('a handshake_scheme, unit) se" where
  "require expects level message =
     (if message_type_of message \<noteq> fst expects then raiseS (TlsAlert UNEXPECTED_MESSAGE)
      else if level \<noteq> snd expects then raiseS (TlsAlert UNEXPECTED_MESSAGE)
      else retS ())"

definition emit_handshake_secrets :: "prims \<Rightarrow> bytes \<Rightarrow> ('a handshake_scheme, unit) se" where
  "emit_handshake_secrets P shared_secret =
     bindS (step_schedule (add_ecdhe P shared_secret)) (\<lambda>_.
     bindS (ask_schedule (client_handshake_traffic_secret P)) (\<lambda>client.
     bindS (modS (\<lambda>s. s\<lparr>hs_client_hs_secret := client\<rparr>)) (\<lambda>_.
     bindS (ask_schedule (server_handshake_traffic_secret P)) (\<lambda>server.
     bindS (modS (\<lambda>s. s\<lparr>hs_server_hs_secret := server\<rparr>)) (\<lambda>_.
     bindS (getS hs_cipher_suite) (\<lambda>suite.
     doS [keylog_line ''CLIENT_HANDSHAKE_TRAFFIC_SECRET'' client,
          keylog_line ''SERVER_HANDSHAKE_TRAFFIC_SECRET'' server,
          emit (SecretAvailable Handshake CLIENT client suite),
          emit (SecretAvailable Handshake SERVER server suite)]))))))"

definition emit_application_secrets :: "prims \<Rightarrow> ('a handshake_scheme, unit) se" where
  "emit_application_secrets P =
     bindS (step_schedule (advance_to_master P)) (\<lambda>_.
     bindS (ask_schedule (client_application_traffic_secret P)) (\<lambda>client_secret.
     bindS (ask_schedule (server_application_traffic_secret P)) (\<lambda>server_secret.
     bindS (getS hs_cipher_suite) (\<lambda>suite.
     doS [keylog_line ''CLIENT_TRAFFIC_SECRET_0'' client_secret,
          keylog_line ''SERVER_TRAFFIC_SECRET_0'' server_secret,
          emit (SecretAvailable OneRtt CLIENT client_secret suite),
          emit (SecretAvailable OneRtt SERVER server_secret suite)]))))"


section \<open>Reassembly\<close>

text \<open>
  A handler works on the messages it is given, never on the bytes still buffered:
  \<open>ignores_buffers\<close>. This is what makes the cutting of the handshake bytes into CRYPTO frames
  irrelevant.
\<close>

definition ignores_buffers :: "('a handshake_scheme, 'b) se \<Rightarrow> bool" where
  "ignores_buffers m \<longleftrightarrow> (\<forall>s f. m (s\<lparr>hs_buffers := f\<rparr>) = apsnd (\<lambda>t. t\<lparr>hs_buffers := f\<rparr>) (m s))"

lemma ignores_basic:
  "ignores_buffers (retS x)" "ignores_buffers (raiseS e)" "ignores_buffers (liftS r)"
  by (simp_all add: ignores_buffers_def)

lemma ignores_modS: "(\<And>s f. h (s\<lparr>hs_buffers := f\<rparr>) = (h s)\<lparr>hs_buffers := f\<rparr>) \<Longrightarrow> ignores_buffers (modS h)"
  by (simp add: ignores_buffers_def)

lemma ignores_bindS: "ignores_buffers m \<Longrightarrow> (\<And>x. ignores_buffers (k x)) \<Longrightarrow> ignores_buffers (bindS m k)"
  by (auto simp: ignores_buffers_def bindS_def split: prod.splits sum.splits)

lemma ignores_getS:
  "(\<And>s f. k (g (s\<lparr>hs_buffers := f\<rparr>)) = k (g s)) \<Longrightarrow> (\<And>x. ignores_buffers (k x)) \<Longrightarrow> ignores_buffers (bindS (getS g) k)"
  by (simp add: ignores_buffers_def)

lemma ignores_if: "ignores_buffers m \<Longrightarrow> ignores_buffers n \<Longrightarrow> ignores_buffers (if c then m else n)"
  by simp

lemma ignores_whenS: "ignores_buffers m \<Longrightarrow> ignores_buffers (whenS c m)"
  by (simp add: whenS_def ignores_basic)

lemma ignores_case_option:
  "ignores_buffers m \<Longrightarrow> (\<And>y. ignores_buffers (f y)) \<Longrightarrow> ignores_buffers (case x of None \<Rightarrow> m | Some y \<Rightarrow> f y)"
  by (cases x) simp_all

lemma ignores_case_list:
  "ignores_buffers m \<Longrightarrow> (\<And>y ys. ignores_buffers (f y ys)) \<Longrightarrow> ignores_buffers (case xs of [] \<Rightarrow> m | y # ys \<Rightarrow> f y ys)"
  by (cases xs) simp_all

lemma ignores_case_prod: "(\<And>a b. ignores_buffers (f a b)) \<Longrightarrow> ignores_buffers (case p of (a, b) \<Rightarrow> f a b)"
  by (cases p) simp

lemma ignores_doS: "ignores_buffers (doS [])" "ignores_buffers m \<Longrightarrow> ignores_buffers (doS ms) \<Longrightarrow> ignores_buffers (doS (m # ms))"
  by (simp_all add: ignores_bindS ignores_basic)

lemma ignores_step:
  "ignores_buffers (refuse c a)" "ignores_buffers (keylog_line l x)" "ignores_buffers (emit e)"
  "ignores_buffers (feed raw)" "ignores_buffers (urandom n)" "ignores_buffers (ask_schedule f)"
  "ignores_buffers (step_schedule g)" "ignores_buffers (require ex level m)"
  by (auto simp: ignores_buffers_def refuse_def whenS_def keylog_line_def emit_def feed_def urandom_def
      ask_schedule_def step_schedule_def require_def bindS_def split: sum.splits)

lemmas ignores_rules = ignores_basic ignores_step ignores_if ignores_whenS ignores_case_option ignores_case_list ignores_case_prod
  ignores_doS ignores_modS ignores_getS ignores_bindS

lemma ignores_emit_secrets:
  "ignores_buffers (emit_handshake_secrets P shared)" "ignores_buffers (emit_application_secrets P)"
  unfolding emit_handshake_secrets_def emit_application_secrets_def
  by (rule ignores_rules | simp)+

lemma ignores_frame: "ignores_buffers m \<Longrightarrow> m s = (r, t) \<Longrightarrow> hs_buffers t = hs_buffers s"
proof -
  assume "ignores_buffers m" "m s = (r, t)"
  then have "t = t\<lparr>hs_buffers := hs_buffers s\<rparr>"
    unfolding ignores_buffers_def by (drule_tac spec [of _ s], drule_tac spec [of _ "hs_buffers s"]) simp
  then have "hs_buffers t = hs_buffers (t\<lparr>hs_buffers := hs_buffers s\<rparr>)" by simp
  then show ?thesis by simp
qed

lemma split_message_shorter: "split_message buffer = Some (raw, rest) \<Longrightarrow> length rest < length buffer"
  by (auto simp: split_message_def Let_def split: if_splits)

lemma split_message_append:
  "split_message buffer = Some (raw, rest) \<Longrightarrow> split_message (buffer @ extra) = Some (raw, rest @ extra)"
proof -
  assume "split_message buffer = Some (raw, rest)"
  moreover from this have "4 \<le> length buffer" by (auto simp: split_message_def Let_def split: if_splits)
  then have "take 3 (drop 1 (buffer @ extra)) = take 3 (drop 1 buffer)" by simp
  ultimately show ?thesis by (auto simp: split_message_def Let_def split: if_splits)
qed

lemma split_encoded:
  assumes "message_ok m" "encode_message m = Inr data"
  shows "split_message (data @ rest) = Some (data, rest)"
    and "parse_handshake_message data = Inr (m, length data)"
proof -
  obtain body where body: "has_body m body" using message_has_body [OF assms(1)] by blast
  then have data: "data = word_of_int (handshake_type_value (message_type_of m)) # to_be 3 (len body) @ body"
    and short: "length body < 16777216"
    using assms(2) encode_handshake_message_ok [of body "message_type_of m"] by (auto simp: has_body_def)
  have "take 3 (drop 1 (data @ rest)) = to_be 3 (len body)" by (simp add: data)
  then show "split_message (data @ rest) = Some (data, rest)"
    using short by (simp add: split_message_def Let_def) (simp add: data)
  show "parse_handshake_message data = Inr (m, length data)"
    using parse_handshake_message_at [OF body, of "[]"] assms(2) by simp
qed

text \<open>A property of the state that every handler keeps is kept by \<open>receive\<close>.\<close>

lemma receive_loop_triple:
  assumes handle: "\<And>m raw n. parse_handshake_message raw = Inr (m, n) \<Longrightarrow> triple I (handle level m raw) (\<lambda>_. I) (\<lambda>_. E)"
    and buffers: "\<And>s f. I s \<Longrightarrow> I (s\<lparr>hs_buffers := f\<rparr>)" and weaker: "\<And>s. I s \<Longrightarrow> E s"
  shows "I s \<Longrightarrow> case receive_loop handle level s of (Inl e, t) \<Rightarrow> E t | (Inr x, t) \<Rightarrow> I t"
proof (induction "length (hs_buffers s level)" arbitrary: s rule: less_induct)
  case less
  show ?case
  proof (cases "split_message (hs_buffers s level)")
    case None
    with less.prems show ?thesis by (simp add: receive_loop.simps [of handle level s])
  next
    case (Some rr)
    obtain raw rest where rr: "rr = (raw, rest)" by (cases rr)
    define s1 where "s1 = s\<lparr>hs_buffers := (hs_buffers s)(level := rest)\<rparr>"
    have s1: "I s1" unfolding s1_def by (rule buffers) (rule less.prems)
    show ?thesis
    proof (cases "parse_handshake_message raw")
      case (Inl e)
      with Some rr weaker [OF s1] show ?thesis
        by (simp add: receive_loop.simps [of handle level s] s1_def [symmetric])
    next
      case (Inr mn)
      obtain m n where mn: "mn = (m, n)" by (cases mn)
      obtain r s2 where r: "handle level m raw s1 = (r, s2)" by (cases "handle level m raw s1")
      have s2: "case r of Inl e \<Rightarrow> E s2 | Inr x \<Rightarrow> I s2"
        using handle [of raw m n] Inr mn s1 r unfolding triple_def by fastforce
      from Some rr Inr mn r s2 weaker less.hyps [of s2] show ?thesis
        by (cases r) (simp_all add: receive_loop.simps [of handle level s] s1_def [symmetric])
    qed
  qed
qed

lemma receive_loop_keeps:
  assumes "\<And>m raw n. parse_handshake_message raw = Inr (m, n) \<Longrightarrow> keeps I (handle level m raw)"
    and "\<And>s f. I s \<Longrightarrow> I (s\<lparr>hs_buffers := f\<rparr>)" "I s"
  shows "I (snd (receive_loop handle level s))"
  using receive_loop_triple [of I handle level I s] assms unfolding keeps_def by (auto split: prod.splits sum.splits)

lemma receive_with_triple:
  assumes "\<And>m raw n. parse_handshake_message raw = Inr (m, n) \<Longrightarrow> triple I (handle level m raw) (\<lambda>_. I) (\<lambda>_. E)"
    and "\<And>s f. I s \<Longrightarrow> I (s\<lparr>hs_buffers := f\<rparr>)" "\<And>s t. I s \<Longrightarrow> I (s\<lparr>hs_now := t\<rparr>)" "\<And>s. I s \<Longrightarrow> E s"
  shows "triple I (receive_with handle level data now) (\<lambda>_. I) (\<lambda>_. E)"
  unfolding triple_def receive_with_def
proof (intro allI impI)
  fix s assume "I s"
  then have "I (s\<lparr>hs_now := now, hs_buffers := (hs_buffers s)(level := hs_buffers s level @ data)\<rparr>)"
    by (intro assms(2,3))
  then show "case receive_loop handle level
      (s\<lparr>hs_now := now, hs_buffers := (hs_buffers s)(level := hs_buffers s level @ data)\<rparr>) of
      (Inl e, t) \<Rightarrow> E t | (Inr x, t) \<Rightarrow> I t"
    by (rule receive_loop_triple [of I handle level, rotated 3]) (rule assms(1,2,4), assumption)+
qed

lemma receive_with_keeps:
  assumes "\<And>m raw n. parse_handshake_message raw = Inr (m, n) \<Longrightarrow> keeps I (handle level m raw)"
    and "\<And>s f. I s \<Longrightarrow> I (s\<lparr>hs_buffers := f\<rparr>)" "\<And>s t. I s \<Longrightarrow> I (s\<lparr>hs_now := t\<rparr>)"
  shows "keeps I (receive_with handle level data now)"
  using assms unfolding keeps_def by (rule receive_with_triple) assumption


lemma keeps_refuse: "keeps I (refuse c a)"
  by (simp add: refuse_def keeps_whenS keeps_basic)

lemma keeps_refuse_then: "(\<not> c \<Longrightarrow> keeps I (k ())) \<Longrightarrow> keeps I (bindS (refuse c a) k)"
  by (cases c) (simp_all add: refuse_def keeps_iff)

lemma keeps_refuse_doS: "(\<not> c \<Longrightarrow> keeps I (doS ms)) \<Longrightarrow> keeps I (doS (refuse c a # ms))"
  by (simp add: keeps_refuse_then)

lemma keeps_require: "keeps I (require ex level m)"
  by (simp add: require_def keeps_basic)

lemma keeps_urandom: "(\<And>s r. I s \<Longrightarrow> I (s\<lparr>hs_rng := r\<rparr>)) \<Longrightarrow> keeps I (urandom n)"
  by (simp add: keeps_iff urandom_def)

lemma keeps_ask_schedule: "keeps I (ask_schedule f)"
  by (simp add: ask_schedule_def keeps_bindS keeps_basic)

lemma clock_steps:
  "keeps (\<lambda>s. hs_now s = n) (keylog_line l x)" "keeps (\<lambda>s. hs_now s = n) (emit e)"
  "keeps (\<lambda>s. hs_now s = n) (feed raw)" "keeps (\<lambda>s. hs_now s = n) (urandom k)"
  "keeps (\<lambda>s. hs_now s = n) (step_schedule g)"
  by (auto simp: keeps_iff keylog_line_def emit_def feed_def urandom_def step_schedule_def ask_schedule_def
      bindS_def split: sum.splits)

lemmas keeps_checks = keeps_refuse keeps_require keeps_ask_schedule
lemmas clock_rules = keeps_intros keeps_checks clock_steps keeps_modS

lemma clock_emit_secrets:
  "keeps (\<lambda>s. hs_now s = n) (emit_handshake_secrets P shared)"
  "keeps (\<lambda>s. hs_now s = n) (emit_application_secrets P)"
  unfolding emit_handshake_secrets_def emit_application_secrets_def
  by (rule clock_rules | simp)+


lemmas step_defs = refuse_def whenS_def feed_def emit_def ask_schedule_def step_schedule_def keylog_line_def


lemma require_eq:
  "require (ty, lv) level m s =
     (if message_type_of m = ty \<and> level = lv then (Inr (), s) else (Inl (TlsAlert UNEXPECTED_MESSAGE), s))"
  by (simp add: require_def)


section \<open>Deriving secrets never fails\<close>

lemma hkdf_expand_label_total:
  assumes "hash_ok P" "length label < 250" "length ctx < 256" "0 \<le> l" "l \<le> 8160"
  shows "hkdf_expand_label P secret label ctx l = Inr (projr (hkdf_expand_label P secret label ctx l))
    \<and> len (projr (hkdf_expand_label P secret label ctx l)) = l"
  using assms hkdf_expand_label_Inr [of label ctx l P secret] by (simp add: label_ok_def hash_okD)

lemma schedule_total:
  assumes "hash_ok P"
  shows "add_ecdhe P shared ks = Inr (projr (add_ecdhe P shared ks))"
    "advance_to_master P ks = Inr (projr (advance_to_master P ks))"
    "binder_key P ks = Inr (projr (binder_key P ks))"
    "length label < 250 \<Longrightarrow> derive P label ks = Inr (projr (derive P label ks))"
    "length label < 250 \<Longrightarrow> length (projr (derive P label ks)) = 32"
    "finished_verify_data P base hash = Inr (projr (finished_verify_data P base hash))"
    "length (projr (finished_verify_data P base hash)) = 32"
    "ks_transcript (projr (add_ecdhe P shared ks)) = ks_transcript ks"
    "ks_transcript (projr (advance_to_master P ks)) = ks_transcript ks"
proof -
  note total = hkdf_expand_label_total [OF assms, of _ _ 32]
  note hash = hash_okD [OF assms]
  have e: "length (EMPTY_TRANSCRIPT_HASH P) = 32" "length (transcript_hash P ks) = 32"
    by (simp_all add: EMPTY_TRANSCRIPT_HASH_def sha256_def transcript_hash_def hash)
  obtain d where d: "hkdf_expand_label P (ks_secret ks) (ascii ''derived'') (EMPTY_TRANSCRIPT_HASH P) 32 = Inr d"
    using total [of "ascii ''derived''" "EMPTY_TRANSCRIPT_HASH P"] e by auto
  obtain f where f: "hkdf_expand_label P base (ascii ''finished'') [] 32 = Inr f"
    using total [of "ascii ''finished''" "[]"] by auto
  show "add_ecdhe P shared ks = Inr (projr (add_ecdhe P shared ks))"
    "advance_to_master P ks = Inr (projr (advance_to_master P ks))"
    "finished_verify_data P base hash = Inr (projr (finished_verify_data P base hash))"
    "length (projr (finished_verify_data P base hash)) = 32"
    "ks_transcript (projr (add_ecdhe P shared ks)) = ks_transcript ks"
    "ks_transcript (projr (advance_to_master P ks)) = ks_transcript ks"
    by (simp_all add: add_ecdhe_def advance_to_master_def finished_verify_data_def d f hash)
  show "binder_key P ks = Inr (projr (binder_key P ks))"
    unfolding binder_key_def using total [of "ascii ''res binder''" "EMPTY_TRANSCRIPT_HASH P"] e by simp
  assume "length label < 250"
  then show "derive P label ks = Inr (projr (derive P label ks))" "length (projr (derive P label ks)) = 32"
    unfolding derive_def using total [of label "transcript_hash P ks"] e by simp_all
qed

text \<open>The secrets of the two later stages, as functions of the schedule.\<close>

definition traffic_secret :: "prims \<Rightarrow> string \<Rightarrow> key_schedule \<Rightarrow> bytes" where
  "traffic_secret P label ks = projr (derive P (ascii label) ks)"

lemmas traffic_secret_defs = client_handshake_traffic_secret_def server_handshake_traffic_secret_def
  client_application_traffic_secret_def server_application_traffic_secret_def client_early_traffic_secret_def
  resumption_master_secret_def

lemma emit_handshake_secrets_ok:
  fixes s :: "'a handshake_scheme" and shared :: bytes
  assumes "hash_ok P"
  defines "ks \<equiv> projr (add_ecdhe P shared (hs_schedule s))"
  shows "\<exists>kl. emit_handshake_secrets P shared s = (Inr (), s\<lparr>hs_schedule := ks,
    hs_client_hs_secret := traffic_secret P ''c hs traffic'' ks,
    hs_server_hs_secret := traffic_secret P ''s hs traffic'' ks, hs_keylog := kl,
    hs_events := hs_events s @ [SecretAvailable Handshake CLIENT (traffic_secret P ''c hs traffic'' ks) (hs_cipher_suite s),
      SecretAvailable Handshake SERVER (traffic_secret P ''s hs traffic'' ks) (hs_cipher_suite s)]\<rparr>)"
  using schedule_total(1) [OF assms(1), of shared "hs_schedule s"]
    schedule_total(4) [OF assms(1), of "ascii ''c hs traffic''" ks]
    schedule_total(4) [OF assms(1), of "ascii ''s hs traffic''" ks]
  by (simp add: emit_handshake_secrets_def step_defs ks_def traffic_secret_def traffic_secret_defs)
    (rule exI, rule refl)

lemma emit_application_secrets_ok:
  fixes s :: "'a handshake_scheme"
  assumes "hash_ok P"
  defines "ks \<equiv> projr (advance_to_master P (hs_schedule s))"
  shows "\<exists>kl. emit_application_secrets P s = (Inr (), s\<lparr>hs_schedule := ks, hs_keylog := kl,
    hs_events := hs_events s @ [SecretAvailable OneRtt CLIENT (traffic_secret P ''c ap traffic'' ks) (hs_cipher_suite s),
      SecretAvailable OneRtt SERVER (traffic_secret P ''s ap traffic'' ks) (hs_cipher_suite s)]\<rparr>)"
  using schedule_total(2) [OF assms(1), of "hs_schedule s"]
    schedule_total(4) [OF assms(1), of "ascii ''c ap traffic''" ks]
    schedule_total(4) [OF assms(1), of "ascii ''s ap traffic''" ks]
  by (simp add: emit_application_secrets_def step_defs ks_def traffic_secret_def traffic_secret_defs)
    (rule exI, rule refl)


text \<open>The secrets as equations: the lines added to the key log are some function of the state.\<close>

lemma emit_handshake_secrets_fn:
  assumes "hash_ok P"
  shows "\<exists>kl. \<forall>s :: 'a handshake_scheme. emit_handshake_secrets P shared s = (Inr (),
    s\<lparr>hs_schedule := projr (add_ecdhe P shared (hs_schedule s)),
    hs_client_hs_secret := traffic_secret P ''c hs traffic'' (projr (add_ecdhe P shared (hs_schedule s))),
    hs_server_hs_secret := traffic_secret P ''s hs traffic'' (projr (add_ecdhe P shared (hs_schedule s))), hs_keylog := kl s,
    hs_events := hs_events s @
     [SecretAvailable Handshake CLIENT (traffic_secret P ''c hs traffic'' (projr (add_ecdhe P shared (hs_schedule s)))) (hs_cipher_suite s),
      SecretAvailable Handshake SERVER (traffic_secret P ''s hs traffic'' (projr (add_ecdhe P shared (hs_schedule s)))) (hs_cipher_suite s)]\<rparr>)"
  by (rule choice, rule allI, rule emit_handshake_secrets_ok [OF assms])

lemma emit_application_secrets_fn:
  assumes "hash_ok P"
  shows "\<exists>kl. \<forall>s :: 'a handshake_scheme. emit_application_secrets P s = (Inr (),
    s\<lparr>hs_schedule := projr (advance_to_master P (hs_schedule s)), hs_keylog := kl s,
    hs_events := hs_events s @
     [SecretAvailable OneRtt CLIENT (traffic_secret P ''c ap traffic'' (projr (advance_to_master P (hs_schedule s)))) (hs_cipher_suite s),
      SecretAvailable OneRtt SERVER (traffic_secret P ''s ap traffic'' (projr (advance_to_master P (hs_schedule s)))) (hs_cipher_suite s)]\<rparr>)"
  by (rule choice, rule allI, rule emit_application_secrets_ok [OF assms])


section \<open>The contract of a handshake machine\<close>

text \<open>
  What \<open>receive\<close> relies on in the subclass it dispatches to: the handler looks at the message and not
  at the buffered bytes, and does not touch the clock reading.
\<close>

locale handshake_machine =
  fixes handle :: "'a handler"
  assumes frame: "ignores_buffers (handle level m raw)"
    and clock: "keeps (\<lambda>s. hs_now s = n) (handle level m raw)"
begin

lemma loop_append:
  "receive_loop handle level s = (Inr (), t) \<Longrightarrow>
   receive_loop handle level (s\<lparr>hs_buffers := (hs_buffers s)(level := hs_buffers s level @ extra)\<rparr>)
     = receive_loop handle level (t\<lparr>hs_buffers := (hs_buffers t)(level := hs_buffers t level @ extra)\<rparr>)"
proof (induction "length (hs_buffers s level)" arbitrary: s rule: less_induct)
  case less
  show ?case
  proof (cases "split_message (hs_buffers s level)")
    case None
    with less.prems show ?thesis by (simp add: receive_loop.simps [of handle level s])
  next
    case (Some rr)
    obtain raw rest where rr: "rr = (raw, rest)" by (cases rr)
    define s1 where "s1 = s\<lparr>hs_buffers := (hs_buffers s)(level := rest)\<rparr>"
    from less.prems Some rr obtain m n s2 where m: "parse_handshake_message raw = Inr (m, n)"
      and s2: "handle level m raw s1 = (Inr (), s2)"
      and short: "length (hs_buffers s2 level) < length (hs_buffers s level)"
      and loop: "receive_loop handle level s2 = (Inr (), t)"
      by (auto simp: receive_loop.simps [of handle level s] s1_def [symmetric] Let_def
          split: sum.splits prod.splits if_splits)
    have b2: "hs_buffers s2 = (hs_buffers s)(level := rest)"
      using ignores_frame [OF frame s2] by (simp add: s1_def)
    define s' where "s' = s\<lparr>hs_buffers := (hs_buffers s)(level := hs_buffers s level @ extra)\<rparr>"
    define s2' where "s2' = s2\<lparr>hs_buffers := (hs_buffers s2)(level := hs_buffers s2 level @ extra)\<rparr>"
    have "split_message (hs_buffers s' level) = Some (raw, rest @ extra)"
      using split_message_append Some rr by (simp add: s'_def)
    moreover have "handle level m raw (s'\<lparr>hs_buffers := (hs_buffers s')(level := rest @ extra)\<rparr>) = (Inr (), s2')"
    proof -
      have "s'\<lparr>hs_buffers := (hs_buffers s')(level := rest @ extra)\<rparr> = s1\<lparr>hs_buffers := (hs_buffers s)(level := rest @ extra)\<rparr>"
        by (simp add: s'_def s1_def)
      moreover have "handle level m raw (s1\<lparr>hs_buffers := (hs_buffers s)(level := rest @ extra)\<rparr>)
          = (Inr (), s2\<lparr>hs_buffers := (hs_buffers s)(level := rest @ extra)\<rparr>)"
        using frame [of level m raw] s2 unfolding ignores_buffers_def by simp
      ultimately show ?thesis by (simp add: s2'_def b2)
    qed
    moreover have "length (hs_buffers s2' level) < length (hs_buffers s' level)"
      using short by (simp add: s2'_def s'_def)
    ultimately have "receive_loop handle level s' = receive_loop handle level s2'"
      using m by (simp add: receive_loop.simps [of handle level s'])
    also have "\<dots> = receive_loop handle level (t\<lparr>hs_buffers := (hs_buffers t)(level := hs_buffers t level @ extra)\<rparr>)"
      unfolding s2'_def by (rule less.hyps [OF short loop])
    finally show ?thesis by (simp add: s'_def)
  qed
qed

lemma receive_clock: "receive_with handle level data now s = (r, t) \<Longrightarrow> hs_now t = now"
proof -
  assume "receive_with handle level data now s = (r, t)"
  moreover have "hs_now (snd (receive_loop handle level
      (s\<lparr>hs_now := now, hs_buffers := (hs_buffers s)(level := hs_buffers s level @ data)\<rparr>))) = now"
    by (rule receive_loop_keeps [where I = "\<lambda>s. hs_now s = now"]) (simp_all add: clock)
  ultimately show ?thesis by (simp add: receive_with_def)
qed

lemma receive_chunks:
  assumes "receive_with handle level a now s = (Inr (), t)"
  shows "receive_with handle level (a @ b) now s = receive_with handle level b now t"
proof -
  have "t\<lparr>hs_now := now\<rparr> = t" using receive_clock [OF assms] by simp
  then show ?thesis
    using loop_append [of level _ t b, OF assms [unfolded receive_with_def]] by (simp add: receive_with_def)
qed

lemma receive_message:
  assumes m: "message_ok m" "encode_message m = Inr data" and s: "hs_buffers s level = []"
    and run: "handle level m data (s\<lparr>hs_now := now\<rparr>) = (Inr (), t)"
  shows "receive_with handle level data now s = (Inr (), t)"
    and "receive_with handle level (data @ rest) now s = receive_with handle level rest now t"
    and "hs_buffers t = hs_buffers s"
proof -
  have b: "hs_buffers t = hs_buffers s" using ignores_frame [OF frame run] by simp
  define s1 where "s1 = s\<lparr>hs_now := now, hs_buffers := (hs_buffers s)(level := data)\<rparr>"
  have "s\<lparr>hs_now := now, hs_buffers := (hs_buffers s)(level := [])\<rparr> = s\<lparr>hs_now := now\<rparr>"
    using s by (simp add: fun_upd_idem)
  then have run1: "handle level m data (s1\<lparr>hs_buffers := (hs_buffers s1)(level := [])\<rparr>) = (Inr (), t)"
    using run by (simp add: s1_def)
  have "split_message (hs_buffers s1 level) = Some (data, [])"
    using split_encoded(1) [OF m, of "[]"] by (simp add: s1_def)
  moreover have "data \<noteq> []" using split_encoded(1) [OF m, of "[]"] by (auto simp: split_message_def)
  moreover have "receive_loop handle level t = (Inr (), t)"
    by (simp add: receive_loop.simps [of handle level t] b s split_message_def)
  ultimately show *: "receive_with handle level data now s = (Inr (), t)"
    using run1 split_encoded(2) [OF m] b s
    by (simp add: receive_with_def s1_def [symmetric] receive_loop.simps [of handle level s1]) (simp add: s1_def)
  show "receive_with handle level (data @ rest) now s = receive_with handle level rest now t"
    by (rule receive_chunks [OF *])
  show "hs_buffers t = hs_buffers s" by (rule b)
qed

lemma loop_ends:
  "fst (receive_loop handle level s) = Inl Diverges \<Longrightarrow>
   \<exists>m raw s'. fst (handle level m raw s') = Inl Diverges"
proof (induction "length (hs_buffers s level)" arbitrary: s rule: less_induct)
  case less
  obtain raw rest where sp: "split_message (hs_buffers s level) = Some (raw, rest)"
    using less.prems by (auto simp: receive_loop.simps [of handle level s] split: option.splits)
  define s1 where "s1 = s\<lparr>hs_buffers := (hs_buffers s)(level := rest)\<rparr>"
  show ?case
  proof (cases "parse_handshake_message raw")
    case (Inl e)
    with less.prems sp have "e = Diverges" by (simp add: receive_loop.simps [of handle level s])
    moreover have "outcome {BufferReadError, HandshakeParseError} (\<lambda>_. True) (parse_handshake_message raw)"
      by (rule parse_outcome)
    ultimately show ?thesis using Inl by simp
  next
    case (Inr mn)
    obtain m n where mn: "mn = (m, n)" by (cases mn)
    obtain r s2 where r: "handle level m raw s1 = (r, s2)" by (cases "handle level m raw s1")
    have "hs_buffers s2 level = rest" using ignores_frame [OF frame r] by (simp add: s1_def)
    then have short: "length (hs_buffers s2 level) < length (hs_buffers s level)"
      using split_message_shorter [OF sp] by simp
    show ?thesis
    proof (cases r)
      case (Inl e)
      with less.prems sp Inr mn r have "e = Diverges"
        by (simp add: receive_loop.simps [of handle level s] s1_def [symmetric])
      with Inl r show ?thesis by (metis fst_conv)
    next
      case (Inr u)
      with less.prems sp \<open>parse_handshake_message raw = Inr mn\<close> mn r short
      have "fst (receive_loop handle level s2) = Inl Diverges"
        by (simp add: receive_loop.simps [of handle level s] s1_def [symmetric])
      then show ?thesis by (rule less.hyps [OF short])
    qed
  qed
qed

lemma receive_ends:
  "(\<And>m raw s. fst (handle level m raw s) \<noteq> Inl Diverges) \<Longrightarrow> fst (receive_with handle level data now s) \<noteq> Inl Diverges"
  using loop_ends by (metis receive_with_def)

end

end
