(* ===== verification/Tls_Client.thy ===== *)
theory Tls_Client
  imports Tls_Handshake
begin

text \<open>
  The client handshake machine, class \<open>TlsClient\<close> of \<open>src/dsquic/tls.py\<close>. Every method is
  a definition with the method's name; the attributes are the record \<open>tls_client\<close>, which
  extends \<open>handshake\<close>. The cryptography package is the argument \<open>P\<close>.
\<close>

section \<open>Model\<close>

record client_config =
  cf_server_name :: string
  cf_alpn :: "string list"
  cf_transport_parameters :: bytes
  cf_ca_certificates :: "bytes list"
  cf_insecure_skip_verify :: bool
  cf_verification_time :: "time option"
  cf_key_share_groups :: "int list option"
  cf_session_ticket :: "session_ticket option"
  cf_cipher_suites :: "int list"
  cf_early_data :: bool

text \<open>\<open>__post_init__\<close>.\<close>

definition check_client_config :: "client_config \<Rightarrow> unit result" where
  "check_client_config config =
     (if \<not> cf_insecure_skip_verify config \<and> cf_ca_certificates config = [] then Inl ValueError else Inr ())"

datatype client_state =
    CLIENT_START | WAIT_SERVER_HELLO | WAIT_ENCRYPTED_EXTENSIONS | WAIT_CERTIFICATE
  | WAIT_CERTIFICATE_VERIFY | WAIT_FINISHED | CLIENT_CONNECTED

text \<open>\<open>CLIENT_EXPECTS\<close>.\<close>

fun client_expects :: "client_state \<Rightarrow> (handshake_type \<times> encryption_level) option" where
  "client_expects WAIT_SERVER_HELLO = Some (SERVER_HELLO, Initial)"
| "client_expects WAIT_ENCRYPTED_EXTENSIONS = Some (ENCRYPTED_EXTENSIONS, Handshake)"
| "client_expects WAIT_CERTIFICATE = Some (CERTIFICATE, Handshake)"
| "client_expects WAIT_CERTIFICATE_VERIFY = Some (CERTIFICATE_VERIFY, Handshake)"
| "client_expects WAIT_FINISHED = Some (FINISHED, Handshake)"
| "client_expects _ = None"

record tls_client = handshake +
  cl_config :: client_config
  cl_session_tickets :: "session_ticket list"
  cl_fallback_schedule :: "key_schedule option"
  cl_resumed :: bool
  cl_early_data_offered :: bool
  cl_early_data_accepted :: bool
  cl_early_secret :: "bytes option"
  cl_random :: bytes
  cl_keys :: "(int \<times> bytes) list"
  cl_hello_retried :: bool
  cl_leaf_certificate :: bytes
  cl_alpn :: string
  cl_peer_transport_parameters :: bytes
  cl_state :: client_state

text \<open>\<open>{group: (key or X25519PrivateKey.generate()) for group in share_groups}\<close>\<close>

fun share_keys :: "bytes option \<Rightarrow> int list \<Rightarrow> rng \<Rightarrow> (int \<times> bytes) list \<Rightarrow> (int \<times> bytes) list \<times> rng" where
  "share_keys key [] r ks = (ks, r)"
| "share_keys key (g # gs) r ks =
     (case key of
        Some k \<Rightarrow> share_keys key gs r (AList.update g k ks)
      | None \<Rightarrow> share_keys key gs (rest_rng r) (AList.update g (r 0 32) ks))"

definition mk_tls_client ::
  "prims \<Rightarrow> client_config \<Rightarrow> bytes option \<Rightarrow> bytes option \<Rightarrow> string list option \<Rightarrow> rng \<Rightarrow> tls_client" where
  "mk_tls_client P config random key keylog rng =
     (let (rnd, rng1) = (case random of Some r \<Rightarrow> (r, rng) | None \<Rightarrow> (rng 0 32, rest_rng rng));
          groups = (case cf_key_share_groups config of None \<Rightarrow> SUPPORTED_GROUPS | Some gs \<Rightarrow> gs);
          (keys, rng2) = share_keys key groups rng1 []
      in \<lparr>hs_schedule = mk_key_schedule P (map_option st_psk (cf_session_ticket config)),
          hs_events = [], hs_now = 0, hs_buffers = (\<lambda>_. []), hs_client_hs_secret = [],
          hs_server_hs_secret = [], hs_keylog = keylog, hs_client_random = rnd,
          hs_cipher_suite = TLS_AES_128_GCM_SHA256, hs_rng = rng2,
          cl_config = config, cl_session_tickets = [],
          cl_fallback_schedule = map_option (\<lambda>_. mk_key_schedule P None) (cf_session_ticket config),
          cl_resumed = False, cl_early_data_offered = False, cl_early_data_accepted = False,
          cl_early_secret = None, cl_random = rnd, cl_keys = keys, cl_hello_retried = False,
          cl_leaf_certificate = [], cl_alpn = [], cl_peer_transport_parameters = [],
          cl_state = CLIENT_START\<rparr>)"

abbreviation set_client_state :: "client_state \<Rightarrow> (tls_client, unit) se" where
  "set_client_state st \<equiv> modS (\<lambda>s. s\<lparr>cl_state := st\<rparr>)"


subsection \<open>The ClientHello\<close>

definition offers_early_data :: "tls_client \<Rightarrow> bool" where
  "offers_early_data s \<longleftrightarrow> cf_early_data (cl_config s)
     \<and> (case cf_session_ticket (cl_config s) of
          None \<Rightarrow> False
        | Some ticket \<Rightarrow> st_max_early_data_size ticket = MAX_EARLY_DATA_SIZE
            \<and> st_cipher_suite ticket \<in> set (cf_cipher_suites (cl_config s)))
     \<and> \<not> cl_hello_retried s"

definition psk_offer :: "time \<Rightarrow> session_ticket \<Rightarrow> bytes result" where
  "psk_offer now ticket =
     (let age = py_int ((now - st_received_at ticket) * 1000) + st_age_add ticket
      in encode_offered_psks
           [\<lparr>pi_identity = st_identity ticket, pi_obfuscated_ticket_age = age mod 2 ^ 32\<rparr>] [zeros 32])"

definition client_extensions ::
  "prims \<Rightarrow> client_config \<Rightarrow> (int \<times> bytes) list \<Rightarrow> bool \<Rightarrow> time \<Rightarrow> extension list result" where
  "client_extensions P config keys early now =
     bindE (catE (map (\<lambda>(g, k). key_share_entry g (prim_x25519_public P k)) keys)) (\<lambda>shares.
     bindE (catE (map (to_bytes 2) SUPPORTED_GROUPS)) (\<lambda>groups.
     extension_list
       ([(SERVER_NAME, bindE (bindE (encode_ascii (cf_server_name config)) (vec 2)) (\<lambda>name. vec 2 (0 # name))),
         (GROUPS_EXT, vec 2 groups),
         (SIGNATURE_ALGORITHMS,
           bindE (catE [to_bytes 2 RSA_PSS_RSAE_SHA256, to_bytes 2 ECDSA_SECP256R1_SHA256]) (vec 2)),
         (ALPN, alpn_extension (cf_alpn config)),
         (SUPPORTED_VERSIONS, bindE (to_bytes 2 TLS_1_3) (vec 1)),
         (KEY_SHARE, vec 2 shares),
         (QUIC_TRANSPORT_PARAMETERS, Inr (cf_transport_parameters config)),
         (PSK_KEY_EXCHANGE_MODES, vec 1 [PSK_DHE_KE])]
        @ (if early then [(EARLY_DATA, Inr [])] else [])
        @ (case cf_session_ticket config of
             None \<Rightarrow> [] | Some ticket \<Rightarrow> [(PRE_SHARED_KEY, psk_offer now ticket)]))))"

definition build_client_hello :: "prims \<Rightarrow> (tls_client, client_hello) se" where
  "build_client_hello P =
     bindS (modS (\<lambda>s. s\<lparr>cl_early_data_offered := offers_early_data s\<rparr>)) (\<lambda>_.
     bindS (modS (\<lambda>s. case cf_session_ticket (cl_config s) of
         Some ticket \<Rightarrow> if cl_early_data_offered s then s\<lparr>hs_cipher_suite := st_cipher_suite ticket\<rparr> else s
       | None \<Rightarrow> s)) (\<lambda>_.
     bindS (getS id) (\<lambda>s.
     bindS (liftS (client_extensions P (cl_config s) (cl_keys s) (cl_early_data_offered s) (hs_now s))) (\<lambda>exts.
       retS \<lparr>ch_random = cl_random s, ch_legacy_session_id = [],
         ch_cipher_suites = cf_cipher_suites (cl_config s), ch_extensions = exts\<rparr>))))"

text \<open>\<open>raw[:-n]\<close>\<close>

definition drop_end :: "nat \<Rightarrow> bytes \<Rightarrow> bytes" where
  "drop_end n xs = (if n = 0 then [] else take (length xs - n) xs)"

definition fill_psk_binder :: "prims \<Rightarrow> bytes \<Rightarrow> (tls_client, bytes) se" where
  "fill_psk_binder P raw =
     bindS (liftS (binder_transcript raw 1)) (\<lambda>truncated.
     bindS (feed truncated) (\<lambda>_.
     bindS (ask_schedule (\<lambda>ks. bindE (binder_key P ks) (\<lambda>key.
       finished_verify_data P key (transcript_hash P ks)))) (\<lambda>binder.
       let patched = drop_end (length binder) raw @ binder
       in bindS (feed (drop (length truncated) patched)) (\<lambda>_. retS patched))))"

definition feed_fallback :: "bytes \<Rightarrow> (tls_client, unit) se" where
  "feed_fallback raw =
     modS (\<lambda>s. s\<lparr>cl_fallback_schedule := map_option (update_transcript raw) (cl_fallback_schedule s)\<rparr>)"

text \<open>What \<open>start\<close> and \<open>_on_hello_retry_request\<close> both do: encode a hello, fill its
  binder, and feed it to the schedules.\<close>

definition encode_hello :: "prims \<Rightarrow> (tls_client, bytes) se" where
  "encode_hello P =
     bindS (build_client_hello P) (\<lambda>hello.
     bindS (liftS (encode_client_hello hello)) (\<lambda>raw.
     bindS (getS (\<lambda>s. cf_session_ticket (cl_config s))) (\<lambda>ticket.
     bindS (if ticket \<noteq> None then fill_psk_binder P raw
            else bindS (feed raw) (\<lambda>_. retS raw)) (\<lambda>raw.
     bindS (feed_fallback raw) (\<lambda>_. retS raw)))))"

definition start :: "prims \<Rightarrow> time \<Rightarrow> (tls_client, unit) se" where
  "start P now =
     bindS (modS (\<lambda>s. s\<lparr>hs_now := now\<rparr>)) (\<lambda>_.
     bindS (encode_hello P) (\<lambda>raw.
     bindS (getS cl_early_data_offered) (\<lambda>offered.
     bindS (if offered
            then bindS (ask_schedule (client_early_traffic_secret P)) (\<lambda>secret.
                 doS [modS (\<lambda>s. s\<lparr>cl_early_secret := Some secret\<rparr>),
                      keylog_line ''CLIENT_EARLY_TRAFFIC_SECRET'' secret])
            else retS ()) (\<lambda>_.
     doS [emit (SendData Initial raw), set_client_state WAIT_SERVER_HELLO]))))"


subsection \<open>Handlers\<close>

definition on_hello_retry_request :: "prims \<Rightarrow> server_hello \<Rightarrow> bytes \<Rightarrow> (tls_client, unit) se" where
  "on_hello_retry_request P hello raw =
     bindS (getS cl_hello_retried) (\<lambda>retried.
     bindS (refuse retried UNEXPECTED_MESSAGE) (\<lambda>_.
     case find_extension (sh_extensions hello) KEY_SHARE of
       None \<Rightarrow> raiseS (TlsAlert MISSING_EXTENSION)
     | Some key_share \<Rightarrow>
       let grp = from_be key_share
       in bindS (getS cl_keys) (\<lambda>keys.
          bindS (doS [refuse (length key_share \<noteq> 2) MISSING_EXTENSION,
                      refuse (grp \<notin> set SUPPORTED_GROUPS) ILLEGAL_PARAMETER,
                      refuse (map_of keys grp \<noteq> None) ILLEGAL_PARAMETER,
                      modS (\<lambda>s. s\<lparr>cl_hello_retried := True, cl_early_secret := None\<rparr>),
                      step_schedule (replace_transcript_with_message_hash P), feed raw]) (\<lambda>_.
          bindS (getS cl_fallback_schedule) (\<lambda>fallback.
          bindS (case fallback of
                   None \<Rightarrow> retS ()
                 | Some ks \<Rightarrow> bindS (liftS (replace_transcript_with_message_hash P ks)) (\<lambda>ks.
                     modS (\<lambda>s. s\<lparr>cl_fallback_schedule := Some (update_transcript raw ks)\<rparr>))) (\<lambda>_.
          bindS (urandom 32) (\<lambda>key.
          bindS (modS (\<lambda>s. s\<lparr>cl_keys := [(grp, key)]\<rparr>)) (\<lambda>_.
          bindS (encode_hello P) (\<lambda>retry.
          doS [emit (SendData Initial retry), set_client_state WAIT_SERVER_HELLO]))))))))) "

text \<open>The answer to a resumption offer: taken, declined, or none was made.\<close>

definition settle_psk :: "server_hello \<Rightarrow> (tls_client, unit) se" where
  "settle_psk hello =
     bindS (getS id) (\<lambda>s.
     bindS (case find_extension (sh_extensions hello) PRE_SHARED_KEY of
              Some selected \<Rightarrow>
                doS [refuse (cf_session_ticket (cl_config s) = None) ILLEGAL_PARAMETER,
                     refuse (from_be selected \<noteq> 0) ILLEGAL_PARAMETER,
                     modS (\<lambda>s. s\<lparr>cl_resumed := True\<rparr>)]
            | None \<Rightarrow>
                (case cl_fallback_schedule s of
                   None \<Rightarrow> retS ()
                 | Some ks \<Rightarrow> modS (\<lambda>s. s\<lparr>hs_schedule := ks\<rparr>))) (\<lambda>_.
     modS (\<lambda>s. s\<lparr>cl_fallback_schedule := None\<rparr>)))"

definition client_on_server_hello :: "prims \<Rightarrow> server_hello \<Rightarrow> bytes \<Rightarrow> (tls_client, unit) se" where
  "client_on_server_hello P hello raw =
     (if sh_random hello = HELLO_RETRY_REQUEST_RANDOM then on_hello_retry_request P hello raw
      else bindS (getS cl_config) (\<lambda>config.
      bindS (doS [refuse (sh_legacy_session_id_echo hello \<noteq> []) ILLEGAL_PARAMETER,
                  refuse (sh_cipher_suite hello \<notin> set (cf_cipher_suites config)) ILLEGAL_PARAMETER,
                  modS (\<lambda>s. s\<lparr>hs_cipher_suite := sh_cipher_suite hello\<rparr>),
                  refuse (find_extension (sh_extensions hello) SUPPORTED_VERSIONS \<noteq> Some (to_be 2 TLS_1_3))
                    PROTOCOL_VERSION]) (\<lambda>_.
      case find_extension (sh_extensions hello) KEY_SHARE of
        None \<Rightarrow> raiseS (TlsAlert MISSING_EXTENSION)
      | Some key_share \<Rightarrow>
        bindS (liftS (parse_key_share_entry key_share)) (\<lambda>(grp, peer_public).
        bindS (getS cl_keys) (\<lambda>keys.
        case map_of keys grp of
          None \<Rightarrow> raiseS (TlsAlert ILLEGAL_PARAMETER)
        | Some our_key \<Rightarrow>
          bindS (doS [settle_psk hello, feed raw]) (\<lambda>_.
          bindS (liftS (prim_x25519_exchange P our_key peer_public)) (\<lambda>shared.
          doS [emit_handshake_secrets P shared, set_client_state WAIT_ENCRYPTED_EXTENSIONS])))))))"

text \<open>The checks that an accepted offer of early data has to pass.\<close>

definition settle_early_data :: "extension list \<Rightarrow> string \<Rightarrow> (tls_client, unit) se" where
  "settle_early_data extensions selected =
     (if find_extension extensions EARLY_DATA = None then retS ()
      else bindS (getS id) (\<lambda>s.
        doS [refuse (\<not> cl_early_data_offered s) UNSUPPORTED_EXTENSION,
             refuse (\<not> cl_resumed s) ILLEGAL_PARAMETER,
             case cf_session_ticket (cl_config s) of
               None \<Rightarrow> retS ()
             | Some ticket \<Rightarrow>
                 doS [refuse (selected \<noteq> st_alpn ticket) ILLEGAL_PARAMETER,
                      refuse (hs_cipher_suite s \<noteq> st_cipher_suite ticket) ILLEGAL_PARAMETER],
             modS (\<lambda>s. s\<lparr>cl_early_data_accepted := True\<rparr>)]))"

definition client_on_encrypted_extensions :: "extension list \<Rightarrow> bytes \<Rightarrow> (tls_client, unit) se" where
  "client_on_encrypted_extensions extensions raw =
     (case find_extension extensions ALPN of
        None \<Rightarrow> raiseS (TlsAlert NO_APPLICATION_PROTOCOL)
      | Some alpn_data \<Rightarrow>
        bindS (liftS (parse_alpn alpn_data)) (\<lambda>selected.
        bindS (getS cl_config) (\<lambda>config.
        bindS (refuse (length selected \<noteq> 1 \<or> hd selected \<notin> set (cf_alpn config)) NO_APPLICATION_PROTOCOL) (\<lambda>_.
        case find_extension extensions QUIC_TRANSPORT_PARAMETERS of
          None \<Rightarrow> raiseS (TlsAlert MISSING_EXTENSION)
        | Some transport_parameters \<Rightarrow>
          doS [settle_early_data extensions (hd selected),
               modS (\<lambda>s. s\<lparr>cl_alpn := hd selected, cl_peer_transport_parameters := transport_parameters\<rparr>),
               feed raw,
               modS (\<lambda>s. s\<lparr>cl_state := if cl_resumed s then WAIT_FINISHED else WAIT_CERTIFICATE\<rparr>)]))))"

definition verify_certificate_policy :: "prims \<Rightarrow> client_config \<Rightarrow> certificate \<Rightarrow> unit result" where
  "verify_certificate_policy P config message =
     (case prim_verify_chain P (cf_ca_certificates config) (cf_verification_time config)
             (cf_server_name config) (ce_data (hd (cert_entries message)))
             (map ce_data (tl (cert_entries message))) of
        Inl e \<Rightarrow> Inl (if e = VerificationError then TlsAlert BAD_CERTIFICATE else e)
      | Inr _ \<Rightarrow> Inr ())"

definition client_on_certificate :: "prims \<Rightarrow> certificate \<Rightarrow> bytes \<Rightarrow> (tls_client, unit) se" where
  "client_on_certificate P message raw =
     bindS (getS cl_config) (\<lambda>config.
     doS [refuse (cert_entries message = []) ILLEGAL_PARAMETER,
          modS (\<lambda>s. s\<lparr>cl_leaf_certificate := ce_data (hd (cert_entries message))\<rparr>),
          whenS (\<not> cf_insecure_skip_verify config) (liftS (verify_certificate_policy P config message)),
          feed raw, set_client_state WAIT_CERTIFICATE_VERIFY])"

definition client_on_certificate_verify :: "prims \<Rightarrow> certificate_verify \<Rightarrow> bytes \<Rightarrow> (tls_client, unit) se" where
  "client_on_certificate_verify P message raw =
     bindS (getS cl_leaf_certificate) (\<lambda>leaf.
     doS [ask_schedule (\<lambda>ks. verify_certificate_verify P leaf message (transcript_hash P ks)),
          feed raw, set_client_state WAIT_FINISHED])"

definition store_session_ticket :: "prims \<Rightarrow> new_session_ticket \<Rightarrow> (tls_client, unit) se" where
  "store_session_ticket P message =
     (let early_data = find_extension (nst_extensions message) EARLY_DATA;
          max_early_data_size = (case early_data of None \<Rightarrow> 0 | Some data \<Rightarrow> from_be data)
      in bindS (refuse (early_data \<noteq> None \<and> max_early_data_size \<noteq> MAX_EARLY_DATA_SIZE) ILLEGAL_PARAMETER) (\<lambda>_.
         bindS (ask_schedule (\<lambda>ks. bindE (resumption_master_secret P ks) (\<lambda>master.
            resumption_psk P master (nst_nonce message)))) (\<lambda>psk.
         modS (\<lambda>s. s\<lparr>cl_session_tickets := cl_session_tickets s @
           [\<lparr>st_identity = nst_ticket message, st_psk = psk, st_age_add = nst_age_add message,
             st_lifetime = nst_lifetime message, st_received_at = hs_now s,
             st_max_early_data_size = max_early_data_size, st_alpn = cl_alpn s,
             st_transport_parameters = cl_peer_transport_parameters s,
             st_cipher_suite = hs_cipher_suite s\<rparr>]\<rparr>))))"

definition client_on_finished :: "prims \<Rightarrow> bytes \<Rightarrow> bytes \<Rightarrow> (tls_client, unit) se" where
  "client_on_finished P verify_data raw =
     bindS (getS hs_server_hs_secret) (\<lambda>server_secret.
     bindS (ask_schedule (\<lambda>ks. finished_verify_data P server_secret (transcript_hash P ks))) (\<lambda>expected.
     bindS (doS [refuse (verify_data \<noteq> expected) DECRYPT_ERROR, feed raw, emit_application_secrets P]) (\<lambda>_.
     bindS (getS hs_client_hs_secret) (\<lambda>client_secret.
     bindS (ask_schedule (\<lambda>ks. finished_verify_data P client_secret (transcript_hash P ks))) (\<lambda>verify.
     bindS (liftS (encode_finished verify)) (\<lambda>finished.
     bindS (getS id) (\<lambda>s.
     doS [feed finished, emit (SendData Handshake finished),
          emit (HandshakeComplete (cl_alpn s) (cl_peer_transport_parameters s)),
          set_client_state CLIENT_CONNECTED])))))))"

definition client_dispatch :: "prims \<Rightarrow> handshake_message \<Rightarrow> bytes \<Rightarrow> (tls_client, unit) se" where
  "client_dispatch P message raw =
     (case message of
        ServerHello m \<Rightarrow> client_on_server_hello P m raw
      | EncryptedExtensions m \<Rightarrow> client_on_encrypted_extensions m raw
      | Certificate m \<Rightarrow> client_on_certificate P m raw
      | CertificateVerify m \<Rightarrow> client_on_certificate_verify P m raw
      | Finished m \<Rightarrow> client_on_finished P m raw
      | _ \<Rightarrow> retS ())"

definition client_handle :: "prims \<Rightarrow> encryption_level \<Rightarrow> handshake_message \<Rightarrow> bytes \<Rightarrow> (tls_client, unit) se" where
  "client_handle P level message raw =
     bindS (getS cl_state) (\<lambda>st.
     if st = CLIENT_CONNECTED then
       (case message of
          NewSessionTicket m \<Rightarrow> store_session_ticket P m
        | _ \<Rightarrow> raiseS (TlsAlert UNEXPECTED_MESSAGE))
     else case client_expects st of
         None \<Rightarrow> raiseS KeyError
       | Some expects \<Rightarrow> bindS (require expects level message) (\<lambda>_. client_dispatch P message raw))"

definition client_receive :: "prims \<Rightarrow> encryption_level \<Rightarrow> bytes \<Rightarrow> time \<Rightarrow> (tls_client, unit) se" where
  "client_receive P = receive_with (client_handle P)"


section \<open>The client is a handshake machine\<close>

lemma ignores_encode_hello: "ignores_buffers (encode_hello P)"
  unfolding encode_hello_def build_client_hello_def fill_psk_binder_def feed_fallback_def Let_def
  by (rule ignores_rules | simp add: offers_early_data_def split: option.split)+

lemma ignores_client_handlers:
  "ignores_buffers (client_on_server_hello P hello raw)"
  "ignores_buffers (client_on_encrypted_extensions exts raw)"
  "ignores_buffers (client_on_certificate P m raw)"
  "ignores_buffers (client_on_certificate_verify P cv raw)"
  "ignores_buffers (client_on_finished P vd raw)"
  "ignores_buffers (store_session_ticket P nst)"
  unfolding client_on_server_hello_def on_hello_retry_request_def settle_psk_def Let_def
    client_on_encrypted_extensions_def settle_early_data_def client_on_certificate_def
    client_on_certificate_verify_def client_on_finished_def store_session_ticket_def
  by ((rule ignores_rules ignores_encode_hello ignores_emit_secrets | simp cong: option.case_cong)+)

lemma clock_encode_hello: "keeps (\<lambda>s. hs_now s = n) (encode_hello P)"
  unfolding encode_hello_def build_client_hello_def fill_psk_binder_def feed_fallback_def Let_def
  by (rule clock_rules | simp split: option.split)+

lemma clock_client_handlers:
  "keeps (\<lambda>s. hs_now s = n) (client_on_server_hello P hello raw)"
  "keeps (\<lambda>s. hs_now s = n) (client_on_encrypted_extensions exts raw)"
  "keeps (\<lambda>s. hs_now s = n) (client_on_certificate P m raw)"
  "keeps (\<lambda>s. hs_now s = n) (client_on_certificate_verify P cv raw)"
  "keeps (\<lambda>s. hs_now s = n) (client_on_finished P vd raw)"
  "keeps (\<lambda>s. hs_now s = n) (store_session_ticket P nst)"
  unfolding client_on_server_hello_def on_hello_retry_request_def settle_psk_def Let_def
    client_on_encrypted_extensions_def settle_early_data_def client_on_certificate_def
    client_on_certificate_verify_def client_on_finished_def store_session_ticket_def
  by ((rule clock_rules clock_encode_hello clock_emit_secrets | simp)+)

interpretation client_machine: handshake_machine "client_handle P" for P
proof
  fix level m raw n
  show "ignores_buffers (client_handle P level m raw)"
    unfolding client_handle_def client_dispatch_def
    by (cases m) (rule ignores_rules ignores_client_handlers | simp)+
  show "keeps (\<lambda>s. hs_now s = n) (client_handle P level m raw)"
    unfolding client_handle_def client_dispatch_def
    by (cases m) (rule clock_rules clock_client_handlers | simp)+
qed


section \<open>What a client that completed a handshake has checked\<close>

text \<open>
  The server's certificate chain was accepted by the verifier for the configured name, and some
  CertificateVerify at the end of the transcript \<open>tr\<close> signs the transcript before it with the key of
  the leaf.
\<close>

definition chain_verified :: "prims \<Rightarrow> tls_client \<Rightarrow> bool" where
  "chain_verified P s \<longleftrightarrow> (\<exists>intermediates. prim_verify_chain P (cf_ca_certificates (cl_config s))
     (cf_verification_time (cl_config s)) (cf_server_name (cl_config s)) (cl_leaf_certificate s) intermediates = Inr ())"

definition signed :: "prims \<Rightarrow> bytes \<Rightarrow> bytes \<Rightarrow> bool" where
  "signed P leaf tr \<longleftrightarrow> (\<exists>before raw cv n. tr = before @ raw \<and> parse_handshake_message raw = Inr (CertificateVerify cv, n)
     \<and> verify_certificate_verify P leaf cv (prim_sha256 P before) = Inr ())"

text \<open>
  The server's handshake secret is the one of RFC 8446 7.1 for the transcript up to a ServerHello in
  \<open>tr\<close>: its early secret extracts the PSK of the configured ticket if the handshake resumed and zeros
  if it did not, and its ECDHE input is the exchange of the server's share with the client's own key.
\<close>

definition early_secret :: "prims \<Rightarrow> bytes option \<Rightarrow> bytes" where
  "early_secret P psk = hkdf_extract P (zeros 32) (case psk of None \<Rightarrow> zeros 32 | Some p \<Rightarrow> p)"

definition used_psk :: "tls_client \<Rightarrow> bytes option" where
  "used_psk s = (if cl_resumed s then map_option st_psk (cf_session_ticket (cl_config s)) else None)"

definition handshake_keyed :: "prims \<Rightarrow> tls_client \<Rightarrow> bytes \<Rightarrow> bool" where
  "handshake_keyed P s tr \<longleftrightarrow> (cl_resumed s \<longrightarrow> cf_session_ticket (cl_config s) \<noteq> None)
     \<and> (\<exists>before raw rest hello n share grp peer key shared ks. tr = before @ raw @ rest
     \<and> parse_handshake_message raw = Inr (ServerHello hello, n)
     \<and> find_extension (sh_extensions hello) KEY_SHARE = Some share \<and> parse_key_share_entry share = Inr (grp, peer)
     \<and> map_of (cl_keys s) grp = Some key \<and> prim_x25519_exchange P key peer = Inr shared
     \<and> (cl_resumed s \<longleftrightarrow> find_extension (sh_extensions hello) PRE_SHARED_KEY \<noteq> None)
     \<and> add_ecdhe P shared \<lparr>ks_transcript = before @ raw, ks_secret = early_secret P (used_psk s)\<rparr> = Inr ks
     \<and> server_handshake_traffic_secret P ks = Inr (hs_server_hs_secret s))"

definition authenticated :: "prims \<Rightarrow> tls_client \<Rightarrow> bytes \<Rightarrow> bool" where
  "authenticated P s tr \<longleftrightarrow> handshake_keyed P s tr
     \<and> (cl_resumed s \<or> (cf_insecure_skip_verify (cl_config s) \<or> chain_verified P s) \<and> signed P (cl_leaf_certificate s) tr)"

text \<open>The transcript ends with the server's Finished, which is the MAC of what precedes it
  under the server's handshake secret, and with what the client added.\<close>

definition finished_verified :: "prims \<Rightarrow> tls_client \<Rightarrow> bytes \<Rightarrow> bool" where
  "finished_verified P s tr \<longleftrightarrow> (\<exists>raw vd n own. ks_transcript (hs_schedule s) = tr @ raw @ own
     \<and> parse_handshake_message raw = Inr (Finished vd, n)
     \<and> finished_verify_data P (hs_server_hs_secret s) (prim_sha256 P tr) = Inr vd)"

text \<open>Until a ServerHello settles the offer, the schedule is keyed by the offered PSK and the
  one to fall back to by none.\<close>

definition unsettled :: "prims \<Rightarrow> tls_client \<Rightarrow> bool" where
  "unsettled P s \<longleftrightarrow> \<not> cl_resumed s
     \<and> ks_secret (hs_schedule s) = early_secret P (map_option st_psk (cf_session_ticket (cl_config s)))
     \<and> map_option ks_secret (cl_fallback_schedule s) = map_option (\<lambda>_. early_secret P None) (cf_session_ticket (cl_config s))"

abbreviation client_keyed :: "prims \<Rightarrow> tls_client \<Rightarrow> bool" where
  "client_keyed P s \<equiv> handshake_keyed P s (ks_transcript (hs_schedule s))"

definition client_safe :: "prims \<Rightarrow> tls_client \<Rightarrow> bool" where
  "client_safe P s \<longleftrightarrow> (cl_state s = CLIENT_CONNECTED \<longrightarrow> (\<exists>tr. finished_verified P s tr \<and> authenticated P s tr))"

definition client_inv :: "prims \<Rightarrow> tls_client \<Rightarrow> bool" where
  "client_inv P s \<longleftrightarrow>
     (case cl_state s of
        CLIENT_START \<Rightarrow> unsettled P s
      | WAIT_SERVER_HELLO \<Rightarrow> unsettled P s
      | WAIT_ENCRYPTED_EXTENSIONS \<Rightarrow> client_keyed P s
      | WAIT_CERTIFICATE \<Rightarrow> \<not> cl_resumed s \<and> client_keyed P s
      | WAIT_CERTIFICATE_VERIFY \<Rightarrow>
          \<not> cl_resumed s \<and> client_keyed P s \<and> (cf_insecure_skip_verify (cl_config s) \<or> chain_verified P s)
      | WAIT_FINISHED \<Rightarrow> authenticated P s (ks_transcript (hs_schedule s))
      | CLIENT_CONNECTED \<Rightarrow> client_safe P s)"

lemma client_inv_safe: "client_inv P s \<Longrightarrow> client_safe P s"
  by (cases "cl_state s = CLIENT_CONNECTED") (simp_all add: client_inv_def client_safe_def)

text \<open>What follows the ServerHello keeps its keys.\<close>

lemma handshake_keyedI:
  assumes "cl_resumed s \<longrightarrow> cf_session_ticket (cl_config s) \<noteq> None" "tr = before @ raw @ rest"
    "parse_handshake_message raw = Inr (ServerHello hello, n)"
    "find_extension (sh_extensions hello) KEY_SHARE = Some share" "parse_key_share_entry share = Inr (grp, peer)"
    "map_of (cl_keys s) grp = Some key" "prim_x25519_exchange P key peer = Inr shared"
    "cl_resumed s \<longleftrightarrow> find_extension (sh_extensions hello) PRE_SHARED_KEY \<noteq> None"
    "add_ecdhe P shared \<lparr>ks_transcript = before @ raw, ks_secret = early_secret P (used_psk s)\<rparr> = Inr ks"
    "server_handshake_traffic_secret P ks = Inr (hs_server_hs_secret s)"
  shows "handshake_keyed P s tr"
  using assms unfolding handshake_keyed_def by blast

lemma handshake_keyed_append: "handshake_keyed P s tr \<Longrightarrow> handshake_keyed P s (tr @ suffix)"
  unfolding handshake_keyed_def by (metis append.assoc)

lemma handshake_keyed_frame [simp]:
  "handshake_keyed P (s\<lparr>hs_schedule := ks\<rparr>) = handshake_keyed P s"
  "handshake_keyed P (s\<lparr>hs_buffers := f\<rparr>) = handshake_keyed P s"
  "handshake_keyed P (s\<lparr>hs_now := now\<rparr>) = handshake_keyed P s"
  "handshake_keyed P (s\<lparr>hs_events := es\<rparr>) = handshake_keyed P s"
  "handshake_keyed P (s\<lparr>hs_keylog := kl\<rparr>) = handshake_keyed P s"
  "handshake_keyed P (s\<lparr>cl_session_tickets := ts\<rparr>) = handshake_keyed P s"
  "handshake_keyed P (s\<lparr>cl_state := st\<rparr>) = handshake_keyed P s"
  "handshake_keyed P (s\<lparr>cl_leaf_certificate := leaf\<rparr>) = handshake_keyed P s"
  "handshake_keyed P (s\<lparr>cl_alpn := alpn\<rparr>) = handshake_keyed P s"
  "handshake_keyed P (s\<lparr>cl_peer_transport_parameters := tp\<rparr>) = handshake_keyed P s"
  "handshake_keyed P (s\<lparr>cl_early_data_accepted := ed\<rparr>) = handshake_keyed P s"
  by (simp_all add: handshake_keyed_def used_psk_def fun_eq_iff)

lemma update_transcript_simps [simp]:
  "ks_transcript (update_transcript raw ks) = ks_transcript ks @ raw" "ks_secret (update_transcript raw ks) = ks_secret ks"
  by (simp_all add: update_transcript_def)

text \<open>Hellos, first and second, settle nothing.\<close>

definition offering :: "prims \<Rightarrow> client_config \<Rightarrow> tls_client \<Rightarrow> bool" where
  "offering P c s \<longleftrightarrow> cl_state s \<in> {CLIENT_START, WAIT_SERVER_HELLO} \<and> cl_config s = c \<and> unsettled P s"

lemma offering_inv: "offering P c s \<Longrightarrow> client_inv P s"
  by (auto simp: offering_def client_inv_def)

lemma keeps_replace_transcript:
  "keeps (offering P c) (step_schedule (replace_transcript_with_message_hash P))"
  by (auto simp: keeps_iff step_defs replace_transcript_with_message_hash_def bindS_def bindE_def offering_def unsettled_def
      Let_def split: sum.splits)

lemma client_hello_keeps: "keeps (offering P c) (encode_hello P)"
  unfolding encode_hello_def build_client_hello_def fill_psk_binder_def feed_fallback_def Let_def step_defs
  by (rule keeps_intros keeps_modS
      | simp add: offering_def unsettled_def option.map_comp comp_def split: option.split)+

lemma hello_retry_keeps: "keeps (offering P c) (on_hello_retry_request P hello raw)"
proof -
  have settle: "keeps (offering P c) (bindS (getS cl_fallback_schedule) (\<lambda>fallback. case fallback of
      None \<Rightarrow> retS ()
    | Some ks \<Rightarrow> bindS (liftS (replace_transcript_with_message_hash P ks)) (\<lambda>ks.
        modS (\<lambda>s. s\<lparr>cl_fallback_schedule := Some (update_transcript raw ks)\<rparr>))))"
    by (auto simp: keeps_iff replace_transcript_with_message_hash_def bindS_def bindE_def offering_def unsettled_def Let_def
        split: option.split sum.splits)
  have fallback: "keeps (offering P c) (bindS (getS cl_fallback_schedule) (\<lambda>fallback. bindS (case fallback of
      None \<Rightarrow> retS ()
    | Some ks \<Rightarrow> bindS (liftS (replace_transcript_with_message_hash P ks)) (\<lambda>ks.
        modS (\<lambda>s. s\<lparr>cl_fallback_schedule := Some (update_transcript raw ks)\<rparr>))) (\<lambda>_. k)))"
    if "keeps (offering P c) k" for k :: "(tls_client, unit) se"
    using keeps_bindS [OF settle, of "\<lambda>_. k"] that by (simp add: keeps_iff bindS_def)
  show ?thesis
    unfolding on_hello_retry_request_def Let_def
    by (rule fallback keeps_getS_bind keeps_refuse_doS keeps_refuse_then keeps_replace_transcript keeps_intros keeps_refuse client_hello_keeps
        keeps_modS keeps_urandom | simp add: offering_def unsettled_def feed_def emit_def)+
qed


text \<open>The ServerHello settles which PSK the keys come from.\<close>

lemma settle_psk_settles:
  assumes "unsettled P s" "settle_psk hello s = (Inr (), t)"
  shows "cl_resumed t \<longleftrightarrow> find_extension (sh_extensions hello) PRE_SHARED_KEY \<noteq> None"
    "cl_resumed t \<longrightarrow> cf_session_ticket (cl_config t) \<noteq> None"
    "ks_secret (hs_schedule t) = early_secret P (used_psk t)" "cl_keys t = cl_keys s"
  using assms
  by (cases "cf_session_ticket (cl_config s)";
      auto simp: settle_psk_def step_defs bindS_def unsettled_def used_psk_def split: option.splits if_splits)+

lemma server_hello_keyed:
  assumes P: "hash_ok P" and s: "unsettled P s" and raw: "parse_handshake_message raw = Inr (ServerHello hello, n)"
    and hello: "sh_random hello \<noteq> HELLO_RETRY_REQUEST_RANDOM" and run: "client_on_server_hello P hello raw s = (Inr (), t)"
  shows "cl_state t = WAIT_ENCRYPTED_EXTENSIONS \<and> client_keyed P t"
proof -
  from run hello obtain share grp peer key shared s2 s3 where
    share: "find_extension (sh_extensions hello) KEY_SHARE = Some share" "parse_key_share_entry share = Inr (grp, peer)"
      "map_of (cl_keys s) grp = Some key" "prim_x25519_exchange P key peer = Inr shared"
    and s2: "settle_psk hello (s\<lparr>hs_cipher_suite := sh_cipher_suite hello\<rparr>) = (Inr (), s2)"
    and s3: "emit_handshake_secrets P shared (s2\<lparr>hs_schedule := update_transcript raw (hs_schedule s2)\<rparr>) = (Inr (), s3)"
      "t = s3\<lparr>cl_state := WAIT_ENCRYPTED_EXTENSIONS\<rparr>"
    by (auto simp: client_on_server_hello_def step_defs bindS_Inr_iff split: if_splits option.splits prod.splits)
  define ks where "ks = projr (add_ecdhe P shared (update_transcript raw (hs_schedule s2)))"
  have "unsettled P (s\<lparr>hs_cipher_suite := sh_cipher_suite hello\<rparr>)" using s by (simp add: unsettled_def)
  note settled = settle_psk_settles [OF this s2]
  have ks: "add_ecdhe P shared \<lparr>ks_transcript = ks_transcript (hs_schedule s2) @ raw, ks_secret = early_secret P (used_psk s2)\<rparr> = Inr ks"
    using schedule_total(1) [OF P, of shared "update_transcript raw (hs_schedule s2)"] settled(3)
    by (cases "hs_schedule s2") (simp add: ks_def update_transcript_def)
  obtain kl es where t: "t = s2\<lparr>hs_schedule := ks, hs_client_hs_secret := traffic_secret P ''c hs traffic'' ks,
      hs_server_hs_secret := traffic_secret P ''s hs traffic'' ks, hs_keylog := kl, hs_events := es,
      cl_state := WAIT_ENCRYPTED_EXTENSIONS\<rparr>"
    using emit_handshake_secrets_ok [OF P, of shared "s2\<lparr>hs_schedule := update_transcript raw (hs_schedule s2)\<rparr>"] s3
    by (auto simp: ks_def)
  have "server_handshake_traffic_secret P ks = Inr (hs_server_hs_secret t)"
    using schedule_total(4) [OF P, of "ascii ''s hs traffic''" ks] by (simp add: t traffic_secret_def traffic_secret_defs)
  moreover have "ks_transcript (hs_schedule t) = ks_transcript (hs_schedule s2) @ raw @ []"
    by (simp add: t ks_def schedule_total(8) [OF P])
  moreover have "used_psk t = used_psk s2" by (simp add: t used_psk_def)
  moreover have "cl_resumed t = cl_resumed s2" "cl_config t = cl_config s2" "cl_keys t = cl_keys s"
    using settled(4) by (simp_all add: t)
  ultimately have "client_keyed P t"
    using share raw settled ks
    by (intro handshake_keyedI [where before = "ks_transcript (hs_schedule s2)" and raw = raw and rest = "[]" and hello = hello
          and n = n and share = share and grp = grp and peer = peer and key = key and shared = shared and ks = ks]) simp_all
  then show ?thesis by (simp add: t)
qed

lemma client_server_hello_inv:
  assumes P: "hash_ok P" and inv: "client_inv P s" and st: "cl_state s = WAIT_SERVER_HELLO"
    and raw: "parse_handshake_message raw = Inr (ServerHello hello, n)" and run: "client_on_server_hello P hello raw s = (r, t)"
  shows "case r of Inl e \<Rightarrow> client_safe P t | Inr x \<Rightarrow> client_inv P t"
proof -
  have s: "unsettled P s" "offering P (cl_config s) s" using inv st by (simp_all add: client_inv_def offering_def)
  have states: "keeps (\<lambda>s. cl_state s \<noteq> CLIENT_CONNECTED) (client_on_server_hello P hello raw)"
    unfolding client_on_server_hello_def on_hello_retry_request_def settle_psk_def encode_hello_def build_client_hello_def
      fill_psk_binder_def feed_fallback_def emit_handshake_secrets_def Let_def step_defs
    by (rule keeps_intros keeps_modS keeps_urandom | simp split: option.split)+
  show ?thesis
  proof (cases r)
    case (Inl e)
    then show ?thesis using keepsD [OF states _ run] st by (simp add: client_safe_def)
  next
    case (Inr x)
    show ?thesis
    proof (cases "sh_random hello = HELLO_RETRY_REQUEST_RANDOM")
      case True
      then have "on_hello_retry_request P hello raw s = (r, t)" using run by (simp add: client_on_server_hello_def)
      then show ?thesis using offering_inv [OF keepsD [OF hello_retry_keeps s(2)]] by (simp add: Inr)
    next
      case False
      then show ?thesis using server_hello_keyed [OF P s(1) raw False] run by (simp add: Inr client_inv_def)
    qed
  qed
qed

lemma client_extensions_keeps:
  "keeps (\<lambda>s. (if cl_resumed s then cl_state s \<in> {WAIT_FINISHED, WAIT_ENCRYPTED_EXTENSIONS}
      else cl_state s \<in> {WAIT_CERTIFICATE, WAIT_ENCRYPTED_EXTENSIONS}) \<and> client_keyed P s)
    (client_on_encrypted_extensions exts raw)"
  unfolding client_on_encrypted_extensions_def settle_early_data_def
  by (rule keeps_getS_bind keeps_refuse_doS keeps_refuse_then keeps_intros keeps_refuse keeps_modS
      | simp add: feed_def emit_def handshake_keyed_append | (auto split: if_splits)[1])+

lemma signedI:
  "verify_certificate_verify P leaf cv (prim_sha256 P before) = Inr () \<Longrightarrow>
   parse_handshake_message raw = Inr (CertificateVerify cv, n) \<Longrightarrow> signed P leaf (before @ raw)"
  unfolding signed_def by blast

lemma client_certificate_inv:
  "client_inv P s \<Longrightarrow> cl_state s = WAIT_CERTIFICATE \<Longrightarrow> client_on_certificate P m raw s = (r, t) \<Longrightarrow> client_inv P t"
  by (auto simp: client_on_certificate_def step_defs bindS_def client_inv_def chain_verified_def handshake_keyed_append
      verify_certificate_policy_def split: if_splits sum.splits)

lemma client_certificate_verify_inv:
  "client_inv P s \<Longrightarrow> cl_state s = WAIT_CERTIFICATE_VERIFY \<Longrightarrow> parse_handshake_message raw = Inr (CertificateVerify m, n)
   \<Longrightarrow> client_on_certificate_verify P m raw s = (r, t) \<Longrightarrow> client_inv P t"
  by (auto simp: client_on_certificate_verify_def step_defs bindS_def client_inv_def chain_verified_def intro!: signedI
      simp: transcript_hash_def authenticated_def handshake_keyed_append split: if_splits sum.splits)


lemma finished_verifiedI:
  "finished_verify_data P (hs_server_hs_secret s) (prim_sha256 P tr) = Inr vd \<Longrightarrow>
   parse_handshake_message raw = Inr (Finished vd, n) \<Longrightarrow> ks_transcript (hs_schedule s) = tr @ raw @ own
   \<Longrightarrow> finished_verified P s tr"
  unfolding finished_verified_def by blast

text \<open>The server's Finished is refused and changes nothing, or it completes the handshake.\<close>

definition master_schedule :: "prims \<Rightarrow> bytes \<Rightarrow> key_schedule \<Rightarrow> key_schedule" where
  "master_schedule P raw ks = projr (advance_to_master P (update_transcript raw ks))"

definition client_finished :: "prims \<Rightarrow> bytes \<Rightarrow> key_schedule \<Rightarrow> bytes" where
  "client_finished P secret ks = projr (encode_finished (projr (finished_verify_data P secret (transcript_hash P ks))))"

lemma encode_finished_total:
  "length vd < 16777216 \<Longrightarrow> encode_finished vd = Inr (projr (encode_finished vd))"
  by (simp add: encode_finished_def encode_handshake_message_ok)

lemma client_on_finished_eq:
  assumes "hash_ok P"
  defines "ks \<equiv> \<lambda>s raw. master_schedule P raw (hs_schedule s)"
  defines "fin \<equiv> \<lambda>s raw. client_finished P (hs_client_hs_secret s) (ks s raw)"
  shows "\<exists>kl. client_on_finished P vd raw s =
    (if vd \<noteq> projr (finished_verify_data P (hs_server_hs_secret s) (transcript_hash P (hs_schedule s)))
     then (Inl (TlsAlert DECRYPT_ERROR), s)
     else (Inr (), s\<lparr>hs_schedule := update_transcript (fin s raw) (ks s raw), hs_keylog := kl,
       hs_events := hs_events s @
         [SecretAvailable OneRtt CLIENT (traffic_secret P ''c ap traffic'' (ks s raw)) (hs_cipher_suite s),
          SecretAvailable OneRtt SERVER (traffic_secret P ''s ap traffic'' (ks s raw)) (hs_cipher_suite s),
          SendData Handshake (fin s raw),
          HandshakeComplete (cl_alpn s) (cl_peer_transport_parameters s)],
       cl_state := CLIENT_CONNECTED\<rparr>))"
proof -
  define s1 where "s1 = s\<lparr>hs_schedule := update_transcript raw (hs_schedule s)\<rparr>"
  define vd' where "vd' = projr (finished_verify_data P (hs_client_hs_secret s) (transcript_hash P (ks s raw)))"
  have k: "projr (advance_to_master P (hs_schedule s1)) = ks s raw"
    by (simp add: s1_def ks_def master_schedule_def)
  from emit_application_secrets_ok [OF assms(1), of s1, unfolded k]
  obtain kl where app: "emit_application_secrets P s1 = (Inr (), s1\<lparr>hs_schedule := ks s raw, hs_keylog := kl,
      hs_events := hs_events s1 @ [SecretAvailable OneRtt CLIENT (traffic_secret P ''c ap traffic'' (ks s raw)) (hs_cipher_suite s1),
      SecretAvailable OneRtt SERVER (traffic_secret P ''s ap traffic'' (ks s raw)) (hs_cipher_suite s1)]\<rparr>)"
    by (rule exE)
  obtain ex where ex: "projr (finished_verify_data P (hs_server_hs_secret s) (transcript_hash P (hs_schedule s))) = ex"
    by blast
  have v1: "finished_verify_data P (hs_server_hs_secret s) (transcript_hash P (hs_schedule s)) = Inr ex"
    unfolding ex [symmetric] by (rule schedule_total(6) [OF assms(1)])
  have v2: "finished_verify_data P (hs_client_hs_secret s) (transcript_hash P (ks s raw)) = Inr vd'"
    unfolding vd'_def by (rule schedule_total(6) [OF assms(1)])
  have v3: "encode_finished vd' = Inr (fin s raw)"
    unfolding fin_def client_finished_def vd'_def [symmetric]
    by (rule encode_finished_total) (simp add: vd'_def schedule_total(7) [OF assms(1)])
  show ?thesis
    unfolding ex
    by (rule exI [of _ kl])
      (simp add: client_on_finished_def step_defs v1 s1_def [symmetric] app,
       simp add: s1_def v2 v3)
qed

lemma client_finished_inv:
  assumes inv: "client_inv P s" and st: "cl_state s = WAIT_FINISHED" and P: "hash_ok P"
    and raw: "parse_handshake_message raw = Inr (Finished vd, n)"
    and run: "client_on_finished P vd raw s = (r, t)"
  shows "client_inv P t"
proof -
  let ?tr = "ks_transcript (hs_schedule s)"
  from client_on_finished_eq [OF P, of vd raw s] run
  consider "t = s" | own kl es where
    "vd = projr (finished_verify_data P (hs_server_hs_secret s) (transcript_hash P (hs_schedule s)))"
    "t = s\<lparr>hs_schedule := update_transcript own (master_schedule P raw (hs_schedule s)), hs_keylog := kl, hs_events := es,
       cl_state := CLIENT_CONNECTED\<rparr>"
    by (auto split: if_splits)
  then show ?thesis
  proof cases
    case 1
    with inv show ?thesis by simp
  next
    case 2
    have "authenticated P s ?tr" using inv st by (simp add: client_inv_def)
    moreover have "finished_verified P t ?tr"
    proof (rule finished_verifiedI [OF _ raw])
      show "finished_verify_data P (hs_server_hs_secret t) (prim_sha256 P ?tr) = Inr vd"
        using 2 schedule_total(6) [OF P, of "hs_server_hs_secret s" "transcript_hash P (hs_schedule s)"]
        by (simp add: transcript_hash_def)
      show "ks_transcript (hs_schedule t) = ?tr @ raw @ own"
        using 2 by (simp add: master_schedule_def update_transcript_def schedule_total(9) [OF P])
    qed
    moreover have "authenticated P t ?tr = authenticated P s ?tr"
      using 2 by (simp add: authenticated_def chain_verified_def)
    ultimately show ?thesis using 2 unfolding client_inv_def client_safe_def by (auto intro!: exI [of _ ?tr])
  qed
qed


text \<open>A message is refused, leaving the state alone, or it has the type the state expects.\<close>

lemma client_handle_cases:
  assumes "client_handle P level m raw s = (r, t)"
  shows "t = s
    \<or> (\<exists>h. m = ServerHello h \<and> cl_state s = WAIT_SERVER_HELLO \<and> client_on_server_hello P h raw s = (r, t))
    \<or> (\<exists>e. m = EncryptedExtensions e \<and> cl_state s = WAIT_ENCRYPTED_EXTENSIONS
         \<and> client_on_encrypted_extensions e raw s = (r, t))
    \<or> (\<exists>c. m = Certificate c \<and> cl_state s = WAIT_CERTIFICATE \<and> client_on_certificate P c raw s = (r, t))
    \<or> (\<exists>cv. m = CertificateVerify cv \<and> cl_state s = WAIT_CERTIFICATE_VERIFY
         \<and> client_on_certificate_verify P cv raw s = (r, t))
    \<or> (\<exists>vd. m = Finished vd \<and> cl_state s = WAIT_FINISHED \<and> client_on_finished P vd raw s = (r, t))
    \<or> (\<exists>nst. m = NewSessionTicket nst \<and> cl_state s = CLIENT_CONNECTED \<and> store_session_ticket P nst s = (r, t))"
proof (cases "cl_state s = CLIENT_CONNECTED")
  case True
  then show ?thesis using assms by (cases m) (auto simp: client_handle_def)
next
  case False
  then show ?thesis
    using assms by (cases "cl_state s"; cases m)
      (auto simp: client_handle_def client_dispatch_def bindS_def require_eq split: if_splits)
qed

lemma store_session_ticket_frame:
  "store_session_ticket P m s = (r, t) \<Longrightarrow> t = s \<or> (\<exists>ts. t = s\<lparr>cl_session_tickets := ts\<rparr>)"
  unfolding store_session_ticket_def step_defs Let_def bindS_def by (force split: if_splits sum.splits)

lemma client_inv_frame:
  "client_inv P (s\<lparr>hs_buffers := f\<rparr>) = client_inv P s" "client_inv P (s\<lparr>hs_now := now\<rparr>) = client_inv P s"
  "client_inv P (s\<lparr>hs_events := es\<rparr>) = client_inv P s" "client_inv P (s\<lparr>cl_session_tickets := ts\<rparr>) = client_inv P s"
  by (simp_all add: client_inv_def client_safe_def unsettled_def authenticated_def chain_verified_def finished_verified_def
      cong: client_state.case_cong)

lemma client_safe_frame: "client_safe P (s\<lparr>hs_events := es\<rparr>) = client_safe P s"
  by (simp add: client_safe_def authenticated_def chain_verified_def finished_verified_def)

lemma client_handle_inv:
  assumes P: "hash_ok P" and raw: "parse_handshake_message raw = Inr (m, n)"
  shows "triple (client_inv P) (client_handle P level m raw) (\<lambda>_. client_inv P) (\<lambda>_. client_safe P)"
  unfolding triple_def
proof (intro allI impI)
  fix s assume inv: "client_inv P s"
  obtain r t where run: "client_handle P level m raw s = (r, t)" by (cases "client_handle P level m raw s")
  from client_handle_cases [OF run] have "client_inv P t \<or> (case r of Inl e \<Rightarrow> client_safe P t | Inr x \<Rightarrow> client_inv P t)"
  proof (elim disjE exE conjE)
    fix h assume "m = ServerHello h" "cl_state s = WAIT_SERVER_HELLO" "client_on_server_hello P h raw s = (r, t)"
    then show ?thesis using client_server_hello_inv [OF P inv] raw by blast
  next
    fix e assume st: "cl_state s = WAIT_ENCRYPTED_EXTENSIONS" and h: "client_on_encrypted_extensions e raw s = (r, t)"
    have "(if cl_resumed s then cl_state s \<in> {WAIT_FINISHED, WAIT_ENCRYPTED_EXTENSIONS}
        else cl_state s \<in> {WAIT_CERTIFICATE, WAIT_ENCRYPTED_EXTENSIONS}) \<and> client_keyed P s"
      using st inv by (simp add: client_inv_def)
    from keepsD [OF client_extensions_keeps this h] have "client_inv P t" by (auto simp: client_inv_def authenticated_def split: if_splits)
    then show ?thesis ..
  next
    fix nst assume "cl_state s = CLIENT_CONNECTED" "store_session_ticket P nst s = (r, t)"
    with store_session_ticket_frame have "t = s \<or> (\<exists>ts. t = s\<lparr>cl_session_tickets := ts\<rparr>)" by blast
    with inv show ?thesis by (auto simp: client_inv_frame)
  qed (use inv P raw in \<open>blast intro: client_certificate_inv client_certificate_verify_inv client_finished_inv\<close>)+
  then show "case client_handle P level m raw s of (Inl e, t) \<Rightarrow> client_safe P t | (Inr x, t) \<Rightarrow> client_inv P t"
    using client_inv_safe [of P t] by (auto simp: run split: sum.splits)
qed


text \<open>The states a client can be in, with the outcome of the last call: started once, then given
  any bytes at any levels, as long as no call has raised an exception.\<close>

inductive client_reachable :: "prims \<Rightarrow> unit result \<Rightarrow> tls_client \<Rightarrow> bool" for P where
  create: "client_reachable P (Inr ()) (mk_tls_client P config random key keylog rng)"
| begins: "client_reachable P (Inr ()) s \<Longrightarrow> cl_state s = CLIENT_START \<Longrightarrow> start P now s = (r, t) \<Longrightarrow> client_reachable P r t"
| receives: "client_reachable P (Inr ()) s \<Longrightarrow> client_receive P level data now s = (r, t) \<Longrightarrow> client_reachable P r t"
| drains: "client_reachable P r s \<Longrightarrow> take_tls_events s = (Inr es, t) \<Longrightarrow> client_reachable P r t"

lemma client_reachable_inv:
  assumes P: "hash_ok P"
  shows "client_reachable P r s \<Longrightarrow> case r of Inl e \<Rightarrow> client_safe P s | Inr x \<Rightarrow> client_inv P s"
proof (induction rule: client_reachable.induct)
  case (create config random key keylog rng)
  show ?case by (simp add: mk_tls_client_def client_inv_def unsettled_def early_secret_def mk_key_schedule_def Let_def
      option.map_comp comp_def split: prod.split option.split)
next
  case (begins s now r t)
  have "keeps (offering P (cl_config s)) (start P now)"
    unfolding start_def ask_schedule_def keylog_line_def emit_def
    by (rule client_hello_keeps keeps_intros keeps_modS | simp add: offering_def unsettled_def)+
  moreover have "offering P (cl_config s) s" using begins by (simp add: client_inv_def offering_def)
  ultimately have "client_inv P t" using begins.hyps(3) offering_inv keepsD by metis
  then show ?case by (simp add: client_inv_safe split: sum.split)
next
  case (receives s level data now r t)
  have "triple (client_inv P) (client_receive P level data now) (\<lambda>_. client_inv P) (\<lambda>_. client_safe P)"
    unfolding client_receive_def
    by (rule receive_with_triple) (simp_all add: client_handle_inv [OF P] client_inv_frame client_inv_safe)
  then show ?case using receives by (auto simp: triple_def split: sum.split)
next
  case (drains r s es t)
  then show ?case by (auto simp: take_tls_events_def client_inv_frame client_safe_frame split: sum.splits)
qed

text \<open>C6: Whatever bytes a client is given, it completes a handshake only after the server's
  Finished matched the transcript, and after the server was authenticated in that transcript. The key
  of the Finished derives, along the schedule of TLS 1.3, from the exchange of the ServerHello's key
  share with the client's own key, and from the PSK of the configured ticket exactly if the ServerHello
  selects it. Without that PSK the server's certificate chain was accepted for the configured name
  (a client configured with \<open>insecure_skip_verify\<close> is exempt from this check alone) and a
  CertificateVerify signed the transcript with the key of the leaf.\<close>

theorem client_authenticates_server:
  assumes "prims_ok P" "client_reachable P r s" "cl_state s = CLIENT_CONNECTED"
  shows "\<exists>tr. finished_verified P s tr \<and> authenticated P s tr"
proof -
  have "client_safe P s"
    using client_reachable_inv [OF prims_okD(4) [OF assms(1)] assms(2)] client_inv_safe by (cases r) auto
  with assms(3) show ?thesis by (simp add: client_safe_def)
qed

text \<open>
  Why the calls have to stop at an exception: a ServerHello whose key exchange raises one has
  already put the schedule without a PSK in the place of the one with it. A second ServerHello that
  selects the PSK is then taken for a resumption although the keys do not depend on the ticket.
\<close>

definition acceptable_hello :: "tls_client \<Rightarrow> server_hello \<Rightarrow> bytes \<Rightarrow> bytes \<Rightarrow> bool" where
  "acceptable_hello s hello key peer \<longleftrightarrow> sh_random hello \<noteq> HELLO_RETRY_REQUEST_RANDOM
     \<and> sh_legacy_session_id_echo hello = [] \<and> sh_cipher_suite hello \<in> set (cf_cipher_suites (cl_config s))
     \<and> find_extension (sh_extensions hello) SUPPORTED_VERSIONS = Some (to_be 2 TLS_1_3)
     \<and> (\<exists>share grp. find_extension (sh_extensions hello) KEY_SHARE = Some share
          \<and> parse_key_share_entry share = Inr (grp, peer) \<and> map_of (cl_keys s) grp = Some key)"

lemma failed_hello_loses_psk:
  assumes P: "hash_ok P" and s: "unsettled P s" "cf_session_ticket (cl_config s) \<noteq> None"
    and h1: "acceptable_hello s h1 key1 peer1" "find_extension (sh_extensions h1) PRE_SHARED_KEY = None"
      "prim_x25519_exchange P key1 peer1 = Inl ValueError"
    and h2: "acceptable_hello s h2 key2 peer2" "find_extension (sh_extensions h2) PRE_SHARED_KEY = Some [0, 0]"
      "prim_x25519_exchange P key2 peer2 = Inr shared"
  shows "\<exists>t u tr. client_on_server_hello P h1 raw1 s = (Inl ValueError, t) \<and> cl_state t = cl_state s
    \<and> client_on_server_hello P h2 raw2 t = (Inr (), u) \<and> cl_resumed u \<and> cl_state u = WAIT_ENCRYPTED_EXTENSIONS
    \<and> hs_schedule u = projr (add_ecdhe P shared \<lparr>ks_transcript = tr, ks_secret = early_secret P None\<rparr>)"
proof -
  obtain ks where ks: "cl_fallback_schedule s = Some ks" "ks_secret ks = early_secret P None"
    using s by (auto simp: unsettled_def)
  define t where "t = s\<lparr>hs_cipher_suite := sh_cipher_suite h1, hs_schedule := update_transcript raw1 ks, cl_fallback_schedule := None\<rparr>"
  have first: "client_on_server_hello P h1 raw1 s = (Inl ValueError, t)"
    using h1 ks by (auto simp: client_on_server_hello_def acceptable_hello_def settle_psk_def step_defs t_def)
  define t2 where "t2 = s\<lparr>hs_cipher_suite := sh_cipher_suite h2, cl_resumed := True, cl_fallback_schedule := None,
    hs_schedule := update_transcript raw2 (update_transcript raw1 ks)\<rparr>"
  have "acceptable_hello t h2 key2 peer2" using h2(1) by (simp add: acceptable_hello_def t_def)
  then have second: "client_on_server_hello P h2 raw2 t
      = doS [emit_handshake_secrets P shared, set_client_state WAIT_ENCRYPTED_EXTENSIONS] t2"
    using h2(2,3) s(2)
    by (auto simp: client_on_server_hello_def acceptable_hello_def settle_psk_def step_defs t2_def t_def from_be_def)
  from emit_handshake_secrets_ok [OF P, of shared t2] obtain u where "client_on_server_hello P h2 raw2 t = (Inr (), u)"
    "cl_resumed u" "cl_state u = WAIT_ENCRYPTED_EXTENSIONS" "hs_schedule u = projr (add_ecdhe P shared (hs_schedule t2))"
    unfolding second by (auto simp: t2_def)
  moreover have "hs_schedule t2 = \<lparr>ks_transcript = ks_transcript (hs_schedule t2), ks_secret = early_secret P None\<rparr>"
    using ks(2) by (simp add: t2_def)
  moreover have "cl_state t = cl_state s" by (simp add: t_def)
  ultimately show ?thesis using first by metis
qed

text \<open>C36: How the handshake bytes are cut into pieces does not matter: receiving two pieces
  in turn leaves the client as receiving their concatenation does.\<close>

theorem client_receive_chunks:
  assumes "client_receive P level a now s = (Inr (), t)"
  shows "client_receive P level (a @ b) now s = client_receive P level b now t"
  using client_machine.receive_chunks [of P level a now s t b] assms by (simp add: client_receive_def)


theorem client_receive_chunks_witness:
  "\<exists>s t. client_receive toy_prims Initial [2, 0] 1 s = (Inr (), t) \<and> hs_buffers t Initial = [2, 0]
     \<and> client_receive toy_prims Initial ([2, 0] @ [0, 0]) 1 s = client_receive toy_prims Initial [0, 0] 1 t"
proof -
  fix s :: tls_client
  define t where "t = s\<lparr>hs_now := 1, hs_buffers := (\<lambda>_. [])(Initial := [2, 0])\<rparr>"
  have "client_receive toy_prims Initial [2, 0] 1 (s\<lparr>hs_buffers := \<lambda>_. []\<rparr>) = (Inr (), t)"
    by (simp add: client_receive_def receive_with_def receive_loop.simps split_message_def t_def)
  with client_receive_chunks [OF this, of "[0, 0]"] show ?thesis
    by (intro exI [of _ "s\<lparr>hs_buffers := \<lambda>_. []\<rparr>"] exI [of _ t]) (simp add: t_def)
qed

end
