(* ===== verification/Tls_Server.thy ===== *)
theory Tls_Server
  imports Tls_Handshake
begin

text \<open>
  The server handshake machine, class \<open>TlsServer\<close> of \<open>src/dsquic/tls.py\<close>, in the same
  form as the client's: record \<open>tls_server\<close>, one definition per method.
\<close>

section \<open>Model\<close>

record server_config =
  sc_certificate_chain :: "bytes list"
  sc_signing_key :: signing_key
  sc_alpn :: "string list"
  sc_transport_parameters :: bytes
  sc_ticket_key :: "bytes option"

datatype server_state = SERVER_START | WAIT_SECOND_CLIENT_HELLO | WAIT_CLIENT_FINISHED | SERVER_CONNECTED

text \<open>\<open>SERVER_EXPECTS\<close>.\<close>

fun server_expects :: "server_state \<Rightarrow> (handshake_type \<times> encryption_level) option" where
  "server_expects SERVER_START = Some (CLIENT_HELLO, Initial)"
| "server_expects WAIT_SECOND_CLIENT_HELLO = Some (CLIENT_HELLO, Initial)"
| "server_expects WAIT_CLIENT_FINISHED = Some (FINISHED, Handshake)"
| "server_expects SERVER_CONNECTED = None"

record tls_server = handshake +
  sv_config :: server_config
  sv_random :: bytes
  sv_key :: bytes
  sv_hello_retry_sent :: bool
  sv_alpn :: string
  sv_client_transport_parameters :: bytes
  sv_resumed :: bool
  sv_early_data_accepted :: bool
  sv_early_secret :: "bytes option"
  sv_client_supports_resumption :: bool
  sv_state :: server_state

definition mk_tls_server ::
  "prims \<Rightarrow> server_config \<Rightarrow> bytes option \<Rightarrow> bytes option \<Rightarrow> string list option \<Rightarrow> rng \<Rightarrow> tls_server" where
  "mk_tls_server P config random key keylog rng =
     (let (rnd, rng1) = (case random of Some r \<Rightarrow> (r, rng) | None \<Rightarrow> (rng 0 32, rest_rng rng));
          (k, rng2) = (case key of Some k \<Rightarrow> (k, rng1) | None \<Rightarrow> (rng1 0 32, rest_rng rng1))
      in \<lparr>hs_schedule = mk_key_schedule P None, hs_events = [], hs_now = 0, hs_buffers = (\<lambda>_. []),
          hs_client_hs_secret = [], hs_server_hs_secret = [], hs_keylog = keylog, hs_client_random = [],
          hs_cipher_suite = TLS_AES_128_GCM_SHA256, hs_rng = rng2,
          sv_config = config, sv_random = rnd, sv_key = k, sv_hello_retry_sent = False, sv_alpn = [],
          sv_client_transport_parameters = [], sv_resumed = False, sv_early_data_accepted = False,
          sv_early_secret = None, sv_client_supports_resumption = False, sv_state = SERVER_START\<rparr>)"

abbreviation set_server_state :: "server_state \<Rightarrow> (tls_server, unit) se" where
  "set_server_state st \<equiv> modS (\<lambda>s. s\<lparr>sv_state := st\<rparr>)"

definition negotiate_alpn :: "server_config \<Rightarrow> client_hello \<Rightarrow> string result" where
  "negotiate_alpn config hello =
     bindE (case find_extension (ch_extensions hello) ALPN of
              Some alpn_data \<Rightarrow> parse_alpn alpn_data | None \<Rightarrow> Inr []) (\<lambda>offered.
     case find (\<lambda>protocol. protocol \<in> set offered) (sc_alpn config) of
       Some protocol \<Rightarrow> Inr protocol
     | None \<Rightarrow> Inl (TlsAlert NO_APPLICATION_PROTOCOL))"

definition send_hello_retry_request :: "prims \<Rightarrow> client_hello \<Rightarrow> bytes \<Rightarrow> int \<Rightarrow> (tls_server, unit) se" where
  "send_hello_retry_request P hello raw grp =
     bindS (getS sv_hello_retry_sent) (\<lambda>sent.
     bindS (doS [refuse sent HANDSHAKE_FAILURE,
                 modS (\<lambda>s. s\<lparr>sv_hello_retry_sent := True\<rparr>),
                 feed raw, step_schedule (replace_transcript_with_message_hash P)]) (\<lambda>_.
     bindS (getS hs_cipher_suite) (\<lambda>suite.
     bindS (liftS (extension_list [(SUPPORTED_VERSIONS, to_bytes 2 TLS_1_3), (KEY_SHARE, to_bytes 2 grp)])) (\<lambda>exts.
     bindS (liftS (encode_server_hello
       \<lparr>sh_random = HELLO_RETRY_REQUEST_RANDOM, sh_legacy_session_id_echo = ch_legacy_session_id hello,
        sh_cipher_suite = suite, sh_extensions = exts\<rparr>)) (\<lambda>retry.
     doS [feed retry, emit (SendData Initial retry), set_server_state WAIT_SECOND_CLIENT_HELLO])))))"

text \<open>The loop over the offered identities.\<close>

fun try_identities :: "prims \<Rightarrow> bytes \<Rightarrow> bytes \<Rightarrow> time \<Rightarrow> nat \<Rightarrow> bytes list \<Rightarrow> psk_identity list
    \<Rightarrow> (nat \<times> ticket_state) option result" where
  "try_identities P ticket_key raw now index binders [] = Inr None"
| "try_identities P ticket_key raw now index binders (i # is) =
     (case open_ticket P ticket_key (pi_identity i) now (of_int SESSION_TICKET_LIFETIME) of
        Inl e \<Rightarrow> if e = TicketError then try_identities P ticket_key raw now (Suc index) binders is else Inl e
      | Inr state \<Rightarrow>
          bindE (binder_key P (mk_key_schedule P (Some (ts_psk state)))) (\<lambda>key.
          bindE (binder_transcript raw (length binders)) (\<lambda>truncated.
          bindE (finished_verify_data P key (sha256 P truncated)) (\<lambda>expected.
          if binders ! index \<noteq> expected then Inl (TlsAlert DECRYPT_ERROR)
          else Inr (Some (index, state))))))"

definition select_psk :: "prims \<Rightarrow> tls_server \<Rightarrow> client_hello \<Rightarrow> bytes \<Rightarrow> (nat \<times> ticket_state) option result" where
  "select_psk P s hello raw =
     (case find_extension (ch_extensions hello) PRE_SHARED_KEY of
        None \<Rightarrow> Inr None
      | Some offer \<Rightarrow>
        if ext_type (last (ch_extensions hello)) \<noteq> PRE_SHARED_KEY then Inl (TlsAlert ILLEGAL_PARAMETER)
        else case find_extension (ch_extensions hello) PSK_KEY_EXCHANGE_MODES of
          None \<Rightarrow> Inl (TlsAlert MISSING_EXTENSION)
        | Some modes \<Rightarrow>
          if PSK_DHE_KE \<notin> set (drop 1 modes) then Inr None
          else case sc_ticket_key (sv_config s) of
            None \<Rightarrow> Inr None
          | Some ticket_key \<Rightarrow>
            if sv_hello_retry_sent s then Inr None
            else bindE (parse_offered_psks offer) (\<lambda>(identities, binders).
              try_identities P ticket_key raw (hs_now s) 0 binders identities))"

definition ticket_is_fresh :: "tls_server \<Rightarrow> client_hello \<Rightarrow> nat \<times> ticket_state \<Rightarrow> bool result" where
  "ticket_is_fresh s hello selected =
     (case find_extension (ch_extensions hello) PRE_SHARED_KEY of
        None \<Rightarrow> Inl AssertionError
      | Some offer \<Rightarrow>
        bindE (parse_offered_psks offer) (\<lambda>(identities, _).
        if length identities \<le> fst selected then Inl IndexError
        else let claimed_ms = (pi_obfuscated_ticket_age (identities ! fst selected) - ts_age_add (snd selected)) mod 2 ^ 32;
                 actual_ms = (hs_now s - of_int (ts_issued_at (snd selected))) * 1000
             in Inr (\<bar>actual_ms - of_int claimed_ms\<bar> \<le> TICKET_AGE_TOLERANCE_MS)))"

text \<open>The conjunction that decides 0-RTT, evaluated from left to right.\<close>

definition accepts_early_data ::
  "tls_server \<Rightarrow> client_hello \<Rightarrow> string \<Rightarrow> (nat \<times> ticket_state) option \<Rightarrow> bool result" where
  "accepts_early_data s hello alpn selected =
     (if find_extension (ch_extensions hello) EARLY_DATA = None then Inr False
      else case selected of
        None \<Rightarrow> Inr False
      | Some (index, state) \<Rightarrow>
        if index \<noteq> 0 \<or> ts_alpn state \<noteq> alpn \<or> ts_cipher_suite state \<noteq> hs_cipher_suite s then Inr False
        else bindE (decode_transport_parameters (ts_transport_parameters state)) (\<lambda>remembered.
             bindE (decode_transport_parameters (sc_transport_parameters (sv_config s))) (\<lambda>current.
             if reduces_zero_rtt_limits remembered current then Inr False
             else ticket_is_fresh s hello (index, state))))"

definition resolve_psk_offer ::
  "prims \<Rightarrow> client_hello \<Rightarrow> bytes \<Rightarrow> string \<Rightarrow> (tls_server, (nat \<times> ticket_state) option) se" where
  "resolve_psk_offer P hello raw alpn =
     bindS (getS id) (\<lambda>s0.
     bindS (liftS (select_psk P s0 hello raw)) (\<lambda>selected.
     bindS (modS (\<lambda>s. s\<lparr>sv_resumed := selected \<noteq> None,
         sv_client_supports_resumption :=
           (case find_extension (ch_extensions hello) PSK_KEY_EXCHANGE_MODES of
              None \<Rightarrow> False | Some modes \<Rightarrow> PSK_DHE_KE \<in> set (drop 1 modes))\<rparr>)) (\<lambda>_.
     bindS (getS id) (\<lambda>s.
     bindS (liftS (accepts_early_data s hello alpn selected)) (\<lambda>accepted.
     bindS (modS (\<lambda>s. s\<lparr>sv_early_data_accepted := accepted\<rparr>)) (\<lambda>_.
     bindS (case selected of
              None \<Rightarrow> retS ()
            | Some (index, state) \<Rightarrow> modS (\<lambda>s. s\<lparr>hs_schedule := mk_key_schedule P (Some (ts_psk state))\<rparr>)) (\<lambda>_.
     bindS (feed raw) (\<lambda>_.
     bindS (if accepted
            then bindS (ask_schedule (client_early_traffic_secret P)) (\<lambda>secret.
                 doS [modS (\<lambda>s. s\<lparr>sv_early_secret := Some secret\<rparr>),
                      keylog_line ''CLIENT_EARLY_TRAFFIC_SECRET'' secret])
            else retS ()) (\<lambda>_. retS selected)))))))))"

definition certificate_messages :: "prims \<Rightarrow> (tls_server, bytes) se" where
  "certificate_messages P =
     bindS (getS sv_config) (\<lambda>config.
     bindS (liftS (encode_certificate \<lparr>cert_request_context = [],
       cert_entries = map (\<lambda>data. \<lparr>ce_data = data, ce_extensions = []\<rparr>) (sc_certificate_chain config)\<rparr>)) (\<lambda>cert.
     bindS (feed cert) (\<lambda>_.
     bindS (urandom 32) (\<lambda>salt.
     bindS (ask_schedule (\<lambda>ks. Inr (sign_certificate_verify P salt (sc_signing_key config) (transcript_hash P ks))))
       (\<lambda>(algorithm, signature).
     bindS (liftS (encode_certificate_verify \<lparr>cv_algorithm = algorithm, cv_signature = signature\<rparr>)) (\<lambda>cert_verify.
     bindS (feed cert_verify) (\<lambda>_. retS (cert @ cert_verify))))))))"

text \<open>From the ServerHello to the server's Finished.\<close>

definition server_flight ::
  "prims \<Rightarrow> client_hello \<Rightarrow> bytes \<Rightarrow> string \<Rightarrow> (nat \<times> ticket_state) option \<Rightarrow> (tls_server, unit) se" where
  "server_flight P hello peer_public alpn selected =
     bindS (getS id) (\<lambda>s.
     bindS (liftS (extension_list
       ([(SUPPORTED_VERSIONS, to_bytes 2 TLS_1_3),
         (KEY_SHARE, key_share_entry X25519_GROUP (prim_x25519_public P (sv_key s)))]
        @ (case selected of None \<Rightarrow> [] | Some (index, _) \<Rightarrow> [(PRE_SHARED_KEY, to_bytes 2 (int index))])))) (\<lambda>exts.
     bindS (liftS (encode_server_hello
       \<lparr>sh_random = sv_random s, sh_legacy_session_id_echo = ch_legacy_session_id hello,
        sh_cipher_suite = hs_cipher_suite s, sh_extensions = exts\<rparr>)) (\<lambda>raw_server_hello.
     bindS (doS [feed raw_server_hello, emit (SendData Initial raw_server_hello)]) (\<lambda>_.
     bindS (liftS (prim_x25519_exchange P (sv_key s) peer_public)) (\<lambda>shared.
     bindS (emit_handshake_secrets P shared) (\<lambda>_.
     bindS (liftS (extension_list
       ([(ALPN, alpn_extension [alpn]), (QUIC_TRANSPORT_PARAMETERS, Inr (sc_transport_parameters (sv_config s)))]
        @ (if sv_early_data_accepted s then [(EARLY_DATA, Inr [])] else [])))) (\<lambda>ee.
     bindS (liftS (encode_encrypted_extensions ee)) (\<lambda>encrypted_extensions.
     bindS (feed encrypted_extensions) (\<lambda>_.
     bindS (if selected = None then certificate_messages P else retS []) (\<lambda>certificates.
     bindS (getS hs_server_hs_secret) (\<lambda>server_secret.
     bindS (ask_schedule (\<lambda>ks. finished_verify_data P server_secret (transcript_hash P ks))) (\<lambda>verify.
     bindS (liftS (encode_finished verify)) (\<lambda>finished.
     doS [feed finished,
          emit (SendData Handshake (encrypted_extensions @ certificates @ finished)),
          emit_application_secrets P])))))))))))))"

definition server_on_client_hello :: "prims \<Rightarrow> client_hello \<Rightarrow> bytes \<Rightarrow> (tls_server, unit) se" where
  "server_on_client_hello P hello raw =
     (case filter (\<lambda>suite. suite \<in> set SUPPORTED_CIPHER_SUITES) (ch_cipher_suites hello) of
        [] \<Rightarrow> raiseS (TlsAlert HANDSHAKE_FAILURE)
      | suite # _ \<Rightarrow>
        bindS (modS (\<lambda>s. s\<lparr>hs_cipher_suite := suite\<rparr>)) (\<lambda>_.
        bindS (case find_extension (ch_extensions hello) SUPPORTED_VERSIONS of
                 None \<Rightarrow> raiseS (TlsAlert PROTOCOL_VERSION)
               | Some versions \<Rightarrow> refuse (\<not> bytes_in (to_be 2 TLS_1_3) versions) PROTOCOL_VERSION) (\<lambda>_.
        bindS (liftS (case find_extension (ch_extensions hello) KEY_SHARE of
                 None \<Rightarrow> Inr None | Some key_share \<Rightarrow> client_key_share key_share)) (\<lambda>share.
        case share of
          None \<Rightarrow>
            bindS (liftS (case find_extension (ch_extensions hello) GROUPS_EXT of
                     None \<Rightarrow> Inr [] | Some groups_data \<Rightarrow> parse_supported_groups groups_data)) (\<lambda>offered.
            case find (\<lambda>grp. grp \<in> set offered) SUPPORTED_GROUPS of
              None \<Rightarrow> raiseS (TlsAlert HANDSHAKE_FAILURE)
            | Some common \<Rightarrow> send_hello_retry_request P hello raw common)
        | Some peer_public \<Rightarrow>
            (case find_extension (ch_extensions hello) QUIC_TRANSPORT_PARAMETERS of
               None \<Rightarrow> raiseS (TlsAlert MISSING_EXTENSION)
             | Some client_transport_parameters \<Rightarrow>
               bindS (getS sv_config) (\<lambda>config.
               bindS (liftS (negotiate_alpn config hello)) (\<lambda>alpn.
               bindS (modS (\<lambda>s. s\<lparr>hs_client_random := ch_random hello\<rparr>)) (\<lambda>_.
               bindS (resolve_psk_offer P hello raw alpn) (\<lambda>selected.
               doS [server_flight P hello peer_public alpn selected,
                    modS (\<lambda>s. s\<lparr>sv_alpn := alpn, sv_client_transport_parameters := client_transport_parameters\<rparr>),
                    set_server_state WAIT_CLIENT_FINISHED]))))))))) "

definition issue_session_ticket :: "prims \<Rightarrow> (tls_server, unit) se" where
  "issue_session_ticket P =
     bindS (getS id) (\<lambda>s.
     case sc_ticket_key (sv_config s) of
       None \<Rightarrow> retS ()
     | Some ticket_key \<Rightarrow>
       if \<not> sv_client_supports_resumption s then retS ()
       else bindS (urandom TICKET_NONCE_LENGTH) (\<lambda>n.
       bindS (urandom 4) (\<lambda>add.
       let age_add = from_be add
       in bindS (ask_schedule (\<lambda>ks. bindE (resumption_master_secret P ks) (\<lambda>master. resumption_psk P master n))) (\<lambda>psk.
       bindS (urandom TICKET_NONCE_LENGTH) (\<lambda>seal_nonce.
       bindS (liftS (seal_ticket P seal_nonce ticket_key
         \<lparr>ts_psk = psk, ts_age_add = age_add, ts_alpn = sv_alpn s,
          ts_transport_parameters = sc_transport_parameters (sv_config s),
          ts_issued_at = py_int (hs_now s), ts_cipher_suite = hs_cipher_suite s\<rparr>)) (\<lambda>sealed.
       bindS (liftS (encode_new_session_ticket
         \<lparr>nst_lifetime = SESSION_TICKET_LIFETIME, nst_age_add = age_add, nst_nonce = n, nst_ticket = sealed,
          nst_extensions = [\<lparr>ext_type = EARLY_DATA, ext_data = to_be 4 MAX_EARLY_DATA_SIZE\<rparr>]\<rparr>)) (\<lambda>raw.
       emit (SendData OneRtt raw)))))))) "

definition server_on_finished :: "prims \<Rightarrow> bytes \<Rightarrow> bytes \<Rightarrow> (tls_server, unit) se" where
  "server_on_finished P verify_data raw =
     bindS (getS hs_client_hs_secret) (\<lambda>client_secret.
     bindS (ask_schedule (\<lambda>ks. finished_verify_data P client_secret (transcript_hash P ks))) (\<lambda>expected.
     bindS (getS id) (\<lambda>s.
     doS [refuse (verify_data \<noteq> expected) DECRYPT_ERROR, feed raw,
          emit (HandshakeComplete (sv_alpn s) (sv_client_transport_parameters s)),
          set_server_state SERVER_CONNECTED, issue_session_ticket P])))"

definition server_handle :: "prims \<Rightarrow> encryption_level \<Rightarrow> handshake_message \<Rightarrow> bytes \<Rightarrow> (tls_server, unit) se" where
  "server_handle P level message raw =
     bindS (getS sv_state) (\<lambda>st.
     case server_expects st of
       None \<Rightarrow> raiseS (TlsAlert UNEXPECTED_MESSAGE)
     | Some expects \<Rightarrow> bindS (require expects level message) (\<lambda>_.
         case message of
           ClientHello m \<Rightarrow> server_on_client_hello P m raw
         | Finished m \<Rightarrow> server_on_finished P m raw
         | _ \<Rightarrow> retS ()))"

definition server_receive :: "prims \<Rightarrow> encryption_level \<Rightarrow> bytes \<Rightarrow> time \<Rightarrow> (tls_server, unit) se" where
  "server_receive P = receive_with (server_handle P)"


section \<open>The server is a handshake machine\<close>

lemma select_frame:
  "select_psk P (s\<lparr>hs_buffers := f\<rparr>) hello raw = select_psk P s hello raw"
  "accepts_early_data (s\<lparr>hs_buffers := f\<rparr>) hello alpn sel = accepts_early_data s hello alpn sel"
  by (simp_all add: select_psk_def accepts_early_data_def ticket_is_fresh_def cong: option.case_cong if_cong)

lemma ignores_server_handlers:
  "ignores_buffers (server_on_client_hello P hello raw)"
  "ignores_buffers (server_on_finished P vd raw)"
  unfolding server_on_client_hello_def send_hello_retry_request_def resolve_psk_offer_def server_flight_def
    certificate_messages_def server_on_finished_def issue_session_ticket_def Let_def
  by (rule ignores_rules ignores_emit_secrets
      | simp add: select_frame cong: option.case_cong if_cong)+


lemma clock_server_handlers:
  "keeps (\<lambda>s. hs_now s = n) (server_on_client_hello P hello raw)"
  "keeps (\<lambda>s. hs_now s = n) (server_on_finished P vd raw)"
  unfolding server_on_client_hello_def send_hello_retry_request_def resolve_psk_offer_def server_flight_def
    certificate_messages_def server_on_finished_def issue_session_ticket_def Let_def
  by (rule clock_rules clock_emit_secrets | simp)+

interpretation server_machine: handshake_machine "server_handle P" for P
proof
  fix level m raw n
  show "ignores_buffers (server_handle P level m raw)"
    unfolding server_handle_def by (cases m) (rule ignores_rules ignores_server_handlers | simp)+
  show "keeps (\<lambda>s. hs_now s = n) (server_handle P level m raw)"
    unfolding server_handle_def by (cases m) (rule clock_rules clock_server_handlers | simp)+
qed


section \<open>Resumption and early data\<close>

text \<open>The binder offered for an identity is the MAC of the hello up to the binders under the ticket's PSK.\<close>

definition binder_ok :: "prims \<Rightarrow> bytes \<Rightarrow> bytes list \<Rightarrow> nat \<Rightarrow> ticket_state \<Rightarrow> bool" where
  "binder_ok P raw binders index state \<longleftrightarrow>
     (\<exists>key truncated. binder_key P (mk_key_schedule P (Some (ts_psk state))) = Inr key
        \<and> binder_transcript raw (length binders) = Inr truncated
        \<and> finished_verify_data P key (sha256 P truncated) = Inr (binders ! index))"

lemma try_identities_Some:
  "try_identities P ticket_key raw now index binders is = Inr (Some (i, state)) \<Longrightarrow>
   \<exists>j < length is. i = index + j \<and> open_ticket P ticket_key (pi_identity (is ! j)) now 7200 = Inr state
     \<and> binder_ok P raw binders i state"
proof (induction "is" arbitrary: index)
  case Nil
  then show ?case by simp
next
  case (Cons x xs)
  show ?case
  proof (cases "open_ticket P ticket_key (pi_identity x) now 7200")
    case (Inl e)
    with Cons.prems have "try_identities P ticket_key raw now (Suc index) binders xs = Inr (Some (i, state))"
      by (auto split: if_splits)
    from Cons.IH [OF this] obtain j where "j < length xs" "i = Suc index + j"
      "open_ticket P ticket_key (pi_identity (xs ! j)) now 7200 = Inr state" "binder_ok P raw binders i state" by blast
    then show ?thesis by (intro exI [of _ "Suc j"]) simp
  next
    case (Inr st)
    with Cons.prems have "i = index" "state = st" "binder_ok P raw binders i st"
      by (auto simp: bindE_Inr_iff binder_ok_def split: if_splits)
    with Inr show ?thesis by (auto intro!: exI [of _ 0])
  qed
qed

lemma select_psk_Some:
  assumes "select_psk P s hello raw = Inr (Some (i, state))"
  obtains offer ticket_key identities binders where
    "find_extension (ch_extensions hello) PRE_SHARED_KEY = Some offer" "sc_ticket_key (sv_config s) = Some ticket_key"
    "\<not> sv_hello_retry_sent s" "parse_offered_psks offer = Inr (identities, binders)" "i < length identities"
    "open_ticket P ticket_key (pi_identity (identities ! i)) (hs_now s) 7200 = Inr state" "binder_ok P raw binders i state"
proof -
  from assms obtain offer modes ticket_key identities binders where
    o: "find_extension (ch_extensions hello) PRE_SHARED_KEY = Some offer" "sc_ticket_key (sv_config s) = Some ticket_key"
      "\<not> sv_hello_retry_sent s" "parse_offered_psks offer = Inr (identities, binders)"
    and t: "try_identities P ticket_key raw (hs_now s) 0 binders identities = Inr (Some (i, state))"
    by (auto simp: select_psk_def bindE_Inr_iff split: option.splits if_splits)
  from try_identities_Some [OF t] that [OF o] show ?thesis by auto
qed

lemma accepts_early_data_True:
  assumes "accepts_early_data s hello alpn selected = Inr True"
  obtains state remembered current where "selected = Some (0, state)" "find_extension (ch_extensions hello) EARLY_DATA \<noteq> None"
    "ts_alpn state = alpn" "ts_cipher_suite state = hs_cipher_suite s"
    "decode_transport_parameters (ts_transport_parameters state) = Inr remembered"
    "decode_transport_parameters (sc_transport_parameters (sv_config s)) = Inr current"
    "\<not> reduces_zero_rtt_limits remembered current" "ticket_is_fresh s hello (0, state) = Inr True"
  using assms that
  by (auto simp: accepts_early_data_def bindE_Inr_iff split: option.splits if_splits prod.splits)

lemma resolve_psk_offer_Inr:
  assumes "resolve_psk_offer P hello raw alpn s = (Inr selected, t)"
  obtains s' where "select_psk P s hello raw = Inr selected" "accepts_early_data s' hello alpn selected = Inr (sv_early_data_accepted t)"
    "hs_now s' = hs_now s" "sv_config s' = sv_config s" "hs_cipher_suite s' = hs_cipher_suite s" "sv_resumed t = (selected \<noteq> None)"
proof -
  define s' where "s' = s\<lparr>sv_resumed := selected \<noteq> None, sv_client_supports_resumption :=
      (case find_extension (ch_extensions hello) PSK_KEY_EXCHANGE_MODES of
         None \<Rightarrow> False | Some modes \<Rightarrow> PSK_DHE_KE \<in> set (drop 1 modes))\<rparr>"
  have "select_psk P s hello raw = Inr selected \<and> accepts_early_data s' hello alpn selected = Inr (sv_early_data_accepted t)
      \<and> sv_resumed t = (selected \<noteq> None)"
    using assms unfolding resolve_psk_offer_def s'_def
    by (auto simp: bindS_Inr_iff step_defs split: option.splits if_splits prod.splits)
  then show ?thesis by (intro that [of s']) (simp_all add: s'_def)
qed

text \<open>C20: A server accepts early data only on the first offered identity, when that identity
  is a ticket this server sealed no more than two hours ago, its binder authenticates the
  hello, the application protocol, the cipher suite and the transport limits are the ones of the ticket or larger,
  and the ticket age the client claims is within ten seconds of the true one; never after a HelloRetryRequest.\<close>

theorem early_data_accepted_only_if:
  assumes "prims_ok P" "resolve_psk_offer P hello raw alpn s = (Inr selected, t)" "sv_early_data_accepted t"
  shows "\<exists>state ticket_key offer identities binders remembered current plaintext.
    selected = Some (0, state) \<and> sc_ticket_key (sv_config s) = Some ticket_key \<and> \<not> sv_hello_retry_sent s
    \<and> find_extension (ch_extensions hello) 41 = Some offer \<and> parse_offered_psks offer = Inr (identities, binders)
    \<and> prim_aesgcm_encrypt P ticket_key (take 12 (pi_identity (identities ! 0))) plaintext []
        = Inr (drop 12 (pi_identity (identities ! 0)))
    \<and> ts_issued_at state = from_be (take 8 plaintext) \<and> hs_now s - of_int (ts_issued_at state) \<le> 7200
    \<and> binder_ok P raw binders 0 state \<and> ts_alpn state = alpn \<and> ts_cipher_suite state = hs_cipher_suite s
    \<and> decode_transport_parameters (ts_transport_parameters state) = Inr remembered
    \<and> decode_transport_parameters (sc_transport_parameters (sv_config s)) = Inr current
    \<and> \<not> reduces_zero_rtt_limits remembered current
    \<and> \<bar>(hs_now s - of_int (ts_issued_at state)) * 1000
        - of_int ((pi_obfuscated_ticket_age (identities ! 0) - ts_age_add state) mod 2 ^ 32)\<bar> \<le> 10000"
proof -
  from assms(2) obtain s' where sel: "select_psk P s hello raw = Inr selected"
    and acc: "accepts_early_data s' hello alpn selected = Inr (sv_early_data_accepted t)"
    and s': "hs_now s' = hs_now s" "sv_config s' = sv_config s" "hs_cipher_suite s' = hs_cipher_suite s"
    by (rule resolve_psk_offer_Inr)
  from acc assms(3) have "accepts_early_data s' hello alpn selected = Inr True" by simp
  then obtain state remembered current where a: "selected = Some (0, state)" "ts_alpn state = alpn"
      "ts_cipher_suite state = hs_cipher_suite s'"
      "decode_transport_parameters (ts_transport_parameters state) = Inr remembered"
      "decode_transport_parameters (sc_transport_parameters (sv_config s')) = Inr current"
      "\<not> reduces_zero_rtt_limits remembered current" "ticket_is_fresh s' hello (0, state) = Inr True"
    by (rule accepts_early_data_True)
  from sel a(1) have "select_psk P s hello raw = Inr (Some (0, state))" by simp
  then obtain offer ticket_key identities binders where
    b: "find_extension (ch_extensions hello) PRE_SHARED_KEY = Some offer" "sc_ticket_key (sv_config s) = Some ticket_key"
      "\<not> sv_hello_retry_sent s" "parse_offered_psks offer = Inr (identities, binders)" "0 < length identities"
      "open_ticket P ticket_key (pi_identity (identities ! 0)) (hs_now s) 7200 = Inr state" "binder_ok P raw binders 0 state"
    by (rule select_psk_Some)
  from sealed_plaintext [OF assms(1) b(6)] obtain plaintext where
    c: "prim_aesgcm_encrypt P ticket_key (take 12 (pi_identity (identities ! 0))) plaintext []
        = Inr (drop 12 (pi_identity (identities ! 0)))" "hs_now s - of_int (ts_issued_at state) \<le> 7200"
      "ts_issued_at state = from_be (take 8 plaintext)" by blast
  have "\<bar>(hs_now s - of_int (ts_issued_at state)) * 1000
        - of_int ((pi_obfuscated_ticket_age (identities ! 0) - ts_age_add state) mod 2 ^ 32)\<bar> \<le> 10000"
    using a(7) b(1,4,5) by (simp add: ticket_is_fresh_def s'(1) Let_def split: if_splits)
  with a(1-6) b c s' show ?thesis by auto
qed


text \<open>C40: An offered identity shorter than eight bytes makes a server that issues tickets raise
  \<open>ValueError\<close>, which is neither a \<open>TicketError\<close> nor an alert, while it is looking for a PSK.\<close>

theorem short_identity_raises:
  assumes "prims_ok P" "aes_key_ok ticket_key" "sc_ticket_key (sv_config s) = Some ticket_key" "\<not> sv_hello_retry_sent s"
    and "find_extension (ch_extensions hello) 41 = Some offer" "ext_type (last (ch_extensions hello)) = 41"
    and "find_extension (ch_extensions hello) 45 = Some modes" "1 \<in> set (drop 1 modes)"
    and "parse_offered_psks offer = Inr (i # identities, binders)" "length (pi_identity i) < 8"
  shows "select_psk P s hello raw = Inl ValueError"
proof -
  have "\<not> gcm_nonce_ok (take 12 (pi_identity i))" using assms(10) by (simp add: gcm_nonce_ok_def)
  then have "prim_aesgcm_decrypt P ticket_key (take 12 (pi_identity i)) (drop 12 (pi_identity i)) [] = Inl ValueError"
    by (rule gcm_decrypt(2) [OF prims_okD(1) [OF assms(1)] assms(2)])
  then have "open_ticket P ticket_key (pi_identity i) now lifetime = Inl ValueError" for now lifetime
    by (simp add: open_ticket_def)
  then show ?thesis using assms by (simp add: select_psk_def)
qed


definition toy_server :: tls_server where
  "toy_server = (mk_tls_server toy_prims \<lparr>sc_certificate_chain = [], sc_signing_key = RsaPrivateKey [], sc_alpn = [''h3''],
     sc_transport_parameters = [], sc_ticket_key = Some (zeros 16)\<rparr> (Some (zeros 32)) (Some (zeros 32)) None (\<lambda>_. zeros))
     \<lparr>hs_now := 105\<rparr>"

definition toy_ticket :: bytes where
  "toy_ticket = projr (seal_ticket toy_prims (zeros 12) (zeros 16)
     \<lparr>ts_psk = zeros 32, ts_age_add = 7, ts_alpn = ''h3'', ts_transport_parameters = [], ts_issued_at = 100,
      ts_cipher_suite = TLS_AES_128_GCM_SHA256\<rparr>)"

definition toy_binder :: bytes where
  "toy_binder = projr (finished_verify_data toy_prims
     (projr (binder_key toy_prims (mk_key_schedule toy_prims (Some (zeros 32))))) (sha256 toy_prims (zeros 10)))"

definition toy_offer :: "bytes \<Rightarrow> client_hello" where
  "toy_offer identity = \<lparr>ch_random = zeros 32, ch_legacy_session_id = [], ch_cipher_suites = [TLS_AES_128_GCM_SHA256],
     ch_extensions = [\<lparr>ext_type = EARLY_DATA, ext_data = []\<rparr>, \<lparr>ext_type = PSK_KEY_EXCHANGE_MODES, ext_data = [1, 1]\<rparr>,
       \<lparr>ext_type = PRE_SHARED_KEY, ext_data = projr (encode_offered_psks
         [\<lparr>pi_identity = identity, pi_obfuscated_ticket_age = 5007\<rparr>] [toy_binder])\<rparr>]\<rparr>"

lemma toy_offer_accepted:
  "case resolve_psk_offer toy_prims (toy_offer toy_ticket) (zeros 45) ''h3'' toy_server of
     (Inr selected, t) \<Rightarrow> sv_early_data_accepted t | _ \<Rightarrow> False"
  by code_simp

theorem early_data_accepted_only_if_witness:
  "\<exists>selected t state. resolve_psk_offer toy_prims (toy_offer toy_ticket) (zeros 45) ''h3'' toy_server = (Inr selected, t)
     \<and> sv_early_data_accepted t \<and> selected = Some (0, state) \<and> 105 - of_int (ts_issued_at state) \<le> (7200 :: rat)
     \<and> ts_alpn state = ''h3''"
proof -
  obtain selected t where "resolve_psk_offer toy_prims (toy_offer toy_ticket) (zeros 45) ''h3'' toy_server = (Inr selected, t)"
    "sv_early_data_accepted t" using toy_offer_accepted by (auto split: prod.splits sum.splits)
  with early_data_accepted_only_if [OF toy_prims_ok this] show ?thesis by (auto simp: toy_server_def)
qed

theorem short_identity_raises_witness:
  "select_psk toy_prims toy_server (toy_offer [1, 2, 3]) (zeros 45) = Inl ValueError"
proof -
  let ?i = "\<lparr>pi_identity = [1, 2, 3], pi_obfuscated_ticket_age = 5007\<rparr>"
  have "parse_offered_psks (projr (encode_offered_psks [?i] [toy_binder])) = Inr ([?i], [toy_binder])" by code_simp
  then show ?thesis
    by (intro short_identity_raises [OF toy_prims_ok, where modes = "[1, 1]" and i = ?i and ticket_key = "zeros 16"])
      (simp_all add: toy_server_def mk_tls_server_def toy_offer_def aes_key_ok_def zeros_def)
qed


section \<open>What a server that completed a handshake has checked\<close>

definition client_finished_verified :: "prims \<Rightarrow> tls_server \<Rightarrow> bool" where
  "client_finished_verified P s \<longleftrightarrow> (\<exists>tr raw vd n. ks_transcript (hs_schedule s) = tr @ raw
     \<and> parse_handshake_message raw = Inr (Finished vd, n)
     \<and> finished_verify_data P (hs_client_hs_secret s) (prim_sha256 P tr) = Inr vd)"

definition server_inv :: "prims \<Rightarrow> tls_server \<Rightarrow> bool" where
  "server_inv P s \<longleftrightarrow> (sv_state s = SERVER_CONNECTED \<longrightarrow> client_finished_verified P s)"

lemma server_client_hello_state:
  "keeps (\<lambda>s. sv_state s \<noteq> SERVER_CONNECTED) (server_on_client_hello P hello raw)"
  unfolding server_on_client_hello_def send_hello_retry_request_def resolve_psk_offer_def server_flight_def
    certificate_messages_def emit_handshake_secrets_def emit_application_secrets_def step_defs Let_def
  by (rule keeps_intros keeps_modS keeps_urandom | simp)+

lemma issue_session_ticket_frame:
  "keeps (\<lambda>s. hs_schedule s = ks \<and> hs_client_hs_secret s = secret \<and> sv_state s = st) (issue_session_ticket P)"
  unfolding issue_session_ticket_def ask_schedule_def emit_def Let_def
  by (rule keeps_intros keeps_modS keeps_urandom | simp)+

lemma server_finished_inv:
  assumes raw: "parse_handshake_message raw = Inr (Finished vd, n)" and st: "sv_state s \<noteq> SERVER_CONNECTED"
    and run: "server_on_finished P vd raw s = (r, t)"
  shows "server_inv P t"
proof -
  define s1 where "s1 = s\<lparr>hs_schedule := update_transcript raw (hs_schedule s),
      hs_events := hs_events s @ [HandshakeComplete (sv_alpn s) (sv_client_transport_parameters s)],
      sv_state := SERVER_CONNECTED\<rparr>"
  have "t = s \<or> finished_verify_data P (hs_client_hs_secret s) (transcript_hash P (hs_schedule s)) = Inr vd
      \<and> t = snd (issue_session_ticket P s1)"
    using run unfolding server_on_finished_def step_defs s1_def
    by (auto simp: bindS_def split: sum.splits if_splits prod.splits)
  then show ?thesis
  proof
    assume "t = s"
    with st show ?thesis by (simp add: server_inv_def)
  next
    assume *: "finished_verify_data P (hs_client_hs_secret s) (transcript_hash P (hs_schedule s)) = Inr vd
      \<and> t = snd (issue_session_ticket P s1)"
    then have "hs_schedule t = hs_schedule s1 \<and> hs_client_hs_secret t = hs_client_hs_secret s1 \<and> sv_state t = sv_state s1"
      using issue_session_ticket_frame [of "hs_schedule s1" "hs_client_hs_secret s1" "sv_state s1" P]
      by (simp add: keeps_iff)
    with * raw show ?thesis
      by (auto simp: server_inv_def client_finished_verified_def s1_def update_transcript_def transcript_hash_def)
  qed
qed

lemma server_handle_inv:
  assumes raw: "parse_handshake_message raw = Inr (m, n)"
  shows "keeps (server_inv P) (server_handle P level m raw)"
  unfolding keeps_iff
proof (intro allI impI)
  fix s assume inv: "server_inv P s"
  obtain r t where run: "server_handle P level m raw s = (r, t)" by (cases "server_handle P level m raw s")
  have "t = s \<or> sv_state s \<noteq> SERVER_CONNECTED \<and> (\<exists>h. m = ClientHello h \<and> server_on_client_hello P h raw s = (r, t))
      \<or> sv_state s \<noteq> SERVER_CONNECTED \<and> (\<exists>vd. m = Finished vd \<and> server_on_finished P vd raw s = (r, t))"
    using run by (cases "sv_state s"; cases m)
      (auto simp: server_handle_def bindS_def require_eq split: if_splits)
  then have "server_inv P t"
  proof (elim disjE exE conjE)
    fix h assume "sv_state s \<noteq> SERVER_CONNECTED" "server_on_client_hello P h raw s = (r, t)"
    with server_client_hello_state have "sv_state t \<noteq> SERVER_CONNECTED" by (rule keepsD)
    then show ?thesis by (simp add: server_inv_def)
  qed (use inv raw in \<open>auto intro: server_finished_inv\<close>)
  then show "server_inv P (snd (server_handle P level m raw s))" by (simp add: run)
qed

inductive server_reachable :: "prims \<Rightarrow> tls_server \<Rightarrow> bool" for P where
  create: "server_reachable P (mk_tls_server P config random key keylog rng)"
| receives: "server_reachable P s \<Longrightarrow> server_receive P level data now s = (r, t) \<Longrightarrow> server_reachable P t"
| drains: "server_reachable P s \<Longrightarrow> take_tls_events s = (r, t) \<Longrightarrow> server_reachable P t"

lemma server_inv_frame:
  "server_inv P (s\<lparr>hs_buffers := f\<rparr>) = server_inv P s" "server_inv P (s\<lparr>hs_now := now\<rparr>) = server_inv P s"
  "server_inv P (s\<lparr>hs_events := es\<rparr>) = server_inv P s"
  by (simp_all add: server_inv_def client_finished_verified_def)

text \<open>C19: Whatever bytes a server is given, it completes a handshake only after a Finished that
  is the MAC of the transcript before it under the client's handshake secret.\<close>

theorem server_verifies_client_finished:
  assumes "server_reachable P s" "sv_state s = SERVER_CONNECTED"
  shows "client_finished_verified P s"
proof -
  from assms(1) have "server_inv P s"
  proof (induction rule: server_reachable.induct)
    case (create config random key keylog rng)
    show ?case by (simp add: mk_tls_server_def server_inv_def Let_def split: prod.split)
  next
    case (receives s level data now r t)
    have "keeps (server_inv P) (server_receive P level data now)"
      unfolding server_receive_def by (rule receive_with_keeps) (simp_all add: server_handle_inv server_inv_frame)
    then show ?case using receives.IH receives.hyps(2) by (rule keepsD)
  next
    case (drains s r t)
    then show ?case by (auto simp: take_tls_events_def server_inv_frame)
  qed
  with assms(2) show ?thesis by (simp add: server_inv_def)
qed

end
