(* ===== verification/Connection.thy ===== *)
theory Connection
  imports Qlog Transport_Parameters Stream_Manager Recovery Protection Retry_Tokens Tls_Client Tls_Server
begin

text \<open>
  The state of a connection, \<open>src/dsquic/connection.py\<close>: the data classes, \<open>Connection\<close> with
  its constructor, the trace, and key management (RFC 9001, sections 4.1, 4.9 and 6).

  A method is a \<open>se\<close> computation on the record \<open>connection\<close>; what it changed before it raised
  stays changed. The objects a connection owns (the TLS machine, loss detection, the streams)
  are fields, and a call of one of their methods runs on that field. Text that is only passed
  on, such as the reason of a close, is kept as its UTF-8 bytes, and \<open>str(exc)\<close> is the
  parameter \<open>env_message\<close> of the model, since nothing else depends on it.
\<close>

unbundle bit_operations_syntax

section \<open>Model\<close>

definition MIN_INITIAL_DATAGRAM :: int where "MIN_INITIAL_DATAGRAM = 1200"
definition DEFAULT_MAX_DATAGRAM_SIZE :: int where "DEFAULT_MAX_DATAGRAM_SIZE = 1200"
definition CONNECTION_ID_LENGTH :: nat where "CONNECTION_ID_LENGTH = 8"
definition AMPLIFICATION_FACTOR :: int where "AMPLIFICATION_FACTOR = 3"
definition MAX_ACK_RANGES :: nat where "MAX_ACK_RANGES = 32"
definition MAX_CRYPTO_BUFFER :: int where "MAX_CRYPTO_BUFFER = 65536"
definition MAX_STREAMS_LIMIT :: int where "MAX_STREAMS_LIMIT = 1152921504606846976"
definition PROBE_PACKETS :: nat where "PROBE_PACKETS = 2"
definition PACING_BURST_DATAGRAMS :: int where "PACING_BURST_DATAGRAMS = 10"
definition ECT_1 :: int where "ECT_1 = 1"
definition ECT_0 :: int where "ECT_0 = 2"
definition ECN_CE :: int where "ECN_CE = 3"

definition NO_ERROR :: int where "NO_ERROR = 0"
definition INTERNAL_ERROR :: int where "INTERNAL_ERROR = 1"
definition FRAME_ENCODING_ERROR :: int where "FRAME_ENCODING_ERROR = 7"
definition TRANSPORT_PARAMETER_ERROR :: int where "TRANSPORT_PARAMETER_ERROR = 8"
definition PROTOCOL_VIOLATION :: int where "PROTOCOL_VIOLATION = 0xA"
definition CRYPTO_BUFFER_EXCEEDED :: int where "CRYPTO_BUFFER_EXCEEDED = 0xD"
definition CRYPTO_ERROR_BASE :: int where "CRYPTO_ERROR_BASE = 0x100"

fun qlog_packet_type :: "encryption_level \<Rightarrow> string" where
  "qlog_packet_type Initial = ''initial''"
| "qlog_packet_type Handshake = ''handshake''"
| "qlog_packet_type OneRtt = ''1RTT''"

text \<open>The cryptography a connection calls, and the text of an exception.\<close>

record env =
  env_prims :: prims
  env_message :: "exn \<Rightarrow> bytes"

definition flow_limits :: "transport_parameters \<Rightarrow> flow_control_limits" where
  "flow_limits p =
     \<lparr>fl_max_data = initial_max_data p,
      fl_max_stream_data_bidi_local = initial_max_stream_data_bidi_local p,
      fl_max_stream_data_bidi_remote = initial_max_stream_data_bidi_remote p,
      fl_max_stream_data_uni = initial_max_stream_data_uni p,
      fl_max_streams_bidi = initial_max_streams_bidi p,
      fl_max_streams_uni = initial_max_streams_uni p\<rparr>"

text \<open>\<open>ConnectionError_(code, reason)\<close> with the default frame type.\<close>

abbreviation connection_error :: "int \<Rightarrow> bytes \<Rightarrow> exn" where
  "connection_error code reason \<equiv> ConnectionError code reason (Some 0)"

datatype connection_state = HANDSHAKING | CONNECTED | CLOSING | DRAINING | TERMINATED

text \<open>A socket address: host and port, and for IPv6 the flow information and the scope.\<close>

type_synonym address = "string \<times> int \<times> (int \<times> int) option"

record outgoing_datagram =
  og_data :: bytes
  og_destination :: "address option"
  og_ecn :: int
  og_txtime :: "int option"
  og_segment_size :: "int option"

datatype connection_event =
    StreamDataReceived int bytes bool
  | HandshakeCompleted string
  | HandshakeConfirmed string
  | ConnectionTerminated int bytes
  | VersionNegotiationReceived "int list"

text \<open>\<open>_Space\<close>: one packet number space.\<close>

record pn_space =
  cs_keys_send :: "packet_keys option"
  cs_keys_recv :: "packet_keys option"
  cs_keys_send_early :: "packet_keys option"
  cs_keys_recv_early :: "packet_keys option"
  cs_next_packet_number :: int
  cs_largest_received :: int
  cs_ecn_ect0 :: int
  cs_ecn_ect1 :: int
  cs_ecn_ce :: int
  cs_ecn_acked_ect0 :: int
  cs_ecn_acked_ect1 :: int
  cs_ecn_acked_ce :: int
  cs_received :: range_list
  cs_ack_eliciting_pending :: bool
  cs_crypto_offset_sent :: int
  cs_crypto_pending :: bytes
  cs_crypto_retransmit :: "crypto list"
  cs_crypto_received :: range_list
  cs_crypto_buffer :: bytes
  cs_crypto_read_offset :: int
  cs_discarded :: bool
  cs_key_phase :: bool
  cs_secret_send :: bytes
  cs_secret_recv_next :: bytes
  cs_keys_recv_next :: "packet_keys option"
  cs_keys_recv_previous :: "packet_keys option"
  cs_keys_recv_previous_expiry :: time
  cs_key_phase_first :: "int option"
  cs_key_phase_send_first :: int

definition mk_pn_space :: pn_space where
  "mk_pn_space =
     \<lparr>cs_keys_send = None, cs_keys_recv = None, cs_keys_send_early = None, cs_keys_recv_early = None,
      cs_next_packet_number = 0, cs_largest_received = -1, cs_ecn_ect0 = 0, cs_ecn_ect1 = 0,
      cs_ecn_ce = 0, cs_ecn_acked_ect0 = 0, cs_ecn_acked_ect1 = 0, cs_ecn_acked_ce = 0,
      cs_received = [], cs_ack_eliciting_pending = False, cs_crypto_offset_sent = 0,
      cs_crypto_pending = [], cs_crypto_retransmit = [], cs_crypto_received = [],
      cs_crypto_buffer = [], cs_crypto_read_offset = 0, cs_discarded = False, cs_key_phase = False,
      cs_secret_send = [], cs_secret_recv_next = [], cs_keys_recv_next = None,
      cs_keys_recv_previous = None, cs_keys_recv_previous_expiry = 0,
      cs_key_phase_first = Some 0, cs_key_phase_send_first = 0\<rparr>"

definition short_header_first_byte :: "pn_space \<Rightarrow> int \<Rightarrow> int" where
  "short_header_first_byte sp packet_number_length =
     (let first = 0x40 OR (packet_number_length - 1)
      in if cs_key_phase sp then first OR uint KEY_PHASE_BIT else first)"

text \<open>
  \<open>cg_keylog\<close> says whether a key log was given; the lines themselves are the TLS machine's
  \<open>hs_keylog\<close>. \<open>cg_qlog\<close> is the caller's factory of traces.
\<close>

record connection_config =
  cg_max_datagram_size :: int
  cg_transport_parameters :: transport_parameters
  cg_key_update_interval :: "int option"
  cg_retry :: "retry_context option"
  cg_version :: int
  cg_token :: bytes
  cg_keylog :: bool
  cg_qlog :: "(bytes \<Rightarrow> bool \<Rightarrow> time \<Rightarrow> qlog_trace option) option"

definition default_connection_config :: connection_config where
  "default_connection_config =
     \<lparr>cg_max_datagram_size = DEFAULT_MAX_DATAGRAM_SIZE,
      cg_transport_parameters = default_transport_parameters
        \<lparr>max_idle_timeout_ms := 30000, initial_max_data := 1048576,
         initial_max_stream_data_bidi_local := 262144, initial_max_stream_data_bidi_remote := 262144,
         initial_max_stream_data_uni := 262144, initial_max_streams_bidi := 100,
         initial_max_streams_uni := 16\<rparr>,
      cg_key_update_interval = None, cg_retry = None, cg_version = QUIC_V1, cg_token = [],
      cg_keylog = False, cg_qlog = None\<rparr>"

datatype tls_machine = ClientTls tls_client | ServerTls tls_server

fun tls_early_secret :: "tls_machine \<Rightarrow> bytes option" where
  "tls_early_secret (ClientTls t) = cl_early_secret t"
| "tls_early_secret (ServerTls t) = sv_early_secret t"

fun tls_cipher_suite :: "tls_machine \<Rightarrow> int" where
  "tls_cipher_suite (ClientTls t) = hs_cipher_suite t"
| "tls_cipher_suite (ServerTls t) = hs_cipher_suite t"

fun tls_receive :: "prims \<Rightarrow> encryption_level \<Rightarrow> bytes \<Rightarrow> time \<Rightarrow> (tls_machine, unit) se" where
  "tls_receive P level data now (ClientTls t) =
     (case client_receive P level data now t of (r, t') \<Rightarrow> (r, ClientTls t'))"
| "tls_receive P level data now (ServerTls t) =
     (case server_receive P level data now t of (r, t') \<Rightarrow> (r, ServerTls t'))"

fun tls_take_events :: "(tls_machine, tls_event list) se" where
  "tls_take_events (ClientTls t) = (case take_tls_events t of (r, t') \<Rightarrow> (r, ClientTls t'))"
| "tls_take_events (ServerTls t) = (case take_tls_events t of (r, t') \<Rightarrow> (r, ServerTls t'))"

text \<open>
  \<open>Connection\<close>. \<open>cn_rng\<close> is the connection's own source of randomness and \<open>cn_tls_rng\<close> the
  one its TLS machine is given.
\<close>

record connection =
  cn_is_client :: bool
  cn_config :: connection_config
  cn_state :: connection_state
  cn_destination :: "address option"
  cn_alpn :: string
  cn_host_cid :: bytes
  cn_peer_cid :: bytes
  cn_initial_dcid :: bytes
  cn_server_config :: "server_config option"
  cn_path_validated :: bool
  cn_path_challenges :: "bytes list"
  cn_ecn_enabled :: bool
  cn_retry_token :: bytes
  cn_new_tokens :: "bytes list"
  cn_retry_source_cid :: "bytes option"
  cn_original_dcid :: "bytes option"
  cn_local_parameters :: transport_parameters
  cn_peer_parameters :: "transport_parameters option"
  cn_tls :: "tls_machine option"
  cn_remembered_parameters :: "transport_parameters option"
  cn_spaces :: "encryption_level \<Rightarrow> pn_space"
  cn_recovery :: "new_reno loss_detection"
  cn_streams :: "stream_manager option"
  cn_events :: "connection_event list"
  cn_pending :: "outgoing_datagram list"
  cn_control_frames :: "frame list"
  cn_probes_pending :: "encryption_level \<Rightarrow> nat"
  cn_handshake_done_pending :: bool
  cn_pacing_credit :: rat
  cn_pacing_updated :: "time option"
  cn_pacing_deadline :: "time option"
  cn_close_frame :: "connection_close option"
  cn_close_sent :: bool
  cn_bytes_received :: int
  cn_bytes_sent :: int
  cn_address_validated :: bool
  cn_idle_started :: "time option"
  cn_qlog :: "qlog_trace option"
  cn_closing_deadline :: "time option"
  cn_peer_cid_confirmed :: bool
  cn_largest_time_received :: "encryption_level \<Rightarrow> time option"
  cn_rng :: rng
  cn_tls_rng :: rng


definition space_of :: "encryption_level \<Rightarrow> (connection, pn_space) se" where
  "space_of level = getS (\<lambda>c. cn_spaces c level)"

definition upd_space :: "encryption_level \<Rightarrow> (pn_space \<Rightarrow> pn_space) \<Rightarrow> (connection, unit) se" where
  "upd_space level f =
     modS (\<lambda>c. c\<lparr>cn_spaces := (cn_spaces c)(level := f (cn_spaces c level))\<rparr>)"

definition emit_event :: "connection_event \<Rightarrow> (connection, unit) se" where
  "emit_event e = modS (\<lambda>c. c\<lparr>cn_events := cn_events c @ [e]\<rparr>)"

definition set_state :: "connection_state \<Rightarrow> (connection, unit) se" where
  "set_state st = modS (\<lambda>c. c\<lparr>cn_state := st\<rparr>)"

text \<open>A method of loss detection, called on the connection.\<close>

definition recovery_call :: "(new_reno loss_detection, 'a) se \<Rightarrow> (connection, 'a) se" where
  "recovery_call = zoomS cn_recovery (\<lambda>ld c. c\<lparr>cn_recovery := ld\<rparr>)"


subsection \<open>The trace\<close>

definition conn_log :: "time \<Rightarrow> string \<Rightarrow> (string \<times> json) list \<Rightarrow> (connection, unit) se" where
  "conn_log now name data =
     modS (\<lambda>c. c\<lparr>cn_qlog := map_option (qlog_log now name data) (cn_qlog c)\<rparr>)"

definition open_qlog :: "bytes \<Rightarrow> time \<Rightarrow> (connection, unit) se" where
  "open_qlog group_id now =
     bindS (getS id) (\<lambda>c.
       case cn_qlog c of
         Some _ \<Rightarrow> retS ()
       | None \<Rightarrow> (case cg_qlog (cn_config c) of
           None \<Rightarrow> retS ()
         | Some factory \<Rightarrow> doS [
             modS (\<lambda>c. c\<lparr>cn_qlog := factory group_id (cn_is_client c) now\<rparr>),
             conn_log now ''quic:connection_started'' [(''dst_cid'', JStr (hex group_id))]]))"

definition log_recovery_metrics :: "time \<Rightarrow> (connection, unit) se" where
  "log_recovery_metrics now =
     bindS (getS cn_recovery) (\<lambda>ld.
       conn_log now ''quic:recovery_metrics_updated''
         [(''congestion_window'', JInt (cc_congestion_window NewReno (ld_controller ld))),
          (''bytes_in_flight'', JInt (cc_bytes_in_flight NewReno (ld_controller ld))),
          (''smoothed_rtt'', JNum (rtt_smoothed (ld_rtt ld) * 1000)),
          (''rtt_variance'', JNum (rtt_rttvar (ld_rtt ld) * 1000)),
          (''latest_rtt'', JNum (rtt_latest (ld_rtt ld) * 1000)),
          (''pto_count'', JInt (int (ld_pto_count ld)))])"

definition log_drop ::
  "time \<Rightarrow> string \<Rightarrow> int \<Rightarrow> encryption_level option \<Rightarrow> int option \<Rightarrow> (connection, unit) se" where
  "log_drop now trigger raw_length level packet_number =
     (let header = (case level of None \<Rightarrow> [] | Some l \<Rightarrow> [(''packet_type'', JStr (qlog_packet_type l))])
            @ (case packet_number of None \<Rightarrow> [] | Some pn \<Rightarrow> [(''packet_number'', JInt pn)])
      in conn_log now ''quic:packet_dropped''
           ([(''trigger'', JStr trigger), (''raw'', JObj [(''length'', JInt raw_length)])]
            @ (if header = [] then [] else [(''header'', JObj header)])))"


subsection \<open>Key management\<close>

definition install_initial_keys :: "prims \<Rightarrow> bytes \<Rightarrow> (connection, unit) se" where
  "install_initial_keys P dcid =
     bindS (liftS (derive_initial_secrets P dcid)) (\<lambda>secrets.
     bindS (liftS (derive_packet_keys P (is_client_secret secrets) TLS_AES_128_GCM_SHA256)) (\<lambda>client_keys.
     bindS (liftS (derive_packet_keys P (is_server_secret secrets) TLS_AES_128_GCM_SHA256)) (\<lambda>server_keys.
     bindS (getS cn_is_client) (\<lambda>is_client.
       upd_space Initial (\<lambda>sp. sp
         \<lparr>cs_keys_send := Some (if is_client then client_keys else server_keys),
          cs_keys_recv := Some (if is_client then server_keys else client_keys)\<rparr>)))))"

definition on_secret :: "prims \<Rightarrow> encryption_level \<Rightarrow> direction \<Rightarrow> bytes \<Rightarrow> int \<Rightarrow> (connection, unit) se" where
  "on_secret P level direction secret cipher_suite =
     bindS (liftS (derive_packet_keys P secret cipher_suite)) (\<lambda>keys.
     bindS (getS cn_is_client) (\<lambda>is_client.
       if direction = (if is_client then CLIENT else SERVER)
       then upd_space level (\<lambda>sp. sp\<lparr>cs_keys_send := Some keys, cs_secret_send := secret\<rparr>)
       else doS [
         upd_space level (\<lambda>sp. sp\<lparr>cs_keys_recv := Some keys\<rparr>),
         whenS (level = OneRtt)
           (bindS (liftS (next_generation P secret keys)) (\<lambda>(next_secret, next_keys).
             upd_space level (\<lambda>sp. sp\<lparr>cs_secret_recv_next := next_secret,
                                      cs_keys_recv_next := Some next_keys\<rparr>)))]))"

definition note_key_phase :: "encryption_level \<Rightarrow> unprotected_header \<Rightarrow> (connection, unit) se" where
  "note_key_phase level unprotected =
     upd_space level (\<lambda>sp.
       if uh_key_phase unprotected \<noteq> cs_key_phase sp then sp
       else case cs_key_phase_first sp of
           None \<Rightarrow> sp\<lparr>cs_key_phase_first := Some (uh_packet_number unprotected)\<rparr>
         | Some first \<Rightarrow> if uh_packet_number unprotected < first
             then sp\<lparr>cs_key_phase_first := Some (uh_packet_number unprotected)\<rparr> else sp)"

text \<open>The keys of a received packet, and whether using them follows an update of the peer.\<close>

definition receive_keys ::
  "bool \<Rightarrow> pn_space \<Rightarrow> encryption_level \<Rightarrow> unprotected_header \<Rightarrow> time \<Rightarrow> (packet_keys \<times> bool) result" where
  "receive_keys handshake_confirmed sp level unprotected now =
     (case cs_keys_recv sp of
        None \<Rightarrow> Inl AssertionError
      | Some keys_recv \<Rightarrow>
          if level \<noteq> OneRtt \<or> uh_key_phase unprotected = cs_key_phase sp then Inr (keys_recv, False)
          else if (case cs_key_phase_first sp of None \<Rightarrow> True
                   | Some first \<Rightarrow> uh_packet_number unprotected < first)
          then (case cs_keys_recv_previous sp of
                  None \<Rightarrow> Inr (keys_recv, False)
                | Some previous \<Rightarrow> if now > cs_keys_recv_previous_expiry sp then Inr (keys_recv, False)
                                   else Inr (previous, False))
          else (case cs_keys_recv_next sp of
                  None \<Rightarrow> Inr (keys_recv, False)
                | Some next_keys \<Rightarrow> if \<not> handshake_confirmed then Inr (keys_recv, False)
                                    else Inr (next_keys, True)))"

definition rotate_keys :: "prims \<Rightarrow> encryption_level \<Rightarrow> time \<Rightarrow> (connection, unit) se" where
  "rotate_keys P level now =
     bindS (space_of level) (\<lambda>sp.
     bindS (someS (cs_keys_recv_next sp)) (\<lambda>next_recv.
     bindS (someS (cs_keys_send sp)) (\<lambda>send.
     bindS (getS (\<lambda>c. ld_pto (cn_recovery c))) (\<lambda>pto. doS [
       upd_space level (\<lambda>sp. sp\<lparr>cs_keys_recv_previous := cs_keys_recv sp,
         cs_keys_recv_previous_expiry := now + 3 * pto, cs_keys_recv := Some next_recv\<rparr>),
       bindS (liftS (next_generation P (cs_secret_recv_next sp) next_recv)) (\<lambda>(secret, keys).
         upd_space level (\<lambda>sp. sp\<lparr>cs_secret_recv_next := secret, cs_keys_recv_next := Some keys\<rparr>)),
       bindS (liftS (next_generation P (cs_secret_send sp) send)) (\<lambda>(secret, keys).
         upd_space level (\<lambda>sp. sp\<lparr>cs_secret_send := secret, cs_keys_send := Some keys\<rparr>)),
       upd_space level (\<lambda>sp. sp\<lparr>cs_key_phase := \<not> cs_key_phase sp,
         cs_key_phase_send_first := cs_next_packet_number sp, cs_key_phase_first := None\<rparr>),
       conn_log now ''quic:key_updated''
         [(''key_type'', JStr ''1RTT''), (''key_phase'', JInt (of_bool (\<not> cs_key_phase sp)))]]))))"

text \<open>\<open>except (InvalidTag, ValueError)\<close>; the codec errors are subclasses of the latter.\<close>

definition decryption_error :: "exn \<Rightarrow> bool" where
  "decryption_error e \<longleftrightarrow> e \<in> set [InvalidTag, ValueError, UnicodeDecodeError, UnicodeEncodeError]"

definition decrypt_early ::
  "prims \<Rightarrow> encryption_level \<Rightarrow> bytes \<Rightarrow> nat \<Rightarrow> (connection, (int \<times> bytes) option) se" where
  "decrypt_early P level packet pn_offset =
     bindS (space_of level) (\<lambda>sp.
     bindS (someS (cs_keys_recv_early sp)) (\<lambda>keys.
       case bindE (remove_header_protection P keys packet pn_offset (cs_largest_received sp)) (\<lambda>unprotected.
            bindE (decrypt_payload P keys unprotected) (\<lambda>payload.
              Inr (uh_packet_number unprotected, payload))) of
         Inr r \<Rightarrow> retS (Some r)
       | Inl e \<Rightarrow> if decryption_error e then retS None else raiseS e))"

definition decrypt ::
  "prims \<Rightarrow> encryption_level \<Rightarrow> bytes \<Rightarrow> nat \<Rightarrow> time \<Rightarrow> bool \<Rightarrow> (connection, (int \<times> bytes) option) se" where
  "decrypt P level packet pn_offset now zero_rtt =
     (if zero_rtt then decrypt_early P level packet pn_offset
      else
      bindS (space_of level) (\<lambda>sp.
      bindS (someS (cs_keys_recv sp)) (\<lambda>keys_recv.
      bindS (getS (\<lambda>c. ld_handshake_confirmed (cn_recovery c))) (\<lambda>confirmed.
        case bindE (remove_header_protection P keys_recv packet pn_offset (cs_largest_received sp)) (\<lambda>unprotected.
             bindE (receive_keys confirmed sp level unprotected now) (\<lambda>(keys, updating).
             bindE (decrypt_payload P keys unprotected) (\<lambda>payload.
               Inr (unprotected, updating, payload)))) of
          Inl e \<Rightarrow> if decryption_error e then retS None else raiseS e
        | Inr (unprotected, updating, payload) \<Rightarrow>
            bindS (whenS updating (rotate_keys P level now)) (\<lambda>_.
            bindS (whenS (level = OneRtt) (note_key_phase level unprotected)) (\<lambda>_.
              retS (Some (uh_packet_number unprotected, payload))))))))"

definition initiate_key_update :: "prims \<Rightarrow> time \<Rightarrow> (connection, bool) se" where
  "initiate_key_update P now =
     bindS (space_of OneRtt) (\<lambda>sp.
     bindS (getS cn_recovery) (\<lambda>ld.
       if cs_keys_recv_next sp = None \<or> \<not> ld_handshake_confirmed ld then retS False
       else if ld_largest_acked OneRtt ld < cs_key_phase_send_first sp then retS False
       else bindS (rotate_keys P OneRtt now) (\<lambda>_. retS True)))"

definition maybe_update_keys :: "prims \<Rightarrow> time \<Rightarrow> (connection, unit) se" where
  "maybe_update_keys P now =
     bindS (getS (\<lambda>c. cg_key_update_interval (cn_config c))) (\<lambda>interval.
     case interval of
       None \<Rightarrow> retS ()
     | Some n \<Rightarrow> bindS (space_of OneRtt) (\<lambda>sp.
         whenS (cs_next_packet_number sp - cs_key_phase_send_first sp \<ge> n)
           (bindS (initiate_key_update P now) (\<lambda>_. retS ()))))"

definition discard_space :: "encryption_level \<Rightarrow> time \<Rightarrow> (connection, unit) se" where
  "discard_space level now =
     bindS (space_of level) (\<lambda>sp.
       whenS (\<not> cs_discarded sp) (doS [
         conn_log now ''quic:key_discarded'' [(''key_type'', JStr (qlog_packet_type level))],
         upd_space level (\<lambda>sp. sp\<lparr>cs_discarded := True, cs_keys_send := None, cs_keys_recv := None,
           cs_crypto_pending := [], cs_crypto_retransmit := []\<rparr>),
         modS (\<lambda>c. c\<lparr>cn_recovery := ld_discard_space NewReno level (cn_recovery c)\<rparr>)]))"


subsection \<open>The constructor\<close>

definition parameters_for ::
  "connection_config \<Rightarrow> bool \<Rightarrow> bytes \<Rightarrow> bytes option \<Rightarrow> bytes option \<Rightarrow> bytes \<Rightarrow> transport_parameters" where
  "parameters_for config is_client host_cid original_dcid retry_source initial_dcid =
     (let parameters = (cg_transport_parameters config)\<lparr>initial_source_connection_id := Some host_cid\<rparr>
      in if is_client then parameters
      else parameters
        \<lparr>original_destination_connection_id :=
           Some (case original_dcid of Some original \<Rightarrow> original | None \<Rightarrow> initial_dcid),
         retry_source_connection_id := retry_source\<rparr>)"

definition init_client_tls :: "prims \<Rightarrow> client_config option \<Rightarrow> (connection, unit) se" where
  "init_client_tls P client_config =
     (case client_config of
        None \<Rightarrow> raiseS ValueError
      | Some cf \<Rightarrow>
          bindS (getS id) (\<lambda>c.
          bindS (liftS (encode_transport_parameters (cn_local_parameters c))) (\<lambda>encoded.
          bindS (liftS (check_client_config cf)) (\<lambda>_. doS [
            modS (\<lambda>c. c\<lparr>cn_tls := Some (ClientTls
              (mk_tls_client P (cf\<lparr>cf_transport_parameters := encoded\<rparr>) None None
                (if cg_keylog (cn_config c) then Some [] else None) (cn_tls_rng c)))\<rparr>),
            case cf_session_ticket cf of
              None \<Rightarrow> retS ()
            | Some ticket \<Rightarrow> whenS (cf_early_data cf)
                (bindS (liftS (decode_transport_parameters (st_transport_parameters ticket))) (\<lambda>p.
                  modS (\<lambda>c. c\<lparr>cn_remembered_parameters := Some p\<rparr>)))]))))"

definition initial_connection ::
  "bool \<Rightarrow> server_config option \<Rightarrow> connection_config \<Rightarrow> address option \<Rightarrow> rng \<Rightarrow> rng \<Rightarrow> connection" where
  "initial_connection is_client server_config config destination rng tls_rng =
     (let host_cid = rng 0 CONNECTION_ID_LENGTH;
          peer_cid = (if is_client then rng 1 CONNECTION_ID_LENGTH else []);
          retry_source = map_option rc_source_cid (cg_retry config);
          original_dcid = map_option rc_original_destination_cid (cg_retry config)
      in \<lparr>cn_is_client = is_client, cn_config = config, cn_state = HANDSHAKING,
          cn_destination = destination, cn_alpn = [], cn_host_cid = host_cid, cn_peer_cid = peer_cid,
          cn_initial_dcid = peer_cid, cn_server_config = server_config, cn_path_validated = True,
          cn_path_challenges = [], cn_ecn_enabled = True, cn_retry_token = [], cn_new_tokens = [],
          cn_retry_source_cid = retry_source, cn_original_dcid = original_dcid,
          cn_local_parameters =
            parameters_for config is_client host_cid original_dcid retry_source peer_cid,
          cn_peer_parameters = None, cn_tls = None, cn_remembered_parameters = None,
          cn_spaces = (\<lambda>level. mk_pn_space),
          cn_recovery = mk_loss_detection (mk_new_reno (cg_max_datagram_size config)) is_client (25 / 1000),
          cn_streams = None, cn_events = [], cn_pending = [], cn_control_frames = [],
          cn_probes_pending = (\<lambda>level. 0), cn_handshake_done_pending = False, cn_pacing_credit = 0,
          cn_pacing_updated = None, cn_pacing_deadline = None, cn_close_frame = None,
          cn_close_sent = False, cn_bytes_received = 0, cn_bytes_sent = 0,
          cn_address_validated = is_client, cn_idle_started = None, cn_qlog = None,
          cn_closing_deadline = None, cn_peer_cid_confirmed = (\<not> is_client),
          cn_largest_time_received = (\<lambda>level. None),
          cn_rng = (if is_client then rest_rng (rest_rng rng) else rest_rng rng),
          cn_tls_rng = tls_rng\<rparr>)"

definition mk_connection ::
  "prims \<Rightarrow> bool \<Rightarrow> client_config option \<Rightarrow> server_config option \<Rightarrow> connection_config \<Rightarrow> address option
    \<Rightarrow> rng \<Rightarrow> rng \<Rightarrow> connection result" where
  "mk_connection P is_client client_config server_config config destination rng tls_rng =
     (case doS [
        if is_client then init_client_tls P client_config
        else if server_config = None then raiseS ValueError else retS (),
        whenS is_client (bindS (getS cn_initial_dcid) (install_initial_keys P))]
        (initial_connection is_client server_config config destination rng tls_rng) of
        (Inl e, _) \<Rightarrow> Inl e
      | (Inr _, c) \<Rightarrow> Inr c)"

end
