(* ===== verification/Connection_Receive.thy ===== *)
theory Connection_Receive
  imports Connection
begin

text \<open>
  The receive path of \<open>src/dsquic/connection.py\<close>: from a datagram to its packets, their frames,
  and what each frame does, together with the TLS events that follow a CRYPTO frame.
\<close>

unbundle bit_operations_syntax

section \<open>Model\<close>

subsection \<open>Text\<close>

text \<open>\<open>str(n)\<close> of an integer.\<close>

fun decimal_nat :: "nat \<Rightarrow> string" where
  "decimal_nat n =
     (if n < 10 then [char_of (48 + n)] else decimal_nat (n div 10) @ [char_of (48 + n mod 10)])"

declare decimal_nat.simps [simp del]

definition decimal :: "int \<Rightarrow> string" where
  "decimal n = (if n < 0 then CHR 0x2D # decimal_nat (nat (- n)) else decimal_nat (nat n))"

text \<open>
  \<open>bytes.decode("utf-8", "replace")\<close>, as the UTF-8 encoding of the string it gives: every
  maximal ill-formed part becomes U+FFFD.
\<close>

definition continuation :: "byte \<Rightarrow> bool" where
  "continuation b \<longleftrightarrow> 0x80 \<le> b \<and> b \<le> 0xBF"

definition second_byte :: "byte \<Rightarrow> byte \<Rightarrow> bool" where
  "second_byte lead b \<longleftrightarrow>
     (if lead = 0xE0 then 0xA0 \<le> b \<and> b \<le> 0xBF
      else if lead = 0xED then 0x80 \<le> b \<and> b \<le> 0x9F
      else if lead = 0xF0 then 0x90 \<le> b \<and> b \<le> 0xBF
      else if lead = 0xF4 then 0x80 \<le> b \<and> b \<le> 0x8F
      else continuation b)"

definition sequence_length :: "byte \<Rightarrow> nat" where
  "sequence_length lead =
     (if lead < 0x80 then 1
      else if 0xC2 \<le> lead \<and> lead \<le> 0xDF then 2
      else if 0xE0 \<le> lead \<and> lead \<le> 0xEF then 3
      else if 0xF0 \<le> lead \<and> lead \<le> 0xF4 then 4
      else 0)"

text \<open>How many of the bytes after the lead byte belong to its sequence.\<close>

definition tail_length :: "byte \<Rightarrow> bytes \<Rightarrow> nat" where
  "tail_length lead rest =
     (case rest of
        [] \<Rightarrow> 0
      | b # bs \<Rightarrow> if sequence_length lead < 2 \<or> \<not> second_byte lead b then 0
          else Suc (length (takeWhile continuation (take (sequence_length lead - 2) bs))))"

function utf8_replace :: "bytes \<Rightarrow> bytes" where
  "utf8_replace [] = []"
| "utf8_replace (lead # rest) =
     (let n = tail_length lead rest
      in (if Suc n = sequence_length lead then lead # take n rest else [0xEF, 0xBF, 0xBD])
         @ utf8_replace (drop n rest))"
  by pat_completeness auto
termination by (relation "measure length") auto


subsection \<open>Closing\<close>

definition close :: "int \<Rightarrow> bytes \<Rightarrow> int option \<Rightarrow> (connection, unit) se" where
  "close error_code reason frame_typ =
     bindS (getS cn_state) (\<lambda>st.
       whenS (st \<notin> set [CLOSING, DRAINING]) (doS [
         modS (\<lambda>c. c\<lparr>cn_close_frame := Some \<lparr>close_error_code = error_code, close_reason = reason,
                                              close_frame_type = frame_typ\<rparr>\<rparr>),
         set_state CLOSING]))"

definition on_connection_close :: "connection_close \<Rightarrow> time \<Rightarrow> (connection, unit) se" where
  "on_connection_close frame now =
     (let reason = utf8_replace (close_reason frame)
      in doS [
        set_state DRAINING,
        modS (\<lambda>c. c\<lparr>cn_closing_deadline := Some (now + 3 * ld_pto (cn_recovery c))\<rparr>),
        conn_log now ''quic:connection_closed''
          [(''initiator'', JStr ''remote''), (''error_code'', JInt (close_error_code frame)),
           (''reason'', JText reason)],
        emit_event (ConnectionTerminated (close_error_code frame) reason)])"

definition arm_idle_timer :: "time \<Rightarrow> (connection, unit) se" where
  "arm_idle_timer now = modS (\<lambda>c. c\<lparr>cn_idle_started := Some now\<rparr>)"

definition queue_control :: "frame \<Rightarrow> (connection, unit) se" where
  "queue_control f = modS (\<lambda>c. c\<lparr>cn_control_frames := cn_control_frames c @ [f]\<rparr>)"


subsection \<open>Streams\<close>

text \<open>A method of the stream manager, where the code has checked that there is one.\<close>

definition streams_call :: "(stream_manager, 'a) se \<Rightarrow> (connection, 'a) se" where
  "streams_call f c =
     (case cn_streams c of
        None \<Rightarrow> (Inl AssertionError, c)
      | Some m \<Rightarrow> (case f m of (r, m') \<Rightarrow> (r, c\<lparr>cn_streams := Some m'\<rparr>)))"

text \<open>\<open>streams.send_stream(stream_id).f(...)\<close>\<close>

definition send_stream_call :: "int \<Rightarrow> (send_stream \<Rightarrow> send_stream result) \<Rightarrow> (connection, unit) se" where
  "send_stream_call sid f =
     streams_call (\<lambda>m. case bindE (sm_send_stream sid m) f of
         Inl e \<Rightarrow> (Inl e, m)
       | Inr s \<Rightarrow> (Inr (), sm_put_send sid s m))"

definition has_streams :: "(connection, bool) se" where
  "has_streams = getS (\<lambda>c. cn_streams c \<noteq> None)"

definition maybe_extend_credit :: "int \<Rightarrow> recv_stream \<Rightarrow> (connection, unit) se" where
  "maybe_extend_credit sid recv =
     (case rv_credit_update recv of (limit, recv) \<Rightarrow> doS [
        streams_call (\<lambda>m. (Inr (), sm_put_recv sid recv m)),
        (case limit of None \<Rightarrow> retS ()
         | Some l \<Rightarrow> queue_control (MaxStreamData (rv_stream_id recv) l)),
        bindS (streams_call (\<lambda>m. map_prod Inr id (sm_max_data_update m))) (\<lambda>connection_limit.
          case connection_limit of None \<Rightarrow> retS () | Some l \<Rightarrow> queue_control (MaxData l)),
        forS [True, False] (\<lambda>bidirectional.
          bindS (streams_call (\<lambda>m. map_prod Inr id (sm_max_streams_update bidirectional m))) (\<lambda>streams_limit.
            case streams_limit of None \<Rightarrow> retS ()
            | Some l \<Rightarrow> queue_control (MaxStreams l bidirectional)))])"

definition handle_stream :: "env \<Rightarrow> stream \<Rightarrow> (connection, unit) se" where
  "handle_stream E frame =
     bindS has_streams (\<lambda>present.
     if \<not> present
     then raiseS (connection_error PROTOCOL_VIOLATION (ascii ''STREAM frame before transport parameters''))
     else bindS (catchS (streams_call (sm_on_stream_frame frame)) (\<lambda>e.
         case e of StreamError code \<Rightarrow> raiseS (connection_error code (env_message E e))
         | _ \<Rightarrow> raiseS e)) (\<lambda>recv.
       case rv_read recv of (data, recv') \<Rightarrow> doS [
         streams_call (\<lambda>m. (Inr (), sm_put_recv (stream_id frame) recv' m)),
         whenS (data \<noteq> [] \<or> (rv_is_fully_read recv' \<and> \<not> rv_is_fully_read recv))
           (emit_event (StreamDataReceived (stream_id frame) data (rv_is_fully_read recv'))),
         maybe_extend_credit (stream_id frame) recv']))"

definition handle_limit :: "frame \<Rightarrow> (connection, unit) se" where
  "handle_limit frame =
     bindS has_streams (\<lambda>present.
     case frame of
       MaxStreams maximum bidirectional \<Rightarrow>
         if maximum > MAX_STREAMS_LIMIT
         then raiseS (connection_error FRAME_ENCODING_ERROR
                (ascii (''MAX_STREAMS '' @ decimal maximum @ '' exceeds 2^60'')))
         else whenS present (streams_call (\<lambda>m. (Inr (), sm_on_max_streams maximum bidirectional m)))
     | MaxData maximum \<Rightarrow> whenS present (streams_call (\<lambda>m. (Inr (), sm_on_max_data maximum m)))
     | MaxStreamData sid maximum \<Rightarrow>
         whenS present (send_stream_call sid (\<lambda>s. Inr (ss_on_max_stream_data maximum s)))
     | _ \<Rightarrow> retS ())"


subsection \<open>Acknowledgements and loss\<close>

definition validate_ecn :: "encryption_level \<Rightarrow> ack \<Rightarrow> sent_packet list \<Rightarrow> time \<Rightarrow> (connection, unit) se" where
  "validate_ecn level frame acked now =
     (case acked of
        [] \<Rightarrow> retS ()
      | first # others \<Rightarrow>
          (case ack_ecn frame of
             None \<Rightarrow> modS (\<lambda>c. c\<lparr>cn_ecn_enabled := False\<rparr>)
           | Some counts \<Rightarrow> bindS (space_of level) (\<lambda>sp.
               if ect0 counts < cs_ecn_acked_ect0 sp \<or> ect1 counts < cs_ecn_acked_ect1 sp
                  \<or> ce counts < cs_ecn_acked_ce sp \<or> ect1 counts > 0
               then modS (\<lambda>c. c\<lparr>cn_ecn_enabled := False\<rparr>)
               else doS [
                 whenS (ce counts > cs_ecn_acked_ce sp) (modS (\<lambda>c. c\<lparr>cn_recovery := (cn_recovery c)
                   \<lparr>ld_controller := cc_on_ecn_ce NewReno
                      (fold max (map sp_time_sent others) (sp_time_sent first)) now
                      (ld_controller (cn_recovery c))\<rparr>\<rparr>)),
                 upd_space level (\<lambda>sp. sp\<lparr>cs_ecn_acked_ect0 := ect0 counts,
                   cs_ecn_acked_ect1 := ect1 counts, cs_ecn_acked_ce := ce counts\<rparr>)])))"

definition requeue_frame :: "encryption_level \<Rightarrow> frame \<Rightarrow> (connection, unit) se" where
  "requeue_frame level frame =
     bindS (getS cn_streams) (\<lambda>streams.
     case frame of
       Crypto f \<Rightarrow> upd_space level (\<lambda>sp. sp\<lparr>cs_crypto_retransmit := cs_crypto_retransmit sp @ [f]\<rparr>)
     | Stream f \<Rightarrow> whenS (streams \<noteq> None)
         (send_stream_call (stream_id f) (\<lambda>s. Inr (ss_requeue f s)))
     | HandshakeDone \<Rightarrow> modS (\<lambda>c. c\<lparr>cn_handshake_done_pending := True\<rparr>)
     | NewToken _ \<Rightarrow> queue_control frame
     | PathChallenge _ \<Rightarrow> queue_control frame
     | MaxData _ \<Rightarrow> (case streams of None \<Rightarrow> retS () | Some m \<Rightarrow> queue_control (MaxData (sm_local_max_data m)))
     | MaxStreamData sid _ \<Rightarrow> (case streams of None \<Rightarrow> retS ()
         | Some m \<Rightarrow> bindS (liftS (sm_recv_stream sid m)) (\<lambda>recv.
             queue_control (MaxStreamData sid (rv_max_stream_data recv))))
     | MaxStreams _ bidirectional \<Rightarrow> (case streams of None \<Rightarrow> retS ()
         | Some m \<Rightarrow> queue_control (MaxStreams
             (if bidirectional then sm_local_max_streams_bidi m else sm_local_max_streams_uni m)
             bidirectional))
     | _ \<Rightarrow> retS ())"

definition requeue_lost :: "sent_packet \<Rightarrow> (connection, unit) se" where
  "requeue_lost packet = forS (sp_frames packet) (requeue_frame (sp_level packet))"

definition on_acked_frame :: "frame \<Rightarrow> (connection, unit) se" where
  "on_acked_frame frame =
     (case frame of
        Stream f \<Rightarrow> bindS has_streams (\<lambda>present. whenS present
          (send_stream_call (stream_id f) (\<lambda>s. Inr (ss_on_frame_acked f s))))
      | _ \<Rightarrow> retS ())"

definition handle_ack :: "env \<Rightarrow> encryption_level \<Rightarrow> ack \<Rightarrow> time \<Rightarrow> (connection, unit) se" where
  "handle_ack E level frame now =
     bindS (getS cn_peer_parameters) (\<lambda>peer.
     let exponent = (case peer of None \<Rightarrow> 3 | Some p \<Rightarrow> ack_delay_exponent p);
         delay = of_int (ack_delay frame * 2 ^ nat exponent) / 1000000
     in bindS (catchS (recovery_call (ld_on_ack_received NewReno level frame delay now)) (\<lambda>e.
          if e = AckOfUnsentPacket then raiseS (connection_error PROTOCOL_VIOLATION (env_message E e))
          else raiseS e)) (\<lambda>result. doS [
        validate_ecn level frame (ao_acked result) now,
        forS (ao_acked result) (\<lambda>packet. forS (sp_frames packet) on_acked_frame),
        forS (ao_lost result) (\<lambda>packet. doS [
          conn_log now ''quic:packet_lost'' [(''header'', JObj
            [(''packet_type'', JStr (qlog_packet_type (sp_level packet))),
             (''packet_number'', JInt (sp_packet_number packet))])],
          requeue_lost packet]),
        log_recovery_metrics now,
        bindS (getS cn_is_client) (\<lambda>is_client.
          whenS (is_client \<and> level = Handshake) (discard_space Initial now))]))"


subsection \<open>TLS events\<close>

definition validate_peer_parameters :: "(connection, unit) se" where
  "validate_peer_parameters =
     bindS (getS id) (\<lambda>c.
     bindS (someS (cn_peer_parameters c)) (\<lambda>peer.
       if (case initial_source_connection_id peer of None \<Rightarrow> False | Some cid \<Rightarrow> cid \<noteq> cn_peer_cid c)
       then raiseS (connection_error TRANSPORT_PARAMETER_ERROR
              (ascii ''initial_source_connection_id mismatch''))
       else whenS (cn_is_client c)
        (if (case original_destination_connection_id peer of None \<Rightarrow> False
             | Some cid \<Rightarrow> cid \<noteq> cn_initial_dcid c)
         then raiseS (connection_error TRANSPORT_PARAMETER_ERROR
                (ascii ''original_destination_connection_id mismatch''))
         else if retry_source_connection_id peer \<noteq> cn_retry_source_cid c
         then raiseS (connection_error TRANSPORT_PARAMETER_ERROR
                (ascii ''retry_source_connection_id mismatch''))
         else retS ())))"

definition confirm_handshake :: "time \<Rightarrow> (connection, unit) se" where
  "confirm_handshake now = doS [
     upd_space OneRtt (\<lambda>sp. sp\<lparr>cs_keys_recv_early := None\<rparr>),
     modS (\<lambda>c. c\<lparr>cn_recovery := (cn_recovery c)\<lparr>ld_handshake_confirmed := True\<rparr>\<rparr>),
     discard_space Handshake now,
     bindS (getS cn_is_client) (\<lambda>is_client. whenS is_client (discard_space Initial now)),
     bindS (getS cn_alpn) (\<lambda>alpn. emit_event (HandshakeConfirmed alpn))]"

text \<open>The reason \<open>"limits reduced under accepted 0-RTT (RFC 9001 \<section>7.4.1)"\<close>.\<close>

definition REDUCED_LIMITS :: bytes where
  "REDUCED_LIMITS = ascii ''limits reduced under accepted 0-RTT (RFC 9001 '' @ [0xC2, 0xA7] @ ascii ''7.4.1)''"

text \<open>The streams at completion: made now, or given the server's fresh limits after 0-RTT.\<close>

definition settle_streams :: "transport_parameters \<Rightarrow> (connection, unit) se" where
  "settle_streams peer =
     bindS (getS id) (\<lambda>c.
       case cn_streams c of
         None \<Rightarrow> modS (\<lambda>c. c\<lparr>cn_streams := Some (mk_stream_manager (cn_is_client c)
                   (flow_limits (cn_local_parameters c)) (flow_limits peer))\<rparr>)
       | Some _ \<Rightarrow> whenS (cn_is_client c)
           (case cn_tls c of
              Some (ClientTls tls) \<Rightarrow>
                bindS (someS (cn_remembered_parameters c)) (\<lambda>remembered.
                  if cl_early_data_accepted tls \<and> reduces_zero_rtt_limits remembered peer
                  then raiseS (connection_error PROTOCOL_VIOLATION REDUCED_LIMITS)
                  else streams_call (\<lambda>m. (Inr (), sm_update_peer_limits (flow_limits peer) m)))
            | _ \<Rightarrow> raiseS AssertionError))"

definition resend_rejected_early_data :: "(connection, unit) se" where
  "resend_rejected_early_data =
     bindS (getS id) (\<lambda>c.
       case cn_tls c of
         Some (ClientTls tls) \<Rightarrow>
           whenS (cn_is_client c \<and> cl_early_secret tls \<noteq> None \<and> \<not> cl_early_data_accepted tls)
             (bindS (recovery_call (\<lambda>ld. map_prod Inr id (ld_restart_space NewReno OneRtt ld))) (\<lambda>sent.
               forS sent requeue_lost))
       | _ \<Rightarrow> retS ())"

definition on_handshake_complete :: "string \<Rightarrow> bytes \<Rightarrow> time \<Rightarrow> (connection, unit) se" where
  "on_handshake_complete alpn peer_transport_parameters now =
     bindS (modS (\<lambda>c. c\<lparr>cn_alpn := alpn\<rparr>)) (\<lambda>_.
     bindS (liftS (decode_transport_parameters peer_transport_parameters)) (\<lambda>peer. doS [
       modS (\<lambda>c. c\<lparr>cn_peer_parameters := Some peer\<rparr>),
       conn_log now ''quic:parameters_set''
         [(''initiator'', JStr ''remote''), (''initial_max_data'', JInt (initial_max_data peer)),
          (''initial_max_streams_bidi'', JInt (initial_max_streams_bidi peer)),
          (''max_idle_timeout'', JInt (max_idle_timeout_ms peer))],
       validate_peer_parameters,
       settle_streams peer,
       upd_space OneRtt (\<lambda>sp. sp\<lparr>cs_keys_send_early := None\<rparr>),
       resend_rejected_early_data,
       set_state CONNECTED,
       emit_event (HandshakeCompleted alpn),
       bindS (getS cn_is_client) (\<lambda>is_client. whenS (\<not> is_client) (doS [
         modS (\<lambda>c. c\<lparr>cn_handshake_done_pending := True\<rparr>),
         confirm_handshake now])),
       arm_idle_timer now]))"

definition sync_early_keys :: "prims \<Rightarrow> (connection, unit) se" where
  "sync_early_keys P =
     bindS (getS id) (\<lambda>c.
     bindS (someS (cn_tls c)) (\<lambda>tls.
       case tls_early_secret tls of
         None \<Rightarrow> upd_space OneRtt (\<lambda>sp. sp\<lparr>cs_keys_send_early := None\<rparr>)
       | Some secret \<Rightarrow>
           if cn_is_client c
           then whenS (cs_keys_send_early (cn_spaces c OneRtt) = None)
             (bindS (liftS (derive_packet_keys P secret (tls_cipher_suite tls))) (\<lambda>keys.
               upd_space OneRtt (\<lambda>sp. sp\<lparr>cs_keys_send_early := Some keys\<rparr>)))
           else whenS (cs_keys_recv_early (cn_spaces c OneRtt) = None)
             (bindS (liftS (derive_packet_keys P secret (tls_cipher_suite tls))) (\<lambda>keys.
              bindS (upd_space OneRtt (\<lambda>sp. sp\<lparr>cs_keys_recv_early := Some keys\<rparr>)) (\<lambda>_.
               case tls of
                 ClientTls _ \<Rightarrow> raiseS AssertionError
               | ServerTls server \<Rightarrow> whenS (cn_streams c = None)
                   (bindS (liftS (decode_transport_parameters (sv_client_transport_parameters server))) (\<lambda>peer.
                     modS (\<lambda>c. c\<lparr>cn_peer_parameters := Some peer,
                       cn_streams := Some (mk_stream_manager False
                         (flow_limits (cn_local_parameters c)) (flow_limits peer))\<rparr>))))))))"

text \<open>A method of the TLS machine, where there is one.\<close>

definition tls_call :: "(tls_machine, 'a) se \<Rightarrow> (connection, 'a) se" where
  "tls_call f c =
     (case cn_tls c of
        None \<Rightarrow> (Inl AssertionError, c)
      | Some t \<Rightarrow> (case f t of (r, t') \<Rightarrow> (r, c\<lparr>cn_tls := Some t'\<rparr>)))"

definition on_tls_event :: "prims \<Rightarrow> time \<Rightarrow> tls_event \<Rightarrow> (connection, unit) se" where
  "on_tls_event P now event =
     (case event of
        SendData level data \<Rightarrow>
          upd_space level (\<lambda>sp. sp\<lparr>cs_crypto_pending := cs_crypto_pending sp @ data\<rparr>)
      | SecretAvailable level direction secret cipher_suite \<Rightarrow>
          on_secret P level direction secret cipher_suite
      | HandshakeComplete alpn peer_transport_parameters \<Rightarrow>
          on_handshake_complete alpn peer_transport_parameters now)"

definition drain_tls_events :: "prims \<Rightarrow> time \<Rightarrow> (connection, unit) se" where
  "drain_tls_events P now =
     bindS (getS cn_tls) (\<lambda>tls. whenS (tls \<noteq> None)
       (bindS (tls_call tls_take_events) (\<lambda>events. doS [
          forS events (on_tls_event P now),
          sync_early_keys P])))"

text \<open>
  CRYPTO reassembly: place the bytes of a frame, and take what has become contiguous.
  \<open>None\<close> where a gap remains.
\<close>

definition reassemble :: "crypto \<Rightarrow> pn_space \<Rightarrow> bytes option \<times> pn_space" where
  "reassemble frame sp =
     (let stop = crypto_offset frame + len (crypto_data frame);
          sp = sp\<lparr>cs_crypto_buffer := splice (cs_crypto_buffer sp) (nat (crypto_offset frame)) (crypto_data frame),
                  cs_crypto_received := rs_add (crypto_offset frame) stop (cs_crypto_received sp)\<rparr>;
          readable_end = rs_contiguous_from (cs_crypto_received sp) (cs_crypto_read_offset sp)
      in if readable_end = cs_crypto_read_offset sp then (None, sp)
      else (Some (take (nat (readable_end - cs_crypto_read_offset sp))
                   (drop (nat (cs_crypto_read_offset sp)) (cs_crypto_buffer sp))),
            sp\<lparr>cs_crypto_read_offset := readable_end\<rparr>))"

definition handle_crypto :: "env \<Rightarrow> encryption_level \<Rightarrow> crypto \<Rightarrow> time \<Rightarrow> (connection, unit) se" where
  "handle_crypto E level frame now =
     bindS (getS cn_tls) (\<lambda>tls.
     if tls = None
     then raiseS (connection_error PROTOCOL_VIOLATION (ascii ''CRYPTO frame before Initial''))
     else let stop = crypto_offset frame + len (crypto_data frame)
     in if stop > MAX_CRYPTO_BUFFER
     then raiseS (connection_error CRYPTO_BUFFER_EXCEEDED
            (ascii (''CRYPTO offset '' @ decimal stop @ '' exceeds the buffer limit'')))
     else bindS (space_of level) (\<lambda>sp. case reassemble frame sp of (delivered, sp') \<Rightarrow>
       bindS (upd_space level (\<lambda>_. sp')) (\<lambda>_.
         case delivered of
           None \<Rightarrow> retS ()
         | Some ordered \<Rightarrow> doS [
             catchS (tls_call (tls_receive (env_prims E) level ordered now)) (\<lambda>e.
               case e of TlsAlert alert \<Rightarrow>
                   raiseS (connection_error (CRYPTO_ERROR_BASE + alert) (env_message E e))
               | _ \<Rightarrow> raiseS e),
             drain_tls_events (env_prims E) now])))"


subsection \<open>Frames\<close>

definition handle_frame :: "env \<Rightarrow> encryption_level \<Rightarrow> time \<Rightarrow> frame \<Rightarrow> (connection, unit) se" where
  "handle_frame E level now frame =
     (case frame of
        Ack f \<Rightarrow> handle_ack E level f now
      | Crypto f \<Rightarrow> handle_crypto E level f now
      | Stream f \<Rightarrow> handle_stream E f
      | MaxData _ \<Rightarrow> handle_limit frame
      | MaxStreamData _ _ \<Rightarrow> handle_limit frame
      | MaxStreams _ _ \<Rightarrow> handle_limit frame
      | HandshakeDone \<Rightarrow> bindS (getS cn_is_client) (\<lambda>is_client.
          if \<not> is_client
          then raiseS (connection_error PROTOCOL_VIOLATION (ascii ''client sent HANDSHAKE_DONE''))
          else confirm_handshake now)
      | NewToken token \<Rightarrow> bindS (getS cn_is_client) (\<lambda>is_client.
          if \<not> is_client
          then raiseS (connection_error PROTOCOL_VIOLATION (ascii ''client sent NEW_TOKEN''))
          else modS (\<lambda>c. c\<lparr>cn_new_tokens := cn_new_tokens c @ [token]\<rparr>))
      | PathChallenge data \<Rightarrow> queue_control (PathResponse data)
      | PathResponse data \<Rightarrow> bindS (getS cn_path_challenges) (\<lambda>challenges.
          whenS (data \<in> set challenges)
            (modS (\<lambda>c. c\<lparr>cn_path_challenges := [], cn_path_validated := True\<rparr>)))
      | ConnectionClose f \<Rightarrow> on_connection_close f now
      | _ \<Rightarrow> retS ())"

fun barred_in_zero_rtt :: "frame \<Rightarrow> bool" where
  "barred_in_zero_rtt (Ack _) = True"
| "barred_in_zero_rtt (Crypto _) = True"
| "barred_in_zero_rtt (NewToken _) = True"
| "barred_in_zero_rtt (PathResponse _) = True"
| "barred_in_zero_rtt _ = False"

definition handle_payload ::
  "env \<Rightarrow> encryption_level \<Rightarrow> bytes \<Rightarrow> time \<Rightarrow> (string \<times> json) list \<Rightarrow> bool \<Rightarrow> (connection, unit) se" where
  "handle_payload E level payload now received zero_rtt =
     (case parse_frames payload of
        Inl e \<Rightarrow> if e = FrameParseError \<or> e = BufferReadError
          then raiseS (connection_error FRAME_ENCODING_ERROR (env_message E e)) else raiseS e
      | Inr parsed \<Rightarrow> doS [
          conn_log now ''quic:packet_received''
            (received @ [(''frames'', JList (map frame_detail parsed))]),
          forS parsed (\<lambda>frame.
            if zero_rtt \<and> barred_in_zero_rtt frame
            then raiseS (connection_error PROTOCOL_VIOLATION (ascii ''frame not permitted in a 0-RTT packet''))
            else doS [
              whenS (is_ack_eliciting frame)
                (upd_space level (\<lambda>sp. sp\<lparr>cs_ack_eliciting_pending := True\<rparr>)),
              handle_frame E level now frame])])"


subsection \<open>Packets\<close>

definition handle_version_negotiation :: "bytes \<Rightarrow> time \<Rightarrow> (connection, unit) se" where
  "handle_version_negotiation data now =
     bindS (getS id) (\<lambda>c.
       if cn_peer_cid_confirmed c then log_drop now ''unsupported'' (len data) None None
       else case parse_version_negotiation data of
         Inl e \<Rightarrow> if e = BufferReadError then log_drop now ''invalid'' (len data) None None else raiseS e
       | Inr packet \<Rightarrow>
           if cg_version (cn_config c) \<in> set (vn_versions packet)
           then log_drop now ''invalid'' (len data) None None
           else if vn_destination_cid packet \<noteq> cn_host_cid c \<or> vn_source_cid packet \<noteq> cn_peer_cid c
           then log_drop now ''invalid'' (len data) None None
           else doS [
             conn_log now ''quic:packet_received''
               [(''header'', JObj [(''packet_type'', JStr ''version_negotiation'')])],
             emit_event (VersionNegotiationReceived (vn_versions packet)),
             set_state TERMINATED])"

text \<open>\<open>except (HeaderParseError, BufferReadError, UnsupportedVersion)\<close>\<close>

definition header_error :: "exn \<Rightarrow> bool" where
  "header_error e \<longleftrightarrow> (case e of HeaderParseError \<Rightarrow> True | BufferReadError \<Rightarrow> True
     | UnsupportedVersion _ \<Rightarrow> True | _ \<Rightarrow> False)"

definition crypto_frames :: "frame list \<Rightarrow> crypto list" where
  "crypto_frames fs = concat (map (\<lambda>f. case f of Crypto x \<Rightarrow> [x] | _ \<Rightarrow> []) fs)"

definition handle_retry :: "prims \<Rightarrow> bytes \<Rightarrow> time \<Rightarrow> (connection, unit) se" where
  "handle_retry P data now =
     bindS (getS id) (\<lambda>c.
       if cn_retry_token c \<noteq> [] \<or> cn_peer_cid_confirmed c
       then log_drop now ''unsupported'' (len data) None None
       else case parse_retry P data (cn_initial_dcid c) of
         Inl e \<Rightarrow> if header_error e then log_drop now ''invalid'' (len data) None None else raiseS e
       | Inr packet \<Rightarrow>
           if retry_token packet = [] then log_drop now ''invalid'' (len data) None None
           else doS [
             modS (\<lambda>c. c\<lparr>cn_retry_token := retry_token packet,
               cn_retry_source_cid := Some (retry_source_cid packet),
               cn_peer_cid := retry_source_cid packet\<rparr>),
             install_initial_keys P (retry_source_cid packet),
             bindS (recovery_call (\<lambda>ld. map_prod Inr id (ld_restart_space NewReno Initial ld))) (\<lambda>sent.
               upd_space Initial (\<lambda>sp. sp\<lparr>cs_crypto_retransmit :=
                 cs_crypto_retransmit sp @ concat (map (\<lambda>p. crypto_frames (sp_frames p)) sent)\<rparr>)),
             conn_log now ''quic:packet_received''
               [(''header'', JObj [(''packet_type'', JStr ''retry'')])]])"

definition adopt_client_initial :: "prims \<Rightarrow> bytes \<Rightarrow> bytes \<Rightarrow> (connection, unit) se" where
  "adopt_client_initial P dcid scid =
     bindS (getS id) (\<lambda>c. doS [
       whenS (cn_tls c = None)
         (bindS (someS (cn_server_config c)) (\<lambda>sc.
          bindS (modS (\<lambda>c. c\<lparr>cn_initial_dcid := dcid,
            cn_local_parameters := parameters_for (cn_config c) (cn_is_client c) (cn_host_cid c)
              (cn_original_dcid c) (cn_retry_source_cid c) dcid\<rparr>)) (\<lambda>_.
          bindS (getS cn_local_parameters) (\<lambda>local.
          bindS (liftS (encode_transport_parameters local)) (\<lambda>encoded. doS [
            modS (\<lambda>c. c\<lparr>cn_tls := Some (ServerTls
              (mk_tls_server P (sc\<lparr>sc_transport_parameters := encoded\<rparr>) None None
                (if cg_keylog (cn_config c) then Some [] else None) (cn_tls_rng c)))\<rparr>),
            install_initial_keys P dcid]))))),
       bindS (getS cn_peer_cid) (\<lambda>peer. whenS (peer = []) (modS (\<lambda>c. c\<lparr>cn_peer_cid := scid\<rparr>)))])"

text \<open>A packet in a datagram: its level, packet number offset, bytes, and where the next begins.\<close>

type_synonym located = "encryption_level \<times> nat \<times> bytes \<times> int"

fun level_of_packet_type :: "packet_type \<Rightarrow> encryption_level option" where
  "level_of_packet_type INITIAL = Some Initial"
| "level_of_packet_type HANDSHAKE = Some Handshake"
| "level_of_packet_type ZERO_RTT = Some OneRtt"
| "level_of_packet_type RETRY = None"

definition locate_packet :: "prims \<Rightarrow> bytes \<Rightarrow> time \<Rightarrow> (connection, located option) se" where
  "locate_packet P data now =
     bindS (getS id) (\<lambda>c.
     bindS (liftS (get_at 0 data)) (\<lambda>first.
       if first AND 0x80 = 0
       then bindS (liftS (parse_short_header data (length (cn_host_cid c)))) (\<lambda>header.
              retS (Some (OneRtt, sh_pn_offset header, data, len data)))
       else if cn_is_client c \<and> is_version_negotiation data
       then bindS (handle_version_negotiation data now) (\<lambda>_. retS None)
       else if cn_is_client c \<and> is_retry data
       then bindS (handle_retry P data now) (\<lambda>_. retS None)
       else bindS (liftS (parse_long_header data)) (\<lambda>header.
         case level_of_packet_type (lh_packet_type header) of
           None \<Rightarrow> retS None
         | Some level \<Rightarrow>
             if cn_is_client c \<and> lh_packet_type header = ZERO_RTT then retS None
             else bindS
               (if \<not> cn_is_client c \<and> level = Initial then doS [
                  open_qlog (lh_destination_cid header) now,
                  adopt_client_initial P (lh_destination_cid header) (lh_source_cid header)]
                else whenS (cn_is_client c \<and> \<not> cn_peer_cid_confirmed c)
                  (modS (\<lambda>c. c\<lparr>cn_peer_cid := lh_source_cid header, cn_peer_cid_confirmed := True\<rparr>))) (\<lambda>_.
               let packet_end = int (lh_pn_offset header) + lh_length header
               in retS (Some (level, lh_pn_offset header, take (nat packet_end) data, packet_end))))))"

definition count_ecn :: "int \<Rightarrow> pn_space \<Rightarrow> pn_space" where
  "count_ecn ecn sp =
     (if ecn = ECT_0 then sp\<lparr>cs_ecn_ect0 := cs_ecn_ect0 sp + 1\<rparr>
      else if ecn = ECT_1 then sp\<lparr>cs_ecn_ect1 := cs_ecn_ect1 sp + 1\<rparr>
      else if ecn = ECN_CE then sp\<lparr>cs_ecn_ce := cs_ecn_ce sp + 1\<rparr>
      else sp)"

text \<open>The bookkeeping of \<open>_process_packet\<close> for a packet that authenticated and is new.\<close>

definition note_received :: "encryption_level \<Rightarrow> int \<Rightarrow> time \<Rightarrow> int \<Rightarrow> (connection, unit) se" where
  "note_received level packet_number now ecn = doS [
     upd_space level (\<lambda>sp. sp\<lparr>cs_received := rs_add packet_number (packet_number + 1) (cs_received sp)\<rparr>),
     upd_space level (count_ecn ecn),
     bindS (space_of level) (\<lambda>sp. whenS (packet_number > cs_largest_received sp) (doS [
       upd_space level (\<lambda>sp. sp\<lparr>cs_largest_received := packet_number\<rparr>),
       modS (\<lambda>c. c\<lparr>cn_largest_time_received := (cn_largest_time_received c)(level := Some now)\<rparr>)])),
     bindS (getS cn_is_client) (\<lambda>is_client. whenS (\<not> is_client \<and> level = Handshake) (doS [
       discard_space Initial now,
       modS (\<lambda>c. c\<lparr>cn_address_validated := True\<rparr>)]))]"

definition handle_located :: "env \<Rightarrow> located \<Rightarrow> time \<Rightarrow> int \<Rightarrow> (connection, int) se" where
  "handle_located E loc now ecn =
     (case loc of (level, pn_offset, packet, packet_end) \<Rightarrow>
     bindS (liftS (get_at 0 packet)) (\<lambda>first.
     let zero_rtt = (level = OneRtt \<and> first AND 0x80 \<noteq> 0)
     in bindS (getS id) (\<lambda>c.
       let sp = cn_spaces c level;
           keys_recv = (if zero_rtt then cs_keys_recv_early sp else cs_keys_recv sp)
       in if keys_recv = None \<or> cs_discarded sp
       then bindS (log_drop now ''key_unavailable'' packet_end (Some level) None) (\<lambda>_. retS packet_end)
       else if level = OneRtt \<and> \<not> zero_rtt \<and> cn_state c = HANDSHAKING
       then bindS (log_drop now ''general'' packet_end (Some level) None) (\<lambda>_. retS packet_end)
       else bindS (decrypt (env_prims E) level packet pn_offset now zero_rtt) (\<lambda>decrypted.
         case decrypted of
           None \<Rightarrow> bindS (log_drop now ''decryption_failure'' packet_end (Some level) None) (\<lambda>_. retS packet_end)
         | Some (packet_number, payload) \<Rightarrow>
             bindS (space_of level) (\<lambda>sp.
             if rs_covers (cs_received sp) packet_number (packet_number + 1)
             then bindS (log_drop now ''duplicate'' packet_end (Some level) (Some packet_number))
                    (\<lambda>_. retS packet_end)
             else
               bindS (note_received level packet_number now ecn) (\<lambda>_.
               bindS (handle_payload E level payload now
                 [(''header'', JObj
                    [(''packet_type'', JStr (if zero_rtt then ''0RTT'' else qlog_packet_type level)),
                     (''packet_number'', JInt packet_number)]),
                  (''raw'', JObj [(''length'', JInt packet_end)])] zero_rtt) (\<lambda>_.
                 retS packet_end)))))))"

definition process_packet :: "env \<Rightarrow> bytes \<Rightarrow> time \<Rightarrow> int \<Rightarrow> (connection, int) se" where
  "process_packet E data now ecn =
     bindS (catchS (locate_packet (env_prims E) data now)
              (\<lambda>e. if header_error e then retS None else raiseS e)) (\<lambda>located.
     case located of
       None \<Rightarrow> bindS (log_drop now ''invalid'' (len data) None None) (\<lambda>_. retS 0)
     | Some loc \<Rightarrow> handle_located E loc now ecn)"

text \<open>The loop over the coalesced packets of a datagram, on what is left of it.\<close>

function process_packets :: "env \<Rightarrow> time \<Rightarrow> int \<Rightarrow> bytes \<Rightarrow> connection \<Rightarrow> unit result \<times> connection" where
  "process_packets E now ecn rest c =
     (if rest = [] then (Inr (), c)
      else case process_packet E rest now ecn c of
          (Inl e, c) \<Rightarrow> (Inl e, c)
        | (Inr consumed, c) \<Rightarrow>
            if consumed \<le> 0 then (Inr (), c)
            else process_packets E now ecn (drop (nat consumed) rest) c)"
  by pat_completeness auto
termination by (relation "measure (\<lambda>(E, now, ecn, rest, c). length rest)") auto

declare process_packets.simps [simp del]

definition receive_datagram :: "env \<Rightarrow> bytes \<Rightarrow> time \<Rightarrow> address option \<Rightarrow> int \<Rightarrow> (connection, unit) se" where
  "receive_datagram E data now source ecn =
     bindS (getS cn_state) (\<lambda>st. whenS (st \<notin> set [TERMINATED, DRAINING]) (doS [
       modS (\<lambda>c. c\<lparr>cn_bytes_received := cn_bytes_received c + len data\<rparr>),
       modS (\<lambda>c. if cn_destination c = None \<and> source \<noteq> None then c\<lparr>cn_destination := source\<rparr> else c),
       process_packets E now ecn data,
       arm_idle_timer now]))"

definition datagram_received :: "env \<Rightarrow> bytes \<Rightarrow> time \<Rightarrow> address option \<Rightarrow> int \<Rightarrow> (connection, unit) se" where
  "datagram_received E data now source ecn =
     catchS (receive_datagram E data now source ecn) (\<lambda>e.
       case e of
         ConnectionError code reason frame_typ \<Rightarrow> doS [
           close code reason frame_typ,
           conn_log now ''quic:connection_closed''
             [(''initiator'', JStr ''local''), (''error_code'', JInt code), (''reason'', JText reason)],
           emit_event (ConnectionTerminated code reason)]
       | _ \<Rightarrow> raiseS e)"

end
