(* ===== verification/Connection_Send.thy ===== *)
theory Connection_Send
  imports Connection_Receive
begin

text \<open>
  The send path of \<open>src/dsquic/connection.py\<close>: what a packet carries, how packets are built and
  coalesced into datagrams, the pacer and the send budget, and the close datagram.
\<close>

unbundle bit_operations_syntax

section \<open>Model\<close>

subsection \<open>What is queued\<close>

definition has_pending_data :: "encryption_level \<Rightarrow> connection \<Rightarrow> bool" where
  "has_pending_data level c =
     (let sp = cn_spaces c level
      in if cs_crypto_pending sp \<noteq> [] \<or> cs_crypto_retransmit sp \<noteq> [] then True
      else if level \<noteq> OneRtt then False
      else if cn_control_frames c \<noteq> [] \<or> cn_handshake_done_pending c then True
      else case cn_streams c of None \<Rightarrow> False | Some m \<Rightarrow> sm_writable_streams m \<noteq> [])"

definition resend_early_application_data :: "(connection, unit) se" where
  "resend_early_application_data =
     bindS (getS id) (\<lambda>c. whenS (\<not> has_pending_data OneRtt c)
       (forS (take PROBE_PACKETS (ld_unacked OneRtt (cn_recovery c))) requeue_lost))"

definition prepare_probe :: "encryption_level \<Rightarrow> (connection, unit) se" where
  "prepare_probe level =
     bindS (getS (\<lambda>c. ld_handshake_confirmed (cn_recovery c))) (\<lambda>confirmed. doS [
       whenS (level = Handshake \<and> \<not> confirmed) resend_early_application_data,
       bindS (getS id) (\<lambda>c. whenS (\<not> has_pending_data level c)
         (forS (take PROBE_PACKETS (ld_unacked level (cn_recovery c))) requeue_lost))])"

definition build_ack :: "pn_space \<Rightarrow> ack option" where
  "build_ack sp =
     (if \<not> cs_ack_eliciting_pending sp \<or> cs_largest_received sp < 0 then None
      else let newest = drop (length (cs_received sp) - MAX_ACK_RANGES) (cs_received sp);
               counts = (if cs_ecn_ect0 sp \<noteq> 0 \<or> cs_ecn_ect1 sp \<noteq> 0 \<or> cs_ecn_ce sp \<noteq> 0
                 then Some \<lparr>ect0 = cs_ecn_ect0 sp, ect1 = cs_ecn_ect1 sp, ce = cs_ecn_ce sp\<rparr> else None)
      in Some \<lparr>ack_largest = cs_largest_received sp, ack_delay = 0,
               ack_ranges = map (\<lambda>(start, stop). (start, stop - 1)) (rev newest), ack_ecn = counts\<rparr>)"


subsection \<open>The frames of a packet\<close>

type_synonym chosen = "frame list \<times> int"

definition choose_ack :: "encryption_level \<Rightarrow> int \<Rightarrow> (connection, chosen) se" where
  "choose_ack level room =
     bindS (space_of level) (\<lambda>sp.
       case build_ack sp of
         None \<Rightarrow> retS ([], 0)
       | Some ack \<Rightarrow> bindS (liftS (encode (Ack ack))) (\<lambda>encoded.
           if len encoded \<le> room
           then bindS (upd_space level (\<lambda>sp. sp\<lparr>cs_ack_eliciting_pending := False\<rparr>)) (\<lambda>_.
                  retS ([Ack ack], len encoded))
           else retS ([], 0)))"

text \<open>The CRYPTO frame of a packet: lost bytes before fresh ones, split to fit.\<close>

definition choose_crypto :: "encryption_level \<Rightarrow> nat \<Rightarrow> (connection, chosen) se" where
  "choose_crypto level available =
     bindS (space_of level) (\<lambda>sp.
       if cs_crypto_retransmit sp \<noteq> [] \<and> available \<noteq> 0
       then let lost = hd (cs_crypto_retransmit sp);
                chunk = take available (crypto_data lost);
                frame = Crypto \<lparr>crypto_offset = crypto_offset lost, crypto_data = chunk\<rparr>;
                left = (if length chunk < length (crypto_data lost)
                  then [\<lparr>crypto_offset = crypto_offset lost + len chunk,
                         crypto_data = drop (length chunk) (crypto_data lost)\<rparr>]
                  else [])
            in bindS (upd_space level (\<lambda>sp. sp\<lparr>cs_crypto_retransmit := left @ tl (cs_crypto_retransmit sp)\<rparr>)) (\<lambda>_.
               bindS (liftS (encode frame)) (\<lambda>encoded. retS ([frame], len encoded)))
       else let chunk = take available (cs_crypto_pending sp)
            in if chunk = [] then retS ([], 0)
            else let frame = Crypto \<lparr>crypto_offset = cs_crypto_offset_sent sp, crypto_data = chunk\<rparr>
            in bindS (upd_space level (\<lambda>sp. sp\<lparr>cs_crypto_pending := drop available (cs_crypto_pending sp),
                 cs_crypto_offset_sent := cs_crypto_offset_sent sp + len chunk\<rparr>)) (\<lambda>_.
               bindS (liftS (encode frame)) (\<lambda>encoded. retS ([frame], len encoded))))"

fun take_control :: "frame list \<Rightarrow> int \<Rightarrow> chosen \<Rightarrow> (connection, chosen) se" where
  "take_control [] room (chosen, used) = retS (chosen, used)"
| "take_control (control # rest) room (chosen, used) =
     (if used < room
      then bindS (liftS (encode control)) (\<lambda>encoded.
        if len encoded > room - used then retS (chosen, used)
        else bindS (modS (\<lambda>c. c\<lparr>cn_control_frames := rest\<rparr>)) (\<lambda>_.
          take_control rest room (chosen @ [control], used + len encoded)))
      else retS (chosen, used))"

fun take_streams :: "int list \<Rightarrow> int \<Rightarrow> chosen \<Rightarrow> (connection, chosen) se" where
  "take_streams [] room (chosen, used) = retS (chosen, used)"
| "take_streams (sid # rest) room (chosen, used) =
     (let available = room - used - 24
      in if available \<le> 0 then retS (chosen, used)
      else bindS (streams_call (sm_next_frame sid available)) (\<lambda>next.
        case next of
          None \<Rightarrow> take_streams rest room (chosen, used)
        | Some f \<Rightarrow> bindS (liftS (encode (Stream f))) (\<lambda>encoded.
            take_streams rest room (chosen @ [Stream f], used + len encoded))))"

definition application_frames :: "int \<Rightarrow> (connection, chosen) se" where
  "application_frames room =
     bindS (getS cn_handshake_done_pending) (\<lambda>done.
     bindS (modS (\<lambda>c. c\<lparr>cn_handshake_done_pending := False\<rparr>)) (\<lambda>_.
     bindS (getS cn_control_frames) (\<lambda>controls.
     bindS (take_control controls room (if done then ([HandshakeDone], 1) else ([], 0))) (\<lambda>taken.
     bindS (getS cn_streams) (\<lambda>streams.
       case streams of None \<Rightarrow> retS taken
       | Some m \<Rightarrow> take_streams (sm_writable_streams m) room taken)))))"

text \<open>The first CRYPTO frame in flight that fits, in packet order, or a PING.\<close>

fun first_fitting :: "int \<Rightarrow> frame list \<Rightarrow> frame result" where
  "first_fitting room [] = Inr Ping"
| "first_fitting room (f # fs) =
     (case f of
        Crypto _ \<Rightarrow> bindE (encode f) (\<lambda>encoded.
          if len encoded \<le> room then Inr f else first_fitting room fs)
      | _ \<Rightarrow> first_fitting room fs)"

definition probe_filler :: "encryption_level \<Rightarrow> int \<Rightarrow> connection \<Rightarrow> frame result" where
  "probe_filler level room c =
     first_fitting room (concat (map sp_frames (ld_unacked level (cn_recovery c))))"

definition add_probe :: "encryption_level \<Rightarrow> int \<Rightarrow> chosen \<Rightarrow> (connection, chosen) se" where
  "add_probe level room taken =
     (case taken of (chosen, used) \<Rightarrow>
     bindS (getS id) (\<lambda>c.
       if cn_probes_pending c level = 0 then retS (chosen, used)
       else bindS
         (if list_ex is_ack_eliciting chosen then retS (chosen, used)
          else bindS (liftS (probe_filler level (room - used) c)) (\<lambda>filler.
               bindS (liftS (encode filler)) (\<lambda>encoded.
                 retS (chosen @ [filler], used + len encoded)))) (\<lambda>taken.
         bindS (modS (\<lambda>c. c\<lparr>cn_probes_pending :=
           (cn_probes_pending c)(level := cn_probes_pending c level - 1)\<rparr>)) (\<lambda>_. retS taken))))"

definition pending_frames :: "encryption_level \<Rightarrow> int \<Rightarrow> bool \<Rightarrow> (connection, chosen) se" where
  "pending_frames level room ack_only =
     bindS (choose_ack level room) (\<lambda>(acks, used).
     if ack_only then retS (acks, used)
     else bindS (choose_crypto level (nat (max 0 (room - used - 16)))) (\<lambda>(cryptos, crypto_used).
       let chosen = acks @ cryptos; used = used + crypto_used
       in bindS
         (if level = OneRtt
          then bindS (application_frames (room - used)) (\<lambda>(application, application_used).
                 retS (chosen @ application, used + application_used))
          else retS (chosen, used)) (add_probe level room)))"


subsection \<open>Packets and datagrams\<close>

fun long_packet_type :: "encryption_level \<Rightarrow> packet_type result" where
  "long_packet_type Initial = Inr INITIAL"
| "long_packet_type Handshake = Inr HANDSHAKE"
| "long_packet_type OneRtt = Inl KeyError"

definition minimum_payload :: nat where
  "minimum_payload = MAX_PN_LENGTH + SAMPLE_LENGTH - AEAD_TAG_LENGTH"

definition pad_payload :: "nat \<Rightarrow> bytes \<Rightarrow> bytes" where
  "pad_payload n payload = payload @ zeros (n - length payload)"

definition header_template :: "encryption_level \<Rightarrow> packet_type \<Rightarrow> connection \<Rightarrow> long_header_template" where
  "header_template level typ c =
     \<lparr>lt_packet_type = typ, lt_version = cg_version (cn_config c), lt_destination_cid = cn_peer_cid c,
      lt_source_cid = cn_host_cid c,
      lt_token = (if level = Initial
        then (if cn_retry_token c \<noteq> [] then cn_retry_token c else cg_token (cn_config c)) else [])\<rparr>"

definition short_packet_header :: "pn_space \<Rightarrow> bytes \<Rightarrow> bytes \<Rightarrow> bytes result" where
  "short_packet_header sp peer_cid pn_bytes =
     catE [byte1 (short_header_first_byte sp (len pn_bytes)), Inr peer_cid, Inr pn_bytes]"

text \<open>\<open>header\<close> and \<open>payload\<close> of a packet, padded to the datagram floor where one is asked for.\<close>

definition packet_header ::
  "encryption_level \<Rightarrow> bool \<Rightarrow> int \<Rightarrow> bytes \<Rightarrow> bytes \<Rightarrow> int \<Rightarrow> connection \<Rightarrow> (bytes \<times> bytes) result" where
  "packet_header level zero_rtt packet_number pn_bytes payload pad_datagram_to c =
     (if level = OneRtt \<and> \<not> zero_rtt
      then bindE (short_packet_header (cn_spaces c level) (cn_peer_cid c) pn_bytes) (\<lambda>header. Inr (header, payload))
      else bindE (if zero_rtt then Inr ZERO_RTT else long_packet_type level) (\<lambda>typ.
        let t = header_template level typ c
        in bindE
          (if pad_datagram_to \<noteq> 0
           then bindE (build_long_header t pad_datagram_to packet_number (len pn_bytes)) (\<lambda>trial.
                  Inr (payload @ zeros (nat (pad_datagram_to - len trial - len payload - int AEAD_TAG_LENGTH))))
           else Inr payload) (\<lambda>payload.
           bindE (build_long_header t (len payload + int AEAD_TAG_LENGTH) packet_number (len pn_bytes)) (\<lambda>header.
             Inr (header, payload)))))"

definition MAX_PACKET_NUMBER :: int where "MAX_PACKET_NUMBER = 4611686018427387903"

definition HEADER_OVERHEAD :: int where "HEADER_OVERHEAD = 64"

definition send_frames ::
  "prims \<Rightarrow> encryption_level \<Rightarrow> time \<Rightarrow> int \<Rightarrow> bool \<Rightarrow> packet_keys \<Rightarrow> frame list \<Rightarrow> (connection, bytes) se" where
  "send_frames P level now pad_datagram_to zero_rtt keys_send chosen =
     bindS (liftS (catE (map encode chosen))) (\<lambda>encoded.
     let payload = pad_payload minimum_payload encoded
     in bindS (space_of level) (\<lambda>sp.
     let packet_number = cs_next_packet_number sp
     in if packet_number > MAX_PACKET_NUMBER
     then raiseS (connection_error INTERNAL_ERROR (ascii ''packet number space exhausted''))
     else bindS (upd_space level (\<lambda>sp. sp\<lparr>cs_next_packet_number := cs_next_packet_number sp + 1\<rparr>)) (\<lambda>_.
     bindS (liftS (encode_packet_number packet_number None)) (\<lambda>pn_bytes.
     bindS (getS (packet_header level zero_rtt packet_number pn_bytes payload pad_datagram_to)) (\<lambda>built.
     bindS (liftS built) (\<lambda>(header, payload).
     bindS (liftS (protect P keys_send header payload packet_number)) (\<lambda>packet.
     let ack_eliciting = list_ex is_ack_eliciting chosen
     in bindS (doS [
       conn_log now ''quic:packet_sent''
         [(''header'', JObj
            [(''packet_type'', JStr (if zero_rtt then ''0RTT'' else qlog_packet_type level)),
             (''packet_number'', JInt packet_number)]),
          (''raw'', JObj [(''length'', JInt (len packet))]),
          (''frames'', JList (map frame_detail chosen))],
       modS (\<lambda>c. c\<lparr>cn_recovery := ld_on_packet_sent NewReno
         \<lparr>sp_level = level, sp_packet_number = packet_number, sp_time_sent = now,
          sp_ack_eliciting = ack_eliciting, sp_in_flight = ack_eliciting, sp_size = len packet,
          sp_frames = chosen\<rparr> (cn_recovery c)\<rparr>)]) (\<lambda>_. retS packet))))))))"

definition build_packet ::
  "prims \<Rightarrow> encryption_level \<Rightarrow> int \<Rightarrow> time \<Rightarrow> int \<Rightarrow> bool \<Rightarrow> (connection, bytes option) se" where
  "build_packet P level room now pad_datagram_to ack_only =
     bindS (space_of level) (\<lambda>sp.
     let zero_rtt = (level = OneRtt \<and> cs_keys_send sp = None)
     in bindS (someS (if zero_rtt then cs_keys_send_early sp else cs_keys_send sp)) (\<lambda>keys_send.
       if room \<le> HEADER_OVERHEAD + int AEAD_TAG_LENGTH then retS None
       else bindS (pending_frames level (room - HEADER_OVERHEAD - int AEAD_TAG_LENGTH) ack_only) (\<lambda>(chosen, used).
         if chosen = [] then retS None
         else bindS (send_frames P level now pad_datagram_to zero_rtt keys_send chosen) (\<lambda>packet.
                retS (Some packet)))))"

definition send_budget :: "bool \<Rightarrow> connection \<Rightarrow> int" where
  "send_budget ack_only c =
     (let controller = ld_controller (cn_recovery c);
          size = cg_max_datagram_size (cn_config c);
          budget = (if ack_only then size
                    else cc_congestion_window NewReno controller - cc_bytes_in_flight NewReno controller);
          probes = sum_list (map (\<lambda>level. int (cn_probes_pending c level)) all_levels);
          budget = (if probes \<noteq> 0 then max budget (probes * size) else budget)
      in if \<not> cn_is_client c \<and> \<not> cn_address_validated c
         then min budget (AMPLIFICATION_FACTOR * cn_bytes_received c - cn_bytes_sent c)
         else budget)"

fun coalesce ::
  "prims \<Rightarrow> time \<Rightarrow> bool \<Rightarrow> int \<Rightarrow> encryption_level list \<Rightarrow> bytes \<Rightarrow> (connection, bytes) se" where
  "coalesce P now ack_only budget [] payload = retS payload"
| "coalesce P now ack_only budget (level # levels) payload =
     bindS (getS id) (\<lambda>c.
     let sp = cn_spaces c level
     in if \<not> (cs_keys_send sp \<noteq> None \<or> level = OneRtt \<and> cs_keys_send_early sp \<noteq> None) \<or> cs_discarded sp
     then coalesce P now ack_only budget levels payload
     else let room = cg_max_datagram_size (cn_config c) - len payload;
              pad_to = (if level = Initial then min MIN_INITIAL_DATAGRAM budget else 0)
     in bindS (build_packet P level room now pad_to ack_only) (\<lambda>built.
       case built of
         None \<Rightarrow> coalesce P now ack_only budget levels payload
       | Some packet \<Rightarrow>
           bindS (whenS (cn_is_client c \<and> level = Handshake) (discard_space Initial now)) (\<lambda>_.
             if pad_to \<noteq> 0 then retS (payload @ packet)
             else coalesce P now ack_only budget levels (payload @ packet))))"

definition build_datagram :: "prims \<Rightarrow> time \<Rightarrow> bool \<Rightarrow> (connection, outgoing_datagram option) se" where
  "build_datagram P now ack_only =
     bindS (getS (send_budget ack_only)) (\<lambda>budget.
       if budget \<le> 0 then retS None
       else bindS (coalesce P now ack_only budget [Initial, Handshake, OneRtt] []) (\<lambda>payload.
         if payload = [] then retS None
         else bindS (modS (\<lambda>c. c\<lparr>cn_bytes_sent := cn_bytes_sent c + len payload\<rparr>)) (\<lambda>_.
           getS (\<lambda>c. Some \<lparr>og_data = payload, og_destination = cn_destination c,
             og_ecn = (if cn_ecn_enabled c then ECT_0 else 0), og_txtime = None, og_segment_size = None\<rparr>))))"


subsection \<open>Pacing\<close>

definition in_flight_data_pending :: "connection \<Rightarrow> bool" where
  "in_flight_data_pending c \<longleftrightarrow>
     list_ex (\<lambda>level. cn_probes_pending c level \<noteq> 0) all_levels
     \<or> list_ex (\<lambda>level. has_pending_data level c) all_levels"

text \<open>The allowance in bytes; \<open>None\<close> is the \<open>math.inf\<close> of a controller that does not pace.\<close>

definition pacing_allowance :: "time \<Rightarrow> (connection, rat option) se" where
  "pacing_allowance now =
     bindS (getS id) (\<lambda>c.
       case cc_pacing_rate NewReno (rtt_smoothed (ld_rtt (cn_recovery c))) (ld_controller (cn_recovery c)) of
         None \<Rightarrow> retS None
       | Some rate \<Rightarrow>
           let burst = of_int (PACING_BURST_DATAGRAMS * cg_max_datagram_size (cn_config c));
               credit = (case cn_pacing_updated c of
                   None \<Rightarrow> burst
                 | Some t \<Rightarrow> min (cn_pacing_credit c + max 0 (now - t) * rate) burst)
           in bindS (modS (\<lambda>c. c\<lparr>cn_pacing_credit := credit, cn_pacing_updated := Some now\<rparr>)) (\<lambda>_.
                retS (Some credit)))"

definition pacing_blocked :: "time \<Rightarrow> (connection, bool) se" where
  "pacing_blocked now =
     bindS (pacing_allowance now) (\<lambda>allowance.
     bindS (getS id) (\<lambda>c.
       case allowance of
         None \<Rightarrow> retS False
       | Some credit \<Rightarrow>
           let needed = of_int (cg_max_datagram_size (cn_config c))
           in if credit \<ge> needed then retS False
           else if \<not> in_flight_data_pending c then retS False
           else case cc_pacing_rate NewReno (rtt_smoothed (ld_rtt (cn_recovery c))) (ld_controller (cn_recovery c)) of
               None \<Rightarrow> retS False
             | Some rate \<Rightarrow> if rate \<le> 0 then retS False
                 else bindS (modS (\<lambda>c. c\<lparr>cn_pacing_deadline := Some (now + (needed - credit) / rate)\<rparr>)) (\<lambda>_.
                        retS True)))"


subsection \<open>Sending\<close>

text \<open>
  The loop of \<open>datagrams_to_send\<close> runs until no datagram can be built. Its fuel is one more than
  the work that is queued, and \<open>Diverges\<close> stands for running out of it, which never happens
  (\<open>datagrams_to_send_ends\<close>).
\<close>

definition stream_work :: "stream_half \<Rightarrow> nat" where
  "stream_work half = (case half_send half of None \<Rightarrow> 0
     | Some s \<Rightarrow> length (ss_retransmit s) + length (ss_pending s) + of_bool (ss_fin_queued s \<and> \<not> ss_fin_sent s))"

definition space_work :: "pn_space \<Rightarrow> nat" where
  "space_work sp = of_bool (cs_ack_eliciting_pending sp) + length (cs_crypto_pending sp)
     + sum_list (map (\<lambda>f. Suc (length (crypto_data f))) (cs_crypto_retransmit sp))"

definition send_work :: "connection \<Rightarrow> nat" where
  "send_work c =
     sum_list (map (\<lambda>level. space_work (cn_spaces c level) + cn_probes_pending c level) all_levels)
     + of_bool (cn_handshake_done_pending c) + length (cn_control_frames c)
     + (case cn_streams c of None \<Rightarrow> 0 | Some m \<Rightarrow> sum_list (map (\<lambda>(sid, half). stream_work half) (sm_streams m)))"

fun send_loop :: "prims \<Rightarrow> time \<Rightarrow> nat \<Rightarrow> outgoing_datagram list \<Rightarrow> (connection, outgoing_datagram list) se" where
  "send_loop P now 0 datagrams = raiseS Diverges"
| "send_loop P now (Suc fuel) datagrams =
     bindS (pacing_blocked now) (\<lambda>paced_out.
     bindS (getS (\<lambda>c. cc_bytes_in_flight NewReno (ld_controller (cn_recovery c)))) (\<lambda>in_flight.
     bindS (build_datagram P now paced_out) (\<lambda>built.
       case built of
         None \<Rightarrow> retS datagrams
       | Some datagram \<Rightarrow>
           bindS (modS (\<lambda>c. c\<lparr>cn_pacing_credit := cn_pacing_credit c
             - of_int (cc_bytes_in_flight NewReno (ld_controller (cn_recovery c)) - in_flight)\<rparr>)) (\<lambda>_.
             send_loop P now fuel (datagrams @ [datagram])))))"

fun close_levels ::
  "prims \<Rightarrow> time \<Rightarrow> connection_close \<Rightarrow> encryption_level list \<Rightarrow> (connection, outgoing_datagram list) se" where
  "close_levels P now close_frame [] = retS []"
| "close_levels P now close_frame (level # levels) =
     bindS (space_of level) (\<lambda>sp.
       if cs_keys_send sp = None \<or> cs_discarded sp then close_levels P now close_frame levels
       else
         bindS (liftS (encode (ConnectionClose close_frame))) (\<lambda>encoded.
         let payload = pad_payload minimum_payload encoded;
             packet_number = cs_next_packet_number sp
         in bindS (upd_space level (\<lambda>sp. sp\<lparr>cs_next_packet_number := cs_next_packet_number sp + 1\<rparr>)) (\<lambda>_.
         bindS (liftS (encode_packet_number packet_number None)) (\<lambda>pn_bytes.
         bindS (getS (packet_header level False packet_number pn_bytes payload 0)) (\<lambda>built.
         bindS (liftS built) (\<lambda>(header, payload).
         bindS (someS (cs_keys_send sp)) (\<lambda>keys.
         bindS (liftS (protect P keys header payload packet_number)) (\<lambda>packet.
         bindS (modS (\<lambda>c. c\<lparr>cn_close_sent := True,
             cn_closing_deadline := Some (now + 3 * ld_pto (cn_recovery c))\<rparr>)) (\<lambda>_.
           getS (\<lambda>c. [\<lparr>og_data = packet, og_destination = cn_destination c, og_ecn = 0,
                       og_txtime = None, og_segment_size = None\<rparr>]))))))))))"

definition build_close_datagram :: "prims \<Rightarrow> time \<Rightarrow> (connection, outgoing_datagram list) se" where
  "build_close_datagram P now =
     bindS (getS id) (\<lambda>c.
       if cn_close_sent c then retS []
       else case cn_close_frame c of None \<Rightarrow> retS []
         | Some close_frame \<Rightarrow> close_levels P now close_frame [OneRtt, Handshake, Initial])"

definition datagrams_to_send :: "prims \<Rightarrow> time \<Rightarrow> (connection, outgoing_datagram list) se" where
  "datagrams_to_send P now =
     bindS (getS id) (\<lambda>c.
       if cn_state c \<in> set [DRAINING, TERMINATED] then retS []
       else if cn_close_frame c \<noteq> None then build_close_datagram P now
       else
         bindS (maybe_update_keys P now) (\<lambda>_.
         bindS (modS (\<lambda>c. c\<lparr>cn_pacing_deadline := None\<rparr>)) (\<lambda>_.
         bindS (getS (\<lambda>c. Suc (send_work c))) (\<lambda>fuel.
         bindS (send_loop P now fuel []) (\<lambda>datagrams.
         bindS (getS cn_pending) (\<lambda>pending.
         bindS (modS (\<lambda>c. c\<lparr>cn_pending := []\<rparr>)) (\<lambda>_.
           retS (pending @ datagrams))))))))"

end
