(* ===== verification/Connection_Api.thy ===== *)
theory Connection_Api
  imports Connection_Send
begin

text \<open>
  The timers and the application interface of \<open>src/dsquic/connection.py\<close>, and the calls a caller
  can make on a connection as steps of a transition relation.
\<close>

section \<open>Model\<close>

subsection \<open>Timers\<close>

definition idle_deadline :: "connection \<Rightarrow> time option" where
  "idle_deadline c =
     (case cn_idle_started c of
        None \<Rightarrow> None
      | Some started \<Rightarrow>
          let local_ms = max_idle_timeout_ms (cn_local_parameters c);
              peer_ms = (case cn_peer_parameters c of None \<Rightarrow> 0 | Some p \<Rightarrow> max_idle_timeout_ms p)
          in case filter (\<lambda>v. v > 0) [local_ms, peer_ms] of
               [] \<Rightarrow> None
             | v # vs \<Rightarrow> Some (started + max (of_int (fold min vs v) / 1000) (3 * ld_pto (cn_recovery c))))"

fun earliest_deadline :: "time option list \<Rightarrow> time option" where
  "earliest_deadline [] = None"
| "earliest_deadline (None # ds) = earliest_deadline ds"
| "earliest_deadline (Some d # ds) =
     Some (case earliest_deadline ds of None \<Rightarrow> d | Some e \<Rightarrow> min d e)"

definition next_timer :: "connection \<Rightarrow> time option result" where
  "next_timer c =
     (if cn_state c = TERMINATED then Inr None
      else bindE (if cn_state c \<notin> set [CLOSING, DRAINING] then ld_loss_detection_timeout (cn_recovery c) else Inr None) (\<lambda>loss.
        Inr (earliest_deadline
          [cn_closing_deadline c,
           if cn_state c \<noteq> DRAINING then idle_deadline c else None,
           loss,
           cn_pacing_deadline c])))"

definition handle_timer :: "time \<Rightarrow> (connection, unit) se" where
  "handle_timer now =
     bindS (getS id) (\<lambda>c.
       if (case cn_closing_deadline c of None \<Rightarrow> False | Some d \<Rightarrow> now \<ge> d) then set_state TERMINATED
       else if cn_state c \<in> set [CLOSING, DRAINING] then retS ()
       else if (case idle_deadline c of None \<Rightarrow> False | Some d \<Rightarrow> now \<ge> d) then doS [
         set_state TERMINATED,
         conn_log now ''quic:connection_closed''
           [(''initiator'', JStr ''local''), (''trigger'', JStr ''idle_timeout'')],
         emit_event (ConnectionTerminated NO_ERROR (ascii ''idle timeout''))]
       else bindS (liftS (ld_loss_detection_timeout (cn_recovery c))) (\<lambda>timeout.
         whenS (case timeout of None \<Rightarrow> False | Some d \<Rightarrow> now \<ge> d)
         (bindS (recovery_call (ld_on_loss_detection_timeout NewReno now)) (\<lambda>result. doS [
            forS (to_lost result) requeue_lost,
            (case to_probe_level result of
               None \<Rightarrow> retS ()
             | Some level \<Rightarrow> doS [
                 modS (\<lambda>c. c\<lparr>cn_probes_pending :=
                   (cn_probes_pending c)(level := cn_probes_pending c level + PROBE_PACKETS)\<rparr>),
                 prepare_probe level])]))))"


subsection \<open>The application interface\<close>

definition client_tls_call :: "(tls_client, 'a) se \<Rightarrow> (connection, 'a) se" where
  "client_tls_call f =
     tls_call (\<lambda>t. case t of
         ClientTls tls \<Rightarrow> (case f tls of (r, tls') \<Rightarrow> (r, ClientTls tls'))
       | ServerTls _ \<Rightarrow> (Inl AssertionError, t))"

definition connect :: "prims \<Rightarrow> time \<Rightarrow> (connection, unit) se" where
  "connect P now =
     bindS (getS id) (\<lambda>c.
     bindS (assertS (case cn_tls c of Some (ClientTls _) \<Rightarrow> True | _ \<Rightarrow> False)) (\<lambda>_. doS [
       open_qlog (cn_initial_dcid c) now,
       client_tls_call (start P now),
       drain_tls_events P now,
       bindS (client_tls_call (getS cl_early_secret)) (\<lambda>early_secret.
         case cn_remembered_parameters c of
           None \<Rightarrow> retS ()
         | Some remembered \<Rightarrow> whenS (early_secret \<noteq> None)
             (modS (\<lambda>c. c\<lparr>cn_streams := Some (mk_stream_manager True
               (flow_limits (cn_local_parameters c)) (flow_limits remembered))\<rparr>))),
       arm_idle_timer now]))"

definition validate_path :: "(connection, unit) se" where
  "validate_path =
     bindS (getS cn_rng) (\<lambda>r.
     let data = r 0 8
     in doS [
       modS (\<lambda>c. c\<lparr>cn_rng := rest_rng r, cn_path_challenges := cn_path_challenges c @ [data],
                   cn_path_validated := False\<rparr>),
       queue_control (PathChallenge data)])"

definition send_new_token :: "bytes \<Rightarrow> (connection, unit) se" where
  "send_new_token token =
     bindS (getS cn_is_client) (\<lambda>is_client.
     bindS (assertS (\<not> is_client)) (\<lambda>_. queue_control (NewToken token)))"

definition open_stream :: "(connection, int) se" where
  "open_stream =
     bindS has_streams (\<lambda>present.
     if \<not> present then raiseS RuntimeError
     else catchS (streams_call sm_open_bidi) (\<lambda>e.
       if e = StreamLimitReached
       then bindS (getS cn_streams) (\<lambda>streams.
            bindS (someS streams) (\<lambda>m.
            bindS (queue_control (StreamsBlocked (sm_max_streams_bidi m) True)) (\<lambda>_. raiseS e)))
       else raiseS e))"

definition send_stream_data :: "int \<Rightarrow> bytes \<Rightarrow> bool \<Rightarrow> (connection, unit) se" where
  "send_stream_data sid data end_stream =
     bindS has_streams (\<lambda>present.
     if \<not> present then raiseS RuntimeError
     else send_stream_call sid (ss_write data end_stream))"

definition take_events :: "(connection, connection_event list) se" where
  "take_events =
     bindS (getS cn_events) (\<lambda>events.
     bindS (modS (\<lambda>c. c\<lparr>cn_events := []\<rparr>)) (\<lambda>_. retS events))"

definition keys_discarded :: "encryption_level \<Rightarrow> connection \<Rightarrow> bool" where
  "keys_discarded level c = cs_discarded (cn_spaces c level)"

definition key_phase :: "connection \<Rightarrow> bool" where
  "key_phase c = cs_key_phase (cn_spaces c OneRtt)"


subsection \<open>The calls of a caller\<close>

datatype call =
    DatagramReceived bytes time "address option" int
  | DatagramsToSend time
  | HandleTimer time
  | Connect time
  | Close int bytes "int option"
  | OpenStream
  | SendStreamData int bytes bool
  | ValidatePath
  | SendNewToken bytes
  | InitiateKeyUpdate time
  | TakeEvents

fun run_call :: "env \<Rightarrow> call \<Rightarrow> (connection, unit) se" where
  "run_call E (DatagramReceived data now source ecn) = datagram_received E data now source ecn"
| "run_call E (DatagramsToSend now) = bindS (datagrams_to_send (env_prims E) now) (\<lambda>_. retS ())"
| "run_call E (HandleTimer now) = handle_timer now"
| "run_call E (Connect now) = connect (env_prims E) now"
| "run_call E (Close code reason typ) = close code reason typ"
| "run_call E OpenStream = bindS open_stream (\<lambda>_. retS ())"
| "run_call E (SendStreamData sid data end_stream) = send_stream_data sid data end_stream"
| "run_call E ValidatePath = validate_path"
| "run_call E (SendNewToken token) = send_new_token token"
| "run_call E (InitiateKeyUpdate now) = bindS (initiate_key_update (env_prims E) now) (\<lambda>_. retS ())"
| "run_call E TakeEvents = bindS take_events (\<lambda>_. retS ())"

text \<open>The states a connection can get into, whatever a call returned or raised.\<close>

inductive reaches :: "env \<Rightarrow> connection \<Rightarrow> connection \<Rightarrow> bool" for E where
  reaches_refl: "reaches E c c"
| reaches_call: "reaches E c d \<Longrightarrow> run_call E k d = (r, d') \<Longrightarrow> reaches E c d'"

lemma reaches_keeps:
  assumes "reaches E c d" and "I c" and "\<And>k. keeps I (run_call E k)"
  shows "I d"
  using assms(1,2)
proof (induction rule: reaches.induct)
  case (reaches_call c d k r d')
  then show ?case using keepsD[OF assms(3)] by blast
qed

end
