(* ===== verification/Connection_Invariants.thy ===== *)
theory Connection_Invariants
  imports Connection_Api
begin

text \<open>
  What every call keeps. Loss detection is only used within its contract, so that whatever holds
  of a reachable loss detector holds inside a connection; packet numbers only grow and every
  number handed to loss detection is fresh; and the record of received packets stays a set of
  ranges whose maximum is \<open>largest_received\<close>.
\<close>

section \<open>The invariant\<close>

definition recv_ok :: "pn_space \<Rightarrow> bool" where
  "recv_ok sp \<longleftrightarrow>
     rs_inv (cs_received sp) \<and> -1 \<le> cs_largest_received sp
     \<and> rs_abs (cs_received sp) \<subseteq> {0..cs_largest_received sp}
     \<and> (0 \<le> cs_largest_received sp \<longrightarrow> cs_largest_received sp \<in> rs_abs (cs_received sp))
     \<and> 0 \<le> cs_ecn_ect0 sp \<and> 0 \<le> cs_ecn_ect1 sp \<and> 0 \<le> cs_ecn_ce sp"

definition conn_inv :: "connection_config \<Rightarrow> (encryption_level \<Rightarrow> int) \<Rightarrow> connection \<Rightarrow> bool" where
  "conn_inv cfg k c \<longleftrightarrow>
     cn_config c = cfg \<and> ld_reachable NewReno (mk_new_reno (cg_max_datagram_size cfg)) (cn_recovery c)
     \<and> (\<forall>l. sp_largest_sent (ld_spaces (cn_recovery c) l) < cs_next_packet_number (cn_spaces c l)
          \<and> k l \<le> cs_next_packet_number (cn_spaces c l) \<and> recv_ok (cn_spaces c l))"

text \<open>The fields the invariant reads.\<close>

definition same_numbers :: "pn_space \<Rightarrow> pn_space \<Rightarrow> bool" where
  "same_numbers sp sp' \<longleftrightarrow>
     cs_next_packet_number sp' = cs_next_packet_number sp \<and> cs_received sp' = cs_received sp
     \<and> cs_largest_received sp' = cs_largest_received sp \<and> cs_ecn_ect0 sp' = cs_ecn_ect0 sp
     \<and> cs_ecn_ect1 sp' = cs_ecn_ect1 sp \<and> cs_ecn_ce sp' = cs_ecn_ce sp"

definition same_core :: "connection \<Rightarrow> connection \<Rightarrow> bool" where
  "same_core c c' \<longleftrightarrow> cn_config c' = cn_config c \<and> cn_recovery c' = cn_recovery c
     \<and> (\<forall>l. same_numbers (cn_spaces c l) (cn_spaces c' l))"

lemma same_numbers_refl [simp]: "same_numbers sp sp"
  by (simp add: same_numbers_def)

lemma same_core_frame: "conn_inv cfg k c \<Longrightarrow> same_core c c' \<Longrightarrow> conn_inv cfg k c'"
  by (simp add: conn_inv_def same_core_def same_numbers_def recv_ok_def)

lemma keeps_conn_frame: "(\<And>c. same_core c (f c)) \<Longrightarrow> keeps (conn_inv cfg k) (modS f)"
  by (rule keeps_modS) (rule same_core_frame)

lemma keeps_conn_space: "(\<And>sp. same_numbers sp (f sp)) \<Longrightarrow> keeps (conn_inv cfg k) (upd_space l f)"
  unfolding upd_space_def by (rule keeps_conn_frame) (simp add: same_core_def)

lemma keeps_conn_calls:
  "keeps (conn_inv cfg k) (streams_call f)" "keeps (conn_inv cfg k) (tls_call g)"
  by (auto simp: keeps_iff streams_call_def tls_call_def same_core_def split: option.split prod.split
      elim!: same_core_frame)

text \<open>A step of loss detection that sends nothing.\<close>

lemma conn_inv_recovery:
  assumes "conn_inv cfg k c" and "ld_step NewReno (cn_recovery c) ld"
    and "\<And>l. sp_largest_sent (ld_spaces ld l) = sp_largest_sent (ld_spaces (cn_recovery c) l)"
  shows "conn_inv cfg k (c\<lparr>cn_recovery := ld\<rparr>)"
  using assms unfolding conn_inv_def ld_reachable_def
  by (auto intro: rtranclp.rtrancl_into_rtrancl)

lemma detect_loop_largest_sent:
  "sp_largest_sent (fst (detect_loop lb d xs st)) = sp_largest_sent (fst st)"
  by (cases st) (simp add: detect_loop_eq Let_def)

lemma report_lost_spaces: "ld_spaces (snd (ld_report_lost ops lost now ld)) = ld_spaces ld"
  by (simp add: ld_report_lost_def Let_def split: prod.split sum.split)

lemma detect_largest_sent:
  "sp_largest_sent (ld_spaces (snd (ld_detect_and_remove_lost ops level now ld)) l)
     = sp_largest_sent (ld_spaces ld l)"
  using detect_loop_largest_sent [of "now - ld_loss_delay ld" "ld_loss_delay ld"
      "sort_key fst (sp_sent (ld_spaces ld level))" "((ld_spaces ld level)\<lparr>sp_loss_time := None\<rparr>, [])"]
  by (simp add: ld_detect_and_remove_lost_def Let_def report_lost_spaces case_prod_unfold)

lemma sample_rtt_spaces: "ld_spaces (ld_sample_rtt ps n d now ld) = ld_spaces ld"
  by (simp add: ld_sample_rtt_def Let_def)

lemma on_ack_largest_sent:
  "sp_largest_sent (ld_spaces (snd (ld_on_ack_received ops level a d now ld)) l)
     = sp_largest_sent (ld_spaces ld l)"
  by (simp add: ld_on_ack_received_def Let_def detect_largest_sent sample_rtt_spaces
      case_prod_unfold)

lemma on_timeout_largest_sent:
  "sp_largest_sent (ld_spaces (snd (ld_on_loss_detection_timeout ops now ld)) l)
     = sp_largest_sent (ld_spaces ld l)"
  by (simp add: ld_on_loss_detection_timeout_def Let_def detect_largest_sent split: option.split sum.split)

lemma keeps_recovery_call:
  assumes "\<And>ld. ld_step NewReno ld (snd (m ld))"
    and "\<And>ld l. sp_largest_sent (ld_spaces (snd (m ld)) l) = sp_largest_sent (ld_spaces ld l)"
  shows "keeps (conn_inv cfg k) (recovery_call m)"
  using assms by (simp add: recovery_call_def keeps_iff zoomS_def case_prod_unfold conn_inv_recovery)

lemma keeps_recovery_mod:
  assumes "\<And>ld. ld_step NewReno ld (f ld)"
    and "\<And>ld l. sp_largest_sent (ld_spaces (f ld) l) = sp_largest_sent (ld_spaces ld l)"
  shows "keeps (conn_inv cfg k) (modS (\<lambda>c. c\<lparr>cn_recovery := f (cn_recovery c)\<rparr>))"
  using assms by (simp add: keeps_iff conn_inv_recovery)

lemma snd_map_prod_id: "snd (map_prod f id p) = snd p"
  by (cases p) simp

lemma keeps_conn_recovery:
  "keeps (conn_inv cfg k) (recovery_call (ld_on_ack_received NewReno level a d now))"
  "keeps (conn_inv cfg k) (recovery_call (ld_on_loss_detection_timeout NewReno now))"
  "keeps (conn_inv cfg k) (recovery_call (\<lambda>ld. map_prod Inr id (ld_restart_space NewReno level ld)))"
  "keeps (conn_inv cfg k) (modS (\<lambda>c. c\<lparr>cn_recovery := ld_discard_space NewReno level (cn_recovery c)\<rparr>))"
  "keeps (conn_inv cfg k) (modS (\<lambda>c. c\<lparr>cn_recovery := (cn_recovery c)\<lparr>ld_handshake_confirmed := True\<rparr>\<rparr>))"
  "keeps (conn_inv cfg k) (modS (\<lambda>c. c\<lparr>cn_recovery := (cn_recovery c)
     \<lparr>ld_controller := cc_on_ecn_ce NewReno t now (ld_controller (cn_recovery c))\<rparr>\<rparr>))"
proof -
  show "keeps (conn_inv cfg k) (recovery_call (ld_on_ack_received NewReno level a d now))"
    by (intro keeps_recovery_call step_ack on_ack_largest_sent)
  show "keeps (conn_inv cfg k) (recovery_call (ld_on_loss_detection_timeout NewReno now))"
    by (intro keeps_recovery_call step_timeout on_timeout_largest_sent)
  show "keeps (conn_inv cfg k) (recovery_call (\<lambda>ld. map_prod Inr id (ld_restart_space NewReno level ld)))"
    by (rule keeps_recovery_call, unfold snd_map_prod_id, rule step_restart)
      (simp add: ld_restart_space_def Let_def)
  show "keeps (conn_inv cfg k) (modS (\<lambda>c. c\<lparr>cn_recovery := ld_discard_space NewReno level (cn_recovery c)\<rparr>))"
    by (rule keeps_recovery_mod, rule step_discard) (simp add: ld_discard_space_def Let_def)
  show "keeps (conn_inv cfg k) (modS (\<lambda>c. c\<lparr>cn_recovery := (cn_recovery c)\<lparr>ld_handshake_confirmed := True\<rparr>\<rparr>))"
    by (rule keeps_recovery_mod, rule step_confirm) simp
  show "keeps (conn_inv cfg k) (modS (\<lambda>c. c\<lparr>cn_recovery := (cn_recovery c)
     \<lparr>ld_controller := cc_on_ecn_ce NewReno t now (ld_controller (cn_recovery c))\<rparr>\<rparr>))"
    by (rule keeps_recovery_mod, rule step_ecn) simp
qed


section \<open>Every method keeps it\<close>

named_theorems conn_keeps \<open>methods that keep the invariant\<close>

lemmas [conn_keeps] = keeps_conn_recovery keeps_conn_calls

lemma keeps_conn_basic [conn_keeps]:
  "keeps (conn_inv cfg k) (conn_log now name data)" "keeps (conn_inv cfg k) (emit_event e)"
  "keeps (conn_inv cfg k) (set_state st)" "keeps (conn_inv cfg k) (arm_idle_timer now)"
  "keeps (conn_inv cfg k) (queue_control f)" "keeps (conn_inv cfg k) has_streams"
  "keeps (conn_inv cfg k) (space_of level)" "keeps (conn_inv cfg k) (log_drop now trigger n l pn)"
  "keeps (conn_inv cfg k) (send_stream_call sid g)"
  unfolding conn_log_def emit_event_def set_state_def arm_idle_timer_def queue_control_def
    has_streams_def space_of_def log_drop_def Let_def send_stream_call_def
  by ((rule keeps_basic keeps_conn_calls) | (rule keeps_conn_frame, simp add: same_core_def))+

lemma keeps_conn_trace [conn_keeps]:
  "keeps (conn_inv cfg k) (open_qlog g now)" "keeps (conn_inv cfg k) (log_recovery_metrics now)"
  unfolding open_qlog_def log_recovery_metrics_def
  by ((rule conn_keeps keeps_intros) | (rule keeps_conn_frame, simp add: same_core_def))+

lemma keeps_case_tls:
  "(\<And>t. x = ClientTls t \<Longrightarrow> keeps I (f t)) \<Longrightarrow> (\<And>t. x = ServerTls t \<Longrightarrow> keeps I (g t))
    \<Longrightarrow> keeps I (case x of ClientTls t \<Rightarrow> f t | ServerTls t \<Rightarrow> g t)"
  by (cases x) simp_all

lemma keeps_conn_keys [conn_keeps]:
  "keeps (conn_inv cfg k) (install_initial_keys P dcid)"
  "keeps (conn_inv cfg k) (on_secret P level d secret suite)"
  "keeps (conn_inv cfg k) (note_key_phase level u)"
  "keeps (conn_inv cfg k) (rotate_keys P level now)"
  "keeps (conn_inv cfg k) (discard_space level now)"
  unfolding install_initial_keys_def on_secret_def note_key_phase_def rotate_keys_def discard_space_def
  by ((rule conn_keeps keeps_intros)
      | (rule keeps_conn_space, simp add: same_numbers_def split: option.split))+


lemma keeps_conn_decrypt [conn_keeps]:
  "keeps (conn_inv cfg k) (decrypt_early P level packet off)"
  "keeps (conn_inv cfg k) (decrypt P level packet off now zero_rtt)"
  "keeps (conn_inv cfg k) (initiate_key_update P now)"
  "keeps (conn_inv cfg k) (maybe_update_keys P now)"
  unfolding decrypt_early_def decrypt_def initiate_key_update_def maybe_update_keys_def
  by (rule conn_keeps keeps_intros keeps_case_sum)+

lemma keeps_conn_streams [conn_keeps]:
  "keeps (conn_inv cfg k) (close code reason typ)"
  "keeps (conn_inv cfg k) (on_connection_close frame now)"
  "keeps (conn_inv cfg k) (maybe_extend_credit sid recv)"
  "keeps (conn_inv cfg k) (handle_stream E f)"
  unfolding close_def on_connection_close_def maybe_extend_credit_def handle_stream_def Let_def
  by ((rule conn_keeps keeps_intros keeps_forS) | (rule keeps_conn_frame, simp add: same_core_def)
      | (simp add: keeps_basic split: exn.split))+

lemma keeps_conn_limit [conn_keeps]: "keeps (conn_inv cfg k) (handle_limit frame)"
  unfolding handle_limit_def by (cases frame; simp; (rule conn_keeps keeps_intros)+)

lemma keeps_conn_requeue [conn_keeps]:
  "keeps (conn_inv cfg k) (requeue_frame level frame)"
  "keeps (conn_inv cfg k) (on_acked_frame frame)"
  "keeps (conn_inv cfg k) (requeue_lost packet)"
proof -
  show frame: "keeps (conn_inv cfg k) (requeue_frame level frame)" for level frame
    unfolding requeue_frame_def
    by (cases frame; simp; (rule conn_keeps keeps_intros | (rule keeps_conn_frame, simp add: same_core_def)
      | (rule keeps_conn_space, simp add: same_numbers_def))+)
  show "keeps (conn_inv cfg k) (on_acked_frame frame)"
    unfolding on_acked_frame_def by (cases frame; simp; (rule conn_keeps keeps_intros)+)
  show "keeps (conn_inv cfg k) (requeue_lost packet)"
    unfolding requeue_lost_def by (intro keeps_forS frame)
qed


lemma keeps_conn_acks [conn_keeps]:
  "keeps (conn_inv cfg k) (validate_ecn level a acked now)"
  "keeps (conn_inv cfg k) (handle_ack E level a now)"
  unfolding validate_ecn_def handle_ack_def Let_def
  by ((rule conn_keeps keeps_intros keeps_forS) | (rule keeps_conn_space, simp add: same_numbers_def)
      | (rule keeps_conn_frame, simp add: same_core_def))+

lemma keeps_conn_handshake [conn_keeps]:
  "keeps (conn_inv cfg k) validate_peer_parameters"
  "keeps (conn_inv cfg k) (confirm_handshake now)"
  "keeps (conn_inv cfg k) (settle_streams peer)"
  "keeps (conn_inv cfg k) resend_rejected_early_data"
  "keeps (conn_inv cfg k) (on_handshake_complete alpn ptp now)"
  "keeps (conn_inv cfg k) (sync_early_keys P)"
  unfolding validate_peer_parameters_def confirm_handshake_def settle_streams_def
    resend_rejected_early_data_def on_handshake_complete_def sync_early_keys_def
  by ((rule conn_keeps keeps_intros keeps_forS keeps_case_tls)
      | (rule keeps_conn_space, simp add: same_numbers_def)
      | (rule keeps_conn_frame, simp add: same_core_def))+


lemma keeps_conn_tls [conn_keeps]:
  "keeps (conn_inv cfg k) (on_tls_event P now event)"
  "keeps (conn_inv cfg k) (drain_tls_events P now)"
proof -
  show event: "keeps (conn_inv cfg k) (on_tls_event P now event)" for event
    unfolding on_tls_event_def
    by (cases event) (simp_all add: conn_keeps keeps_conn_space same_numbers_def)
  show "keeps (conn_inv cfg k) (drain_tls_events P now)"
    unfolding drain_tls_events_def by (rule conn_keeps keeps_intros keeps_forS event)+
qed

lemma reassemble_same_numbers: "same_numbers sp (snd (reassemble f sp))"
  by (simp add: reassemble_def Let_def same_numbers_def)

lemma keeps_conn_crypto [conn_keeps]: "keeps (conn_inv cfg k) (handle_crypto E level f now)"
proof -
  have place: "keeps (conn_inv cfg k) (bindS (space_of level) (\<lambda>sp. case reassemble f sp of (d, sp') \<Rightarrow>
      bindS (upd_space level (\<lambda>_. sp')) (\<lambda>_. m d)))" if m: "\<And>d. keeps (conn_inv cfg k) (m d)" for m
  proof (unfold keeps_iff, intro allI impI)
    fix c assume c: "conn_inv cfg k c"
    obtain d sp' where r: "reassemble f (cn_spaces c level) = (d, sp')" by force
    have "conn_inv cfg k (c\<lparr>cn_spaces := (cn_spaces c)(level := sp')\<rparr>)"
      using reassemble_same_numbers [of "cn_spaces c level" f]
      by (intro same_core_frame [OF c]) (simp add: same_core_def r)
    with m show "conn_inv cfg k (snd (bindS (space_of level) (\<lambda>sp. case reassemble f sp of (d, sp') \<Rightarrow>
      bindS (upd_space level (\<lambda>_. sp')) (\<lambda>_. m d)) c))"
      by (simp add: space_of_def upd_space_def bindS_def r keeps_iff)
  qed
  show ?thesis
    unfolding handle_crypto_def Let_def
    by ((rule place) | (rule conn_keeps keeps_intros) | (simp add: keeps_basic split: exn.split))+
qed

lemma keeps_conn_frames [conn_keeps]:
  "keeps (conn_inv cfg k) (handle_frame E level now frame)"
  "keeps (conn_inv cfg k) (handle_payload E level payload now received zero_rtt)"
proof -
  show frame: "keeps (conn_inv cfg k) (handle_frame E level now frame)" for frame
    unfolding handle_frame_def
    by (cases frame; simp; (rule conn_keeps keeps_intros | (rule keeps_conn_frame, simp add: same_core_def))+)
  show "keeps (conn_inv cfg k) (handle_payload E level payload now received zero_rtt)"
    unfolding handle_payload_def
    by ((rule conn_keeps keeps_intros keeps_forS frame) | (rule keeps_conn_space, simp add: same_numbers_def))+
qed

lemma keeps_conn_locate [conn_keeps]:
  "keeps (conn_inv cfg k) (handle_version_negotiation data now)"
  "keeps (conn_inv cfg k) (handle_retry P data now)"
  "keeps (conn_inv cfg k) (adopt_client_initial P dcid scid)"
  "keeps (conn_inv cfg k) (locate_packet P data now)"
  unfolding handle_version_negotiation_def handle_retry_def adopt_client_initial_def locate_packet_def Let_def
  by ((rule conn_keeps keeps_intros) | (rule keeps_conn_space, simp add: same_numbers_def)
      | (rule keeps_conn_frame, simp add: same_core_def))+


subsection \<open>Receiving a packet\<close>

lemma decode_packet_number_nonneg:
  assumes "-1 \<le> largest" "0 \<le> t" "t < 2 ^ n"
  shows "0 \<le> decode_packet_number largest t n"
proof -
  have "0 \<le> (largest + 1) div 2 ^ n * 2 ^ n + t"
    using assms by (simp add: pos_imp_zdiv_nonneg_iff)
  then show ?thesis
    using candidate_pn [OF assms(2,3), of "largest + 1"]
    by (simp add: decode_packet_number_def Let_def push_bit_eq_mult)
qed

lemma remove_header_protection_pn:
  assumes "remove_header_protection P keys packet off largest = Inr u" "-1 \<le> largest"
  shows "0 \<le> uh_packet_number u"
proof -
  have len: "length ys = length xs" if "mapE f xs = Inr ys" for f and xs :: "nat list" and ys :: bytes
    using that by (induction xs arbitrary: ys) (auto simp: bindE_Inr_iff)
  have "\<exists>bs n f. mapE f [0..<n] = Inr bs
      \<and> uh_packet_number u = decode_packet_number largest (from_be bs) (n * 8)"
    using assms(1)
    by (clarsimp simp only: remove_header_protection_def Let_def bindE_Inr_iff sum.inject split: if_splits)
      (simp only: unprotected_header.simps, blast)
  then obtain bs n f where "mapE f [0..<n] = Inr bs"
    and pn: "uh_packet_number u = decode_packet_number largest (from_be bs) (n * 8)" by blast
  from len [OF this(1)] pn have bs: "length bs = n"
    "uh_packet_number u = decode_packet_number largest (from_be bs) (n * 8)" by simp_all
  have "(256 :: int) ^ n = 2 ^ (n * 8)" by (simp add: power_mult mult.commute [of n])
  then show ?thesis using from_be_bounds [of bs] bs assms(2)
    by (simp add: decode_packet_number_nonneg)
qed

text \<open>A packet number that \<open>_decrypt\<close> returns is not negative.\<close>

lemma decrypt_pn:
  assumes "conn_inv cfg k c" "decrypt P level packet off now zero_rtt c = (Inr (Some (pn, payload)), c')"
  shows "0 \<le> pn"
proof -
  have largest: "-1 \<le> cs_largest_received (cn_spaces c level)"
    using assms(1) by (simp add: conn_inv_def recv_ok_def)
  show ?thesis
  proof (cases zero_rtt)
    case True
    with assms(2) largest show ?thesis
      by (auto simp: decrypt_def decrypt_early_def space_of_def bindS_def someS_def bindE_Inr_iff
          split: option.splits sum.splits if_splits intro: remove_header_protection_pn)
  next
    case False
    with assms(2) show ?thesis
      by (auto simp: decrypt_def space_of_def bindS_Inr_iff someS_def bindE_Inr_iff
          split: option.splits sum.splits if_splits prod.splits
          dest: remove_header_protection_pn [OF _ largest])
  qed
qed

definition with_received :: "int \<Rightarrow> int \<Rightarrow> pn_space \<Rightarrow> pn_space" where
  "with_received pn ecn sp =
     (let sp = count_ecn ecn (sp\<lparr>cs_received := rs_add pn (pn + 1) (cs_received sp)\<rparr>)
      in if pn > cs_largest_received sp then sp\<lparr>cs_largest_received := pn\<rparr> else sp)"

lemma count_ecn_fields [simp]:
  "cs_received (count_ecn ecn sp) = cs_received sp"
  "cs_largest_received (count_ecn ecn sp) = cs_largest_received sp"
  "cs_next_packet_number (count_ecn ecn sp) = cs_next_packet_number sp"
  by (simp_all add: count_ecn_def)

lemma recv_ok_received: "recv_ok sp \<Longrightarrow> 0 \<le> pn \<Longrightarrow> recv_ok (with_received pn ecn sp)"
  unfolding recv_ok_def with_received_def Let_def
  using RangeSet.add_inv [of "cs_received sp" pn "pn + 1"] RangeSet.add_abs [of "cs_received sp" pn "pn + 1"]
  by (auto simp: count_ecn_def)

lemma note_received_inv:
  assumes "conn_inv cfg k c" "0 \<le> pn"
  shows "conn_inv cfg k (snd (note_received level pn now ecn c))"
proof -
  define c1 where "c1 = c\<lparr>cn_spaces := (cn_spaces c)(level := with_received pn ecn (cn_spaces c level))\<rparr>"
  have c1: "conn_inv cfg k c1"
    using assms recv_ok_received [of "cn_spaces c level" pn ecn]
    by (simp add: conn_inv_def c1_def) (simp add: with_received_def Let_def)
  define m where "m = (bindS (getS cn_is_client) (\<lambda>is_client. whenS (\<not> is_client \<and> level = Handshake) (doS [
       discard_space Initial now, modS (\<lambda>c. c\<lparr>cn_address_validated := True\<rparr>)])))"
  have m: "keeps (conn_inv cfg k) m" unfolding m_def
    by ((rule conn_keeps keeps_intros) | (rule keeps_conn_frame, simp add: same_core_def))+
  have "note_received level pn now ecn c = bindS m (\<lambda>_. retS ()) (if pn > cs_largest_received (cn_spaces c level)
      then c1\<lparr>cn_largest_time_received := (cn_largest_time_received c)(level := Some now)\<rparr> else c1)"
    by (simp add: note_received_def space_of_def upd_space_def bindS_def m_def c1_def with_received_def Let_def)
  moreover have "conn_inv cfg k (c1\<lparr>cn_largest_time_received := t\<rparr>)" for t
    by (rule same_core_frame [OF c1]) (simp add: same_core_def)
  moreover have "keeps (conn_inv cfg k) (bindS m (\<lambda>_. retS ()))" by (intro keeps_bindS m keeps_basic)
  ultimately show ?thesis using c1 by (simp add: keeps_iff)
qed


lemma keeps_bind_result:
  assumes "keeps I m" "\<And>s x t. I s \<Longrightarrow> m s = (Inr x, t) \<Longrightarrow> I t \<Longrightarrow> I (snd (f x t))"
  shows "keeps I (bindS m f)"
  unfolding keeps_iff bindS_def
proof (intro allI impI)
  fix s assume s: "I s"
  obtain r t where m: "m s = (r, t)" by force
  with keepsD [OF assms(1) s] assms(2) [OF s] show
    "I (snd (case m s of (Inl e, s') \<Rightarrow> (Inl e, s') | (Inr x, s') \<Rightarrow> f x s'))"
    by (cases r) auto
qed

lemma snd_bindS_keeps: "I (snd (m s)) \<Longrightarrow> (\<And>x. keeps I (f x)) \<Longrightarrow> I (snd (bindS m f s))"
  by (auto simp: bindS_def keeps_iff split: prod.split sum.split)

text \<open>What follows a decryption in \<open>_process_packet\<close>, for a packet number that is not negative.\<close>

lemma payload_step_inv:
  assumes "conn_inv cfg k c" "0 \<le> pn" "keeps (conn_inv cfg k) dup" "\<And>x. keeps (conn_inv cfg k) (h x)"
  shows "conn_inv cfg k (snd (bindS (space_of level) (\<lambda>sp.
     if rs_covers (cs_received sp) pn (pn + 1) then dup
     else bindS (note_received level pn now ecn) h) c))"
  using assms note_received_inv [OF assms(1,2)]
  by (simp add: space_of_def keeps_iff snd_bindS_keeps)

lemma keeps_decrypted:
  assumes "keeps (conn_inv cfg k) none" "\<And>pn payload. keeps (conn_inv cfg k) (dup pn)"
    and "\<And>pn payload x. keeps (conn_inv cfg k) (h pn payload x)"
  shows "keeps (conn_inv cfg k) (bindS (decrypt P level packet off now zero_rtt) (\<lambda>decrypted.
      case decrypted of None \<Rightarrow> none
      | Some (pn, payload) \<Rightarrow> bindS (space_of level) (\<lambda>sp.
          if rs_covers (cs_received sp) pn (pn + 1) then dup pn
          else bindS (note_received level pn now ecn) (h pn payload))))"
proof (rule keeps_bind_result)
  fix c x c'
  assume c: "conn_inv cfg k c" "decrypt P level packet off now zero_rtt c = (Inr x, c')" "conn_inv cfg k c'"
  show "conn_inv cfg k (snd ((case x of None \<Rightarrow> none
      | Some (pn, payload) \<Rightarrow> bindS (space_of level) (\<lambda>sp.
          if rs_covers (cs_received sp) pn (pn + 1) then dup pn
          else bindS (note_received level pn now ecn) (h pn payload))) c'))"
  proof (cases x)
    case None
    with c(3) assms(1) show ?thesis by (simp add: keeps_iff)
  next
    case (Some y)
    obtain pn payload where y: "y = (pn, payload)" by force
    have "0 \<le> pn" using decrypt_pn [OF c(1)] c(2) by (simp add: Some y)
    from payload_step_inv [OF c(3) this assms(2,3)] show ?thesis by (simp add: Some y)
  qed
qed (rule conn_keeps)

lemma keeps_conn_located [conn_keeps]: "keeps (conn_inv cfg k) (handle_located E loc now ecn)"
  unfolding handle_located_def Let_def
  by ((rule keeps_decrypted) | (rule conn_keeps keeps_intros))+

lemma process_packets_inv:
  "conn_inv cfg k c \<Longrightarrow> conn_inv cfg k (snd (process_packets E now ecn rest c))"
proof (induction E now ecn rest c rule: process_packets.induct)
  case (1 E now ecn rest c)
  have "keeps (conn_inv cfg k) (process_packet E rest now ecn)"
    unfolding process_packet_def by (rule conn_keeps keeps_intros)+
  then have "conn_inv cfg k (snd (process_packet E rest now ecn c))" using 1 by (simp add: keeps_iff)
  then show ?case using 1
    by (subst process_packets.simps) (auto split: prod.split sum.split)
qed

lemma keeps_conn_datagram [conn_keeps]:
  "keeps (conn_inv cfg k) (datagram_received E data now source ecn)"
proof -
  have "keeps (conn_inv cfg k) (process_packets E now ecn data)"
    by (simp add: keeps_iff process_packets_inv)
  then have "keeps (conn_inv cfg k) (receive_datagram E data now source ecn)"
    unfolding receive_datagram_def
    by (intro conn_keeps keeps_intros) (rule keeps_conn_frame, simp add: same_core_def)+
  then show ?thesis
    unfolding datagram_received_def
  proof (rule keeps_catchS)
    fix e :: exn
    show "keeps (conn_inv cfg k) (case e of
         ConnectionError code reason frame_typ \<Rightarrow> doS [
           close code reason frame_typ,
           conn_log now ''quic:connection_closed''
             [(''initiator'', JStr ''local''), (''error_code'', JInt code), (''reason'', JText reason)],
           emit_event (ConnectionTerminated code reason)]
       | _ \<Rightarrow> raiseS e)"
      by (cases e; simp only: exn.case; (rule conn_keeps keeps_intros)+)
  qed
qed


subsection \<open>Sending\<close>

lemma keeps_conn_choose [conn_keeps]:
  "keeps (conn_inv cfg k) (choose_ack level room)" "keeps (conn_inv cfg k) (choose_crypto level n)"
  unfolding choose_ack_def choose_crypto_def Let_def
  by ((rule conn_keeps keeps_intros) | (rule keeps_conn_space, simp add: same_numbers_def))+

lemma keeps_conn_take_control [conn_keeps]: "keeps (conn_inv cfg k) (take_control fs room taken)"
proof (induction fs arbitrary: taken)
  case Nil
  show ?case by (cases taken) (simp only: take_control.simps keeps_basic)
next
  case (Cons f fs)
  obtain chosen used where taken: "taken = (chosen, used)" by force
  show ?case unfolding taken take_control.simps
    by ((rule Cons.IH keeps_intros) | (rule keeps_conn_frame, simp add: same_core_def))+
qed

lemma keeps_conn_take_streams [conn_keeps]: "keeps (conn_inv cfg k) (take_streams sids room taken)"
proof (induction sids arbitrary: taken)
  case Nil
  show ?case by (cases taken) (simp only: take_streams.simps keeps_basic)
next
  case (Cons sid sids)
  obtain chosen used where taken: "taken = (chosen, used)" by force
  show ?case unfolding taken take_streams.simps Let_def by (rule Cons.IH conn_keeps keeps_intros)+
qed

lemma keeps_conn_pending [conn_keeps]:
  "keeps (conn_inv cfg k) (application_frames room)"
  "keeps (conn_inv cfg k) (add_probe level room taken)"
  "keeps (conn_inv cfg k) (pending_frames level room ack_only)"
  unfolding application_frames_def add_probe_def pending_frames_def Let_def
  by ((rule conn_keeps keeps_intros) | (rule keeps_conn_frame, simp add: same_core_def))+


text \<open>Taking the next packet number, and handing a packet with it to loss detection.\<close>

definition bumped :: "encryption_level \<Rightarrow> connection \<Rightarrow> connection" where
  "bumped level c = c\<lparr>cn_spaces := (cn_spaces c)(level :=
     (cn_spaces c level)\<lparr>cs_next_packet_number := cs_next_packet_number (cn_spaces c level) + 1\<rparr>)\<rparr>"

lemma bumped_inv: "conn_inv cfg k c \<Longrightarrow> conn_inv cfg k (bumped level c)"
  by (simp add: conn_inv_def bumped_def recv_ok_def) (simp add: less_imp_le add_increasing2)

lemma keeps_conn_bump:
  "keeps (conn_inv cfg k) (upd_space level (\<lambda>sp. sp\<lparr>cs_next_packet_number := cs_next_packet_number sp + 1\<rparr>))"
  unfolding upd_space_def by (rule keeps_modS) (rule bumped_inv [unfolded bumped_def])

lemma recorded_inv:
  assumes "conn_inv cfg k c" "sp_packet_number p = cs_next_packet_number (cn_spaces c (sp_level p)) - 1"
    and "sp_largest_sent (ld_spaces (cn_recovery c) (sp_level p)) < sp_packet_number p" "0 \<le> sp_size p"
  shows "conn_inv cfg k (c\<lparr>cn_recovery := ld_on_packet_sent NewReno p (cn_recovery c)\<rparr>)"
proof -
  have "ld_step NewReno (cn_recovery c) (ld_on_packet_sent NewReno p (cn_recovery c))"
    using assms(3,4) by (rule step_sent [rotated])
  with assms show ?thesis
    unfolding conn_inv_def ld_reachable_def
    by (auto intro: rtranclp.rtrancl_into_rtrancl simp: ld_on_packet_sent_def Let_def)
qed

lemma at_lift: "I s \<Longrightarrow> (\<And>x. I (snd (f x s))) \<Longrightarrow> I (snd (bindS (liftS r) f s))"
  by (cases r) (simp_all add: bindS_def)

lemma keeps_conn_send_frames [conn_keeps]:
  "keeps (conn_inv cfg k) (send_frames P level now pad zero_rtt keys chosen)"
proof (unfold keeps_iff, intro allI impI)
  fix c assume c: "conn_inv cfg k c"
  define pn where "pn = cs_next_packet_number (cn_spaces c level)"
  define entry where "entry = (\<lambda>packet :: bytes. \<lparr>sp_level = level, sp_packet_number = pn, sp_time_sent = now,
          sp_ack_eliciting = list_ex is_ack_eliciting chosen, sp_in_flight = list_ex is_ack_eliciting chosen,
          sp_size = len packet, sp_frames = chosen\<rparr>)"
  have recorded: "conn_inv cfg k (snd (bindS (doS [conn_log now name data,
      modS (\<lambda>c. c\<lparr>cn_recovery := ld_on_packet_sent NewReno (entry packet) (cn_recovery c)\<rparr>)])
      (\<lambda>_. retS packet) (bumped level c)))" for name data packet
  proof -
    define q where "q = map_option (qlog_log now name data) (cn_qlog c)"
    have "conn_inv cfg k ((bumped level c)\<lparr>cn_qlog := q\<rparr>)"
      by (rule same_core_frame [OF bumped_inv [OF c, of level]]) (simp add: same_core_def)
    from recorded_inv [OF this, of "entry packet"] c show ?thesis
      by (simp add: entry_def pn_def bumped_def conn_inv_def conn_log_def bindS_def q_def)
  qed
  show "conn_inv cfg k (snd (send_frames P level now pad zero_rtt keys chosen c))"
  proof (cases "catE (map encode chosen)")
    case (Inr encoded)
    show ?thesis
    proof (cases "pn > MAX_PACKET_NUMBER")
      case False
      have bump: "bindS (upd_space level (\<lambda>sp. sp\<lparr>cs_next_packet_number := cs_next_packet_number sp + 1\<rparr>)) f c
          = f () (bumped level c)" for f :: "unit \<Rightarrow> (connection, bytes) se"
        by (simp add: upd_space_def bumped_def bindS_def)
      note lift = at_lift [where I = "conn_inv cfg k", OF bumped_inv [OF c]]
      show ?thesis
        unfolding send_frames_def Inr Let_def bindS_liftS space_of_def bindS_getS pn_def [symmetric]
          if_not_P [OF False] bump case_prod_unfold
        by (rule lift, rule lift, rule lift, rule recorded [unfolded entry_def])
    qed (use c in \<open>simp add: send_frames_def Inr space_of_def pn_def Let_def\<close>)
  qed (use c in \<open>simp add: send_frames_def bindS_def\<close>)
qed


lemma keeps_conn_build [conn_keeps]:
  "keeps (conn_inv cfg k) (build_packet P level room now pad ack_only)"
  unfolding build_packet_def Let_def by (rule conn_keeps keeps_intros)+

lemma keeps_conn_coalesce [conn_keeps]: "keeps (conn_inv cfg k) (coalesce P now ack_only budget levels payload)"
proof (induction levels arbitrary: payload)
  case Nil
  show ?case by (simp only: coalesce.simps keeps_basic)
next
  case (Cons level levels)
  show ?case unfolding coalesce.simps Let_def by (rule Cons.IH conn_keeps keeps_intros)+
qed

lemma keeps_conn_pacing [conn_keeps]:
  "keeps (conn_inv cfg k) (build_datagram P now ack_only)"
  "keeps (conn_inv cfg k) (pacing_allowance now)"
  "keeps (conn_inv cfg k) (pacing_blocked now)"
  unfolding build_datagram_def pacing_allowance_def pacing_blocked_def Let_def
  by ((rule conn_keeps keeps_intros) | (rule keeps_conn_frame, simp add: same_core_def))+

lemma keeps_conn_send_loop [conn_keeps]: "keeps (conn_inv cfg k) (send_loop P now fuel datagrams)"
proof (induction fuel arbitrary: datagrams)
  case 0
  show ?case by (simp only: send_loop.simps keeps_basic)
next
  case (Suc fuel)
  show ?case unfolding send_loop.simps
    by ((rule Suc.IH conn_keeps keeps_intros) | (rule keeps_conn_frame, simp add: same_core_def))+
qed

lemma keeps_conn_close [conn_keeps]: "keeps (conn_inv cfg k) (close_levels P now f levels)"
proof (induction levels)
  case Nil
  show ?case by (simp only: close_levels.simps keeps_basic)
next
  case (Cons level levels)
  show ?case unfolding close_levels.simps Let_def
    by ((rule Cons.IH conn_keeps keeps_intros keeps_conn_bump) | (rule keeps_conn_frame, simp add: same_core_def))+
qed

lemma keeps_conn_send [conn_keeps]:
  "keeps (conn_inv cfg k) (build_close_datagram P now)"
  "keeps (conn_inv cfg k) (datagrams_to_send P now)"
  unfolding build_close_datagram_def datagrams_to_send_def
  by ((rule conn_keeps keeps_intros) | (rule keeps_conn_frame, simp add: same_core_def))+

subsection \<open>Timers and the application\<close>

lemma keeps_conn_timer [conn_keeps]:
  "keeps (conn_inv cfg k) resend_early_application_data"
  "keeps (conn_inv cfg k) (prepare_probe level)"
  "keeps (conn_inv cfg k) (handle_timer now)"
  unfolding resend_early_application_data_def prepare_probe_def handle_timer_def
  by ((rule conn_keeps keeps_intros keeps_forS) | (rule keeps_conn_frame, simp add: same_core_def))+

lemma keeps_conn_api [conn_keeps]:
  "keeps (conn_inv cfg k) (client_tls_call f)" "keeps (conn_inv cfg k) (connect P now)"
  "keeps (conn_inv cfg k) validate_path" "keeps (conn_inv cfg k) (send_new_token token)"
  "keeps (conn_inv cfg k) open_stream" "keeps (conn_inv cfg k) (send_stream_data sid data fin)"
  "keeps (conn_inv cfg k) take_events"
  unfolding client_tls_call_def connect_def validate_path_def send_new_token_def open_stream_def
    send_stream_data_def take_events_def Let_def
  by ((rule conn_keeps keeps_intros) | (rule keeps_conn_frame, simp add: same_core_def))+

lemma keeps_conn_call: "keeps (conn_inv cfg k) (run_call E call)"
  by (cases call; simp only: run_call.simps; (rule conn_keeps keeps_intros)+)

lemma conn_inv_reaches: "reaches E c d \<Longrightarrow> conn_inv cfg k c \<Longrightarrow> conn_inv cfg k d"
  by (rule reaches_keeps [OF _ _ keeps_conn_call])

text \<open>A new connection satisfies it, with any floor for the packet numbers that is not positive.\<close>

lemma conn_inv_new:
  assumes "mk_connection P is_client cc sc config dest rng tls_rng = Inr c" "\<And>l. k l \<le> 0"
  shows "conn_inv config k c"
proof -
  let ?c0 = "initial_connection is_client sc config dest rng tls_rng"
  define m where "m = doS [
        if is_client then init_client_tls P cc else if sc = None then raiseS ValueError else retS (),
        whenS is_client (bindS (getS cn_initial_dcid) (install_initial_keys P))]"
  have "conn_inv config k ?c0"
    using assms(2)
    by (auto simp: conn_inv_def initial_connection_def Let_def mk_loss_detection_def mk_space_def
        mk_pn_space_def recv_ok_def rs_inv_def rs_abs_def ld_reachable_def)
  moreover have "keeps (conn_inv config k) m"
    unfolding m_def init_client_tls_def
    by ((rule conn_keeps keeps_intros) | (rule keeps_conn_frame, simp add: same_core_def))+
  moreover have "m ?c0 = (Inr (), c)"
    using assms(1) unfolding mk_connection_def m_def [symmetric] by (auto split: prod.splits sum.splits)
  ultimately show ?thesis by (auto dest: keepsD)
qed

end
