(* ===== verification/Connection_Properties.thy ===== *)
theory Connection_Properties
  imports Connection_Invariants
begin

text \<open>
  Properties of every state a connection can get into: loss detection is used within its
  contract, packet numbers are never reused, and an ACK frame names received packets only.
\<close>

section \<open>Packet numbers and loss detection\<close>

lemma reachable_flight:
  assumes "ld_reachable NewReno (mk_new_reno m) ld" "0 < m"
  shows "nr_bytes_in_flight (ld_controller ld) = ld_flight ld"
proof -
  have "cc_bytes_in_flight NewReno (mk_new_reno m) = 0" by (simp add: NewReno_def mk_new_reno_def)
  from nr.ld_reachable_inv [OF assms(1) nr_inv_init [OF assms(2)] this]
  show ?thesis by (simp add: ld_inv_def NewReno_def)
qed

lemma reachable_tracked:
  assumes "ld_reachable NewReno (mk_new_reno m) ld" "0 < m" "(pn, p) \<in> set (sp_sent (ld_spaces ld level))"
  shows "pn = sp_packet_number p \<and> pn \<le> sp_largest_sent (ld_spaces ld level)"
proof -
  have "cc_bytes_in_flight NewReno (mk_new_reno m) = 0" by (simp add: NewReno_def mk_new_reno_def)
  from nr.ld_reachable_inv [OF assms(1) nr_inv_init [OF assms(2)] this]
  have "space_ok level (ld_spaces ld level)" by (simp add: ld_inv_def)
  with assms(3) show ?thesis by (auto simp: space_ok_def list_all_iff)
qed

text \<open>
  C5: whatever calls are made on a connection, its loss detector is only driven the way loss
  detection expects, so that every state of it is one a run of the loss detector alone reaches;
  in particular the bytes in flight the send budget is computed from are the sizes of the packets
  still tracked.
\<close>

theorem connection_drives_recovery:
  assumes "mk_connection P is_client client_config server_config config destination rng tls_rng = Inr c"
    and "reaches E c d" and "0 < cg_max_datagram_size config"
  shows "ld_reachable NewReno (mk_new_reno (cg_max_datagram_size config)) (cn_recovery d)
    \<and> nr_bytes_in_flight (ld_controller (cn_recovery d))
      = (\<Sum>level\<leftarrow>all_levels. flight_sizes (map snd (sp_sent (ld_spaces (cn_recovery d) level))))"
proof (rule conjI)
  have "conn_inv config (\<lambda>_. 0) d"
    using conn_inv_reaches [OF assms(2) conn_inv_new [OF assms(1)]] by simp
  then show r: "ld_reachable NewReno (mk_new_reno (cg_max_datagram_size config)) (cn_recovery d)"
    by (simp add: conn_inv_def)
  show "nr_bytes_in_flight (ld_controller (cn_recovery d))
      = (\<Sum>level\<leftarrow>all_levels. flight_sizes (map snd (sp_sent (ld_spaces (cn_recovery d) level))))"
    using reachable_flight [OF r assms(3)] by (simp add: ld_flight_def ld_tracked_def)
qed

text \<open>
  C3: packet numbers are never reused. The next packet number of a space never decreases, and
  every packet that loss detection still tracks has a smaller number.
\<close>

theorem packet_numbers_fresh:
  assumes "mk_connection P is_client client_config server_config config destination rng tls_rng = Inr c"
    and "reaches E c d" and "reaches E d d'" and "0 < cg_max_datagram_size config"
  shows "cs_next_packet_number (cn_spaces d level) \<le> cs_next_packet_number (cn_spaces d' level)
    \<and> (\<forall>(pn, p) \<in> set (sp_sent (ld_spaces (cn_recovery d) level)).
      pn = sp_packet_number p \<and> pn < cs_next_packet_number (cn_spaces d level))"
proof (rule conjI)
  have d: "conn_inv config (\<lambda>_. 0) d"
    using conn_inv_reaches [OF assms(2) conn_inv_new [OF assms(1)]] by simp
  then have "conn_inv config (\<lambda>l. cs_next_packet_number (cn_spaces d l)) d"
    by (simp add: conn_inv_def)
  from conn_inv_reaches [OF assms(3) this]
  show "cs_next_packet_number (cn_spaces d level) \<le> cs_next_packet_number (cn_spaces d' level)"
    by (simp add: conn_inv_def)
  from d have r: "ld_reachable NewReno (mk_new_reno (cg_max_datagram_size config)) (cn_recovery d)"
    and l: "sp_largest_sent (ld_spaces (cn_recovery d) level) < cs_next_packet_number (cn_spaces d level)"
    by (simp_all add: conn_inv_def)
  show "\<forall>(pn, p) \<in> set (sp_sent (ld_spaces (cn_recovery d) level)).
      pn = sp_packet_number p \<and> pn < cs_next_packet_number (cn_spaces d level)"
    using reachable_tracked [OF r assms(4)] l by fastforce
qed


section \<open>Acknowledgements\<close>

definition acknowledged :: "ack \<Rightarrow> int set" where
  "acknowledged a = (\<Union>(low, high) \<in> set (ack_ranges a). {low..high})"

lemma ranges_ok_rev:
  assumes "rs_inv rs" "\<forall>(a, b) \<in> set rs. 0 \<le> a" "rs \<noteq> [] \<longrightarrow> snd (last rs) < prev"
  shows "ranges_ok prev (map (\<lambda>(a, b). (a, b - 1)) (rev rs))"
  using assms
proof (induction rs arbitrary: prev rule: rev_induct)
  case (snoc r rs)
  obtain a b where r: "r = (a, b)" by force
  have "rs_inv rs" "a < b" "\<forall>q \<in> set rs. snd q < a"
    using snoc.prems(1) by (auto simp: rs_inv_def sorted_wrt_append r)
  with snoc.IH [of a] snoc.prems show ?case by (auto simp: r)
qed simp

lemma rs_inv_drop: "rs_inv rs \<Longrightarrow> rs_inv (drop n rs)"
  by (auto simp: rs_inv_def sorted_wrt_drop dest: in_set_dropD)

lemma rs_last_max:
  assumes "rs_inv rs" "rs \<noteq> []"
  shows "snd (last rs) - 1 \<in> rs_abs rs" and "\<forall>i \<in> rs_abs rs. i < snd (last rs)"
proof -
  obtain front a b where rs: "rs = front @ [(a, b)]"
    using assms(2) by (cases rs rule: rev_cases) auto
  show "snd (last rs) - 1 \<in> rs_abs rs" using assms(1) by (auto simp: rs rs_abs_def rs_inv_def)
  show "\<forall>i \<in> rs_abs rs. i < snd (last rs)"
    using assms(1) by (fastforce simp: rs rs_abs_def rs_inv_def sorted_wrt_append)
qed

lemma build_ack_correct:
  assumes ok: "recv_ok sp" and a: "build_ack sp = Some a"
  shows "ack_largest a = Max (rs_abs (cs_received sp))"
    and "acknowledged a \<subseteq> rs_abs (cs_received sp)"
    and "length (cs_received sp) \<le> 32 \<Longrightarrow> acknowledged a = rs_abs (cs_received sp)"
    and "ranges_ok (ack_largest a + 2) (ack_ranges a) \<and> ack_ranges a \<noteq> []
      \<and> snd (hd (ack_ranges a)) = ack_largest a \<and> ack_delay a = 0 \<and> length (ack_ranges a) \<le> 32
      \<and> 0 \<le> ack_largest a"
proof -
  define rs where "rs = cs_received sp"
  define newest where "newest = drop (length rs - 32) rs"
  define L where "L = cs_largest_received sp"
  have eq: "ack_ranges a = map (\<lambda>(a, b). (a, b - 1)) (rev newest)" "ack_largest a = L" "ack_delay a = 0" "0 \<le> L"
    using a by (auto simp: build_ack_def Let_def rs_def newest_def L_def MAX_ACK_RANGES_def split: if_splits)
  have rs: "rs_inv rs" "rs_abs rs \<subseteq> {0..L}" "L \<in> rs_abs rs"
    using ok eq(4) by (auto simp: recv_ok_def rs_def L_def)
  then have "rs \<noteq> []" by (auto simp: rs_abs_def)
  then have "length rs - 32 < length rs" by (simp add: length_greater_0_conv)
  then have ne: "newest \<noteq> []" "last newest = last rs" by (simp_all add: newest_def)
  have inv: "rs_inv newest" unfolding newest_def by (rule rs_inv_drop [OF rs(1)])
  have sub: "set newest \<subseteq> set rs" by (simp add: newest_def set_drop_subset)
  have last: "snd (last rs) = L + 1"
    using rs_last_max [OF rs(1) \<open>rs \<noteq> []\<close>] rs(2,3) by fastforce
  have low: "\<forall>(a, b) \<in> set newest. 0 \<le> a"
    using rs(1,2) sub by (fastforce simp: rs_abs_def rs_inv_def)
  have acked: "acknowledged a = rs_abs newest"
    by (auto simp: acknowledged_def eq rs_abs_def)
  show "ack_largest a = Max (rs_abs (cs_received sp))"
    unfolding rs_def [symmetric] eq using rs
    by (intro Max_eqI [symmetric]) (auto intro: finite_subset)
  show "acknowledged a \<subseteq> rs_abs (cs_received sp)"
    unfolding acked using sub by (fastforce simp: rs_abs_def rs_def)
  show "acknowledged a = rs_abs (cs_received sp)" if "length (cs_received sp) \<le> 32"
    using that unfolding acked by (simp add: newest_def rs_def)
  have "snd (hd (map (\<lambda>(a, b). (a, b - 1)) (rev newest))) = L"
    using ne last by (simp add: hd_map hd_rev case_prod_unfold)
  with ranges_ok_rev [OF inv low, of "L + 2"] ne last eq
  show "ranges_ok (ack_largest a + 2) (ack_ranges a) \<and> ack_ranges a \<noteq> []
      \<and> snd (hd (ack_ranges a)) = ack_largest a \<and> ack_delay a = 0 \<and> length (ack_ranges a) \<le> 32
      \<and> 0 \<le> ack_largest a"
    by (simp add: newest_def)
qed

text \<open>
  C10: in every state of a connection, the ACK frame it would send for a space names only packet
  numbers it has received there, all of them unless more than 32 ranges are open, with the largest
  one first; and as long as the numbers fit the wire format, the frame encodes and the peer
  parses it back unchanged.
\<close>

theorem ack_names_received_packets:
  assumes "mk_connection P is_client client_config server_config config destination rng tls_rng = Inr c"
    and "reaches E c d" and "build_ack (cn_spaces d level) = Some a"
  shows "ack_largest a = Max (rs_abs (cs_received (cn_spaces d level)))
    \<and> acknowledged a \<subseteq> rs_abs (cs_received (cn_spaces d level))
    \<and> (length (cs_received (cn_spaces d level)) \<le> 32 \<longrightarrow>
      acknowledged a = rs_abs (cs_received (cn_spaces d level)))
    \<and> (ack_largest a < 2 ^ 62 \<and> ecn_wf (ack_ecn a) \<longrightarrow>
      (\<exists>bs. encode (Ack a) = Inr bs \<and> parse_frames bs = Inr [Ack a]))"
proof (intro conjI impI)
  have "conn_inv config (\<lambda>_. 0) d"
    using conn_inv_reaches [OF assms(2) conn_inv_new [OF assms(1)]] by simp
  then have "recv_ok (cn_spaces d level)" by (simp add: conn_inv_def)
  note ack = build_ack_correct [OF this assms(3)]
  show "ack_largest a = Max (rs_abs (cs_received (cn_spaces d level)))"
    "acknowledged a \<subseteq> rs_abs (cs_received (cn_spaces d level))" using ack(1,2) by auto
  show "acknowledged a = rs_abs (cs_received (cn_spaces d level))"
    if "length (cs_received (cn_spaces d level)) \<le> 32" using ack(3) that by auto
  assume "ack_largest a < 2 ^ 62 \<and> ecn_wf (ack_ecn a)"
  then have "list_all frame_ok [Ack a]" using ack(4)
    by (simp add: frame_ok_def ack_wf_def varint_ok_def VARINT_MAX_def)
  from pull_all_frames [OF this] obtain bss where "mapE encode [Ack a] = Inr bss" "concat bss \<noteq> []"
    "\<forall>pre. pull_all parse_frame (buf_at pre (concat bss)) = (Inr [Ack a], buf_at (pre @ concat bss) [])"
    by (metis list.distinct(1) no_adjacent_padding.simps(3))
  then show "\<exists>bs. encode (Ack a) = Inr bs \<and> parse_frames bs = Inr [Ack a]"
    by (auto simp: bindE_Inr_iff parse_frames_def mk_buffer_at)
qed


section \<open>An instance\<close>

text \<open>A server that receives a PING in a client's first Initial, over \<open>toy_prims\<close>.\<close>

definition example_rng :: rng where
  "example_rng = (\<lambda>i n. replicate n 0)"

definition example_env :: env where
  "example_env = \<lparr>env_prims = toy_prims, env_message = (\<lambda>e. [])\<rparr>"

definition example_server_config :: server_config where
  "example_server_config = \<lparr>sc_certificate_chain = [], sc_signing_key = RsaPrivateKey [],
     sc_alpn = [''h3''], sc_transport_parameters = [], sc_ticket_key = None\<rparr>"

definition example_server :: connection where
  "example_server =
     initial_connection False (Some example_server_config) default_connection_config None example_rng example_rng"

definition example_initial :: bytes where
  "example_initial = [192, 0, 0, 0, 1, 8, 1, 2, 3, 4, 5, 6, 7, 8, 1, 9, 0, 21,
     192, 1, 0, 0, 0, 192, 0, 0, 0, 1, 8, 1, 2, 3, 4, 5, 6, 7, 8, 1, 9]"

definition example_pinged :: connection where
  "example_pinged = snd (run_call example_env (DatagramReceived example_initial 0 None 2) example_server)"

lemma example_server_new:
  "mk_connection toy_prims False None (Some example_server_config) default_connection_config None
     example_rng example_rng = Inr example_server"
  by (simp add: mk_connection_def example_server_def)

lemma example_pinged_reached: "reaches example_env example_server example_pinged"
  unfolding example_pinged_def
  by (rule reaches_call [OF reaches_refl, where k = "DatagramReceived example_initial 0 None 2"])
    (rule surjective_pairing)

lemma example_ack:
  "build_ack (cn_spaces example_pinged Initial) = Some \<lparr>ack_largest = 0, ack_delay = 0, ack_ranges = [(0, 0)],
     ack_ecn = Some \<lparr>ect0 = 1, ect1 = 0, ce = 0\<rparr>\<rparr>"
  by code_simp

theorem connection_drives_recovery_witness:
  "ld_reachable NewReno (mk_new_reno 1200) (cn_recovery example_pinged)
    \<and> nr_bytes_in_flight (ld_controller (cn_recovery example_pinged))
      = (\<Sum>level\<leftarrow>all_levels. flight_sizes (map snd (sp_sent (ld_spaces (cn_recovery example_pinged) level))))"
  using connection_drives_recovery [OF example_server_new example_pinged_reached]
  by (simp add: default_connection_config_def DEFAULT_MAX_DATAGRAM_SIZE_def)

theorem packet_numbers_fresh_witness:
  "cs_next_packet_number (cn_spaces example_server Initial)
     \<le> cs_next_packet_number (cn_spaces example_pinged Initial)"
  using packet_numbers_fresh [OF example_server_new reaches_refl example_pinged_reached]
  by (simp add: default_connection_config_def DEFAULT_MAX_DATAGRAM_SIZE_def)

theorem ack_names_received_packets_witness:
  "0 = Max (rs_abs (cs_received (cn_spaces example_pinged Initial)))
    \<and> (\<exists>bs. encode (Ack \<lparr>ack_largest = 0, ack_delay = 0, ack_ranges = [(0, 0)],
        ack_ecn = Some \<lparr>ect0 = 1, ect1 = 0, ce = 0\<rparr>\<rparr>) = Inr bs)"
  using ack_names_received_packets [OF example_server_new example_pinged_reached example_ack]
  by (auto simp: ecn_wf_def)

end
