(* ===== verification/Connection_Delivery.thy ===== *)
theory Connection_Delivery
  imports Connection_Properties
begin

text \<open>
  What one endpoint sends the other receives: the frames a connection puts in a 1-RTT packet are
  those the peer finds in it, a key update of one endpoint is followed by the other, and TLS gets
  the bytes of the CRYPTO streams in order.
\<close>

unbundle bit_operations_syntax

section \<open>The payload of a packet\<close>

text \<open>The padding that \<open>pad_payload\<close> adds is one PADDING frame to the reader.\<close>

definition padding_frames :: "nat \<Rightarrow> frame list" where
  "padding_frames k = (if k = 0 then [] else [Padding (int k)])"

definition sendable :: "frame list \<Rightarrow> bool" where
  "sendable fs \<longleftrightarrow> fs \<noteq> [] \<and> list_all frame_ok fs \<and> list_all (\<lambda>f. \<not> is_Padding f) fs"

lemma no_adjacent_padding_append:
  "list_all (\<lambda>f. \<not> is_Padding f) fs \<Longrightarrow> no_adjacent_padding (fs @ padding_frames k)"
proof (induction fs)
  case (Cons f fs)
  then show ?case by (cases fs) (auto simp: padding_frames_def)
qed (simp add: padding_frames_def)

lemma parse_padded:
  assumes "sendable fs"
  shows "\<exists>encoded. catE (map encode fs) = Inr encoded
    \<and> parse_frames (encoded @ zeros k) = Inr (fs @ padding_frames k)"
proof -
  have ok: "list_all frame_ok (fs @ padding_frames k)"
    using assms by (auto simp: sendable_def padding_frames_def frame_ok_def)
  have pad: "no_adjacent_padding (fs @ padding_frames k)"
    using assms no_adjacent_padding_append by (simp add: sendable_def)
  have "fs @ padding_frames k \<noteq> []" using assms by (simp add: sendable_def)
  with pull_all_frames [OF ok pad] obtain bss where bss: "mapE encode (fs @ padding_frames k) = Inr bss" "concat bss \<noteq> []"
    and all: "\<forall>pre. pull_all parse_frame (buf_at pre (concat bss)) = (Inr (fs @ padding_frames k), buf_at (pre @ concat bss) [])"
    by blast
  have "pull_all parse_frame (mk_buffer (concat bss)) = (Inr (fs @ padding_frames k), buf_at (concat bss) [])"
    using all [rule_format, of "[]"] by (simp add: mk_buffer_at)
  note bss = bss this
  have split: "mapE f (xs @ ys) = bindE (mapE f xs) (\<lambda>a. bindE (mapE f ys) (\<lambda>b. Inr (a @ b)))"
    for f :: "frame \<Rightarrow> bytes result" and xs ys
    by (induction xs) (auto simp: bindE_def split: sum.split)
  have "mapE encode (padding_frames k) = Inr (if k = 0 then [] else [zeros k])"
    by (simp add: padding_frames_def encode_padding_def zeros_def)
  with bss(1) obtain as where as: "mapE encode fs = Inr as" "concat bss = concat as @ zeros k"
    by (auto simp: split bindE_Inr_iff zeros_def split: if_splits)
  show ?thesis
    using as bss(2,3) by (intro exI [of _ "concat as"]) (simp add: catE_map parse_frames_def)
qed


section \<open>The header of a packet\<close>

definition short_first :: "bool \<Rightarrow> nat \<Rightarrow> byte" where
  "short_first phase n = word_of_int (0x40 OR (int n - 1) OR (if phase then 4 else 0))"

lemma short_first_bits:
  assumes "1 \<le> n" "n \<le> 4"
  shows "unat (short_first phase n AND 3) + 1 = n" "short_first phase n AND 4 \<noteq> 0 \<longleftrightarrow> phase"
    "protected_bits (short_first phase n) = 0x1F"
    "(short_first phase n XOR (m AND 0x1F)) AND 0x80 = 0" "(short_first phase n XOR (m AND 0x1F)) AND 0x40 \<noteq> 0"
    "byte1 (short_header_first_byte sp (int n)) = Inr [short_first (cs_key_phase sp) n]"
proof -
  have n: "n \<in> {1, 2, 3, 4}" using assms by auto
  show "unat (short_first phase n AND 3) + 1 = n" "short_first phase n AND 4 \<noteq> 0 \<longleftrightarrow> phase"
    "protected_bits (short_first phase n) = 0x1F"
    using n by (auto simp: short_first_def protected_bits_def)
  have high: "short_first phase n AND 0x80 = 0" "short_first phase n AND 0x40 = 0x40"
    using n by (auto simp: short_first_def)
  have "(f XOR (m AND 0x1F)) AND 0x80 = f AND 0x80" "(f XOR (m AND 0x1F)) AND 0x40 = f AND 0x40" for f :: byte
    by (simp_all add: and.assoc xor.assoc bit.conj_xor_distrib2 bit.conj_xor_distrib)
  with high show "(short_first phase n XOR (m AND 0x1F)) AND 0x80 = 0" "(short_first phase n XOR (m AND 0x1F)) AND 0x40 \<noteq> 0"
    by simp_all
  show "byte1 (short_header_first_byte sp (int n)) = Inr [short_first (cs_key_phase sp) n]"
    using n by (auto simp: short_header_first_byte_def short_first_def byte1_def to_bytes_def)
qed

text \<open>The packet number field of a packet: \<open>_build_packet\<close> truncates against the start of the
  space, so the field leaves room for every number sent, or is as long as a field can be.\<close>

lemma encode_from_start:
  assumes "0 \<le> pn" "pn \<le> MAX_PACKET_NUMBER"
  obtains n where "encode_packet_number pn None = Inr (to_be n pn)" "1 \<le> n" "n \<le> 4"
    "pn + 1 < 2 ^ (8 * n - 1) \<or> n = 4"
proof (cases "pn + 1 < 2 ^ 31")
  case True
  have "pn < 2 ^ 62" "0 < pn + 1" using assms by (simp_all add: MAX_PACKET_NUMBER_def)
  with assms(1) True obtain n where "encode_packet_number pn None = Inr (to_be n pn)" "1 \<le> n" "n \<le> 4"
    "pn + 1 < 2 ^ (8 * n - 1)"
    using encode_packet_number_width [of pn "pn + 1" None thesis] that by (metis option.simps(4))
  then show ?thesis using that by blast
next
  case False
  let ?bits = "bit_length_nat (nat (pn + 1))"
  have "\<not> ?bits \<le> 31"
  proof
    assume "?bits \<le> 31"
    then have "(2 :: nat) ^ ?bits \<le> 2 ^ 31" by (intro power_increasing) auto
    then have "nat (pn + 1) < 2 ^ 31" using less_bit_length_nat [of "nat (pn + 1)"] by linarith
    with False show False by (simp add: nat_less_iff)
  qed
  then have four: "min 4 (max 1 ((bit_length (pn + 1) + 1 + 7) div 8)) = 4"
    using assms by (simp add: bit_length_def)
  have "to_bytes 8 pn = Inr (to_be 8 pn)"
    using assms by (simp add: to_bytes_def MAX_PACKET_NUMBER_def)
  then have "encode_packet_number pn None = Inr (to_be 4 pn)"
    using four slice_from_to_be [of 4 8 pn] by (simp add: encode_packet_number_def Let_def)
  then show ?thesis by (rule that) auto
qed

text \<open>A receiver is near a packet number if it has not fallen \<open>2 ^ 31\<close> packets behind and the
  packet is not more than 126 packets late.\<close>

definition near :: "int \<Rightarrow> int \<Rightarrow> bool" where
  "near largest pn \<longleftrightarrow> -1 \<le> largest \<and> largest < pn + 127 \<and> pn - largest \<le> 2 ^ 31"

lemma near_window:
  assumes "near largest pn" "1 \<le> n" "n \<le> 4" "pn + 1 < 2 ^ (8 * n - 1) \<or> n = 4"
  shows "largest + 1 - 2 ^ (8 * n - 1) < pn" "pn \<le> largest + 1 + 2 ^ (8 * n - 1)"
proof -
  have "(2 :: int) ^ 7 \<le> 2 ^ (8 * n - 1)" using assms(2) by (intro power_increasing) auto
  then show "largest + 1 - 2 ^ (8 * n - 1) < pn" using assms(1) by (simp add: near_def)
  show "pn \<le> largest + 1 + 2 ^ (8 * n - 1)" using assms(1,4) by (auto simp: near_def)
qed


section \<open>A packet from one connection to another\<close>

text \<open>What \<open>_build_packet\<close> makes of chosen frames in the 1-RTT space.\<close>

lemma send_frames_short:
  fixes c :: connection
  defines "sp \<equiv> cn_spaces c OneRtt"
  defines "pn \<equiv> cs_next_packet_number sp"
  assumes P: "prims_ok P" "keys_ok keys" and chosen: "sendable chosen" and pn: "0 \<le> pn" "pn \<le> MAX_PACKET_NUMBER"
  shows "\<exists>n payload k packet c'. 1 \<le> n \<and> n \<le> 4 \<and> (pn + 1 < 2 ^ (8 * n - 1) \<or> n = 4)
    \<and> 4 \<le> length payload \<and> parse_frames payload = Inr (chosen @ padding_frames k)
    \<and> protect P keys (short_first (cs_key_phase sp) n # cn_peer_cid c @ to_be n pn) payload pn = Inr packet
    \<and> send_frames P OneRtt now pad False keys chosen c = (Inr packet, c')
    \<and> cn_spaces c' OneRtt = sp\<lparr>cs_next_packet_number := pn + 1\<rparr>"
proof -
  from encode_from_start [OF pn] obtain n where
    n: "encode_packet_number pn None = Inr (to_be n pn)" "1 \<le> n" "n \<le> 4" "pn + 1 < 2 ^ (8 * n - 1) \<or> n = 4" .
  from parse_padded [OF chosen] obtain encoded where enc: "catE (map encode chosen) = Inr encoded" by blast
  define k where "k = minimum_payload - length encoded"
  have payload: "pad_payload minimum_payload encoded = encoded @ zeros k"
    by (simp add: pad_payload_def k_def)
  have four: "4 \<le> length (encoded @ zeros k)"
    by (simp add: k_def minimum_payload_def zeros_def)
  have parsed: "parse_frames (encoded @ zeros k) = Inr (chosen @ padding_frames k)"
    using parse_padded [OF chosen, of k] enc by auto
  have header: "short_packet_header sp' cid (to_be n pn) = Inr (short_first (cs_key_phase sp') n # cid @ to_be n pn)" for sp' cid
    using short_first_bits(6) [OF n(2,3), of sp'] by (simp add: short_packet_header_def)
  have "\<exists>packet. protect P keys (short_first (cs_key_phase sp) n # cn_peer_cid c @ to_be n pn) (encoded @ zeros k) pn = Inr packet"
    using protect_opened [OF P short_first_bits(1) [OF n(2,3)], of "encoded @ zeros k" pn "pn" "cs_key_phase sp" "cn_peer_cid c"]
      four pn n by (auto simp: MAX_PACKET_NUMBER_def)
  then obtain packet where packet:
    "protect P keys (short_first (cs_key_phase sp) n # cn_peer_cid c @ to_be n pn) (encoded @ zeros k) pn = Inr packet" ..
  have "\<exists>c'. send_frames P OneRtt now pad False keys chosen c = (Inr packet, c')
      \<and> cn_spaces c' OneRtt = sp\<lparr>cs_next_packet_number := pn + 1\<rparr>"
    using pn packet unfolding send_frames_def
    by (simp add: enc payload space_of_def upd_space_def Let_def n(1) packet_header_def header conn_log_def
        sp_def [symmetric] pn_def [symmetric])
  then show ?thesis using n four parsed packet by blast
qed

text \<open>Header protection only depends on its own key, which every generation of keys shares.\<close>

definition same_header_key :: "packet_keys \<Rightarrow> packet_keys \<Rightarrow> bool" where
  "same_header_key k k' \<longleftrightarrow> pk_hp k = pk_hp k' \<and> pk_cipher_suite k = pk_cipher_suite k'"

lemma remove_header_protection_same:
  assumes "same_header_key k k'"
  shows "remove_header_protection P k = remove_header_protection P k'"
proof -
  have "header_protection_mask P k = header_protection_mask P k'"
    using assms by (simp add: same_header_key_def header_protection_mask_def fun_eq_iff)
  then show ?thesis by (intro ext) (simp only: remove_header_protection_def)
qed

lemma send_frames_opened:
  fixes c :: connection
  defines "sp \<equiv> cn_spaces c OneRtt"
  defines "pn \<equiv> cs_next_packet_number sp"
  assumes P: "prims_ok P" "keys_ok keys" and chosen: "sendable chosen" and pn: "0 \<le> pn" "pn \<le> MAX_PACKET_NUMBER"
    and near: "near largest pn" and hp: "same_header_key kr keys"
  obtains packet c' u payload k first tail where "send_frames P OneRtt now pad False keys chosen c = (Inr packet, c')"
    "cn_spaces c' OneRtt = sp\<lparr>cs_next_packet_number := pn + 1\<rparr>"
    "packet = first # cn_peer_cid c @ tail" "first AND 0x80 = 0" "first AND 0x40 \<noteq> 0"
    "remove_header_protection P kr packet (Suc (length (cn_peer_cid c))) largest = Inr u"
    "uh_packet_number u = pn" "uh_key_phase u = cs_key_phase sp" "decrypt_payload P keys u = Inr payload"
    "parse_frames payload = Inr (chosen @ padding_frames k)"
proof -
  from send_frames_short [OF P chosen, of c now pad] pn obtain n payload k packet c' where
    n: "1 \<le> n" "n \<le> 4" "pn + 1 < 2 ^ (8 * n - 1) \<or> n = 4" and payload: "4 \<le> length payload"
      "parse_frames payload = Inr (chosen @ padding_frames k)"
    and packet: "protect P keys (short_first (cs_key_phase sp) n # cn_peer_cid c @ to_be n pn) payload pn = Inr packet"
    and sent: "send_frames P OneRtt now pad False keys chosen c = (Inr packet, c')"
      "cn_spaces c' OneRtt = sp\<lparr>cs_next_packet_number := pn + 1\<rparr>"
    unfolding sp_def pn_def by blast
  let ?f = "short_first (cs_key_phase sp) n"
  have bits: "unat (?f AND 3) + 1 = n" "4 \<le> n + length payload" "pn < 2 ^ 62"
    using short_first_bits(1) [OF n(1,2)] payload pn by (auto simp: MAX_PACKET_NUMBER_def)
  from protect_opened [OF P bits(1,2) pn(1) bits(3) near_window [OF near n], of "cn_peer_cid c"] packet
  obtain m tail u where open': "packet = (?f XOR (m AND protected_bits ?f)) # cn_peer_cid c @ tail"
    "remove_header_protection P keys packet (Suc (length (cn_peer_cid c))) largest = Inr u"
    "uh_packet_number u = pn" "uh_key_phase u = (?f AND 4 \<noteq> 0)" "decrypt_payload P keys u = Inr payload"
    by auto
  show thesis
    by (rule that [OF sent open'(1)])
      (use open' short_first_bits(2-5) [OF n(1,2), of "cs_key_phase sp"] payload remove_header_protection_same [OF hp]
        in \<open>simp_all\<close>)
qed

text \<open>What \<open>_process_packet\<close> does with the frames of a 1-RTT packet that authenticated.\<close>

definition accept_frames :: "env \<Rightarrow> int \<Rightarrow> int \<Rightarrow> time \<Rightarrow> int \<Rightarrow> frame list \<Rightarrow> (connection, int) se" where
  "accept_frames E packet_number raw_length now ecn fs =
     bindS (note_received OneRtt packet_number now ecn) (\<lambda>_.
     bindS (doS [
       conn_log now ''quic:packet_received''
         [(''header'', JObj [(''packet_type'', JStr (qlog_packet_type OneRtt)), (''packet_number'', JInt packet_number)]),
          (''raw'', JObj [(''length'', JInt raw_length)]), (''frames'', JList (map frame_detail fs))],
       forS fs (\<lambda>frame. doS [
         whenS (is_ack_eliciting frame) (upd_space OneRtt (\<lambda>sp. sp\<lparr>cs_ack_eliciting_pending := True\<rparr>)),
         handle_frame E OneRtt now frame])]) (\<lambda>_. retS raw_length))"

lemma locate_short:
  assumes "first AND 0x80 = 0" "first AND 0x40 \<noteq> 0" "length cid = length (cn_host_cid d)"
  shows "locate_packet P (first # cid @ tail) now d
    = (Inr (Some (OneRtt, Suc (length cid), first # cid @ tail, len (first # cid @ tail))), d)"
proof -
  have "parse_short_header (first # cid @ tail) (length cid)
      = Inr \<lparr>sh_destination_cid = cid, sh_pn_offset = Suc (length cid)\<rparr>"
    using assms(1) uint_and [of first "0x80"] uint_and [of first "0x40"] uint_0_iff [THEN iffD1, of "first AND 0x40"] assms(2)
    by (auto simp: parse_short_header_def mk_buffer_at wire_simps)
  then show ?thesis
    using assms by (simp add: locate_packet_def get_at_def)
qed

lemma process_short:
  assumes packet: "packet = first # cid @ tail" "first AND 0x80 = 0" "first AND 0x40 \<noteq> 0"
      "length cid = length (cn_host_cid d)"
    and d: "cs_keys_recv (cn_spaces d OneRtt) = Some kr" "\<not> cs_discarded (cn_spaces d OneRtt)" "cn_state d \<noteq> HANDSHAKING"
    and dec: "decrypt (env_prims E) OneRtt packet (Suc (length cid)) now False d = (Inr (Some (pn, payload)), d')"
    and fs: "parse_frames payload = Inr fs" and new: "\<not> rs_covers (cs_received (cn_spaces d' OneRtt)) pn (pn + 1)"
  shows "process_packet E packet now ecn d = accept_frames E pn (len packet) now ecn fs d'"
proof -
  have "get_at 0 packet = Inr first" by (simp add: packet(1) get_at_def)
  then have "handle_located E (OneRtt, Suc (length cid), packet, len packet) now ecn d
      = accept_frames E pn (len packet) now ecn fs d'"
    using packet(2) d dec fs new
    by (simp add: handle_located_def space_of_def handle_payload_def accept_frames_def Let_def)
  then show ?thesis
    using locate_short [OF packet(2-4), of "env_prims E" tail now]
    by (simp add: process_packet_def packet(1) catchS_def bindS_def)
qed


section \<open>Generations of keys\<close>

text \<open>What the holder of space \<open>s\<close> sends the holder of \<open>r\<close> reads: same keys, same key phase, and
  the keys \<open>r\<close> holds in reserve are the next generation of those \<open>s\<close> sends with.\<close>

definition reads_from :: "prims \<Rightarrow> pn_space \<Rightarrow> pn_space \<Rightarrow> bool" where
  "reads_from P r s \<longleftrightarrow> cs_key_phase r = cs_key_phase s
     \<and> (case (cs_keys_send s, cs_keys_recv_next r) of
          (Some keys, Some next_keys) \<Rightarrow> cs_keys_recv r = Some keys \<and> keys_ok keys
            \<and> next_generation P (cs_secret_send s) keys = Inr (cs_secret_recv_next r, next_keys)
        | _ \<Rightarrow> False)"

definition in_sync :: "prims \<Rightarrow> connection \<Rightarrow> connection \<Rightarrow> bool" where
  "in_sync P c d \<longleftrightarrow> reads_from P (cn_spaces c OneRtt) (cn_spaces d OneRtt)
     \<and> reads_from P (cn_spaces d OneRtt) (cn_spaces c OneRtt)"

lemma reads_fromE:
  assumes "reads_from P r s"
  obtains keys next_keys where "cs_key_phase r = cs_key_phase s" "cs_keys_send s = Some keys"
    "cs_keys_recv r = Some keys" "cs_keys_recv_next r = Some next_keys" "keys_ok keys"
    "next_generation P (cs_secret_send s) keys = Inr (cs_secret_recv_next r, next_keys)"
  using assms by (auto simp: reads_from_def split: option.splits)

lemma next_generation_ok:
  assumes "prims_ok P" "keys_ok keys"
  obtains secret' keys' where "next_generation P secret keys = Inr (secret', keys')" "keys_ok keys'"
    "same_header_key keys' keys"
proof -
  have "label_ok (ascii ''quic ku'') [] 32" by (simp add: label_ok_def)
  then obtain u where u: "hkdf_expand_label P secret (ascii ''quic ku'') [] SHA256_LENGTH = Inr u"
    by (auto simp: hkdf_expand_label_Inr)
  from derive_packet_keys_ok [OF prims_okD(4) [OF assms(1)], of u "pk_cipher_suite keys"] obtain derived where
    d: "derive_packet_keys P u (pk_cipher_suite keys) = Inr derived" "keys_ok derived"
      "pk_cipher_suite derived = pk_cipher_suite keys" by blast
  show thesis
    by (rule that [of u "derived\<lparr>pk_hp := pk_hp keys\<rparr>"])
      (use u d assms(2) in \<open>auto simp: next_generation_def keys_ok_def same_header_key_def\<close>)
qed

text \<open>The space after \<open>_rotate_keys\<close>.\<close>

definition rotated :: "prims \<Rightarrow> time \<Rightarrow> pn_space \<Rightarrow> pn_space" where
  "rotated P expiry sp =
     (case (cs_keys_send sp, cs_keys_recv_next sp) of
        (Some keys, Some next_keys) \<Rightarrow>
          (case (next_generation P (cs_secret_send sp) keys, next_generation P (cs_secret_recv_next sp) next_keys) of
             (Inr (send_secret, send_keys), Inr (recv_secret, recv_keys)) \<Rightarrow> sp
               \<lparr>cs_keys_recv_previous := cs_keys_recv sp, cs_keys_recv_previous_expiry := expiry,
                cs_keys_recv := Some next_keys, cs_secret_recv_next := recv_secret, cs_keys_recv_next := Some recv_keys,
                cs_secret_send := send_secret, cs_keys_send := Some send_keys, cs_key_phase := \<not> cs_key_phase sp,
                cs_key_phase_send_first := cs_next_packet_number sp, cs_key_phase_first := None\<rparr>
           | _ \<Rightarrow> sp)
      | _ \<Rightarrow> sp)"

lemma in_sync_keys:
  assumes "prims_ok P" "reads_from P r s" "reads_from P s r"
  obtains keys next_keys secret secret2 keys2 peer next_peer peer_secret peer_secret2 peer2 where
    "cs_keys_send s = Some keys" "cs_keys_recv r = Some keys" "cs_keys_recv_next r = Some next_keys"
    "cs_secret_recv_next r = secret" "next_generation P (cs_secret_send s) keys = Inr (secret, next_keys)"
    "next_generation P secret next_keys = Inr (secret2, keys2)"
    "cs_keys_send r = Some peer" "cs_keys_recv s = Some peer" "cs_keys_recv_next s = Some next_peer"
    "cs_secret_recv_next s = peer_secret" "next_generation P (cs_secret_send r) peer = Inr (peer_secret, next_peer)"
    "next_generation P peer_secret next_peer = Inr (peer_secret2, peer2)"
    "keys_ok keys" "keys_ok next_keys" "keys_ok peer" "keys_ok next_peer"
    "same_header_key next_keys keys" "same_header_key next_peer peer"
proof -
  from reads_fromE [OF assms(2)] obtain keys next_keys where
    k: "cs_keys_send s = Some keys" "cs_keys_recv r = Some keys" "cs_keys_recv_next r = Some next_keys" "keys_ok keys"
      "next_generation P (cs_secret_send s) keys = Inr (cs_secret_recv_next r, next_keys)" by metis
  from reads_fromE [OF assms(3)] obtain peer next_peer where
    p: "cs_keys_send r = Some peer" "cs_keys_recv s = Some peer" "cs_keys_recv_next s = Some next_peer" "keys_ok peer"
      "next_generation P (cs_secret_send r) peer = Inr (cs_secret_recv_next s, next_peer)" by metis
  have kn: "keys_ok next_keys" "same_header_key next_keys keys"
    using next_generation_ok [OF assms(1) k(4), of "cs_secret_send s"] k(5) by auto
  have pn: "keys_ok next_peer" "same_header_key next_peer peer"
    using next_generation_ok [OF assms(1) p(4), of "cs_secret_send r"] p(5) by auto
  obtain x x' y y' where "next_generation P (cs_secret_recv_next r) next_keys = Inr (x, x')"
    "next_generation P (cs_secret_recv_next s) next_peer = Inr (y, y')"
    using next_generation_ok [OF assms(1) kn(1)] next_generation_ok [OF assms(1) pn(1)] by metis
  with k p kn pn show thesis using that by blast
qed


lemma rotate_keys_rotated:
  assumes "prims_ok P" "in_sync P c d"
  shows "\<exists>q. rotate_keys P OneRtt now c = (Inr (), c\<lparr>cn_spaces := (cn_spaces c)
    (OneRtt := rotated P (now + 3 * ld_pto (cn_recovery c)) (cn_spaces c OneRtt)), cn_qlog := q\<rparr>)"
proof -
  have sync: "reads_from P (cn_spaces c OneRtt) (cn_spaces d OneRtt)" "reads_from P (cn_spaces d OneRtt) (cn_spaces c OneRtt)"
    using assms(2) by (simp_all add: in_sync_def)
  show ?thesis
    by (rule in_sync_keys [OF assms(1) sync(2,1)])
      (auto simp: rotate_keys_def rotated_def space_of_def upd_space_def conn_log_def)
qed

lemma decrypt_opened:
  assumes recv: "cs_keys_recv (cn_spaces d OneRtt) = Some kr"
    and u: "remove_header_protection P kr packet off (cs_largest_received (cn_spaces d OneRtt)) = Inr u"
    and keys: "receive_keys (ld_handshake_confirmed (cn_recovery d)) (cn_spaces d OneRtt) OneRtt u now = Inr (keys, updating)"
    and payload: "decrypt_payload P keys u = Inr payload"
  shows "decrypt P OneRtt packet off now False d
    = bindS (whenS updating (rotate_keys P OneRtt now)) (\<lambda>_. bindS (note_key_phase OneRtt u) (\<lambda>_.
        retS (Some (uh_packet_number u, payload)))) d"
  using recv u keys payload by (simp add: decrypt_def space_of_def someS_def)


lemma note_other_phase:
  "uh_key_phase u \<noteq> cs_key_phase (cn_spaces d OneRtt) \<Longrightarrow> note_key_phase OneRtt u d = (Inr (), d)"
  by (simp add: note_key_phase_def upd_space_def)

lemma reads_from_upd [simp]:
  "reads_from P (r\<lparr>cs_key_phase_first := x\<rparr>) s = reads_from P r s"
  "reads_from P r (s\<lparr>cs_key_phase_first := x\<rparr>) = reads_from P r s"
  "reads_from P (r\<lparr>cs_next_packet_number := n\<rparr>) s = reads_from P r s"
  "reads_from P r (s\<lparr>cs_next_packet_number := n\<rparr>) = reads_from P r s"
  by (simp_all add: reads_from_def split: option.split)

text \<open>The receiver is ready for packet number \<open>pn\<close> of a peer that addresses it as \<open>cid\<close>.\<close>

definition ready_for :: "connection \<Rightarrow> bytes \<Rightarrow> int \<Rightarrow> bool" where
  "ready_for d cid pn \<longleftrightarrow> cn_host_cid d = cid \<and> cn_state d \<noteq> HANDSHAKING \<and> \<not> cs_discarded (cn_spaces d OneRtt)
     \<and> near (cs_largest_received (cn_spaces d OneRtt)) pn
     \<and> \<not> rs_covers (cs_received (cn_spaces d OneRtt)) pn (pn + 1)"

lemma packet_processed:
  fixes c d :: connection and E :: env
  defines "P \<equiv> env_prims E" and "pn \<equiv> cs_next_packet_number (cn_spaces c OneRtt)" and "sp \<equiv> cn_spaces d OneRtt"
  assumes P: "prims_ok P" and keys: "keys_ok keys" "cs_keys_recv sp = Some kr" "same_header_key kr keys"
    and chosen: "sendable chosen" and pn: "0 \<le> pn" "pn \<le> MAX_PACKET_NUMBER"
    and ready: "ready_for d (cn_peer_cid c) pn"
    and choice: "\<And>u. uh_packet_number u = pn \<Longrightarrow> uh_key_phase u = cs_key_phase (cn_spaces c OneRtt) \<Longrightarrow>
      receive_keys (ld_handshake_confirmed (cn_recovery d)) sp OneRtt u t = Inr (keys, updating)"
    and update: "\<And>u. uh_packet_number u = pn \<Longrightarrow> uh_key_phase u = cs_key_phase (cn_spaces c OneRtt) \<Longrightarrow>
      \<exists>d'. bindS (whenS updating (rotate_keys P OneRtt t)) (\<lambda>_. note_key_phase OneRtt u) d = (Inr (), d')
        \<and> cs_received (cn_spaces d' OneRtt) = cs_received sp \<and> Q d'"
  shows "\<exists>packet c' k d'. send_frames P OneRtt now pad False keys chosen c = (Inr packet, c')
    \<and> process_packet E packet t ecn d = accept_frames E pn (len packet) t ecn (chosen @ padding_frames k) d'
    \<and> cn_spaces c' OneRtt = (cn_spaces c OneRtt)\<lparr>cs_next_packet_number := pn + 1\<rparr> \<and> Q d'"
proof -
  from ready have r: "near (cs_largest_received sp) pn" "\<not> cs_discarded sp" "cn_state d \<noteq> HANDSHAKING"
    "cn_host_cid d = cn_peer_cid c" "\<not> rs_covers (cs_received sp) pn (pn + 1)" by (simp_all add: ready_for_def sp_def)
  obtain packet c' u payload k first tail where sent: "send_frames P OneRtt now pad False keys chosen c = (Inr packet, c')"
      "cn_spaces c' OneRtt = (cn_spaces c OneRtt)\<lparr>cs_next_packet_number := pn + 1\<rparr>"
    and packet: "packet = first # cn_peer_cid c @ tail" "first AND 0x80 = 0" "first AND 0x40 \<noteq> 0"
    and u: "remove_header_protection P kr packet (Suc (length (cn_peer_cid c))) (cs_largest_received sp) = Inr u"
      "uh_packet_number u = pn" "uh_key_phase u = cs_key_phase (cn_spaces c OneRtt)"
      "decrypt_payload P keys u = Inr payload" and fs: "parse_frames payload = Inr (chosen @ padding_frames k)"
    by (rule send_frames_opened [of P keys chosen c, folded pn_def, OF P keys(1) chosen pn r(1) keys(3)])
  from update [OF u(2,3)] obtain d' where
    d': "bindS (whenS updating (rotate_keys P OneRtt t)) (\<lambda>_. note_key_phase OneRtt u) d = (Inr (), d')"
      "cs_received (cn_spaces d' OneRtt) = cs_received sp" "Q d'" by blast
  have "decrypt P OneRtt packet (Suc (length (cn_peer_cid c))) t False d
      = bindS (bindS (whenS updating (rotate_keys P OneRtt t)) (\<lambda>_. note_key_phase OneRtt u))
          (\<lambda>_. retS (Some (pn, payload))) d"
    using decrypt_opened [OF keys(2) [unfolded sp_def] u(1) [unfolded sp_def] choice [OF u(2,3), unfolded sp_def] u(4)] u(2)
    by (simp add: bindS_def split: sum.split prod.split)
  then have dec: "decrypt P OneRtt packet (Suc (length (cn_peer_cid c))) t False d = (Inr (Some (pn, payload)), d')"
    using d'(1) by (simp only:) (simp add: bindS_def [of "bindS _ _"])
  have "process_packet E packet t ecn d = accept_frames E pn (len packet) t ecn (chosen @ padding_frames k) d'"
    using r d'(2) by (intro process_short [OF packet _ keys(2) [unfolded sp_def] _ _ dec [unfolded P_def] fs])
      (simp_all add: sp_def)
  with sent d'(3) show ?thesis by blast
qed

text \<open>The two 1-RTT secrets of a handshake put the connections in step, whichever way round.\<close>

definition install_secrets :: "prims \<Rightarrow> int \<Rightarrow> bytes \<Rightarrow> bytes \<Rightarrow> (connection, unit) se" where
  "install_secrets P suite client_secret server_secret =
     bindS (on_secret P OneRtt CLIENT client_secret suite) (\<lambda>_. on_secret P OneRtt SERVER server_secret suite)"

definition keyed :: "packet_keys \<Rightarrow> bytes \<Rightarrow> packet_keys \<Rightarrow> bytes \<Rightarrow> packet_keys \<Rightarrow> pn_space \<Rightarrow> pn_space" where
  "keyed send_keys secret recv_keys next_secret next_keys sp = sp\<lparr>cs_keys_send := Some send_keys, cs_secret_send := secret,
     cs_keys_recv := Some recv_keys, cs_secret_recv_next := next_secret, cs_keys_recv_next := Some next_keys\<rparr>"

lemma secrets_in_sync:
  assumes P: "prims_ok P" and ends: "cn_is_client c" "\<not> cn_is_client d"
    and phase: "cs_key_phase (cn_spaces c OneRtt) = cs_key_phase (cn_spaces d OneRtt)"
  shows "\<exists>kc kn cn ks sn ssn. install_secrets P suite cs ss c = (Inr (), c\<lparr>cn_spaces := (cn_spaces c)
        (OneRtt := keyed kc cs ks ssn sn (cn_spaces c OneRtt))\<rparr>)
    \<and> install_secrets P suite cs ss d = (Inr (), d\<lparr>cn_spaces := (cn_spaces d)
        (OneRtt := keyed ks ss kc cn kn (cn_spaces d OneRtt))\<rparr>)
    \<and> in_sync P (snd (install_secrets P suite cs ss c)) (snd (install_secrets P suite cs ss d))"
proof -
  from derive_packet_keys_ok [OF prims_okD(4) [OF P], of cs suite] obtain kc where
    kc: "derive_packet_keys P cs suite = Inr kc" "keys_ok kc" by blast
  from derive_packet_keys_ok [OF prims_okD(4) [OF P], of ss suite] obtain ks where
    ks: "derive_packet_keys P ss suite = Inr ks" "keys_ok ks" by blast
  from next_generation_ok [OF P kc(2)] obtain cn kn where cn: "next_generation P cs kc = Inr (cn, kn)" by blast
  from next_generation_ok [OF P ks(2)] obtain ssn sn where sn: "next_generation P ss ks = Inr (ssn, sn)" by blast
  have swap: "sp\<lparr>cs_keys_recv := Some kc, cs_secret_recv_next := cn, cs_keys_recv_next := Some kn,
      cs_keys_send := Some ks, cs_secret_send := ss\<rparr> = keyed ks ss kc cn kn sp" for sp :: pn_space
    by (cases sp) (simp add: keyed_def)
  have c: "install_secrets P suite cs ss c = (Inr (), c\<lparr>cn_spaces := (cn_spaces c)
      (OneRtt := keyed kc cs ks ssn sn (cn_spaces c OneRtt))\<rparr>)"
    and d: "install_secrets P suite cs ss d = (Inr (), d\<lparr>cn_spaces := (cn_spaces d)
      (OneRtt := keyed ks ss kc cn kn (cn_spaces d OneRtt))\<rparr>)"
    using ends by (simp_all add: install_secrets_def on_secret_def kc ks cn sn upd_space_def swap) (simp add: keyed_def)
  have "in_sync P (snd (install_secrets P suite cs ss c)) (snd (install_secrets P suite cs ss d))"
    using phase kc(2) ks(2) cn sn unfolding c d by (simp add: in_sync_def reads_from_def keyed_def)
  with c d show ?thesis by blast
qed


lemma rotated_keeps [simp]:
  "cs_received (rotated P e sp) = cs_received sp" "cs_largest_received (rotated P e sp) = cs_largest_received sp"
  "cs_discarded (rotated P e sp) = cs_discarded sp" "cs_next_packet_number (rotated P e sp) = cs_next_packet_number sp"
  by (simp_all add: rotated_def split: option.split sum.split prod.split)

lemma rotated_sends:
  assumes "prims_ok P" "reads_from P r s" "reads_from P s r"
  shows "cs_keys_send (rotated P e s) = cs_keys_recv_next r" "cs_keys_recv_previous (rotated P e s) = cs_keys_send r"
    "cs_keys_recv (rotated P e s) = cs_keys_recv_next s"
    "cs_key_phase (rotated P e s) = (\<not> cs_key_phase s)" "cs_keys_recv_previous_expiry (rotated P e s) = e"
    "cs_key_phase_first (rotated P e s) = None"
  by (rule in_sync_keys [OF assms], simp add: rotated_def)+

lemma reserve_keys:
  assumes "prims_ok P" "reads_from P r s" "reads_from P s r" "cs_keys_recv_next r = Some next_keys"
  shows "\<exists>keys. cs_keys_recv r = Some keys \<and> keys_ok keys \<and> keys_ok next_keys
    \<and> same_header_key keys next_keys \<and> same_header_key next_keys keys"
  by (rule in_sync_keys [OF assms(1-3)]) (use assms(4) in \<open>simp add: same_header_key_def\<close>)

lemma initiated:
  assumes "prims_ok P" "in_sync P c d" "initiate_key_update P now c = (Inr True, c')"
  obtains q where "c' = c\<lparr>cn_spaces := (cn_spaces c)
    (OneRtt := rotated P (now + 3 * ld_pto (cn_recovery c)) (cn_spaces c OneRtt)), cn_qlog := q\<rparr>"
  using rotate_keys_rotated [OF assms(1,2), of now] assms(3)
  by (auto simp: initiate_key_update_def space_of_def split: if_splits)


text \<open>
  Packets in flight across a key update are not lost. After a connection has started a key
  update, a packet its peer sends with the keys of the old phase is still read, and its frames
  handled, until three probe timeouts have passed, and reading it does not advance the keys.
\<close>

lemma old_phase_read_after_update:
  fixes c d :: connection and E :: env
  defines "P \<equiv> env_prims E" and "pn \<equiv> cs_next_packet_number (cn_spaces d OneRtt)"
  assumes P: "prims_ok P" and sync: "in_sync P c d" and started: "initiate_key_update P now c = (Inr True, c1)"
    and keys: "cs_keys_send (cn_spaces d OneRtt) = Some keys"
    and chosen: "sendable chosen" and pn: "0 \<le> pn" "pn \<le> MAX_PACKET_NUMBER"
    and ready: "ready_for c1 (cn_peer_cid d) pn" and soon: "t \<le> now + 3 * ld_pto (cn_recovery c)"
  shows "\<exists>packet d' k. send_frames P OneRtt now pad False keys chosen d = (Inr packet, d')
    \<and> process_packet E packet t ecn c1 = accept_frames E pn (len packet) t ecn (chosen @ padding_frames k) c1"
proof -
  let ?c = "cn_spaces c OneRtt" and ?d = "cn_spaces d OneRtt"
  from sync have dc: "reads_from P ?d ?c" and cd: "reads_from P ?c ?d" by (simp_all add: in_sync_def)
  from initiated [OF P sync started] obtain q where c1: "c1 = c\<lparr>cn_spaces := (cn_spaces c)
    (OneRtt := rotated P (now + 3 * ld_pto (cn_recovery c)) ?c), cn_qlog := q\<rparr>" .
  from cd obtain next_keys where nk: "cs_keys_recv_next ?c = Some next_keys" "cs_keys_recv ?c = Some keys"
    using keys reads_fromE [OF cd] by auto
  from reserve_keys [OF P cd dc nk(1)] nk(2) have k: "keys_ok keys" "same_header_key next_keys keys" by auto
  note r = rotated_sends [OF P dc cd]
  have phase: "cs_key_phase ?d \<noteq> cs_key_phase (cn_spaces c1 OneRtt)"
    using r(4) cd by (simp add: c1 reads_from_def)
  have "\<exists>packet d' k c'. send_frames P OneRtt now pad False keys chosen d = (Inr packet, d')
      \<and> process_packet E packet t ecn c1 = accept_frames E pn (len packet) t ecn (chosen @ padding_frames k) c'
      \<and> cn_spaces d' OneRtt = ?d\<lparr>cs_next_packet_number := pn + 1\<rparr> \<and> c' = c1"
    unfolding P_def pn_def
  proof (rule packet_processed [where updating = False, OF P [unfolded P_def] k(1) _ k(2) chosen pn [unfolded pn_def] ready [unfolded pn_def]])
    show "cs_keys_recv (cn_spaces c1 OneRtt) = Some next_keys" using r(3) nk by (simp add: c1)
    fix u :: unprotected_header
    assume u: "uh_key_phase u = cs_key_phase ?d"
    then show "receive_keys (ld_handshake_confirmed (cn_recovery c1)) (cn_spaces c1 OneRtt) OneRtt u t = Inr (keys, False)"
      using r nk keys soon phase by (simp add: receive_keys_def c1)
    show "\<exists>c'. bindS (whenS False (rotate_keys (env_prims E) OneRtt t)) (\<lambda>_. note_key_phase OneRtt u) c1 = (Inr (), c')
        \<and> cs_received (cn_spaces c' OneRtt) = cs_received (cn_spaces c1 OneRtt) \<and> c' = c1"
      using note_other_phase [of u c1] u phase by simp
  qed
  then show ?thesis by blast
qed


section \<open>Handshake data in CRYPTO frames\<close>

text \<open>The CRYPTO stream of a space, seen as a \<open>RecvStream\<close> that never ends and whose credit is the
  buffer limit: \<open>_handle_crypto\<close> is \<open>on_stream_frame\<close> followed by \<open>read\<close>.\<close>

definition crypto_recv :: "pn_space \<Rightarrow> recv_stream" where
  "crypto_recv sp = (mk_recv_stream 0 MAX_CRYPTO_BUFFER)\<lparr>rv_buffer := cs_crypto_buffer sp,
     rv_received := cs_crypto_received sp, rv_read_offset := cs_crypto_read_offset sp,
     rv_highest_offset := len (cs_crypto_buffer sp)\<rparr>"

definition as_stream :: "crypto \<Rightarrow> stream" where
  "as_stream f = \<lparr>stream_id = 0, stream_offset = crypto_offset f, stream_data = crypto_data f, stream_fin = False\<rparr>"

lemma reassemble_recv:
  assumes "reassemble f sp = (delivered, sp')" "0 \<le> crypto_offset f"
  shows "rv_read (rv_accept (as_stream f) (crypto_recv sp)) = (case delivered of None \<Rightarrow> [] | Some ordered \<Rightarrow> ordered, crypto_recv sp')"
  using assms
  by (auto simp: reassemble_def Let_def rv_accept_def rv_read_def crypto_recv_def as_stream_def mk_recv_stream_def
      length_splice max_def split: if_splits)

text \<open>A frame carries a piece of \<open>stream\<close> that fits the buffer limit.\<close>

definition piece_of :: "bytes \<Rightarrow> crypto \<Rightarrow> bool" where
  "piece_of bs f \<longleftrightarrow> 0 \<le> crypto_offset f \<and> crypto_offset f + len (crypto_data f) \<le> len bs
     \<and> crypto_data f = take (length (crypto_data f)) (drop (nat (crypto_offset f)) bs)"

lemma reassemble_piece:
  assumes inv: "recv_inv bs False (crypto_recv sp)" and f: "piece_of bs f" and fits: "len bs \<le> MAX_CRYPTO_BUFFER"
    and step: "reassemble f sp = (delivered, sp')"
  shows "recv_inv bs False (crypto_recv sp')
    \<and> take (nat (cs_crypto_read_offset sp')) bs
      = take (nat (cs_crypto_read_offset sp)) bs @ (case delivered of None \<Rightarrow> [] | Some ordered \<Rightarrow> ordered)
    \<and> rs_abs (cs_crypto_received sp') = rs_abs (cs_crypto_received sp) \<union> {crypto_offset f..<crypto_offset f + len (crypto_data f)}
    \<and> cs_crypto_read_offset sp' \<notin> rs_abs (cs_crypto_received sp')"
proof -
  let ?f = "as_stream f" and ?r = "crypto_recv sp"
  have "frame_of 0 bs (len bs) False ?f" "stream_offset ?f + len (stream_data ?f) \<le> rv_max_stream_data ?r"
    using f fits by (simp_all add: frame_of_def piece_of_def as_stream_def crypto_recv_def mk_recv_stream_def)
  from rv_on_stream_frame_ok [OF inv this] this(2) obtain r1 where
    r1: "recv_inv bs False r1" "r1 = rv_accept ?f ?r" "rv_read_offset r1 = rv_read_offset ?r"
      "rs_abs (rv_received r1) = rs_abs (rv_received ?r) \<union> {stream_offset ?f..<stream_offset ?f + len (stream_data ?f)}"
    by (auto simp: rv_on_stream_frame_def Let_def as_stream_def crypto_recv_def mk_recv_stream_def)
  have read: "rv_read r1 = (case delivered of None \<Rightarrow> [] | Some ordered \<Rightarrow> ordered, crypto_recv sp')"
    using reassemble_recv [OF step] f r1(2) by (simp add: piece_of_def)
  have "rs_inv (rv_received r1)" using r1(1) by (simp add: recv_inv_def)
  from RangeSet.contiguous_out [OF this] have out: "rv_read_offset (crypto_recv sp') \<notin> rs_abs (rv_received (crypto_recv sp'))"
    using rv_read_ok [OF r1(1) read] by simp
  have fields: "rv_read_offset (crypto_recv x) = cs_crypto_read_offset x" "rv_received (crypto_recv x) = cs_crypto_received x" for x
    by (simp_all add: crypto_recv_def)
  show ?thesis
    using rv_read_ok [OF r1(1) read] r1(3,4) out unfolding fields by (auto simp: as_stream_def)
qed

fun reassemble_all :: "crypto list \<Rightarrow> pn_space \<Rightarrow> bytes \<times> pn_space" where
  "reassemble_all [] sp = ([], sp)"
| "reassemble_all (f # fs) sp =
     (case reassemble f sp of (delivered, sp) \<Rightarrow> case reassemble_all fs sp of (ordered, sp) \<Rightarrow>
        ((case delivered of None \<Rightarrow> [] | Some ordered \<Rightarrow> ordered) @ ordered, sp))"

definition carried :: "crypto list \<Rightarrow> int set" where
  "carried fs = (\<Union>f \<in> set fs. {crypto_offset f..<crypto_offset f + len (crypto_data f)})"

lemma reassemble_all_pieces:
  assumes "recv_inv bs False (crypto_recv sp)" "list_all (piece_of bs) fs" "len bs \<le> MAX_CRYPTO_BUFFER"
    and "reassemble_all fs sp = (ordered, sp')" "cs_crypto_read_offset sp \<notin> rs_abs (cs_crypto_received sp)"
  shows "recv_inv bs False (crypto_recv sp')
    \<and> take (nat (cs_crypto_read_offset sp')) bs = take (nat (cs_crypto_read_offset sp)) bs @ ordered
    \<and> rs_abs (cs_crypto_received sp') = rs_abs (cs_crypto_received sp) \<union> carried fs
    \<and> cs_crypto_read_offset sp' \<notin> rs_abs (cs_crypto_received sp')"
  using assms
proof (induction fs arbitrary: sp ordered)
  case Nil
  then show ?case by (simp add: carried_def)
next
  case (Cons f fs)
  obtain delivered sp1 where r: "reassemble f sp = (delivered, sp1)" by fastforce
  obtain ordered1 where r1: "reassemble_all fs sp1 = (ordered1, sp')"
    "ordered = (case delivered of None \<Rightarrow> [] | Some ordered \<Rightarrow> ordered) @ ordered1"
    using Cons.prems(4) r by (auto split: prod.splits)
  have p: "piece_of bs f" "list_all (piece_of bs) fs" using Cons.prems(2) by simp_all
  note step = reassemble_piece [OF Cons.prems(1) p(1) Cons.prems(3) r]
  note rest = Cons.IH [OF step [THEN conjunct1] p(2) Cons.prems(3) r1(1) step [THEN conjunct2, THEN conjunct2, THEN conjunct2]]
  have "carried (f # fs) = {crypto_offset f..<crypto_offset f + len (crypto_data f)} \<union> carried fs"
    by (simp add: carried_def)
  with step rest r1(2) show ?case by (metis Un_assoc append_assoc)
qed

text \<open>
  C16: TLS sees the handshake bytes in order. However the frames of a CRYPTO stream arrive,
  overlapping, repeated or out of order, what the reassembly has handed to TLS is a prefix of
  the stream, the longest one whose bytes have all arrived; so once everything has arrived,
  TLS has been handed the whole stream.
\<close>

theorem crypto_stream_in_order:
  assumes "list_all (piece_of bs) fs" "len bs \<le> MAX_CRYPTO_BUFFER"
    and "reassemble_all fs mk_pn_space = (ordered, sp)"
  shows "ordered = take (length ordered) bs \<and> {0..<len ordered} \<subseteq> carried fs \<and> len ordered \<notin> carried fs
    \<and> ({0..<len bs} \<subseteq> carried fs \<longrightarrow> ordered = bs)"
proof -
  have "crypto_recv mk_pn_space = mk_recv_stream 0 MAX_CRYPTO_BUFFER"
    by (simp add: crypto_recv_def mk_pn_space_def mk_recv_stream_def)
  then have init: "recv_inv bs False (crypto_recv mk_pn_space)" using recv_inv_init by simp
  have start: "cs_crypto_read_offset mk_pn_space = 0" "rs_abs (cs_crypto_received mk_pn_space) = {}"
    by (simp_all add: mk_pn_space_def rs_abs_def)
  have r: "recv_inv bs False (crypto_recv sp)" "take (nat (cs_crypto_read_offset sp)) bs = ordered"
    "rs_abs (cs_crypto_received sp) = carried fs" "cs_crypto_read_offset sp \<notin> carried fs"
    using reassemble_all_pieces [OF init assms] by (auto simp: start)
  have c: "0 \<le> cs_crypto_read_offset sp" "{0..<cs_crypto_read_offset sp} \<subseteq> carried fs"
      "carried fs \<subseteq> {0..<len (cs_crypto_buffer sp)}" "len (cs_crypto_buffer sp) \<le> len bs"
    using r(1,3) by (simp_all add: recv_inv_def crypto_recv_def mk_recv_stream_def)
  have "cs_crypto_read_offset sp \<le> len bs"
  proof (rule ccontr)
    assume "\<not> cs_crypto_read_offset sp \<le> len bs"
    then have "len bs \<in> {0..<cs_crypto_read_offset sp}" by simp
    with c(2,3) have "len bs \<in> {0..<len (cs_crypto_buffer sp)}" by blast
    with c(4) show False by simp
  qed
  with r(2) c(1) have l: "len ordered = cs_crypto_read_offset sp" by auto
  have "ordered = bs" if "{0..<len bs} \<subseteq> carried fs"
  proof -
    have "cs_crypto_read_offset sp \<notin> {0..<len bs}" using that r(4) by blast
    then have "\<not> len ordered < len bs" using l c(1) by simp
    with r(2) l show ?thesis by simp
  qed
  moreover have "ordered = take (length ordered) bs" using r(2) l by (metis nat_int)
  ultimately show ?thesis using r(4) c l by simp
qed


section \<open>Witnesses\<close>

definition example_end :: "bool \<Rightarrow> connection" where
  "example_end client = example_server\<lparr>cn_is_client := client, cn_state := CONNECTED,
     cn_host_cid := [if client then 1 else 2], cn_peer_cid := [if client then 2 else 1],
     cn_recovery := (cn_recovery example_server)\<lparr>ld_handshake_confirmed := True,
       ld_spaces := (ld_spaces (cn_recovery example_server))
         (OneRtt := (ld_spaces (cn_recovery example_server) OneRtt)\<lparr>sp_largest_acked := 0\<rparr>)\<rparr>\<rparr>"

definition example_keyed :: "bool \<Rightarrow> connection" where
  "example_keyed client = snd (install_secrets toy_prims TLS_AES_128_GCM_SHA256 [1] [2] (example_end client))"

lemma example_end_fields [simp]:
  "cn_is_client (example_end client) = client" "cn_spaces (example_end client) OneRtt = mk_pn_space"
  "cn_host_cid (example_end client) = [if client then 1 else 2]" "cn_peer_cid (example_end client) = [if client then 2 else 1]"
  "cn_state (example_end client) = CONNECTED" "ld_handshake_confirmed (cn_recovery (example_end client))"
  "sp_largest_acked (ld_spaces (cn_recovery (example_end client)) OneRtt) = 0"
  by (simp_all add: example_end_def example_server_def initial_connection_def Let_def)

lemmas example_secrets = secrets_in_sync [OF toy_prims_ok, of "example_end True" "example_end False"
  TLS_AES_128_GCM_SHA256 "[1]" "[2]", simplified]

lemma example_keyed_eq:
  "\<exists>k s kr n kn. example_keyed client = (example_end client)\<lparr>cn_spaces := (cn_spaces (example_end client))
    (OneRtt := keyed k s kr n kn mk_pn_space)\<rparr>"
  using example_secrets by (cases client) (auto simp: example_keyed_def, blast+)

lemma example_env_prims: "env_prims example_env = toy_prims"
  by (simp add: example_env_def)

lemma example_in_sync: "in_sync toy_prims (example_keyed True) (example_keyed False)"
  using example_secrets by (auto simp: example_keyed_def)

lemma example_ready:
  "ready_for (example_keyed client) (cn_peer_cid (example_keyed (\<not> client))) 0"
  "cs_next_packet_number (cn_spaces (example_keyed client) OneRtt) = 0"
  "cs_key_phase_first (cn_spaces (example_keyed client) OneRtt) = Some 0"
  "ld_handshake_confirmed (cn_recovery (example_keyed client))"
  "\<exists>keys. cs_keys_send (cn_spaces (example_keyed client) OneRtt) = Some keys"
  using example_keyed_eq [of client] example_keyed_eq [of "\<not> client"]
  by (auto simp: ready_for_def keyed_def mk_pn_space_def near_def rs_covers_def)

lemma example_pto: "0 \<le> ld_pto (cn_recovery (example_keyed client))"
proof -
  have "cn_recovery (example_keyed client) = cn_recovery (example_end client)"
    using example_keyed_eq [of client] by auto
  moreover have "0 \<le> ld_pto (cn_recovery (example_end True))" "0 \<le> ld_pto (cn_recovery (example_end False))" by code_simp+
  ultimately show ?thesis by (cases client) simp_all
qed

lemma example_sendable: "sendable [Ping, MaxData 9]"
  by (simp add: sendable_def frame_ok_def)


lemma example_update:
  "\<exists>c1 keys. initiate_key_update toy_prims 1 (example_keyed True) = (Inr True, c1)
    \<and> cs_keys_send (cn_spaces c1 OneRtt) = Some keys \<and> ready_for c1 (cn_peer_cid (example_keyed False)) 0"
proof -
  let ?c = "example_keyed True" and ?d = "example_keyed False"
  have sync: "reads_from toy_prims (cn_spaces ?d OneRtt) (cn_spaces ?c OneRtt)"
    "reads_from toy_prims (cn_spaces ?c OneRtt) (cn_spaces ?d OneRtt)"
    using example_in_sync by (simp_all add: in_sync_def)
  from rotate_keys_rotated [OF toy_prims_ok example_in_sync, of 1] obtain q where
    rot: "rotate_keys toy_prims OneRtt 1 ?c = (Inr (), ?c\<lparr>cn_spaces := (cn_spaces ?c)
      (OneRtt := rotated toy_prims (1 + 3 * ld_pto (cn_recovery ?c)) (cn_spaces ?c OneRtt)), cn_qlog := q\<rparr>)" (is "_ = (_, ?c1)") ..
  have "initiate_key_update toy_prims 1 ?c = (Inr True, ?c1)"
    using rot example_keyed_eq [of True]
    by (auto simp: initiate_key_update_def space_of_def ld_largest_acked_def keyed_def mk_pn_space_def)
  moreover obtain keys where "cs_keys_send (cn_spaces ?c1 OneRtt) = Some keys"
    using rotated_sends(1) [OF toy_prims_ok sync] sync(1) by (auto elim!: reads_fromE)
  moreover have "ready_for ?c1 (cn_peer_cid ?d) 0"
    using example_ready(1) [of True] by (simp add: ready_for_def)
  ultimately show ?thesis by blast
qed


lemma old_phase_read_after_update_witness:
  "\<exists>c1 keys packet d' k. initiate_key_update toy_prims 1 (example_keyed True) = (Inr True, c1)
    \<and> send_frames toy_prims OneRtt 1 0 False keys [Ping, MaxData 9] (example_keyed False) = (Inr packet, d')
    \<and> process_packet example_env packet 1 0 c1
      = accept_frames example_env 0 (len packet) 1 0 ([Ping, MaxData 9] @ padding_frames k) c1"
proof -
  obtain c1 where c1: "initiate_key_update toy_prims 1 (example_keyed True) = (Inr True, c1)"
    "ready_for c1 (cn_peer_cid (example_keyed False)) 0" using example_update by blast
  obtain keys where keys: "cs_keys_send (cn_spaces (example_keyed False) OneRtt) = Some keys" using example_ready(5) ..
  have "\<exists>packet d' k. send_frames toy_prims OneRtt 1 0 False keys [Ping, MaxData 9] (example_keyed False) = (Inr packet, d')
    \<and> process_packet example_env packet 1 0 c1
      = accept_frames example_env 0 (len packet) 1 0 ([Ping, MaxData 9] @ padding_frames k) c1"
    by (rule old_phase_read_after_update [of example_env "example_keyed True" "example_keyed False", unfolded example_env_prims example_ready(2)])
      (use c1 keys example_in_sync example_pto example_sendable toy_prims_ok in \<open>simp_all add: MAX_PACKET_NUMBER_def\<close>)
  with c1(1) show ?thesis by blast
qed

theorem crypto_stream_in_order_witness:
  "fst (reassemble_all [\<lparr>crypto_offset = 2, crypto_data = [3, 4]\<rparr>, \<lparr>crypto_offset = 0, crypto_data = [1, 2, 3]\<rparr>] mk_pn_space)
     = [1, 2, 3, 4]"
proof -
  let ?fs = "[\<lparr>crypto_offset = 2, crypto_data = [3, 4]\<rparr>, \<lparr>crypto_offset = 0, crypto_data = [1, 2, 3]\<rparr>] :: crypto list"
  have "list_all (piece_of [1, 2, 3, 4]) ?fs" by code_simp
  moreover have "{0..<len [1, 2, 3, 4 :: byte]} \<subseteq> carried ?fs" by (auto simp: carried_def)
  ultimately show ?thesis
    using crypto_stream_in_order [of "[1, 2, 3, 4]" ?fs "fst (reassemble_all ?fs mk_pn_space)" "snd (reassemble_all ?fs mk_pn_space)"]
    by (simp add: MAX_CRYPTO_BUFFER_def)
qed

end
