(* ===== verification/Endpoint_Io.thy ===== *)
theory Endpoint_Io
  imports Connection_Properties
begin

text \<open>
  \<open>src/dsquic/endpoints/__init__.py\<close>: the boundary between the protocol core and the operating
  system.

  What the operating system answers is part of the state of an endpoint: the readings of the two
  clocks, the bytes of \<open>os.urandom\<close>, and what the socket delivers when the endpoint waits. What an
  endpoint writes to its socket is kept in \<open>wd_sent\<close>, with the traffic class the socket had then.
  Opening sockets, files and key logs is not modelled; PEM parsing is a parameter.
\<close>

unbundle bit_operations_syntax

section \<open>The operating system\<close>

text \<open>
  \<open>wd_network i wait\<close> is what the \<open>i\<close>-th wait from now delivers if it lasts at most \<open>wait\<close>
  seconds, \<open>None\<close> for no limit: data, ancillary data and source of each datagram. A wait without a
  limit to which nothing is delivered blocks for ever.
\<close>

type_synonym ancillary = "(int \<times> int \<times> bytes) list"
type_synonym delivery = "bytes \<times> ancillary \<times> address option"

record world =
  wd_clock :: "nat \<Rightarrow> time"
  wd_wall :: "nat \<Rightarrow> time"
  wd_rng :: rng
  wd_network :: "nat \<Rightarrow> time option \<Rightarrow> delivery list"
  wd_big_endian :: bool
  wd_tos :: int
  wd_sent :: "(bytes \<times> address \<times> int) list"

text \<open>
  What an endpoint gets from outside: the primitives, the files under the document root, the
  name service (\<open>socket.getaddrinfo\<close>), whether
  \<open>SSLKEYLOGFILE\<close> is set, the trace under \<open>QLOGDIR\<close>, and the randomness of the \<open>i\<close>-th connection and
  of its TLS machine.
\<close>

record endpoint_env =
  ee_env :: env
  ee_files :: "string \<Rightarrow> bytes option"
  ee_lookup :: "string \<Rightarrow> int \<Rightarrow> address result"
  ee_keylog :: bool
  ee_qlog :: "bytes \<Rightarrow> bool \<Rightarrow> time \<Rightarrow> qlog_trace option"
  ee_connection_rng :: "nat \<Rightarrow> rng"
  ee_tls_rng :: "nat \<Rightarrow> rng"

abbreviation ee_prims :: "endpoint_env \<Rightarrow> prims" where
  "ee_prims E \<equiv> env_prims (ee_env E)"

text \<open>\<open>time.monotonic()\<close>, \<open>time.time()\<close> and \<open>os.urandom(n)\<close>.\<close>

definition monotonic :: "('a world_scheme, time) se" where
  "monotonic =
     bindS (getS wd_clock) (\<lambda>k.
     bindS (modS (\<lambda>s. s\<lparr>wd_clock := \<lambda>i. k (Suc i)\<rparr>)) (\<lambda>_. retS (k 0)))"

definition wall_time :: "('a world_scheme, time) se" where
  "wall_time =
     bindS (getS wd_wall) (\<lambda>k.
     bindS (modS (\<lambda>s. s\<lparr>wd_wall := \<lambda>i. k (Suc i)\<rparr>)) (\<lambda>_. retS (k 0)))"

definition random_bytes :: "nat \<Rightarrow> ('a world_scheme, bytes) se" where
  "random_bytes n =
     bindS (getS wd_rng) (\<lambda>r.
     bindS (modS (\<lambda>s. s\<lparr>wd_rng := rest_rng r\<rparr>)) (\<lambda>_. retS (r 0 n)))"

definition sendto :: "bytes \<Rightarrow> address \<Rightarrow> ('a world_scheme, unit) se" where
  "sendto data destination = modS (\<lambda>s. s\<lparr>wd_sent := wd_sent s @ [(data, destination, wd_tos s)]\<rparr>)"


section \<open>Model\<close>

subsection \<open>Certificates\<close>

definition PEM_CERTIFICATE_MARKER :: bytes where
  "PEM_CERTIFICATE_MARKER = ascii ''-----BEGIN CERTIFICATE-----''"

text \<open>\<open>bytes.split(sep)\<close>: \<open>split_bytes sep current data\<close> has read \<open>current\<close> of the part it is in.\<close>

function split_bytes :: "bytes \<Rightarrow> bytes \<Rightarrow> bytes \<Rightarrow> bytes list" where
  "split_bytes sep current data =
     (case data of
        [] \<Rightarrow> [current]
      | b # rest \<Rightarrow>
          if sep \<noteq> [] \<and> take (length sep) data = sep
          then current # split_bytes sep [] (drop (length sep) data)
          else split_bytes sep (current @ [b]) rest)"
  by pat_completeness auto
termination
  by (relation "measure (\<lambda>(sep, current, data). length data)") (auto simp: Suc_le_eq intro!: diff_less)

declare split_bytes.simps [simp del]

text \<open>\<open>load\<close> is \<open>load_pem_x509_certificate\<close>, giving a certificate in its DER form.\<close>

definition split_pem_chain :: "(bytes \<Rightarrow> bytes result) \<Rightarrow> bytes \<Rightarrow> bytes list result" where
  "split_pem_chain load data =
     (let blocks = drop 1 (split_bytes PEM_CERTIFICATE_MARKER [] data)
      in mapE (\<lambda>block. load (PEM_CERTIFICATE_MARKER @ block)) blocks)"


subsection \<open>Sockets\<close>

definition IPPROTO_IP :: int where "IPPROTO_IP = 0"
definition IPPROTO_IPV6 :: int where "IPPROTO_IPV6 = 41"

text \<open>\<open>int.from_bytes(data, sys.byteorder)\<close> on a machine that is big endian or not.\<close>

definition from_native :: "bool \<Rightarrow> bytes \<Rightarrow> int" where
  "from_native big_endian data = from_be (if big_endian then data else rev data)"

fun ecn_of :: "bool \<Rightarrow> ancillary \<Rightarrow> int" where
  "ecn_of big_endian [] = 0"
| "ecn_of big_endian ((level, typ, data) # rest) =
     (if level \<in> set [IPPROTO_IP, IPPROTO_IPV6] \<and> data \<noteq> []
      then (if length data = 1 then uint (data ! 0) else from_native big_endian (take 4 data)) AND 3
      else ecn_of big_endian rest)"

definition set_ecn :: "int \<Rightarrow> ('a world_scheme, unit) se" where
  "set_ecn ecn = modS (\<lambda>s. s\<lparr>wd_tos := ecn\<rparr>)"

text \<open>The loop of \<open>send_pending\<close>, on the datagrams the core has due.\<close>

definition send_datagrams :: "outgoing_datagram list \<Rightarrow> ('a world_scheme, unit) se" where
  "send_datagrams datagrams =
     forS datagrams (\<lambda>datagram.
       case og_destination datagram of
         None \<Rightarrow> retS ()
       | Some destination \<Rightarrow> doS [set_ecn (og_ecn datagram), sendto (og_data datagram) destination])"

definition wait_for_readable ::
  "time option list \<Rightarrow> ('a world_scheme, (bytes \<times> address option \<times> int) list) se" where
  "wait_for_readable deadlines =
     bindS (case earliest_deadline deadlines of
         None \<Rightarrow> retS None
       | Some first \<Rightarrow> bindS monotonic (\<lambda>now. retS (Some (max 0 (first - now))))) (\<lambda>wait.
     bindS (getS id) (\<lambda>s.
     let delivered = wd_network s 0 wait
     in if wait = None \<and> delivered = [] then raiseS Diverges
     else bindS (modS (\<lambda>s. s\<lparr>wd_network := \<lambda>i. wd_network s (Suc i)\<rparr>)) (\<lambda>_.
       retS (map (\<lambda>(data, ancdata, source). (data, source, ecn_of (wd_big_endian s) ancdata)) delivered))))"


subsection \<open>Addresses\<close>

text \<open>\<open>repr\<close> of a string: single quotes unless only those occur in it, with escapes.\<close>

definition hex_digit :: "nat \<Rightarrow> char" where
  "hex_digit n = (if n < 10 then char_of (48 + n) else char_of (87 + n))"

definition repr_char :: "char \<Rightarrow> char \<Rightarrow> string" where
  "repr_char quote c =
     (let n = of_char c :: nat
      in if c = quote \<or> n = 92 then [CHR 0x5C, c]
      else if n = 9 then [CHR 0x5C, CHR ''t'']
      else if n = 10 then [CHR 0x5C, CHR ''n'']
      else if n = 13 then [CHR 0x5C, CHR ''r'']
      else if n < 32 \<or> n = 127 then [CHR 0x5C, CHR ''x'', hex_digit (n div 16), hex_digit (n mod 16)]
      else [c])"

definition repr_string :: "string \<Rightarrow> string" where
  "repr_string s =
     (let quote = (if CHR 0x27 \<in> set s \<and> CHR 0x22 \<notin> set s then CHR 0x22 else CHR 0x27)
      in [quote] @ concat (map (repr_char quote) s) @ [quote])"

definition address_bytes :: "address option \<Rightarrow> bytes" where
  "address_bytes source =
     ascii (case source of
        None \<Rightarrow> ''None''
      | Some (host, port, v6) \<Rightarrow> ''('' @ repr_string host @ '', '' @ decimal port
          @ (case v6 of None \<Rightarrow> [] | Some (flow, scope) \<Rightarrow> '', '' @ decimal flow @ '', '' @ decimal scope) @ '')'')"


section \<open>Correctness\<close>

text \<open>No occurrence of the separator begins in \<open>block\<close>, alone or when one follows it.\<close>

definition separator_free :: "bytes \<Rightarrow> bytes \<Rightarrow> bool" where
  "separator_free sep block \<longleftrightarrow> (\<forall>k < length block.
     take (length sep) (drop k block) \<noteq> sep \<and> take (length sep) (drop k (block @ sep)) \<noteq> sep)"

lemma separator_free_Cons:
  assumes "separator_free sep (b # block)"
  shows "separator_free sep block" "take (length sep) (b # block) \<noteq> sep" "take (length sep) (b # block @ sep @ rest) \<noteq> sep"
proof -
  have free: "take (length sep) (drop k (b # block)) \<noteq> sep \<and> take (length sep) (drop k (b # block @ sep)) \<noteq> sep"
    if "k \<le> length block" for k
    using assms that unfolding separator_free_def by simp
  show "separator_free sep block"
    unfolding separator_free_def using free [of "Suc k" for k] by auto
  show "take (length sep) (b # block) \<noteq> sep" using free [of 0] by simp
  have "take (length sep) (b # block @ sep @ rest) = take (length sep) (b # block @ sep)"
    by (simp add: take_Cons split: nat.split)
  then show "take (length sep) (b # block @ sep @ rest) \<noteq> sep" using free [of 0] by simp
qed

lemma split_bytes_step:
  "take (length sep) (b # rest) \<noteq> sep \<Longrightarrow> split_bytes sep current (b # rest) = split_bytes sep (current @ [b]) rest"
  by (simp add: split_bytes.simps [of sep current "b # rest"])

lemma split_bytes_last: "separator_free sep block \<Longrightarrow> split_bytes sep current block = [current @ block]"
proof (induction block arbitrary: current)
  case (Cons b block)
  note free = separator_free_Cons [OF Cons.prems]
  show ?case using Cons.IH [OF free(1)] split_bytes_step [OF free(2)] by simp
qed (simp add: split_bytes.simps [of sep])

lemma split_bytes_block:
  assumes "sep \<noteq> []"
  shows "separator_free sep block \<Longrightarrow>
    split_bytes sep current (block @ sep @ rest) = (current @ block) # split_bytes sep [] rest"
proof (induction block arbitrary: current)
  case Nil
  obtain s sep' where "sep = s # sep'" using assms by (cases sep) auto
  then show ?case by (simp add: split_bytes.simps [of "s # sep'" current "s # sep' @ rest"])
next
  case (Cons b block)
  note free = separator_free_Cons [OF Cons.prems]
  show ?case using Cons.IH [OF free(1)] split_bytes_step [OF free(3)] by simp
qed

lemma split_bytes_concat:
  assumes "sep \<noteq> []"
  shows "list_all (separator_free sep) (first # blocks) \<Longrightarrow>
    split_bytes sep [] (first @ concat (map (\<lambda>block. sep @ block) blocks)) = first # blocks"
proof (induction blocks arbitrary: first)
  case (Cons block blocks)
  then show ?case using split_bytes_block [OF assms, of first "[]"] by simp
qed (simp add: split_bytes_last)

text \<open>A bundle of PEM certificates is read certificate by certificate, in file order.\<close>

lemma split_pem_chain_blocks:
  assumes "list_all (separator_free PEM_CERTIFICATE_MARKER) (preamble # blocks)"
  shows "split_pem_chain load (preamble @ concat (map (\<lambda>block. PEM_CERTIFICATE_MARKER @ block) blocks))
    = mapE (\<lambda>block. load (PEM_CERTIFICATE_MARKER @ block)) blocks"
proof -
  have "PEM_CERTIFICATE_MARKER \<noteq> []" by (simp add: PEM_CERTIFICATE_MARKER_def ascii_def)
  from split_bytes_concat [OF this assms] show ?thesis by (simp add: split_pem_chain_def)
qed

text \<open>The codepoint is two bits, whichever way the kernel delivers it.\<close>

lemma ecn_of_range: "0 \<le> ecn_of big_endian ancdata \<and> ecn_of big_endian ancdata < 4"
proof (induction big_endian ancdata rule: ecn_of.induct)
  case (2 big_endian level kind data rest)
  have "0 \<le> v AND 3 \<and> v AND 3 < 4" for v :: int
    using take_bit_int_less_exp [of 2 v] take_bit_nonnegative [of 2 v] by (simp add: take_bit_eq_mask mask_eq_exp_minus_1)
  with 2 show ?case by simp
qed simp


section \<open>A concrete endpoint\<close>

definition example_endpoint :: endpoint_env where
  "example_endpoint = \<lparr>ee_env = example_env, ee_files = (\<lambda>path. None), ee_lookup = (\<lambda>host port. Inr (host, port, None)), ee_keylog = False,
     ee_qlog = (\<lambda>group_id is_client now. None), ee_connection_rng = (\<lambda>i. example_rng), ee_tls_rng = (\<lambda>i. example_rng)\<rparr>"

definition example_world :: world where
  "example_world = \<lparr>wd_clock = of_nat, wd_wall = of_nat, wd_rng = example_rng, wd_network = (\<lambda>i wait. []),
     wd_big_endian = False, wd_tos = 0, wd_sent = []\<rparr>"

lemma example_prims: "prims_ok (ee_prims example_endpoint)"
  by (simp add: example_endpoint_def example_env_def toy_prims_ok)

end
