(* ===== verification/Tls_Session.thy ===== *)
theory Tls_Session
  imports Tls_Client Tls_Server
begin

text \<open>
  The two handshake machines talking to each other: a client and a server with compatible
  configurations complete a full handshake and end with the same secrets, and the ticket the
  server issues stands for the same PSK at both ends. What the machines say to each other is
  carried by the caller, so the composition is the exchange of the \<open>SendData\<close> events.
\<close>

section \<open>Extensions on the wire\<close>

lemma inner_block_vec: "length d < 65536 \<Longrightarrow> inner_block (to_be 2 (len d) @ d) = Inr d"
  by (simp add: inner_block_def mk_buffer_at wire_simps pull_bytes_all [of _ "to_be 2 (len d) @ d" "[]", simplified])

definition protocol_ok :: "string \<Rightarrow> bool" where
  "protocol_ok p \<longleftrightarrow> list_all (\<lambda>c. (of_char c :: nat) < 128) p \<and> length p < 256"

definition protocol_bytes :: "string list \<Rightarrow> bytes" where
  "protocol_bytes ps = concat (map (\<lambda>p. word_of_nat (length p) # ascii p) ps)"

interpretation protocol_codec: byte_codec "\<lambda>p. bindE (encode_ascii p) (vec 1)" pull_protocol protocol_ok
proof
  fix v bs pre rest
  assume ok: "protocol_ok v"
  then have enc: "encode_ascii v = Inr (ascii v)" "length (ascii v) < 256" by (simp_all add: protocol_ok_def encode_ascii_def)
  show "\<exists>bs. bindE (encode_ascii v) (vec 1) = Inr bs" using enc by (simp add: vec_ok)
  assume bs: "bindE (encode_ascii v) (vec 1) = Inr bs"
  show "bs \<noteq> []" using bs enc by (auto simp: vec_ok)
  have "bs = word_of_nat (length (ascii v)) # ascii v" using bs enc by (simp add: vec_ok)
  then show "pull_protocol (buf_at pre (bs @ rest)) = (Inr v, buf_at (pre @ bs) rest)"
    using pull_vecs_at(1) [OF enc(2), of pre rest] by (simp add: pull_protocol_def decode_encode_ascii [OF enc(1)])
qed

lemma mapE_protocols:
  "list_all protocol_ok ps \<Longrightarrow> mapE (\<lambda>p. bindE (encode_ascii p) (vec 1)) ps = Inr (map (\<lambda>p. word_of_nat (length p) # ascii p) ps)"
  by (rule mapE_Inr_all) (auto simp: list_all_iff protocol_ok_def encode_ascii_def vec_ok)

lemma alpn_at:
  assumes "list_all protocol_ok ps" "length (protocol_bytes ps) < 65536"
  shows "alpn_extension ps = Inr (to_be 2 (len (protocol_bytes ps)) @ protocol_bytes ps)"
    and "parse_alpn (to_be 2 (len (protocol_bytes ps)) @ protocol_bytes ps) = Inr ps"
proof -
  have "catE (map (\<lambda>p. bindE (encode_ascii p) (vec 1)) ps) = Inr (protocol_bytes ps)"
    using catE_codec [OF mapE_protocols [OF assms(1)]] by (simp add: protocol_bytes_def)
  then show "alpn_extension ps = Inr (to_be 2 (len (protocol_bytes ps)) @ protocol_bytes ps)"
    using assms(2) by (simp add: alpn_extension_def vec_ok)
  show "parse_alpn (to_be 2 (len (protocol_bytes ps)) @ protocol_bytes ps) = Inr ps"
    using protocol_codec.pull_all_enc [OF assms(1) mapE_protocols [OF assms(1)], of "[]"] assms(2)
    by (simp add: parse_alpn_def inner_block_vec mk_buffer_at protocol_bytes_def)
qed

definition share_bytes :: "bytes \<Rightarrow> bytes" where
  "share_bytes public = to_be 2 X25519_GROUP @ to_be 2 (len public) @ public"

lemma length_share_bytes: "length public = 32 \<Longrightarrow> length (share_bytes public) = 36"
  by (simp add: share_bytes_def)

lemma key_share_at:
  assumes "length public = 32"
  shows "key_share_entry X25519_GROUP public = Inr (share_bytes public)"
    and "parse_key_share_entry (share_bytes public) = Inr (X25519_GROUP, public)"
    and "client_key_share (to_be 2 (len (share_bytes public)) @ share_bytes public) = Inr (Some public)"
proof -
  show "key_share_entry X25519_GROUP public = Inr (share_bytes public)"
    using assms by (simp add: key_share_entry_def vec_ok share_bytes_def)
  have v: "pull_vec16 (buf_at pre (to_be 2 (len public) @ public)) = (Inr public, buf_at (pre @ to_be 2 (len public) @ public) [])" for pre
    using pull_vecs_at(2) [of public pre "[]"] assms by simp
  show "parse_key_share_entry (share_bytes public) = Inr (X25519_GROUP, public)"
    by (simp add: parse_key_share_entry_def share_bytes_def mk_buffer_at wire_simps v SUPPORTED_GROUPS_def)
  have "pull_key_share (buf_at [] (share_bytes public)) = (Inr (X25519_GROUP, public), buf_at (share_bytes public) [])"
    by (simp add: pull_key_share_def share_bytes_def wire_simps v)
  then have "find_key_share (buf_at [] (share_bytes public)) = Inr (Some public)"
    by (simp add: find_key_share.simps [of "buf_at [] (share_bytes public)"]) (simp add: share_bytes_def)
  then show "client_key_share (to_be 2 (len (share_bytes public)) @ share_bytes public) = Inr (Some public)"
    using assms inner_block_vec [of "share_bytes public"] unfolding client_key_share_def
    by (simp add: mk_buffer_at length_share_bytes)
qed


lemma length_extension_bytes:
  "list_all extension_ok es \<Longrightarrow> length (extension_bytes es) = sum_list (map (\<lambda>e. 4 + length (ext_data e)) es)"
  by (induction es) (simp_all add: extension_bytes_def encode_extension_ok)

abbreviation ext :: "int \<Rightarrow> bytes \<Rightarrow> extension" where
  "ext ty data \<equiv> \<lparr>ext_type = ty, ext_data = data\<rparr>"


section \<open>The hello of a client without a ticket\<close>

definition client_ok :: "client_config \<Rightarrow> bool" where
  "client_ok cc \<longleftrightarrow> cf_session_ticket cc = None \<and> cf_key_share_groups cc = None
     \<and> protocol_ok (cf_server_name cc) \<and> list_all protocol_ok (cf_alpn cc) \<and> length (protocol_bytes (cf_alpn cc)) < 10000
     \<and> length (cf_transport_parameters cc) < 10000 \<and> list_all fits16 (cf_cipher_suites cc) \<and> length (cf_cipher_suites cc) < 1000"

definition hello_exts :: "client_config \<Rightarrow> bytes \<Rightarrow> extension list" where
  "hello_exts cc public =
     [ext SERVER_NAME (to_be 2 (3 + len (cf_server_name cc)) @ 0 # to_be 2 (len (cf_server_name cc)) @ ascii (cf_server_name cc)),
      ext GROUPS_EXT (to_be 2 2 @ to_be 2 X25519_GROUP),
      ext SIGNATURE_ALGORITHMS (to_be 2 4 @ to_be 2 RSA_PSS_RSAE_SHA256 @ to_be 2 ECDSA_SECP256R1_SHA256),
      ext ALPN (to_be 2 (len (protocol_bytes (cf_alpn cc))) @ protocol_bytes (cf_alpn cc)),
      ext SUPPORTED_VERSIONS (2 # to_be 2 TLS_1_3),
      ext KEY_SHARE (to_be 2 (len (share_bytes public)) @ share_bytes public),
      ext QUIC_TRANSPORT_PARAMETERS (cf_transport_parameters cc),
      ext PSK_KEY_EXCHANGE_MODES [1, PSK_DHE_KE]]"

lemma client_extensions_eq:
  assumes ok: "client_ok cc" and k: "length (prim_x25519_public P k) = 32"
  shows "client_extensions P cc [(X25519_GROUP, k)] False now = Inr (hello_exts cc (prim_x25519_public P k))"
proof -
  have a: "encode_ascii (cf_server_name cc) = Inr (ascii (cf_server_name cc))" "length (cf_server_name cc) < 256"
    using ok by (simp_all add: client_ok_def protocol_ok_def encode_ascii_def)
  have al: "alpn_extension (cf_alpn cc) = Inr (to_be 2 (len (protocol_bytes (cf_alpn cc))) @ protocol_bytes (cf_alpn cc))"
    using ok by (intro alpn_at(1)) (simp_all add: client_ok_def)
  have sh: "length (share_bytes (prim_x25519_public P k)) = 36" using k by (rule length_share_bytes)
  show ?thesis
    using a(2) ok
    by (simp add: client_extensions_def key_share_at(1) [OF k] SUPPORTED_GROUPS_def extension_list_def a(1) al vec_ok sh
        client_ok_def hello_exts_def to_be.simps)
qed

lemma hello_exts_ok:
  assumes "client_ok cc" "length public = 32"
  shows "extensions_ok (hello_exts cc public)"
proof -
  have "list_all extension_ok (hello_exts cc public)"
    using assms by (simp add: hello_exts_def extension_ok_def fits16_def client_ok_def protocol_ok_def length_share_bytes)
  moreover from this have "length (extension_bytes (hello_exts cc public)) < 65536"
    using assms unfolding length_extension_bytes [OF calculation]
    by (simp add: hello_exts_def client_ok_def protocol_ok_def length_share_bytes)
  ultimately show ?thesis by (simp add: extensions_ok_def)
qed

definition hello :: "client_config \<Rightarrow> bytes \<Rightarrow> bytes \<Rightarrow> client_hello" where
  "hello cc random public = \<lparr>ch_random = random, ch_legacy_session_id = [],
     ch_cipher_suites = cf_cipher_suites cc, ch_extensions = hello_exts cc public\<rparr>"

lemma hello_ok: "client_ok cc \<Longrightarrow> length random = 32 \<Longrightarrow> length public = 32 \<Longrightarrow> message_ok (ClientHello (hello cc random public))"
  by (simp add: hello_def hello_exts_ok) (simp add: client_ok_def)

text \<open>A client that was created and not yet started.\<close>

definition fresh_client :: "prims \<Rightarrow> client_config \<Rightarrow> bytes \<Rightarrow> bytes \<Rightarrow> tls_client \<Rightarrow> bool" where
  "fresh_client P cc random key c \<longleftrightarrow> cl_config c = cc \<and> cl_random c = random \<and> cl_keys c = [(X25519_GROUP, key)]
     \<and> hs_schedule c = mk_key_schedule P None \<and> hs_events c = [] \<and> hs_buffers c = (\<lambda>_. [])
     \<and> cl_fallback_schedule c = None \<and> \<not> cl_resumed c \<and> \<not> cl_hello_retried c"

lemma mk_tls_client_fresh:
  "client_ok cc \<Longrightarrow> fresh_client P cc random key (mk_tls_client P cc (Some random) (Some key) keylog rng)"
  by (simp add: fresh_client_def mk_tls_client_def client_ok_def SUPPORTED_GROUPS_def)

lemma encode_hello_fresh:
  assumes "client_ok cc" "fresh_client P cc random key c" "length (prim_x25519_public P key) = 32"
    and "encode_client_hello (hello cc random (prim_x25519_public P key)) = Inr ch"
  shows "encode_hello P c = (Inr ch, c\<lparr>hs_schedule := update_transcript ch (mk_key_schedule P None),
    cl_fallback_schedule := None, cl_early_data_offered := False\<rparr>)"
  using assms client_extensions_eq [OF assms(1,3), of "hs_now c"]
  by (simp add: encode_hello_def build_client_hello_def fresh_client_def client_ok_def offers_early_data_def
      hello_def step_defs feed_fallback_def)

lemma start_fresh:
  assumes "client_ok cc" "fresh_client P cc random key c" "length (prim_x25519_public P key) = 32"
    and "encode_client_hello (hello cc random (prim_x25519_public P key)) = Inr ch"
  shows "start P now c = (Inr (), c\<lparr>hs_schedule := update_transcript ch (mk_key_schedule P None), hs_events := [SendData Initial ch],
    hs_now := now, cl_fallback_schedule := None, cl_early_data_offered := False, cl_state := WAIT_SERVER_HELLO\<rparr>)"
proof -
  have "fresh_client P cc random key (c\<lparr>hs_now := now\<rparr>)" "hs_events c = []"
    using assms(2) by (simp_all add: fresh_client_def)
  then show ?thesis
    using encode_hello_fresh [OF assms(1) _ assms(3,4), of "c\<lparr>hs_now := now\<rparr>"] by (simp add: start_def emit_def)
qed



section \<open>The messages of a full handshake\<close>

text \<open>
  The inputs of one handshake: the two configurations, the randoms and private keys, the salt
  of the signature, and what the negotiation settles on.
\<close>

record session =
  se_client :: client_config
  se_server :: server_config
  se_client_random :: bytes
  se_client_key :: bytes
  se_server_random :: bytes
  se_server_key :: bytes
  se_salt :: bytes
  se_shared :: bytes
  se_suite :: int
  se_alpn :: string

definition wire :: "handshake_message \<Rightarrow> bytes" where
  "wire m = projr (encode_message m)"

definition m_hello :: "prims \<Rightarrow> session \<Rightarrow> client_hello" where
  "m_hello P x = hello (se_client x) (se_client_random x) (prim_x25519_public P (se_client_key x))"

definition m_server_hello :: "prims \<Rightarrow> session \<Rightarrow> server_hello" where
  "m_server_hello P x = \<lparr>sh_random = se_server_random x, sh_legacy_session_id_echo = [], sh_cipher_suite = se_suite x,
     sh_extensions = [ext SUPPORTED_VERSIONS (to_be 2 TLS_1_3),
       ext KEY_SHARE (share_bytes (prim_x25519_public P (se_server_key x)))]\<rparr>"

definition m_extensions :: "session \<Rightarrow> extension list" where
  "m_extensions x = [ext ALPN (to_be 2 (len (protocol_bytes [se_alpn x])) @ protocol_bytes [se_alpn x]),
     ext QUIC_TRANSPORT_PARAMETERS (sc_transport_parameters (se_server x))]"

definition m_certificate :: "session \<Rightarrow> certificate" where
  "m_certificate x = \<lparr>cert_request_context = [],
     cert_entries = map (\<lambda>data. \<lparr>ce_data = data, ce_extensions = []\<rparr>) (sc_certificate_chain (se_server x))\<rparr>"

definition ks_handshake :: "prims \<Rightarrow> session \<Rightarrow> key_schedule" where
  "ks_handshake P x = projr (add_ecdhe P (se_shared x) (update_transcript (wire (ServerHello (m_server_hello P x)))
     (update_transcript (wire (ClientHello (m_hello P x))) (mk_key_schedule P None))))"

definition ks_certificate :: "prims \<Rightarrow> session \<Rightarrow> key_schedule" where
  "ks_certificate P x = update_transcript (wire (Certificate (m_certificate x)))
     (update_transcript (wire (EncryptedExtensions (m_extensions x))) (ks_handshake P x))"

definition m_verify :: "prims \<Rightarrow> session \<Rightarrow> certificate_verify" where
  "m_verify P x = (case sign_certificate_verify P (se_salt x) (sc_signing_key (se_server x)) (transcript_hash P (ks_certificate P x)) of
     (algorithm, signature) \<Rightarrow> \<lparr>cv_algorithm = algorithm, cv_signature = signature\<rparr>)"

definition ks_verify :: "prims \<Rightarrow> session \<Rightarrow> key_schedule" where
  "ks_verify P x = update_transcript (wire (CertificateVerify (m_verify P x))) (ks_certificate P x)"

abbreviation client_secret :: "prims \<Rightarrow> session \<Rightarrow> bytes" where
  "client_secret P x \<equiv> traffic_secret P ''c hs traffic'' (ks_handshake P x)"

abbreviation server_secret :: "prims \<Rightarrow> session \<Rightarrow> bytes" where
  "server_secret P x \<equiv> traffic_secret P ''s hs traffic'' (ks_handshake P x)"

definition m_finished :: "prims \<Rightarrow> session \<Rightarrow> bytes" where
  "m_finished P x = projr (finished_verify_data P (server_secret P x) (transcript_hash P (ks_verify P x)))"

definition ks_master :: "prims \<Rightarrow> session \<Rightarrow> key_schedule" where
  "ks_master P x = master_schedule P (wire (Finished (m_finished P x))) (ks_verify P x)"

definition m_client_finished :: "prims \<Rightarrow> session \<Rightarrow> bytes" where
  "m_client_finished P x = projr (finished_verify_data P (client_secret P x) (transcript_hash P (ks_master P x)))"

definition flight_bytes :: "prims \<Rightarrow> session \<Rightarrow> bytes" where
  "flight_bytes P x = wire (EncryptedExtensions (m_extensions x))
     @ (wire (Certificate (m_certificate x)) @ wire (CertificateVerify (m_verify P x))) @ wire (Finished (m_finished P x))"

definition handshake_events :: "prims \<Rightarrow> session \<Rightarrow> tls_event list" where
  "handshake_events P x =
     [SecretAvailable Handshake CLIENT (client_secret P x) (se_suite x), SecretAvailable Handshake SERVER (server_secret P x) (se_suite x)]"

definition application_events :: "prims \<Rightarrow> session \<Rightarrow> tls_event list" where
  "application_events P x =
     [SecretAvailable OneRtt CLIENT (traffic_secret P ''c ap traffic'' (ks_master P x)) (se_suite x),
      SecretAvailable OneRtt SERVER (traffic_secret P ''s ap traffic'' (ks_master P x)) (se_suite x)]"

text \<open>
  What the two configurations have to agree on: a cipher suite and an application protocol in
  common, a chain the client accepts for the name it asked for, the key of its leaf answering to
  the server's signing key, and an exchange that is not refused.
\<close>

definition trusts :: "prims \<Rightarrow> client_config \<Rightarrow> bytes list \<Rightarrow> bool" where
  "trusts P cc chain \<longleftrightarrow> chain \<noteq> [] \<and> (cf_insecure_skip_verify cc \<or>
     prim_verify_chain P (cf_ca_certificates cc) (cf_verification_time cc) (cf_server_name cc) (hd chain) (tl chain) = Inr ())"

definition key_matches :: "prims \<Rightarrow> signing_key \<Rightarrow> bytes \<Rightarrow> bool" where
  "key_matches P key leaf \<longleftrightarrow>
     (case key of
        RsaPrivateKey k \<Rightarrow> (\<exists>pk. prim_certificate_key P leaf = Inr (RsaPublicKey pk)
          \<and> (\<forall>c salt. prim_rsa_verify P pk (prim_rsa_sign P k c salt) c = Inr ()
             \<and> (length c = 130 \<longrightarrow> length (prim_rsa_sign P k c salt) < 65536)))
      | EcPrivateKey k \<Rightarrow> (\<exists>pk. prim_certificate_key P leaf = Inr (EcPublicKey pk)
          \<and> (\<forall>c salt. prim_ec_verify P pk (prim_ec_sign P k c salt) c = Inr ()
             \<and> (length c = 130 \<longrightarrow> length (prim_ec_sign P k c salt) < 65536))))"

definition session_ok :: "prims \<Rightarrow> session \<Rightarrow> bool" where
  "session_ok P x \<longleftrightarrow> prims_ok P \<and> client_ok (se_client x)
     \<and> length (se_client_random x) = 32 \<and> length (se_server_random x) = 32 \<and> se_server_random x \<noteq> HELLO_RETRY_REQUEST_RANDOM
     \<and> find (\<lambda>suite. suite \<in> set SUPPORTED_CIPHER_SUITES) (cf_cipher_suites (se_client x)) = Some (se_suite x)
     \<and> find (\<lambda>protocol. protocol \<in> set (cf_alpn (se_client x))) (sc_alpn (se_server x)) = Some (se_alpn x)
     \<and> prim_x25519_exchange P (se_server_key x) (prim_x25519_public P (se_client_key x)) = Inr (se_shared x)
     \<and> trusts P (se_client x) (sc_certificate_chain (se_server x))
     \<and> key_matches P (sc_signing_key (se_server x)) (hd (sc_certificate_chain (se_server x)))
     \<and> message_ok (Certificate (m_certificate x)) \<and> length (sc_transport_parameters (se_server x)) < 10000"


lemma wire_encode: "message_ok m \<Longrightarrow> encode_message m = Inr (wire m)"
  using message_has_body [of m] by (auto simp: wire_def has_body_def encode_handshake_message_ok)

lemma find_Some_facts: "find Q xs = Some y \<Longrightarrow> y \<in> set xs \<and> Q y \<and> (\<exists>ys. filter Q xs = y # ys)"
  by (induction xs) (auto split: if_splits)

lemma session_parts:
  assumes "session_ok P x"
  shows "client_ok (se_client x)" "hash_ok P" "length (prim_x25519_public P k) = 32"
    "se_suite x \<in> set (cf_cipher_suites (se_client x))" "fits16 (se_suite x)"
    "\<exists>ys. filter (\<lambda>suite. suite \<in> set SUPPORTED_CIPHER_SUITES) (cf_cipher_suites (se_client x)) = se_suite x # ys"
    "se_alpn x \<in> set (cf_alpn (se_client x))" "protocol_ok (se_alpn x)"
    "prim_x25519_exchange P (se_client_key x) (prim_x25519_public P (se_server_key x)) = Inr (se_shared x)"
    "prim_x25519_exchange P (se_server_key x) (prim_x25519_public P (se_client_key x)) = Inr (se_shared x)"
proof -
  have P: "hash_ok P" "dh_ok P" using assms by (auto simp: session_ok_def intro: prims_okD)
  show "client_ok (se_client x)" "hash_ok P" "length (prim_x25519_public P k) = 32"
    "prim_x25519_exchange P (se_client_key x) (prim_x25519_public P (se_server_key x)) = Inr (se_shared x)"
    "prim_x25519_exchange P (se_server_key x) (prim_x25519_public P (se_client_key x)) = Inr (se_shared x)"
    using assms P by (simp_all add: session_ok_def dh_ok_def)
  have s: "find (\<lambda>suite. suite \<in> set SUPPORTED_CIPHER_SUITES) (cf_cipher_suites (se_client x)) = Some (se_suite x)"
    and a: "find (\<lambda>protocol. protocol \<in> set (cf_alpn (se_client x))) (sc_alpn (se_server x)) = Some (se_alpn x)"
    using assms by (simp_all add: session_ok_def)
  from find_Some_facts [OF s] find_Some_facts [OF a]
  show "se_suite x \<in> set (cf_cipher_suites (se_client x))" "se_alpn x \<in> set (cf_alpn (se_client x))"
    "\<exists>ys. filter (\<lambda>suite. suite \<in> set SUPPORTED_CIPHER_SUITES) (cf_cipher_suites (se_client x)) = se_suite x # ys"
    by blast+
  then show "fits16 (se_suite x)" "protocol_ok (se_alpn x)"
    using \<open>client_ok (se_client x)\<close> by (auto simp: client_ok_def list_all_iff)
qed

lemma protocol_bytes_single: "length (protocol_bytes [p]) = Suc (length p)"
  by (simp add: protocol_bytes_def)

lemma m_verify_ok:
  assumes "session_ok P x"
  shows "message_ok (CertificateVerify (m_verify P x))"
    and "verify_certificate_verify P (hd (sc_certificate_chain (se_server x))) (m_verify P x)
      (transcript_hash P (ks_certificate P x)) = Inr ()"
proof -
  have "length (CERTIFICATE_VERIFY_CONTEXT @ transcript_hash P ks) = 130" for ks
    using hash_okD [OF session_parts(2) [OF assms]] by (simp add: CERTIFICATE_VERIFY_CONTEXT_def transcript_hash_def)
  moreover have "key_matches P (sc_signing_key (se_server x)) (hd (sc_certificate_chain (se_server x)))"
    using assms by (simp add: session_ok_def)
  ultimately show "message_ok (CertificateVerify (m_verify P x))"
    "verify_certificate_verify P (hd (sc_certificate_chain (se_server x))) (m_verify P x)
      (transcript_hash P (ks_certificate P x)) = Inr ()"
    by (auto simp: key_matches_def m_verify_def sign_certificate_verify_def verify_certificate_verify_def
        check_signature_def fits16_def split: signing_key.splits)
qed

lemma messages_ok:
  assumes "session_ok P x"
  shows "message_ok (ClientHello (m_hello P x))" "message_ok (ServerHello (m_server_hello P x))"
    "message_ok (EncryptedExtensions (m_extensions x))" "message_ok (Certificate (m_certificate x))"
    "message_ok (CertificateVerify (m_verify P x))" "message_ok (Finished (m_finished P x))"
    "message_ok (Finished (m_client_finished P x))"
proof -
  note f = session_parts [OF assms]
  show "message_ok (ClientHello (m_hello P x))"
    unfolding m_hello_def using assms f(1,3) by (intro hello_ok) (simp_all add: session_ok_def)
  have "list_all extension_ok (sh_extensions (m_server_hello P x))" "list_all extension_ok (m_extensions x)"
    using assms f(3,8) by (simp_all add: m_server_hello_def m_extensions_def extension_ok_def fits16_def length_share_bytes
        protocol_bytes_single protocol_ok_def session_ok_def)
  then have "extensions_ok (sh_extensions (m_server_hello P x))" "extensions_ok (m_extensions x)"
    using assms f(3,8) unfolding extensions_ok_def by (simp_all add: length_extension_bytes)
      (simp_all add: m_server_hello_def m_extensions_def length_share_bytes protocol_bytes_single protocol_ok_def session_ok_def)
  then show "message_ok (ServerHello (m_server_hello P x))" "message_ok (EncryptedExtensions (m_extensions x))"
    using assms f(5) by (simp_all add: m_server_hello_def session_ok_def)
  show "message_ok (Certificate (m_certificate x))" using assms by (simp only: session_ok_def)
  show "message_ok (CertificateVerify (m_verify P x))" by (rule m_verify_ok(1) [OF assms])
  show "message_ok (Finished (m_finished P x))" "message_ok (Finished (m_client_finished P x))"
    using schedule_total(7) [OF f(2)] by (simp_all add: m_finished_def m_client_finished_def)
qed

lemmas session_wires = messages_ok [THEN wire_encode, simplified]



section \<open>The server answers the hello\<close>

definition fresh_server :: "prims \<Rightarrow> session \<Rightarrow> tls_server \<Rightarrow> bool" where
  "fresh_server P x s \<longleftrightarrow> sv_config s = se_server x \<and> sv_random s = se_server_random x \<and> sv_key s = se_server_key x
     \<and> hs_schedule s = mk_key_schedule P None \<and> hs_events s = [] \<and> hs_buffers s = (\<lambda>_. [])
     \<and> \<not> sv_hello_retry_sent s \<and> sv_state s = SERVER_START \<and> hs_rng s 0 32 = se_salt x"

lemma mk_tls_server_fresh:
  "rng 0 32 = se_salt x \<Longrightarrow> fresh_server P x
     (mk_tls_server P (se_server x) (Some (se_server_random x)) (Some (se_server_key x)) keylog rng)"
  by (simp add: fresh_server_def mk_tls_server_def)

lemma certificate_messages_ok:
  assumes x: "session_ok P x" and s: "sv_config s = se_server x" "hs_rng s 0 32 = se_salt x"
    and ks: "update_transcript (wire (Certificate (m_certificate x))) (hs_schedule s) = ks_certificate P x"
  shows "certificate_messages P s = (Inr (wire (Certificate (m_certificate x)) @ wire (CertificateVerify (m_verify P x))),
    s\<lparr>hs_schedule := ks_verify P x, hs_rng := rest_rng (hs_rng s)\<rparr>)"
proof -
  obtain a sg where sign: "sign_certificate_verify P (se_salt x) (sc_signing_key (se_server x))
      (transcript_hash P (ks_certificate P x)) = (a, sg)" by fastforce
  then have v: "m_verify P x = \<lparr>cv_algorithm = a, cv_signature = sg\<rparr>" by (simp add: m_verify_def)
  show ?thesis
    using session_wires(4,5) [OF x] s
    by (simp add: certificate_messages_def step_defs urandom_def ks sign v ks_verify_def m_certificate_def [symmetric])
qed

lemma server_flight_ok:
  assumes x: "session_ok P x"
    and s: "sv_config s = se_server x" "sv_random s = se_server_random x" "sv_key s = se_server_key x"
      "hs_cipher_suite s = se_suite x" "\<not> sv_early_data_accepted s" "hs_rng s 0 32 = se_salt x"
      "hs_schedule s = update_transcript (wire (ClientHello (m_hello P x))) (mk_key_schedule P None)"
      "ch_legacy_session_id h = []"
  shows "\<exists>kl. server_flight P h (prim_x25519_public P (se_client_key x)) (se_alpn x) None s = (Inr (), s\<lparr>
    hs_client_hs_secret := client_secret P x, hs_server_hs_secret := server_secret P x,
    hs_rng := rest_rng (hs_rng s), hs_schedule := ks_master P x, hs_keylog := kl,
    hs_events := hs_events s @ SendData Initial (wire (ServerHello (m_server_hello P x))) # handshake_events P x
      @ SendData Handshake (flight_bytes P x) # application_events P x\<rparr>)"
proof -
  note f = session_parts [OF x] and w = session_wires [OF x]
  obtain kl1 where hs: "\<forall>s :: tls_server. emit_handshake_secrets P (se_shared x) s = (Inr (),
      s\<lparr>hs_schedule := projr (add_ecdhe P (se_shared x) (hs_schedule s)),
      hs_client_hs_secret := traffic_secret P ''c hs traffic'' (projr (add_ecdhe P (se_shared x) (hs_schedule s))),
      hs_server_hs_secret := traffic_secret P ''s hs traffic'' (projr (add_ecdhe P (se_shared x) (hs_schedule s))), hs_keylog := kl1 s,
      hs_events := hs_events s @
       [SecretAvailable Handshake CLIENT (traffic_secret P ''c hs traffic'' (projr (add_ecdhe P (se_shared x) (hs_schedule s)))) (hs_cipher_suite s),
        SecretAvailable Handshake SERVER (traffic_secret P ''s hs traffic'' (projr (add_ecdhe P (se_shared x) (hs_schedule s)))) (hs_cipher_suite s)]\<rparr>)"
    using emit_handshake_secrets_fn [OF f(2)] by (rule exE)
  obtain kl2 where app: "\<forall>s :: tls_server. emit_application_secrets P s = (Inr (),
      s\<lparr>hs_schedule := projr (advance_to_master P (hs_schedule s)), hs_keylog := kl2 s,
      hs_events := hs_events s @
       [SecretAvailable OneRtt CLIENT (traffic_secret P ''c ap traffic'' (projr (advance_to_master P (hs_schedule s)))) (hs_cipher_suite s),
        SecretAvailable OneRtt SERVER (traffic_secret P ''s ap traffic'' (projr (advance_to_master P (hs_schedule s)))) (hs_cipher_suite s)]\<rparr>)"
    using emit_application_secrets_fn [OF f(2)] by (rule exE)
  have fin: "finished_verify_data P (server_secret P x) (transcript_hash P (ks_verify P x)) = Inr (m_finished P x)"
    unfolding m_finished_def by (rule schedule_total(6) [OF f(2)])
  have sh: "extension_list [(SUPPORTED_VERSIONS, Inr (to_be 2 TLS_1_3)),
      (KEY_SHARE, key_share_entry X25519_GROUP (prim_x25519_public P (se_server_key x)))] = Inr (sh_extensions (m_server_hello P x))"
    by (simp add: extension_list_def key_share_at(1) f(3) m_server_hello_def)
  have ee: "extension_list [(ALPN, alpn_extension [se_alpn x]),
      (QUIC_TRANSPORT_PARAMETERS, Inr (sc_transport_parameters (se_server x)))] = Inr (m_extensions x)"
    using f(8) by (simp add: extension_list_def alpn_at(1) protocol_bytes_single protocol_ok_def m_extensions_def)
  have shw: "encode_server_hello \<lparr>sh_random = se_server_random x, sh_legacy_session_id_echo = [], sh_cipher_suite = se_suite x,
      sh_extensions = sh_extensions (m_server_hello P x)\<rparr> = Inr (wire (ServerHello (m_server_hello P x)))"
    using w(2) by (simp add: m_server_hello_def)
  show ?thesis
    unfolding server_flight_def
    by (simp add: s sh shw feed_def emit_def ask_schedule_def f(10) hs ee w app fin ks_handshake_def [symmetric]
        ks_certificate_def [symmetric] certificate_messages_ok [OF x] ks_master_def [symmetric] master_schedule_def [symmetric]
        flight_bytes_def handshake_events_def application_events_def)
      (rule exI, rule refl)
qed


lemma bytes_in_suffix: "bytes_in sub (pre @ sub)"
proof (induction pre)
  case Nil
  then show ?case by (cases sub) simp_all
qed simp

text \<open>What the server reads in the hello.\<close>

lemma hello_read:
  assumes "session_ok P x"
  shows "find_extension (ch_extensions (m_hello P x)) KEY_SHARE = Some (to_be 2 (len (share_bytes (prim_x25519_public P (se_client_key x))))
      @ share_bytes (prim_x25519_public P (se_client_key x)))"
    "find_extension (ch_extensions (m_hello P x)) SUPPORTED_VERSIONS = Some (2 # to_be 2 TLS_1_3)"
    "find_extension (ch_extensions (m_hello P x)) QUIC_TRANSPORT_PARAMETERS = Some (cf_transport_parameters (se_client x))"
    "find_extension (ch_extensions (m_hello P x)) PRE_SHARED_KEY = None"
    "find_extension (ch_extensions (m_hello P x)) EARLY_DATA = None"
    "find_extension (ch_extensions (m_hello P x)) PSK_KEY_EXCHANGE_MODES = Some [1, PSK_DHE_KE]"
    "negotiate_alpn (se_server x) (m_hello P x) = Inr (se_alpn x)"
    "ch_random (m_hello P x) = se_client_random x" "ch_legacy_session_id (m_hello P x) = []"
    "ch_cipher_suites (m_hello P x) = cf_cipher_suites (se_client x)"
proof -
  have "parse_alpn (to_be 2 (len (protocol_bytes (cf_alpn (se_client x)))) @ protocol_bytes (cf_alpn (se_client x)))
      = Inr (cf_alpn (se_client x))"
    using session_parts(1) [OF assms] by (intro alpn_at(2)) (simp_all add: client_ok_def)
  then show "negotiate_alpn (se_server x) (m_hello P x) = Inr (se_alpn x)"
    using assms by (simp add: negotiate_alpn_def m_hello_def hello_def hello_exts_def session_ok_def)
qed (simp_all add: m_hello_def hello_def hello_exts_def)

definition server_waits :: "prims \<Rightarrow> session \<Rightarrow> tls_server \<Rightarrow> bool" where
  "server_waits P x s \<longleftrightarrow> sv_state s = WAIT_CLIENT_FINISHED \<and> sv_config s = se_server x \<and> hs_schedule s = ks_master P x
     \<and> hs_client_hs_secret s = client_secret P x \<and> hs_cipher_suite s = se_suite x \<and> sv_alpn s = se_alpn x
     \<and> sv_client_transport_parameters s = cf_transport_parameters (se_client x) \<and> hs_buffers s = (\<lambda>_. [])
     \<and> sv_client_supports_resumption s \<and> \<not> sv_resumed s
     \<and> hs_events s = SendData Initial (wire (ServerHello (m_server_hello P x))) # handshake_events P x
         @ SendData Handshake (flight_bytes P x) # application_events P x"

lemma server_receives_hello:
  assumes x: "session_ok P x" and s: "fresh_server P x s"
  shows "\<exists>t. server_receive P Initial (wire (ClientHello (m_hello P x))) now s = (Inr (), t) \<and> server_waits P x t
    \<and> hs_rng t = rest_rng (hs_rng s)"
proof -
  note h = hello_read [OF x] and f = session_parts [OF x]
  obtain ys where ys: "filter (\<lambda>suite. suite \<in> set SUPPORTED_CIPHER_SUITES) (cf_cipher_suites (se_client x)) = se_suite x # ys"
    using f(6) by blast
  have s': "sv_config s = se_server x" "sv_random s = se_server_random x" "sv_key s = se_server_key x"
    "hs_schedule s = mk_key_schedule P None" "hs_events s = []" "hs_buffers s = (\<lambda>_. [])" "\<not> sv_hello_retry_sent s"
    "sv_state s = SERVER_START" "hs_rng s 0 32 = se_salt x"
    using s by (simp_all add: fresh_server_def)
  define s1 where "s1 = s\<lparr>hs_now := now, hs_cipher_suite := se_suite x, hs_client_random := se_client_random x,
    sv_resumed := False, sv_client_supports_resumption := True, sv_early_data_accepted := False,
    hs_schedule := update_transcript (wire (ClientHello (m_hello P x))) (mk_key_schedule P None)\<rparr>"
  obtain kl where fl: "server_flight P (m_hello P x) (prim_x25519_public P (se_client_key x)) (se_alpn x) None s1 = (Inr (), s1\<lparr>
    hs_client_hs_secret := client_secret P x, hs_server_hs_secret := server_secret P x,
    hs_rng := rest_rng (hs_rng s1), hs_schedule := ks_master P x, hs_keylog := kl,
    hs_events := hs_events s1 @ SendData Initial (wire (ServerHello (m_server_hello P x))) # handshake_events P x
      @ SendData Handshake (flight_bytes P x) # application_events P x\<rparr>)"
    using server_flight_ok [OF x, of s1 "m_hello P x"] by (auto simp: s1_def s' h)
  define t where "t = s1\<lparr>hs_client_hs_secret := client_secret P x, hs_server_hs_secret := server_secret P x,
    hs_rng := rest_rng (hs_rng s1), hs_schedule := ks_master P x, hs_keylog := kl,
    hs_events := hs_events s1 @ SendData Initial (wire (ServerHello (m_server_hello P x))) # handshake_events P x
      @ SendData Handshake (flight_bytes P x) # application_events P x,
    sv_alpn := se_alpn x, sv_client_transport_parameters := cf_transport_parameters (se_client x), sv_state := WAIT_CLIENT_FINISHED\<rparr>"
  have psk: "resolve_psk_offer P (m_hello P x) (wire (ClientHello (m_hello P x))) (se_alpn x)
      (s\<lparr>hs_now := now, hs_cipher_suite := se_suite x, hs_client_random := se_client_random x\<rparr>) = (Inr None, s1)"
    by (simp add: resolve_psk_offer_def select_psk_def accepts_early_data_def h feed_def s1_def s')
  have "server_on_client_hello P (m_hello P x) (wire (ClientHello (m_hello P x))) (s\<lparr>hs_now := now\<rparr>) = (Inr (), t)"
    using bytes_in_suffix [of "to_be 2 TLS_1_3" "[2]"]
    by (simp add: server_on_client_hello_def h ys refuse_def key_share_at(3) f(3) s' psk fl del: bytes_in.simps) (simp add: t_def)
  then have "server_handle P Initial (ClientHello (m_hello P x)) (wire (ClientHello (m_hello P x))) (s\<lparr>hs_now := now\<rparr>) = (Inr (), t)"
    by (simp add: server_handle_def s' require_eq)
  then have "server_receive P Initial (wire (ClientHello (m_hello P x))) now s = (Inr (), t)"
    unfolding server_receive_def using messages_ok(1) [OF x]
    by (intro server_machine.receive_message(1)) (simp_all add: wire_encode s' del: message_ok.simps encode_message.simps)
  moreover have "server_waits P x t" "hs_rng t = rest_rng (hs_rng s)"
    by (simp_all add: server_waits_def t_def s1_def s')
  ultimately show ?thesis by blast
qed



section \<open>The client finishes\<close>

definition client_waits :: "prims \<Rightarrow> session \<Rightarrow> tls_client \<Rightarrow> bool" where
  "client_waits P x c \<longleftrightarrow> cl_state c = WAIT_SERVER_HELLO \<and> cl_config c = se_client x \<and> cl_keys c = [(X25519_GROUP, se_client_key x)]
     \<and> hs_schedule c = update_transcript (wire (ClientHello (m_hello P x))) (mk_key_schedule P None)
     \<and> cl_fallback_schedule c = None \<and> \<not> cl_resumed c \<and> \<not> cl_early_data_offered c \<and> hs_buffers c = (\<lambda>_. [])
     \<and> hs_events c = [SendData Initial (wire (ClientHello (m_hello P x)))]"

lemma client_starts:
  assumes "session_ok P x"
  shows "\<exists>c. start P now (mk_tls_client P (se_client x) (Some (se_client_random x)) (Some (se_client_key x)) keylog rng) = (Inr (), c)
    \<and> client_waits P x c"
proof -
  define c where "c = mk_tls_client P (se_client x) (Some (se_client_random x)) (Some (se_client_key x)) keylog rng"
  have fresh: "fresh_client P (se_client x) (se_client_random x) (se_client_key x) c"
    unfolding c_def by (rule mk_tls_client_fresh [OF session_parts(1) [OF assms]])
  from start_fresh [OF session_parts(1) [OF assms] this session_parts(3) [OF assms]
      session_wires(1) [OF assms, unfolded m_hello_def], folded m_hello_def, of now]
  show ?thesis unfolding c_def [symmetric]
    using fresh by (auto simp: client_waits_def fresh_client_def)
qed

definition client_midway :: "prims \<Rightarrow> session \<Rightarrow> tls_client \<Rightarrow> bool" where
  "client_midway P x c \<longleftrightarrow> cl_state c = WAIT_ENCRYPTED_EXTENSIONS \<and> cl_config c = se_client x \<and> hs_schedule c = ks_handshake P x
     \<and> hs_client_hs_secret c = client_secret P x \<and> hs_server_hs_secret c = server_secret P x \<and> hs_cipher_suite c = se_suite x
     \<and> \<not> cl_resumed c \<and> \<not> cl_early_data_offered c \<and> hs_buffers c = (\<lambda>_. [])
     \<and> hs_events c = SendData Initial (wire (ClientHello (m_hello P x))) # handshake_events P x"

lemma client_receives_server_hello:
  assumes x: "session_ok P x" and c: "client_waits P x c"
  shows "\<exists>d. client_receive P Initial (wire (ServerHello (m_server_hello P x))) now c = (Inr (), d) \<and> client_midway P x d"
proof -
  note f = session_parts [OF x]
  have c': "cl_state c = WAIT_SERVER_HELLO" "cl_config c = se_client x" "cl_keys c = [(X25519_GROUP, se_client_key x)]"
    "hs_schedule c = update_transcript (wire (ClientHello (m_hello P x))) (mk_key_schedule P None)"
    "cl_fallback_schedule c = None" "\<not> cl_resumed c" "\<not> cl_early_data_offered c" "hs_buffers c = (\<lambda>_. [])"
    "hs_events c = [SendData Initial (wire (ClientHello (m_hello P x)))]"
    using c by (simp_all add: client_waits_def)
  have h: "sh_random (m_server_hello P x) \<noteq> HELLO_RETRY_REQUEST_RANDOM" "sh_legacy_session_id_echo (m_server_hello P x) = []"
    "sh_cipher_suite (m_server_hello P x) = se_suite x"
    "find_extension (sh_extensions (m_server_hello P x)) SUPPORTED_VERSIONS = Some (to_be 2 TLS_1_3)"
    "find_extension (sh_extensions (m_server_hello P x)) PRE_SHARED_KEY = None"
    "find_extension (sh_extensions (m_server_hello P x)) KEY_SHARE = Some (share_bytes (prim_x25519_public P (se_server_key x)))"
    using x by (simp_all add: m_server_hello_def session_ok_def)
  obtain kl where hs: "\<forall>s :: tls_client. emit_handshake_secrets P (se_shared x) s = (Inr (),
      s\<lparr>hs_schedule := projr (add_ecdhe P (se_shared x) (hs_schedule s)),
      hs_client_hs_secret := traffic_secret P ''c hs traffic'' (projr (add_ecdhe P (se_shared x) (hs_schedule s))),
      hs_server_hs_secret := traffic_secret P ''s hs traffic'' (projr (add_ecdhe P (se_shared x) (hs_schedule s))), hs_keylog := kl s,
      hs_events := hs_events s @
       [SecretAvailable Handshake CLIENT (traffic_secret P ''c hs traffic'' (projr (add_ecdhe P (se_shared x) (hs_schedule s)))) (hs_cipher_suite s),
        SecretAvailable Handshake SERVER (traffic_secret P ''s hs traffic'' (projr (add_ecdhe P (se_shared x) (hs_schedule s)))) (hs_cipher_suite s)]\<rparr>)"
    using emit_handshake_secrets_fn [OF f(2)] by (rule exE)
  obtain d where d: "client_on_server_hello P (m_server_hello P x) (wire (ServerHello (m_server_hello P x))) (c\<lparr>hs_now := now\<rparr>) = (Inr (), d)"
    and mid: "client_midway P x d"
    by (simp add: client_on_server_hello_def h c' f refuse_def key_share_at(2) settle_psk_def feed_def hs
        ks_handshake_def [symmetric] client_midway_def handshake_events_def)
  have "client_handle P Initial (ServerHello (m_server_hello P x)) (wire (ServerHello (m_server_hello P x))) (c\<lparr>hs_now := now\<rparr>) = (Inr (), d)"
    using d by (simp add: client_handle_def client_dispatch_def c' require_eq)
  then have "client_receive P Initial (wire (ServerHello (m_server_hello P x))) now c = (Inr (), d)"
    unfolding client_receive_def using messages_ok(2) [OF x]
    by (intro client_machine.receive_message(1)) (simp_all add: wire_encode c' del: message_ok.simps encode_message.simps)
  with mid show ?thesis by blast
qed


lemma client_step:
  assumes "message_ok m" "hs_buffers c = (\<lambda>_. [])" "client_handle P level m (wire m) (c\<lparr>hs_now := now\<rparr>) = (Inr (), d)"
  shows "client_receive P level (wire m @ rest) now c = client_receive P level rest now d"
    and "client_receive P level (wire m) now c = (Inr (), d)" and "hs_buffers d = (\<lambda>_. [])"
  unfolding client_receive_def
  using client_machine.receive_message [OF assms(1) wire_encode [OF assms(1)] _ assms(3)] assms(2) by simp_all

definition client_done :: "prims \<Rightarrow> session \<Rightarrow> tls_client \<Rightarrow> bool" where
  "client_done P x c \<longleftrightarrow> cl_state c = CLIENT_CONNECTED \<and> cl_config c = se_client x
     \<and> hs_schedule c = update_transcript (wire (Finished (m_client_finished P x))) (ks_master P x)
     \<and> hs_cipher_suite c = se_suite x \<and> \<not> cl_resumed c \<and> hs_buffers c = (\<lambda>_. []) \<and> cl_alpn c = se_alpn x
     \<and> cl_peer_transport_parameters c = sc_transport_parameters (se_server x)
     \<and> hs_events c = SendData Initial (wire (ClientHello (m_hello P x))) # handshake_events P x @ application_events P x
         @ [SendData Handshake (wire (Finished (m_client_finished P x))),
            HandshakeComplete (se_alpn x) (sc_transport_parameters (se_server x))]"

lemma client_certified:
  assumes x: "session_ok P x" and c: "client_midway P x c"
  shows "\<exists>d. client_receive P Handshake (wire (EncryptedExtensions (m_extensions x)) @
      (wire (Certificate (m_certificate x)) @ wire (CertificateVerify (m_verify P x))) @ rest) now c
      = client_receive P Handshake rest now d
    \<and> d = c\<lparr>hs_now := now, cl_alpn := se_alpn x, cl_peer_transport_parameters := sc_transport_parameters (se_server x),
        cl_leaf_certificate := hd (sc_certificate_chain (se_server x)), hs_schedule := ks_verify P x, cl_state := WAIT_FINISHED\<rparr>"
proof -
  note f = session_parts [OF x] and ok = messages_ok [OF x]
  have c': "cl_state c = WAIT_ENCRYPTED_EXTENSIONS" "cl_config c = se_client x" "hs_schedule c = ks_handshake P x"
    "\<not> cl_resumed c" "hs_buffers c = (\<lambda>_. [])"
    using c by (simp_all add: client_midway_def)
  have alpn: "parse_alpn (to_be 2 (len (protocol_bytes [se_alpn x])) @ protocol_bytes [se_alpn x]) = Inr [se_alpn x]"
    using f(8) by (intro alpn_at(2)) (simp_all add: protocol_bytes_single protocol_ok_def)
  define c1 where "c1 = c\<lparr>hs_now := now, cl_alpn := se_alpn x, cl_peer_transport_parameters := sc_transport_parameters (se_server x),
    hs_schedule := update_transcript (wire (EncryptedExtensions (m_extensions x))) (ks_handshake P x), cl_state := WAIT_CERTIFICATE\<rparr>"
  have 1: "client_handle P Handshake (EncryptedExtensions (m_extensions x)) (wire (EncryptedExtensions (m_extensions x)))
      (c\<lparr>hs_now := now\<rparr>) = (Inr (), c1)"
    using f(7) by (simp add: client_handle_def client_dispatch_def c' require_eq client_on_encrypted_extensions_def
        m_extensions_def alpn refuse_def settle_early_data_def feed_def c1_def)
  define c2 where "c2 = c1\<lparr>cl_leaf_certificate := hd (sc_certificate_chain (se_server x)), hs_schedule := ks_certificate P x,
    cl_state := WAIT_CERTIFICATE_VERIFY\<rparr>"
  have ne: "cert_entries (m_certificate x) \<noteq> []" "ce_data (hd (cert_entries (m_certificate x))) = hd (sc_certificate_chain (se_server x))"
    and policy: "cf_insecure_skip_verify (se_client x) \<or> verify_certificate_policy P (se_client x) (m_certificate x) = Inr ()"
    using x by (auto simp: session_ok_def trusts_def verify_certificate_policy_def m_certificate_def hd_map map_tl [symmetric] comp_def)
  then have 2: "client_handle P Handshake (Certificate (m_certificate x)) (wire (Certificate (m_certificate x)))
      (c1\<lparr>hs_now := now\<rparr>) = (Inr (), c2)"
    by (cases "cf_insecure_skip_verify (se_client x)") (simp_all add: client_handle_def client_dispatch_def c1_def c2_def c' require_eq
        client_on_certificate_def refuse_def feed_def ks_certificate_def)
  define c3 where "c3 = c2\<lparr>hs_schedule := ks_verify P x, cl_state := WAIT_FINISHED\<rparr>"
  have 3: "client_handle P Handshake (CertificateVerify (m_verify P x)) (wire (CertificateVerify (m_verify P x)))
      (c2\<lparr>hs_now := now\<rparr>) = (Inr (), c3)"
    using m_verify_ok(2) [OF x]
    by (simp add: client_handle_def client_dispatch_def c1_def c2_def c3_def c' require_eq client_on_certificate_verify_def
        ask_schedule_def feed_def ks_verify_def)
  note s1 = client_step [OF ok(3) c'(5) 1]
  note s2 = client_step [OF ok(4) s1(3) 2]
  note s3 = client_step [OF ok(5) s2(3) 3]
  have "c3 = c\<lparr>hs_now := now, cl_alpn := se_alpn x, cl_peer_transport_parameters := sc_transport_parameters (se_server x),
        cl_leaf_certificate := hd (sc_certificate_chain (se_server x)), hs_schedule := ks_verify P x, cl_state := WAIT_FINISHED\<rparr>"
    by (simp add: c3_def c2_def c1_def)
  then show ?thesis by (simp add: s1(1) s2(1) s3(1))
qed

lemma client_receives_flight:
  assumes x: "session_ok P x" and c: "client_midway P x c"
  shows "\<exists>d. client_receive P Handshake (flight_bytes P x) now c = (Inr (), d) \<and> client_done P x d"
proof -
  note f = session_parts [OF x] and ok = messages_ok [OF x]
  obtain d where d: "client_receive P Handshake (flight_bytes P x) now c = client_receive P Handshake (wire (Finished (m_finished P x))) now d"
    and dd: "d = c\<lparr>hs_now := now, cl_alpn := se_alpn x, cl_peer_transport_parameters := sc_transport_parameters (se_server x),
        cl_leaf_certificate := hd (sc_certificate_chain (se_server x)), hs_schedule := ks_verify P x, cl_state := WAIT_FINISHED\<rparr>"
    using client_certified [OF x c, of "wire (Finished (m_finished P x))" now] by (auto simp: flight_bytes_def)
  have dp: "hs_buffers d = (\<lambda>_. [])" "hs_server_hs_secret d = server_secret P x" "hs_client_hs_secret d = client_secret P x"
    "hs_schedule d = ks_verify P x" "cl_state d = WAIT_FINISHED" "d\<lparr>hs_now := now\<rparr> = d"
    using c by (simp_all add: dd client_midway_def)
  have fin: "client_finished P (client_secret P x) (ks_master P x) = wire (Finished (m_client_finished P x))"
    by (simp add: client_finished_def m_client_finished_def wire_def)
  from client_on_finished_eq [OF f(2), of "m_finished P x" "wire (Finished (m_finished P x))" d]
  obtain kl where run: "client_on_finished P (m_finished P x) (wire (Finished (m_finished P x))) d =
      (Inr (), d\<lparr>hs_schedule := update_transcript (wire (Finished (m_client_finished P x))) (ks_master P x), hs_keylog := kl,
       hs_events := hs_events d @
         [SecretAvailable OneRtt CLIENT (traffic_secret P ''c ap traffic'' (ks_master P x)) (hs_cipher_suite d),
          SecretAvailable OneRtt SERVER (traffic_secret P ''s ap traffic'' (ks_master P x)) (hs_cipher_suite d),
          SendData Handshake (wire (Finished (m_client_finished P x))),
          HandshakeComplete (cl_alpn d) (cl_peer_transport_parameters d)],
       cl_state := CLIENT_CONNECTED\<rparr>)"
    by (auto simp: dp m_finished_def [symmetric] ks_master_def [symmetric] fin)
  then have "client_handle P Handshake (Finished (m_finished P x)) (wire (Finished (m_finished P x))) (d\<lparr>hs_now := now\<rparr>)
      = client_on_finished P (m_finished P x) (wire (Finished (m_finished P x))) d"
    by (simp add: client_handle_def client_dispatch_def dp require_eq)
  note r = client_step(2) [OF ok(6) dp(1) this [unfolded run]]
  show ?thesis unfolding d
    by (rule exI, rule conjI, rule r) (use c in \<open>simp add: client_done_def client_midway_def dd application_events_def\<close>)
qed



section \<open>The ticket\<close>

definition ticket_psk :: "prims \<Rightarrow> key_schedule \<Rightarrow> bytes \<Rightarrow> bytes" where
  "ticket_psk P ks n = projr (bindE (resumption_master_secret P ks) (\<lambda>master. resumption_psk P master n))"

lemma ticket_psk_total:
  assumes "hash_ok P" "length n < 256"
  shows "bindE (resumption_master_secret P ks) (\<lambda>master. resumption_psk P master n) = Inr (ticket_psk P ks n)"
    and "length (ticket_psk P ks n) = 32"
proof -
  obtain master where m: "resumption_master_secret P ks = Inr master"
    using schedule_total(4) [OF assms(1), of "ascii ''res master''" ks] by (auto simp: resumption_master_secret_def)
  show "bindE (resumption_master_secret P ks) (\<lambda>master. resumption_psk P master n) = Inr (ticket_psk P ks n)"
    "length (ticket_psk P ks n) = 32"
    using hkdf_expand_label_total [OF assms(1), of "ascii ''resumption''" n 32 master] assms(2)
    by (simp_all add: ticket_psk_def m resumption_psk_def)
qed

text \<open>A server that is able to issue tickets, and the state it seals.\<close>

definition issues :: "bytes \<Rightarrow> tls_server \<Rightarrow> bool" where
  "issues key s \<longleftrightarrow> sc_ticket_key (sv_config s) = Some key \<and> aes_key_ok key \<and> sv_client_supports_resumption s
     \<and> rng_ok (hs_rng s) \<and> protocol_ok (sv_alpn s) \<and> length (sc_transport_parameters (sv_config s)) < 60000
     \<and> fits16 (hs_cipher_suite s) \<and> 0 \<le> hs_now s \<and> hs_now s < 2 ^ 64"

definition sealed_state :: "prims \<Rightarrow> tls_server \<Rightarrow> ticket_state" where
  "sealed_state P s = \<lparr>ts_psk = ticket_psk P (hs_schedule s) (hs_rng s 0 12), ts_age_add = from_be (hs_rng s 1 4), ts_alpn = sv_alpn s,
     ts_transport_parameters = sc_transport_parameters (sv_config s), ts_issued_at = py_int (hs_now s),
     ts_cipher_suite = hs_cipher_suite s\<rparr>"

lemma sealed_state_ok: "hash_ok P \<Longrightarrow> issues key s \<Longrightarrow> ticket_ok (sealed_state P s)"
  using ticket_psk_total(2) [of P "hs_rng s 0 12" "hs_schedule s"] from_be_bounds [of "hs_rng s 1 4"]
  by (simp add: ticket_ok_def sealed_state_def issues_def rng_ok_def protocol_ok_def py_int_def floor_less_iff)

lemma issue_session_ticket_ok:
  assumes P: "prims_ok P" and s: "issues key s"
  obtains m where "message_ok (NewSessionTicket m)" "nst_nonce m = hs_rng s 0 12" "nst_age_add m = from_be (hs_rng s 1 4)"
    "nst_lifetime m = SESSION_TICKET_LIFETIME"
    "nst_extensions m = [ext EARLY_DATA (to_be 4 MAX_EARLY_DATA_SIZE)]"
    "issue_session_ticket P s = (Inr (), s\<lparr>hs_rng := rest_rng (rest_rng (rest_rng (hs_rng s))),
      hs_events := hs_events s @ [SendData OneRtt (wire (NewSessionTicket m))]\<rparr>)"
    "\<And>later. open_ticket P key (nst_ticket m) later 7200
       = (if later - of_int (py_int (hs_now s)) > 7200 then Inl TicketError else Inr (sealed_state P s))"
proof -
  have r: "length (hs_rng s i k) = k" and a: "aes_key_ok key" "sc_ticket_key (sv_config s) = Some key" "sv_client_supports_resumption s"
    for i k using s by (simp_all add: issues_def rng_ok_def)
  note ok = sealed_state_ok [OF prims_okD(4) [OF P] s]
  obtain ticket where t: "seal_ticket P (hs_rng s 2 12) key (sealed_state P s) = Inr ticket"
      "length ticket = 28 + length (ticket_plaintext (sealed_state P s))"
      "\<And>now lifetime. open_ticket P key ticket now lifetime
       = (if now - of_int (ts_issued_at (sealed_state P s)) > lifetime then Inl TicketError else Inr (sealed_state P s))"
    using sealed_ticket_opens [OF P a(1) r ok] by blast
  define m where "m = \<lparr>nst_lifetime = SESSION_TICKET_LIFETIME, nst_age_add = from_be (hs_rng s 1 4), nst_nonce = hs_rng s 0 12,
    nst_ticket = ticket, nst_extensions = [ext EARLY_DATA (to_be 4 MAX_EARLY_DATA_SIZE)]\<rparr>"
  have "length ticket < 65536"
    using ok s by (simp add: t(2) ticket_plaintext_def ticket_ok_def) (simp add: sealed_state_def issues_def protocol_ok_def)
  then have mok: "message_ok (NewSessionTicket m)"
    using from_be_bounds [of "hs_rng s 1 4"] r
    by (simp add: m_def extensions_ok_def extension_ok_def fits16_def length_extension_bytes)
  obtain w where w: "wire (NewSessionTicket m) = w" by blast
  have e: "encode_new_session_ticket m = Inr w" using wire_encode [OF mok] by (simp add: w)
  have "issue_session_ticket P s = (Inr (), s\<lparr>hs_rng := rest_rng (rest_rng (rest_rng (hs_rng s))),
      hs_events := hs_events s @ [SendData OneRtt (wire (NewSessionTicket m))]\<rparr>)"
    using t(1) e [unfolded m_def] ticket_psk_total(1) [OF prims_okD(4) [OF P], of "hs_rng s 0 12" "hs_schedule s"] r
    by (simp add: issue_session_ticket_def a urandom_def rest_rng_def ask_schedule_def Let_def sealed_state_def emit_def
        w numeral_2_eq_2)
  then show thesis by (rule that [of m, OF mok, rotated 4]) (simp_all add: m_def t(3), simp add: sealed_state_def)
qed


text \<open>C21: The ticket a server issues at the end of a handshake is the one the client stores: a client
  whose key schedule, protocol and cipher suite agree with the server's reads the NewSessionTicket,
  keeps one more ticket, and for as long as the lifetime has not passed the server opens the identity of that
  ticket to a state with the same PSK, age offset, protocol and cipher suite.\<close>

theorem ticket_agreement:
  assumes P: "prims_ok P" and s: "issues key s"
    and c: "cl_state c = CLIENT_CONNECTED" "hs_schedule c = hs_schedule s" "cl_alpn c = sv_alpn s"
      "hs_cipher_suite c = hs_cipher_suite s" "hs_buffers c = (\<lambda>_. [])"
  shows "\<exists>raw t d ticket state. issue_session_ticket P s = (Inr (), t) \<and> hs_events t = hs_events s @ [SendData OneRtt raw]
    \<and> client_receive P OneRtt raw now c = (Inr (), d) \<and> cl_session_tickets d = cl_session_tickets c @ [ticket]
    \<and> (\<forall>later. later - of_int (ts_issued_at state) \<le> 7200 \<longrightarrow> open_ticket P key (st_identity ticket) later 7200 = Inr state)
    \<and> ts_issued_at state = \<lfloor>hs_now s\<rfloor> \<and> st_received_at ticket = now \<and> ts_psk state = st_psk ticket
    \<and> ts_age_add state = st_age_add ticket \<and> ts_alpn state = st_alpn ticket \<and> ts_cipher_suite state = st_cipher_suite ticket"
proof -
  obtain m where m: "message_ok (NewSessionTicket m)" "nst_nonce m = hs_rng s 0 12" "nst_age_add m = from_be (hs_rng s 1 4)"
    "nst_lifetime m = SESSION_TICKET_LIFETIME"
    "nst_extensions m = [ext EARLY_DATA (to_be 4 MAX_EARLY_DATA_SIZE)]"
    "issue_session_ticket P s = (Inr (), s\<lparr>hs_rng := rest_rng (rest_rng (rest_rng (hs_rng s))),
      hs_events := hs_events s @ [SendData OneRtt (wire (NewSessionTicket m))]\<rparr>)"
    "\<And>later. open_ticket P key (nst_ticket m) later 7200
       = (if later - of_int (py_int (hs_now s)) > 7200 then Inl TicketError else Inr (sealed_state P s))"
    using issue_session_ticket_ok [OF P s] by blast
  have n: "length (hs_rng s 0 12) = 12" "0 \<le> hs_now s" using s by (simp_all add: issues_def rng_ok_def)
  note psk = ticket_psk_total(1) [OF prims_okD(4) [OF P], of "hs_rng s 0 12" "hs_schedule s"]
  define ticket where "ticket = \<lparr>st_identity = nst_ticket m, st_psk = ticket_psk P (hs_schedule s) (hs_rng s 0 12),
    st_age_add = from_be (hs_rng s 1 4), st_lifetime = SESSION_TICKET_LIFETIME, st_received_at = now,
    st_max_early_data_size = MAX_EARLY_DATA_SIZE, st_alpn = sv_alpn s,
    st_transport_parameters = cl_peer_transport_parameters c, st_cipher_suite = hs_cipher_suite s\<rparr>"
  have "client_handle P OneRtt (NewSessionTicket m) (wire (NewSessionTicket m)) (c\<lparr>hs_now := now\<rparr>)
      = (Inr (), c\<lparr>hs_now := now, cl_session_tickets := cl_session_tickets c @ [ticket]\<rparr>)"
    using psk n by (simp add: client_handle_def c store_session_ticket_def m(2-5) refuse_def ask_schedule_def ticket_def)
  then have "client_receive P OneRtt (wire (NewSessionTicket m)) now c
      = (Inr (), c\<lparr>hs_now := now, cl_session_tickets := cl_session_tickets c @ [ticket]\<rparr>)"
    by (rule client_step(2) [OF m(1) c(5)])
  then obtain d where "client_receive P OneRtt (wire (NewSessionTicket m)) now c = (Inr (), d)"
    "cl_session_tickets d = cl_session_tickets c @ [ticket]" by simp
  moreover obtain t where "issue_session_ticket P s = (Inr (), t)"
    "hs_events t = hs_events s @ [SendData OneRtt (wire (NewSessionTicket m))]" using m(6) by simp
  ultimately show ?thesis
    by (intro exI [of _ "wire (NewSessionTicket m)"] exI [of _ "sealed_state P s"] exI [of _ ticket] exI [of _ t] exI [of _ d] conjI)
      (simp_all add: m(7), simp_all add: ticket_def sealed_state_def py_int_def n m(7))
qed



section \<open>The full handshake\<close>

definition ticket_key_ok :: "server_config \<Rightarrow> bool" where
  "ticket_key_ok sc \<longleftrightarrow> (case sc_ticket_key sc of None \<Rightarrow> True | Some key \<Rightarrow> aes_key_ok key)"

lemma server_receives_finished:
  assumes x: "session_ok P x" and s: "server_waits P x s" and r: "rng_ok (hs_rng s)" and k: "ticket_key_ok (se_server x)"
    and now: "0 \<le> now" "now < 2 ^ 64"
  shows "\<exists>t later. server_receive P Handshake (wire (Finished (m_client_finished P x))) now s = (Inr (), t)
    \<and> sv_state t = SERVER_CONNECTED \<and> sv_alpn t = se_alpn x \<and> hs_cipher_suite t = se_suite x
    \<and> sv_client_transport_parameters t = cf_transport_parameters (se_client x)
    \<and> hs_schedule t = update_transcript (wire (Finished (m_client_finished P x))) (ks_master P x)
    \<and> hs_events t = hs_events s @ HandshakeComplete (se_alpn x) (cf_transport_parameters (se_client x)) # later
    \<and> (if sc_ticket_key (se_server x) = None then later = [] else \<exists>raw. later = [SendData OneRtt raw])"
proof -
  note f = session_parts [OF x]
  have P: "prims_ok P" using x by (simp add: session_ok_def)
  have s': "sv_state s = WAIT_CLIENT_FINISHED" "sv_config s = se_server x" "hs_schedule s = ks_master P x"
    "hs_client_hs_secret s = client_secret P x" "hs_cipher_suite s = se_suite x" "sv_alpn s = se_alpn x"
    "sv_client_transport_parameters s = cf_transport_parameters (se_client x)" "hs_buffers s = (\<lambda>_. [])"
    "sv_client_supports_resumption s"
    using s by (simp_all add: server_waits_def)
  have fin: "finished_verify_data P (client_secret P x) (transcript_hash P (ks_master P x)) = Inr (m_client_finished P x)"
    unfolding m_client_finished_def by (rule schedule_total(6) [OF f(2)])
  define s1 where "s1 = s\<lparr>hs_now := now, hs_schedule := update_transcript (wire (Finished (m_client_finished P x))) (ks_master P x),
    hs_events := hs_events s @ [HandshakeComplete (se_alpn x) (cf_transport_parameters (se_client x))], sv_state := SERVER_CONNECTED\<rparr>"
  have fd: "server_handle P Handshake (Finished (m_client_finished P x)) (wire (Finished (m_client_finished P x))) (s\<lparr>hs_now := now\<rparr>)
      = issue_session_ticket P s1"
    by (simp add: server_handle_def s' require_eq server_on_finished_def ask_schedule_def fin refuse_def feed_def emit_def s1_def
        bindS_def split: prod.split sum.split)
  have "\<exists>t later. issue_session_ticket P s1 = (Inr (), t) \<and> hs_events t = hs_events s1 @ later
      \<and> sv_state t = SERVER_CONNECTED \<and> sv_alpn t = sv_alpn s \<and> hs_cipher_suite t = hs_cipher_suite s
      \<and> sv_client_transport_parameters t = sv_client_transport_parameters s \<and> hs_schedule t = hs_schedule s1
      \<and> (if sc_ticket_key (se_server x) = None then later = [] else \<exists>raw. later = [SendData OneRtt raw])"
  proof (cases "sc_ticket_key (se_server x)")
    case None
    then show ?thesis by (simp add: issue_session_ticket_def s1_def s')
  next
    case (Some key)
    then have "issues key s1"
      using k r now f(5,8) x by (simp add: issues_def s1_def s' ticket_key_ok_def session_ok_def)
    from issue_session_ticket_ok [OF P this] obtain m where
      "issue_session_ticket P s1 = (Inr (), s1\<lparr>hs_rng := rest_rng (rest_rng (rest_rng (hs_rng s1))),
        hs_events := hs_events s1 @ [SendData OneRtt (wire (NewSessionTicket m))]\<rparr>)" by blast
    with Some show ?thesis by (simp add: s1_def)
  qed
  then obtain t later where run: "issue_session_ticket P s1 = (Inr (), t)" and t: "hs_events t = hs_events s1 @ later"
      "sv_state t = SERVER_CONNECTED" "sv_alpn t = sv_alpn s" "hs_cipher_suite t = hs_cipher_suite s"
      "sv_client_transport_parameters t = sv_client_transport_parameters s" "hs_schedule t = hs_schedule s1"
      "if sc_ticket_key (se_server x) = None then later = [] else \<exists>raw. later = [SendData OneRtt raw]"
    by blast
  have "server_receive P Handshake (wire (Finished (m_client_finished P x))) now s = (Inr (), t)"
    unfolding server_receive_def
    by (rule server_machine.receive_message(1) [OF messages_ok(7) [OF x] wire_encode [OF messages_ok(7) [OF x]]])
      (simp_all add: s' fd run)
  with t show ?thesis by (auto simp: s1_def s')
qed

fun is_secret :: "tls_event \<Rightarrow> bool" where
  "is_secret (SecretAvailable _ _ _ _) = True"
| "is_secret _ = False"

definition secrets :: "tls_event list \<Rightarrow> tls_event list" where
  "secrets = filter is_secret"

text \<open>C1: A client and a server with compatible configurations complete the full handshake. The client's hello
  makes the server send its ServerHello and its flight; reading these makes the client send its Finished;
  reading that connects the server. Nobody raises. At the end both are connected with the same four
  traffic secrets for the same cipher suite, announced in the same order, with the same key schedule and
  application protocol, each with the other's transport parameters, and a server with
  a ticket key has issued one ticket.\<close>

theorem full_handshake:
  assumes x: "session_ok P x" and r: "rng_ok rng" "rng 0 32 = se_salt x" and k: "ticket_key_ok (se_server x)"
    and now: "0 \<le> t4" "t4 < 2 ^ 64"
  shows "\<exists>hello server_hello flight finished c1 c2 c3 s1 s2 later.
    start P t0 (mk_tls_client P (se_client x) (Some (se_client_random x)) (Some (se_client_key x)) ckeylog crng) = (Inr (), c1)
    \<and> hs_events c1 = [SendData Initial hello]
    \<and> server_receive P Initial hello t1
        (mk_tls_server P (se_server x) (Some (se_server_random x)) (Some (se_server_key x)) skeylog rng) = (Inr (), s1)
    \<and> hs_events s1 = SendData Initial server_hello # take 2 (secrets (hs_events s2)) @ SendData Handshake flight # drop 2 (secrets (hs_events s2))
    \<and> client_receive P Initial server_hello t2 c1 = (Inr (), c2) \<and> client_receive P Handshake flight t3 c2 = (Inr (), c3)
    \<and> hs_events c3 = hs_events c1 @ secrets (hs_events c3)
        @ [SendData Handshake finished, HandshakeComplete (se_alpn x) (sc_transport_parameters (se_server x))]
    \<and> server_receive P Handshake finished t4 s1 = (Inr (), s2)
    \<and> hs_events s2 = hs_events s1 @ HandshakeComplete (se_alpn x) (cf_transport_parameters (se_client x)) # later
    \<and> (if sc_ticket_key (se_server x) = None then later = [] else \<exists>raw. later = [SendData OneRtt raw])
    \<and> cl_state c3 = CLIENT_CONNECTED \<and> sv_state s2 = SERVER_CONNECTED
    \<and> secrets (hs_events c3) = secrets (hs_events s2) \<and> length (secrets (hs_events c3)) = 4
    \<and> hs_schedule c3 = hs_schedule s2 \<and> cl_alpn c3 = sv_alpn s2 \<and> hs_cipher_suite c3 = hs_cipher_suite s2
    \<and> cl_peer_transport_parameters c3 = sc_transport_parameters (se_server x)
    \<and> sv_client_transport_parameters s2 = cf_transport_parameters (se_client x)"
proof -
  obtain c1 where c1: "start P t0 (mk_tls_client P (se_client x) (Some (se_client_random x)) (Some (se_client_key x)) ckeylog crng) = (Inr (), c1)"
    "client_waits P x c1" using client_starts [OF x] by blast
  define s0 where "s0 = mk_tls_server P (se_server x) (Some (se_server_random x)) (Some (se_server_key x)) skeylog rng"
  obtain s1 where s1: "server_receive P Initial (wire (ClientHello (m_hello P x))) t1 s0 = (Inr (), s1)"
    "server_waits P x s1" "hs_rng s1 = rest_rng rng"
    using server_receives_hello [OF x mk_tls_server_fresh [of rng x P skeylog, OF r(2)], of t1]
    by (auto simp: s0_def [symmetric]) (simp add: s0_def mk_tls_server_def)
  obtain c2 where c2: "client_receive P Initial (wire (ServerHello (m_server_hello P x))) t2 c1 = (Inr (), c2)" "client_midway P x c2"
    using client_receives_server_hello [OF x c1(2)] by blast
  obtain c3 where c3: "client_receive P Handshake (flight_bytes P x) t3 c2 = (Inr (), c3)" "client_done P x c3"
    using client_receives_flight [OF x c2(2)] by blast
  have "rng_ok (hs_rng s1)" using r(1) by (simp add: s1(3) rng_ok_def rest_rng_def)
  from server_receives_finished [OF x s1(2) this k now] obtain s2 later where
    s2: "server_receive P Handshake (wire (Finished (m_client_finished P x))) t4 s1 = (Inr (), s2)"
    and st: "sv_state s2 = SERVER_CONNECTED" "sv_alpn s2 = se_alpn x" "hs_cipher_suite s2 = se_suite x"
      "sv_client_transport_parameters s2 = cf_transport_parameters (se_client x)"
      "hs_schedule s2 = update_transcript (wire (Finished (m_client_finished P x))) (ks_master P x)"
      "hs_events s2 = hs_events s1 @ HandshakeComplete (se_alpn x) (cf_transport_parameters (se_client x)) # later"
    and later: "if sc_ticket_key (se_server x) = None then later = [] else \<exists>raw. later = [SendData OneRtt raw]"
    by blast
  have nosec: "secrets later = []" using later by (auto simp: secrets_def split: if_splits)
  have ev: "secrets (handshake_events P x) = handshake_events P x" "secrets (application_events P x) = application_events P x"
    "length (handshake_events P x) = 2" "length (application_events P x) = 2"
    by (simp_all add: secrets_def handshake_events_def application_events_def)
  have s2e: "secrets (hs_events s2) = handshake_events P x @ application_events P x"
    using s1(2) nosec ev by (simp add: st(6) server_waits_def secrets_def)
  have c3e: "secrets (hs_events c3) = handshake_events P x @ application_events P x"
    using c3(2) ev by (simp add: client_done_def secrets_def)
  show ?thesis
    unfolding s0_def [symmetric]
    by (rule exI [of _ "wire (ClientHello (m_hello P x))"], rule exI [of _ "wire (ServerHello (m_server_hello P x))"],
        rule exI [of _ "flight_bytes P x"], rule exI [of _ "wire (Finished (m_client_finished P x))"],
        rule exI [of _ c1], rule exI [of _ c2], rule exI [of _ c3], rule exI [of _ s1], rule exI [of _ s2], rule exI [of _ later],
        unfold s2e c3e)
      (use c1 s1 c2 c3 s2 st later ev in \<open>simp add: client_waits_def client_done_def server_waits_def\<close>)
qed



section \<open>Witnesses\<close>

lemma connected_client:
  assumes "session_ok P x"
  shows "\<exists>c. client_reachable P (Inr ()) c \<and> client_done P x c"
proof -
  define c0 where "c0 = mk_tls_client P (se_client x) (Some (se_client_random x)) (Some (se_client_key x)) None (\<lambda>_. zeros)"
  obtain c1 where c1: "start P 0 c0 = (Inr (), c1)" "client_waits P x c1" using client_starts [OF assms] unfolding c0_def by blast
  obtain c2 where c2: "client_receive P Initial (wire (ServerHello (m_server_hello P x))) 0 c1 = (Inr (), c2)" "client_midway P x c2"
    using client_receives_server_hello [OF assms c1(2)] by blast
  obtain c3 where c3: "client_receive P Handshake (flight_bytes P x) 0 c2 = (Inr (), c3)" "client_done P x c3"
    using client_receives_flight [OF assms c2(2)] by blast
  have "client_reachable P (Inr ()) c0" "cl_state c0 = CLIENT_START"
    using client_reachable.create by (auto simp: c0_def) (simp add: mk_tls_client_def split: prod.split)
  then have "client_reachable P (Inr ()) c3" by (metis c1(1) c2(1) c3(1) client_reachable.begins client_reachable.receives)
  with c3(2) show ?thesis by blast
qed

lemma connected_server:
  assumes "session_ok P x" "se_salt x = zeros 32" "ticket_key_ok (se_server x)"
  shows "\<exists>s. server_reachable P s \<and> sv_state s = SERVER_CONNECTED"
proof -
  define s0 where "s0 = mk_tls_server P (se_server x) (Some (se_server_random x)) (Some (se_server_key x)) None (\<lambda>_. zeros)"
  have r: "rng_ok (\<lambda>_. zeros)" by (simp add: rng_ok_def zeros_def)
  have f: "fresh_server P x s0" unfolding s0_def by (rule mk_tls_server_fresh) (simp add: assms(2))
  obtain s1 where s1: "server_receive P Initial (wire (ClientHello (m_hello P x))) 0 s0 = (Inr (), s1)"
    "server_waits P x s1" "hs_rng s1 = rest_rng (hs_rng s0)" using server_receives_hello [OF assms(1) f] by blast
  have "rng_ok (hs_rng s1)" using r by (simp add: s1(3) s0_def mk_tls_server_def rng_ok_def rest_rng_def)
  from server_receives_finished [OF assms(1) s1(2) this assms(3), of 0] obtain s2
    where "server_receive P Handshake (wire (Finished (m_client_finished P x))) 0 s1 = (Inr (), s2)" "sv_state s2 = SERVER_CONNECTED"
    by auto
  moreover have "server_reachable P s0" unfolding s0_def by (rule server_reachable.create)
  ultimately show ?thesis using s1(1) by (meson server_reachable.receives)
qed

definition toy_session :: session where
  "toy_session = \<lparr>
     se_client = \<lparr>cf_server_name = ''a.b'', cf_alpn = [''h3'', ''hq''], cf_transport_parameters = [1, 2], cf_ca_certificates = [[9]],
       cf_insecure_skip_verify = False, cf_verification_time = None, cf_key_share_groups = None, cf_session_ticket = None,
       cf_cipher_suites = [TLS_AES_128_GCM_SHA256], cf_early_data = False\<rparr>,
     se_server = \<lparr>sc_certificate_chain = [[9]], sc_signing_key = RsaPrivateKey [], sc_alpn = [''hq''],
       sc_transport_parameters = [3], sc_ticket_key = Some (zeros 16)\<rparr>,
     se_client_random = zeros 32, se_client_key = zeros 32, se_server_random = zeros 32, se_server_key = zeros 32,
     se_salt = zeros 32, se_shared = pad_to 32 [], se_suite = TLS_AES_128_GCM_SHA256, se_alpn = ''hq''\<rparr>"

lemma toy_session_ok: "session_ok toy_prims toy_session" "ticket_key_ok (se_server toy_session)"
proof -
  have "client_ok (se_client toy_session)"
    by (simp add: client_ok_def toy_session_def protocol_ok_def protocol_bytes_def fits16_def)
  moreover have "message_ok (Certificate (m_certificate toy_session))"
    by (simp add: m_certificate_def toy_session_def entry_ok_def extensions_ok_def extension_bytes_def entry_bytes_def
        encode_certificate_entry_ok)
  moreover have "zeros 32 \<noteq> HELLO_RETRY_REQUEST_RANDOM"
    by (simp add: HELLO_RETRY_REQUEST_RANDOM_def zeros_def numeral_eq_Suc)
  ultimately show "session_ok toy_prims toy_session"
    using toy_prims_ok
    by (simp add: session_ok_def toy_session_def trusts_def key_matches_def SUPPORTED_CIPHER_SUITES_def zeros_def)
      (simp add: toy_prims_def)
  show "ticket_key_ok (se_server toy_session)"
    by (simp add: ticket_key_ok_def toy_session_def aes_key_ok_def zeros_def)
qed

theorem full_handshake_witness:
  "\<exists>(c :: tls_client) (s :: tls_server). cl_state c = CLIENT_CONNECTED \<and> sv_state s = SERVER_CONNECTED \<and> length (secrets (hs_events c)) = 4
     \<and> secrets (hs_events c) = secrets (hs_events s) \<and> cl_alpn c = sv_alpn s
     \<and> cl_peer_transport_parameters c = [3] \<and> sv_client_transport_parameters s = [1, 2]"
proof -
  have "rng_ok (\<lambda>_. zeros)" "zeros 32 = se_salt toy_session" by (simp_all add: rng_ok_def toy_session_def zeros_def)
  moreover have "(0 :: rat) \<le> 5" "(5 :: rat) < 2 ^ 64" by simp_all
  moreover have tp: "sc_transport_parameters (se_server toy_session) = [3]" "cf_transport_parameters (se_client toy_session) = [1, 2]"
    by (simp_all add: toy_session_def)
  ultimately show ?thesis
    using full_handshake [OF toy_session_ok(1) _ _ toy_session_ok(2), of "\<lambda>_. zeros" 5 0 None "\<lambda>_. zeros" 1 None 2 3]
    unfolding tp by (elim meta_impE exE conjE) (assumption | intro exI conjI)+
qed

theorem client_authenticates_server_witness:
  "\<exists>s. cl_state s = CLIENT_CONNECTED \<and> \<not> cl_resumed s \<and> (\<exists>tr. finished_verified toy_prims s tr \<and> authenticated toy_prims s tr)"
proof -
  obtain c where c: "client_reachable toy_prims (Inr ()) c" "client_done toy_prims toy_session c"
    using connected_client [OF toy_session_ok(1)] by blast
  then have "cl_state c = CLIENT_CONNECTED" "\<not> cl_resumed c" by (simp_all add: client_done_def)
  with client_authenticates_server [OF toy_prims_ok c(1)] show ?thesis by blast
qed

theorem server_verifies_client_finished_witness:
  "\<exists>s. sv_state s = SERVER_CONNECTED \<and> client_finished_verified toy_prims s"
  using connected_server [OF toy_session_ok(1) _ toy_session_ok(2)] server_verifies_client_finished
  by (auto simp: toy_session_def)

definition toy_client :: tls_client where
  "toy_client = (mk_tls_client toy_prims (se_client toy_session) (Some (zeros 32)) (Some (zeros 32)) None (\<lambda>_. zeros))
     \<lparr>cl_state := CLIENT_CONNECTED, cl_alpn := ''h3''\<rparr>"

lemma toy_client_fields:
  "cl_state toy_client = CLIENT_CONNECTED" "hs_schedule toy_client = mk_key_schedule toy_prims None" "cl_alpn toy_client = ''h3''"
  "hs_cipher_suite toy_client = TLS_AES_128_GCM_SHA256" "hs_buffers toy_client = (\<lambda>_. [])" "cl_session_tickets toy_client = []"
  by (simp_all add: toy_client_def mk_tls_client_def SUPPORTED_GROUPS_def toy_session_def)

theorem ticket_agreement_witness:
  "\<exists>raw d ticket state. client_receive toy_prims OneRtt raw 106 toy_client = (Inr (), d) \<and> cl_session_tickets d = [ticket]
     \<and> open_ticket toy_prims (zeros 16) (st_identity ticket) 200 7200 = Inr state \<and> ts_psk state = st_psk ticket"
proof -
  define s where "s = toy_server\<lparr>sv_client_supports_resumption := True, sv_alpn := ''h3''\<rparr>"
  have s: "issues (zeros 16) s" "hs_schedule s = mk_key_schedule toy_prims None" "sv_alpn s = ''h3''"
    "hs_cipher_suite s = TLS_AES_128_GCM_SHA256" "hs_now s = 105"
    by (simp_all add: issues_def s_def toy_server_def mk_tls_server_def aes_key_ok_def zeros_def rng_ok_def protocol_ok_def fits16_def)
  have "\<exists>raw t d ticket state. issue_session_ticket toy_prims s = (Inr (), t) \<and> hs_events t = hs_events s @ [SendData OneRtt raw]
    \<and> client_receive toy_prims OneRtt raw 106 toy_client = (Inr (), d) \<and> cl_session_tickets d = cl_session_tickets toy_client @ [ticket]
    \<and> (\<forall>later. later - of_int (ts_issued_at state) \<le> 7200 \<longrightarrow> open_ticket toy_prims (zeros 16) (st_identity ticket) later 7200 = Inr state)
    \<and> ts_issued_at state = \<lfloor>hs_now s\<rfloor> \<and> st_received_at ticket = 106 \<and> ts_psk state = st_psk ticket
    \<and> ts_age_add state = st_age_add ticket \<and> ts_alpn state = st_alpn ticket \<and> ts_cipher_suite state = st_cipher_suite ticket"
    by (rule ticket_agreement [OF toy_prims_ok s(1)]) (simp_all add: toy_client_fields s)
  then show ?thesis by (elim exE conjE, intro exI conjI) (assumption | simp add: toy_client_fields s)+
qed

end
