(* ===== verification/Tls_Progress.thy ===== *)
theory Tls_Progress
  imports Tls_Session
begin

text \<open>
  Receiving ends. The loop over the buffered messages and the loops of the parsers are total functions
  that answer \<open>Diverges\<close> where the Python loop would run for ever; no input makes them do so.
\<close>

section \<open>Results other than Diverges\<close>

named_theorems returns_intros \<open>computations that end\<close>

definition returns :: "'a result \<Rightarrow> bool" where
  "returns r \<longleftrightarrow> r \<noteq> Inl Diverges"

definition ends :: "('s, 'a) se \<Rightarrow> bool" where
  "ends m \<longleftrightarrow> (\<forall>s. returns (fst (m s)))"

lemma returns_outcome: "outcome E P r \<Longrightarrow> Diverges \<notin> E \<Longrightarrow> returns r"
  by (auto simp: outcome_def returns_def split: sum.splits)

lemma returns_reader: "reader E P p \<Longrightarrow> Diverges \<notin> E \<Longrightarrow> returns (fst (p (mk_buffer data)))"
  by (rule returns_outcome [OF reader_outcome [OF _ buf_wf_mk]])

lemma returns_basic [returns_intros]: "returns (Inr x)" "e \<noteq> Diverges \<Longrightarrow> returns (Inl e)"
  by (simp_all add: returns_def)

lemma returns_bindE [returns_intros]: "returns m \<Longrightarrow> (\<And>x. returns (f x)) \<Longrightarrow> returns (bindE m f)"
  by (cases m) (simp_all add: returns_def)

lemma returns_if [returns_intros]: "returns m \<Longrightarrow> returns n \<Longrightarrow> returns (if c then m else n)"
  by simp

lemma returns_case [returns_intros]:
  "returns m \<Longrightarrow> (\<And>y. returns (f y)) \<Longrightarrow> returns (case x of None \<Rightarrow> m | Some y \<Rightarrow> f y)"
  "(\<And>a b. returns (g a b)) \<Longrightarrow> returns (case p of (a, b) \<Rightarrow> g a b)"
  by (simp_all split: option.split prod.split)

lemma returns_catE: "list_all returns rs \<Longrightarrow> returns (catE rs)"
  by (induction rs) (auto intro!: returns_intros)

lemma returns_mapE: "(\<And>x. x \<in> set xs \<Longrightarrow> returns (f x)) \<Longrightarrow> returns (mapE f xs)"
  by (induction xs) (auto intro!: returns_intros)

lemma returns_scalars [returns_intros]:
  "returns (to_bytes n v)" "returns (byte1 v)" "returns (encode_ascii str)" "returns (decode_ascii bs)"
  by (simp_all add: to_bytes_def byte1_def encode_ascii_def decode_ascii_def returns_def)

lemma returns_vec [returns_intros]: "returns (vec n d)"
  by (simp add: vec_def returns_catE returns_intros)

lemma returns_encoders [returns_intros]:
  "returns (encode_handshake_message ty body)" "returns (encode_extensions exts)" "returns (encode_client_hello ch)"
  "returns (encode_server_hello sh)" "returns (encode_new_session_ticket nst)" "returns (encode_encrypted_extensions exts)"
  "returns (encode_certificate cert)" "returns (encode_certificate_verify cv)" "returns (encode_finished vd)"
  "returns (encode_offered_psks ids binders)" "returns (key_share_entry grp public)" "returns (alpn_extension ps)"
  by (auto simp: encode_message_defs encode_handshake_message_def encode_extensions_def encode_extension_def
      encode_certificate_entry_def encode_finished_def encode_offered_psks_def encode_psk_identity_def key_share_entry_def
      alpn_extension_def list_all_iff intro!: returns_intros returns_catE)

lemma returns_hkdf [returns_intros]: "returns (hkdf_expand_label P secret label ctx l)"
  by (auto simp: hkdf_expand_label_def hkdf_label_def Let_def intro!: returns_intros returns_catE)

lemma returns_schedule [returns_intros]:
  "returns (derive P label ks)" "returns (add_ecdhe P shared ks)" "returns (advance_to_master P ks)" "returns (binder_key P ks)"
  "returns (finished_verify_data P base hash)" "returns (resumption_psk P master n)"
  "returns (replace_transcript_with_message_hash P ks)"
  by (auto simp: derive_def add_ecdhe_def advance_to_master_def binder_key_def finished_verify_data_def resumption_psk_def
      replace_transcript_with_message_hash_def Let_def intro!: returns_intros returns_catE)

lemma returns_secrets [returns_intros]:
  "returns (client_handshake_traffic_secret P ks)" "returns (server_handshake_traffic_secret P ks)"
  "returns (client_application_traffic_secret P ks)" "returns (server_application_traffic_secret P ks)"
  "returns (client_early_traffic_secret P ks)" "returns (resumption_master_secret P ks)"
  by (simp_all add: traffic_secret_defs returns_schedule)


section \<open>The parsers\<close>

lemma pull_vec_advances:
  assumes "buf_wf b"
  shows "pull_vec8 b = (Inr v, b') \<Longrightarrow> buf_position b < buf_position b'"
    and "pull_vec16 b = (Inr v, b') \<Longrightarrow> buf_position b < buf_position b'"
proof -
  have r: "reader {BufferReadError} (\<lambda>v. 0 \<le> v) pull_uint8" "reader {BufferReadError} (\<lambda>v. 0 \<le> v) pull_uint16"
    by (auto intro: reader_weaken [OF reader_pull_uint8] reader_weaken [OF reader_pull_uint16])
  show "buf_position b < buf_position b'" if "pull_vec8 b = (Inr v, b')"
    using that unfolding pull_vec8_def by (rule bindS_advances [OF _ assms r(1) reader_pull_bytes pull_uint8_advances [OF assms]])
  show "buf_position b < buf_position b'" if "pull_vec16 b = (Inr v, b')"
    using that unfolding pull_vec16_def by (rule bindS_advances [OF _ assms r(2) reader_pull_bytes pull_uint16_advances])
qed

lemma reader_psk_rest:
  "reader {BufferReadError} (\<lambda>_. True) (bindS pull_uint32 (\<lambda>age. retS \<lparr>pi_identity = i, pi_obfuscated_ticket_age = age\<rparr>))"
  by (rule reader_then [OF reader_pull_uint32]) (simp add: reader_retS)

interpretation psk_items: item_reader pull_psk_identity "{BufferReadError}" "\<lambda>_. True"
proof
  show "reader {BufferReadError} (\<lambda>_. True) pull_psk_identity"
    unfolding pull_psk_identity_def by (rule reader_then [OF reader_vecs(2) [OF singletonI] reader_psk_rest])
  fix b x b'
  assume wf: "buf_wf b" and eq: "pull_psk_identity b = (Inr x, b')"
  from eq show "buf_position b < buf_position b'"
    unfolding pull_psk_identity_def
    by (rule bindS_advances [OF _ wf reader_vecs(2) [OF singletonI] reader_psk_rest pull_vec_advances(2) [OF wf]])
qed

interpretation binder_items: item_reader pull_vec8 "{BufferReadError}" "\<lambda>_. True"
  by unfold_locales (simp_all add: reader_vecs pull_vec_advances)

lemma reader_decode_ascii: "reader {BufferReadError, UnicodeDecodeError} (\<lambda>_. True) (liftS (decode_ascii bs))"
  by (rule reader_liftS_outcome) (simp add: decode_ascii_def)

interpretation protocol_items: item_reader pull_protocol "{BufferReadError, UnicodeDecodeError}" "\<lambda>_. True"
proof
  show "reader {BufferReadError, UnicodeDecodeError} (\<lambda>_. True) pull_protocol"
    unfolding pull_protocol_def by (rule reader_then [OF reader_vecs(1) reader_decode_ascii]) simp
  fix b x b'
  assume wf: "buf_wf b" and eq: "pull_protocol b = (Inr x, b')"
  from eq show "buf_position b < buf_position b'"
    unfolding pull_protocol_def
    by (rule bindS_advances [OF _ wf reader_vecs(1) [OF singletonI] reader_decode_ascii pull_vec_advances(1) [OF wf]])
qed

lemma returns_pull_all [returns_intros]:
  "returns (fst (pull_all pull_psk_identity (mk_buffer d)))" "returns (fst (pull_all pull_vec8 (mk_buffer d)))"
  "returns (fst (pull_all pull_protocol (mk_buffer d)))" "returns (fst (pull_all pull_uint16 (mk_buffer d)))"
  using psk_items.pull_all_outcome [OF buf_wf_mk, of d] binder_items.pull_all_outcome [OF buf_wf_mk, of d]
    protocol_items.pull_all_outcome [OF buf_wf_mk, of d] suite_items.pull_all_outcome [OF buf_wf_mk, of d]
  by (simp_all add: returns_outcome)

lemma returns_inner_block [returns_intros]: "returns (inner_block data)"
proof -
  have "0 \<le> from_be (take 2 data) + 2" using from_be_bounds [of "take 2 data"] by simp
  from returns_reader [OF reader_pull_bytes [OF this]] show ?thesis
    by (auto simp: inner_block_def intro!: returns_intros)
qed

lemma pull_key_share_reader:
  "reader {BufferReadError} (\<lambda>_. True) pull_key_share"
  "buf_wf b \<Longrightarrow> pull_key_share b = (Inr x, b') \<Longrightarrow> buf_position b < buf_position b'"
proof -
  have r: "reader {BufferReadError} (\<lambda>_. True) (bindS pull_vec16 (\<lambda>public_key. retS (grp, public_key)))" for grp
    by (rule reader_then [OF reader_vecs(2)]) (simp_all add: reader_retS)
  show "reader {BufferReadError} (\<lambda>_. True) pull_key_share"
    unfolding pull_key_share_def by (rule reader_then [OF reader_pull_uint16 r])
  show "buf_wf b \<Longrightarrow> pull_key_share b = (Inr x, b') \<Longrightarrow> buf_position b < buf_position b'"
    unfolding pull_key_share_def by (rule bindS_advances [OF _ _ reader_pull_uint16 r pull_uint16_advances])
qed

lemma returns_find_key_share: "buf_wf b \<Longrightarrow> returns (find_key_share b)"
proof (induction b rule: find_key_share.induct)
  case (1 b)
  show ?case
  proof (cases "is_empty b")
    case False
    obtain r b' where p: "pull_key_share b = (r, b')" by (cases "pull_key_share b")
    show ?thesis
    proof (cases r)
      case (Inl e)
      then have "e = BufferReadError" using readerD_Inl [OF pull_key_share_reader(1) "1.prems"] p by blast
      with False Inl p show ?thesis by (simp add: find_key_share.simps [of b] returns_def)
    next
      case (Inr x)
      obtain g k where x: "x = (g, k)" by (cases x)
      from readerD_Inr [OF pull_key_share_reader(1) "1.prems"] p Inr x have
        wf: "buf_wf b'" and same: "buf_data b' = buf_data b" by blast+
      have "buf_position b < buf_position b'" using pull_key_share_reader(2) "1.prems" p Inr by blast
      then have "remaining b' < remaining b" "0 \<le> remaining b'"
        using wf by (simp_all add: remaining_def same buf_wf_def)
      with "1.IH" [OF False p [unfolded Inr x, symmetric] refl refl] wf False p Inr x show ?thesis
        by (simp add: find_key_share.simps [of b] returns_basic)
    qed
  qed (simp add: find_key_share.simps [of b] returns_basic)
qed


lemma returns_parsers [returns_intros]:
  "returns (client_key_share entries)" "returns (parse_supported_groups data)" "returns (parse_alpn data)"
  "returns (parse_key_share_entry data)" "returns (parse_offered_psks data)" "returns (binder_transcript raw n)"
  "returns (decode_transport_parameters data)"
proof -
  show "returns (client_key_share entries)" "returns (parse_supported_groups data)" "returns (parse_alpn data)"
    unfolding client_key_share_def parse_supported_groups_def parse_alpn_def
    by (rule returns_intros returns_find_key_share buf_wf_mk)+
  have "reader {BufferReadError, TlsAlert ILLEGAL_PARAMETER} (\<lambda>_. True) (bindS pull_uint16 (\<lambda>grp.
      if grp \<notin> set SUPPORTED_GROUPS then raiseS (TlsAlert ILLEGAL_PARAMETER)
      else bindS pull_vec16 (\<lambda>public_key. retS (grp, public_key))))"
    by (rule reader_then reader_pulls reader_guard reader_vecs reader_retS | simp)+
  then show "returns (parse_key_share_entry data)"
    unfolding parse_key_share_entry_def by (rule returns_reader) simp
  have l: "reader {BufferReadError, TlsAlert ILLEGAL_PARAMETER} (\<lambda>_. True) (liftS (fst (pull_all pull_psk_identity (mk_buffer d))))"
    "reader {BufferReadError, TlsAlert ILLEGAL_PARAMETER} (\<lambda>_. True) (liftS (fst (pull_all pull_vec8 (mk_buffer d))))" for d
    by (rule reader_liftS_outcome, rule outcome_mono [OF psk_items.pull_all_outcome [OF buf_wf_mk]], simp, simp)
      (rule reader_liftS_outcome, rule outcome_mono [OF binder_items.pull_all_outcome [OF buf_wf_mk]], simp, simp)
  have "reader {BufferReadError, TlsAlert ILLEGAL_PARAMETER} (\<lambda>_. True) pull_offered_psks"
    unfolding pull_offered_psks_def
    by (rule reader_then reader_vecs l reader_guard reader_retS | simp)+
  then show "returns (parse_offered_psks data)"
    unfolding parse_offered_psks_def by (rule returns_reader) simp
  show "returns (binder_transcript raw n)" by (simp add: binder_transcript_def Let_def returns_def)
  show "returns (decode_transport_parameters data)" by (rule returns_outcome [OF decode_transport_parameters_total]) simp
qed

text \<open>What is asked of the cryptography package: that its functions return or raise.\<close>

definition prims_return :: "prims \<Rightarrow> bool" where
  "prims_return P \<longleftrightarrow> (\<forall>k n d a. returns (prim_aesgcm_encrypt P k n d a) \<and> returns (prim_aesgcm_decrypt P k n d a))
     \<and> (\<forall>k n d a. returns (prim_chacha_encrypt P k n d a) \<and> returns (prim_chacha_decrypt P k n d a))
     \<and> (\<forall>k d. returns (prim_aes_ecb P k d)) \<and> (\<forall>k n d. returns (prim_chacha20 P k n d))
     \<and> (\<forall>a b. returns (prim_x25519_exchange P a b)) \<and> (\<forall>c. returns (prim_certificate_key P c))
     \<and> (\<forall>k sg c. returns (prim_rsa_verify P k sg c) \<and> returns (prim_ec_verify P k sg c))
     \<and> (\<forall>cas t name leaf rest. returns (prim_verify_chain P cas t name leaf rest))"

lemma prims_returnD:
  assumes "prims_return P"
  shows "returns (prim_aesgcm_encrypt P k n d a)" "returns (prim_aesgcm_decrypt P k n d a)"
    "returns (prim_x25519_exchange P ka kb)" "returns (prim_certificate_key P c)"
    "returns (prim_rsa_verify P k sg c)" "returns (prim_ec_verify P k sg c)" "returns (prim_verify_chain P cas t name leaf rest)"
    "returns (prim_chacha_encrypt P k n d a)" "returns (prim_chacha_decrypt P k n d a)"
    "returns (prim_aes_ecb P k d)" "returns (prim_chacha20 P k n d)"
  using assms by (simp_all add: prims_return_def)

lemma returns_translate:
  "returns r \<Longrightarrow> b \<noteq> Diverges \<Longrightarrow> (\<And>x. returns (f x)) \<Longrightarrow>
   returns (case r of Inl e \<Rightarrow> Inl (if e = a then b else e) | Inr x \<Rightarrow> f x)"
  by (cases r) (auto simp: returns_def)

lemma returns_certificates:
  assumes "prims_return P"
  shows "returns (verify_certificate_verify P leaf m hash)" "returns (verify_certificate_policy P config cert)"
proof -
  have "returns (check_signature P key m content)" for key content
    using prims_returnD(5,6) [OF assms] by (simp add: check_signature_def returns_basic split: public_key.split)
  then show "returns (verify_certificate_verify P leaf m hash)" "returns (verify_certificate_policy P config cert)"
    unfolding verify_certificate_verify_def verify_certificate_policy_def
    by (intro returns_bindE prims_returnD(4,7) [OF assms] returns_translate; simp add: returns_basic)+
qed

lemma returns_tickets:
  assumes "prims_return P"
  shows "returns (open_ticket P key ticket now lifetime)" "returns (seal_ticket P n key state)"
proof -
  have "reader {BufferReadError, UnicodeDecodeError, TicketError} (\<lambda>_. True) (pull_ticket now lifetime)"
    unfolding pull_ticket_def Let_def
    by (rule reader_then reader_pulls reader_guard reader_vecs reader_retS
        reader_weaken [OF reader_decode_ascii] | simp)+
  note t = returns_reader [OF this]
  show "returns (open_ticket P key ticket now lifetime)"
    unfolding open_ticket_def Let_def by (rule returns_translate prims_returnD(2) [OF assms] t | simp)+
  show "returns (seal_ticket P n key state)"
    unfolding seal_ticket_def by (auto intro!: returns_intros returns_catE prims_returnD(1) [OF assms])
qed



section \<open>The handlers\<close>

lemma ends_basic:
  "ends (retS x)" "e \<noteq> Diverges \<Longrightarrow> ends (raiseS e)" "returns r \<Longrightarrow> ends (liftS r)" "ends (getS g)" "ends (modS h)"
  by (simp_all add: ends_def returns_basic)

lemma ends_bindS: "ends m \<Longrightarrow> (\<And>x. ends (k x)) \<Longrightarrow> ends (bindS m k)"
  unfolding ends_def returns_def bindS_def by (clarsimp split: prod.split sum.split) (metis fst_conv)

lemma ends_control:
  "ends m \<Longrightarrow> ends n \<Longrightarrow> ends (if c then m else n)"
  "ends m \<Longrightarrow> (\<And>y. ends (f y)) \<Longrightarrow> ends (case opt of None \<Rightarrow> m | Some y \<Rightarrow> f y)"
  "ends m \<Longrightarrow> (\<And>y ys. ends (g y ys)) \<Longrightarrow> ends (case xs of [] \<Rightarrow> m | y # ys \<Rightarrow> g y ys)"
  "(\<And>a b. ends (h a b)) \<Longrightarrow> ends (case p of (a, b) \<Rightarrow> h a b)"
  by (simp_all split: option.split list.split prod.split)

lemma ends_whenS: "ends m \<Longrightarrow> ends (whenS c m)"
  by (simp add: whenS_def ends_basic)

lemma ends_doS: "ends (doS [])" "ends m \<Longrightarrow> ends (doS ms) \<Longrightarrow> ends (doS (m # ms))"
  by (simp_all add: ends_bindS ends_basic)

lemma ends_steps:
  "ends (refuse c a)" "ends (keylog_line l x)" "ends (emit e)" "ends (feed raw)" "ends (urandom n)"
  "(\<And>ks. returns (f ks)) \<Longrightarrow> ends (ask_schedule f)" "(\<And>ks. returns (h ks)) \<Longrightarrow> ends (step_schedule h)"
  "ends (require ex level m)"
  by (simp_all add: refuse_def keylog_line_def emit_def feed_def ask_schedule_def step_schedule_def require_def
      ends_basic ends_whenS ends_bindS, simp add: ends_def urandom_def returns_basic)

lemmas ends_rules = ends_basic ends_steps ends_whenS ends_control ends_doS ends_bindS

lemma ends_emit_secrets: "ends (emit_handshake_secrets P shared)" "ends (emit_application_secrets P)"
  unfolding emit_handshake_secrets_def emit_application_secrets_def
  by (rule ends_rules returns_schedule returns_secrets)+

lemma returns_extension_list: "list_all (\<lambda>(ty, d). returns d) items \<Longrightarrow> returns (extension_list items)"
  unfolding extension_list_def by (rule returns_mapE) (auto simp: list_all_iff intro!: returns_intros)

lemma returns_client_extensions: "returns (client_extensions P config keys early now)"
proof -
  have "returns (psk_offer now ticket)" for ticket by (simp add: psk_offer_def Let_def returns_encoders)
  then show ?thesis
    unfolding client_extensions_def
    by (intro returns_bindE returns_catE returns_extension_list)
      (auto simp: list_all_iff intro!: returns_intros returns_catE split: option.split)
qed

lemma ends_encode_hello: "ends (encode_hello P)"
  unfolding encode_hello_def build_client_hello_def fill_psk_binder_def feed_fallback_def Let_def
  by (rule ends_rules returns_client_extensions returns_intros | simp)+

lemma ends_client_handlers:
  assumes "prims_return P"
  shows "ends (client_on_server_hello P sh raw)" "ends (client_on_encrypted_extensions exts raw)"
    "ends (client_on_certificate P m raw)" "ends (client_on_certificate_verify P cv raw)"
    "ends (client_on_finished P vd raw)" "ends (store_session_ticket P nst)"
  unfolding client_on_server_hello_def on_hello_retry_request_def settle_psk_def Let_def
    client_on_encrypted_extensions_def settle_early_data_def client_on_certificate_def
    client_on_certificate_verify_def client_on_finished_def store_session_ticket_def
  by (rule ends_rules ends_encode_hello ends_emit_secrets returns_intros returns_certificates [OF assms] prims_returnD(3) [OF assms]
      | simp)+


lemma returns_try_identities:
  assumes "prims_return P"
  shows "returns (try_identities P key raw now index binders ids)"
proof (induction ids arbitrary: index)
  case (Cons i ids)
  show ?case
  proof (cases "open_ticket P key (pi_identity i) now (of_int SESSION_TICKET_LIFETIME)")
    case (Inl e)
    with returns_tickets(1) [OF assms, of key "pi_identity i" now "of_int SESSION_TICKET_LIFETIME"] Cons show ?thesis
      by (simp add: returns_def)
  next
    case (Inr state)
    then show ?thesis by simp (rule returns_intros | simp)+
  qed
qed (simp add: returns_basic)

lemma returns_server_choices:
  assumes "prims_return P"
  shows "returns (negotiate_alpn config ch)" "returns (select_psk P s ch raw)" "returns (accepts_early_data s ch alpn selected)"
  unfolding negotiate_alpn_def select_psk_def accepts_early_data_def ticket_is_fresh_def Let_def
  by (rule returns_intros returns_try_identities [OF assms] | simp)+

lemma ends_server_handlers:
  assumes "prims_return P"
  shows "ends (server_on_client_hello P ch raw)" "ends (server_on_finished P vd raw)"
  unfolding server_on_client_hello_def send_hello_retry_request_def resolve_psk_offer_def server_flight_def
    certificate_messages_def server_on_finished_def issue_session_ticket_def Let_def
  by (rule ends_rules ends_emit_secrets returns_extension_list returns_server_choices [OF assms] returns_tickets(2) [OF assms]
      prims_returnD(3) [OF assms] returns_intros | simp add: returns_scalars returns_basic returns_encoders split: option.split)+

text \<open>Whatever bytes arrive at whatever level in whatever state, receiving handshake data ends: the loop over
  the buffered messages and every parsing loop of the two machines stop, provided that the functions of
  the cryptography package return or raise.\<close>

lemma ends_handshake_receive:
  assumes P: "prims_return P"
  shows "ends (client_receive P level data now)" "ends (server_receive P level data now)"
proof -
  have "ends (client_handle P level m raw)" "ends (server_handle P level m raw)" for m raw
    unfolding client_handle_def client_dispatch_def server_handle_def
    by (cases m; (rule ends_rules ends_client_handlers [OF P] ends_server_handlers [OF P] | simp)+)+
  then show "ends (client_receive P level data now)" "ends (server_receive P level data now)"
    unfolding client_receive_def server_receive_def
    using client_machine.receive_ends [of P level data now] server_machine.receive_ends [of P level data now]
    by (simp_all add: ends_def returns_def)
qed

lemma ends_start: "ends (start P now)"
  unfolding start_def by (rule ends_rules ends_encode_hello returns_intros | simp)+

lemma toy_prims_return: "prims_return toy_prims"
  by (auto simp: prims_return_def toy_prims_def toy_encrypt_def toy_decrypt_def returns_def Let_def)

end
