(* ===== verification/Connection_Progress.thy ===== *)
theory Connection_Progress
  imports Connection_Properties Tls_Progress
begin

text \<open>
  Every call ends. The only loop of a connection without an evident bound is that of
  \<open>datagrams_to_send\<close>: a datagram is built from queued work, and building it uses some of it up.
\<close>

section \<open>Building a datagram uses up work\<close>

lemma send_work_space:
  "send_work (c\<lparr>cn_spaces := (cn_spaces c)(level := sp)\<rparr>) + space_work (cn_spaces c level)
     = send_work c + space_work sp"
  by (cases level) (simp_all add: send_work_def all_levels_def)

lemma choose_ack_work:
  assumes "choose_ack level room c = (Inr (fs, n), c')"
  shows "send_work c' + length fs \<le> send_work c"
proof -
  have pending: "cs_ack_eliciting_pending (cn_spaces c level)" if "build_ack (cn_spaces c level) = Some a" for a
    using that by (auto simp: build_ack_def split: if_splits)
  show ?thesis
    using assms pending send_work_space [of c level "(cn_spaces c level)\<lparr>cs_ack_eliciting_pending := False\<rparr>"]
    by (auto simp: choose_ack_def space_of_def upd_space_def bindS_Inr_iff space_work_def
        split: option.splits if_splits)
qed

lemma bind_space_lift:
  assumes "bindS (upd_space level f) (\<lambda>_. bindS (liftS r) (\<lambda>x. retS (g x))) c = (Inr y, c')"
  shows "c' = c\<lparr>cn_spaces := (cn_spaces c)(level := f (cn_spaces c level))\<rparr> \<and> (\<exists>x. y = g x)"
  using assms by (cases r) (auto simp: upd_space_def bindS_def)

lemma choose_crypto_work:
  assumes "choose_crypto level available c = (Inr (fs, n), c')"
  shows "send_work c' + length fs \<le> send_work c"
proof (cases "cs_crypto_retransmit (cn_spaces c level) \<noteq> [] \<and> available \<noteq> 0")
  case True
  obtain lost rest where q: "cs_crypto_retransmit (cn_spaces c level) = lost # rest"
    using True by (cases "cs_crypto_retransmit (cn_spaces c level)") auto
  define left where "left = (if length (take available (crypto_data lost)) < length (crypto_data lost)
      then [\<lparr>crypto_offset = crypto_offset lost + len (take available (crypto_data lost)),
             crypto_data = drop (length (take available (crypto_data lost))) (crypto_data lost)\<rparr>]
      else [])"
  note bind_space_lift [OF assms [unfolded choose_crypto_def space_of_def bindS_getS if_P [OF True] Let_def]]
  then have "c' = c\<lparr>cn_spaces := (cn_spaces c)(level := (cn_spaces c level)\<lparr>cs_crypto_retransmit := left @ rest\<rparr>)\<rparr>"
    "length fs = 1" by (auto simp: q left_def)
  moreover have "sum_list (map (\<lambda>f. Suc (length (crypto_data f))) left) \<le> length (crypto_data lost)"
    using True by (simp add: left_def) linarith
  ultimately show ?thesis
    using send_work_space [of c level "(cn_spaces c level)\<lparr>cs_crypto_retransmit := left @ rest\<rparr>"] q
    by (simp add: space_work_def)
next
  case False
  define sp where "sp = cn_spaces c level"
  define chunk where "chunk = take available (cs_crypto_pending sp)"
  show ?thesis
  proof (cases "chunk = []")
    case True
    from assms [unfolded choose_crypto_def space_of_def bindS_getS if_not_P [OF False] Let_def
        if_P [OF True [unfolded chunk_def sp_def]]]
    show ?thesis by simp
  next
    case ne: False
    define sp' where "sp' = sp\<lparr>cs_crypto_pending := drop available (cs_crypto_pending sp),
        cs_crypto_offset_sent := cs_crypto_offset_sent sp + len chunk\<rparr>"
    note bind_space_lift [OF assms [unfolded choose_crypto_def space_of_def bindS_getS if_not_P [OF False] Let_def
        if_not_P [OF ne [unfolded chunk_def sp_def]]]]
    then have "c' = c\<lparr>cn_spaces := (cn_spaces c)(level := sp')\<rparr>" "length fs = 1"
      by (auto simp: sp'_def sp_def chunk_def)
    moreover have "length (drop available (cs_crypto_pending sp)) < length (cs_crypto_pending sp)"
      using ne by (auto simp: chunk_def)
    ultimately show ?thesis
      using send_work_space [of c level sp'] by (simp add: space_work_def sp'_def sp_def [symmetric])
  qed
qed

lemma take_control_work:
  assumes "take_control controls room (chosen, used) c = (Inr (fs, n), c')" "cn_control_frames c = controls"
  shows "send_work c' + length fs \<le> send_work c + length chosen"
  using assms
proof (induction controls arbitrary: chosen used c)
  case (Cons f controls)
  show ?case
  proof (cases "c' = c \<and> fs = chosen")
    case False
    with Cons.prems(1) obtain chosen' used' where
      "take_control controls room (chosen', used') (c\<lparr>cn_control_frames := controls\<rparr>) = (Inr (fs, n), c')"
      "chosen' = chosen @ [f]"
      by (auto simp: bindS_Inr_iff split: if_splits)
    from Cons.IH [OF this(1)] this(2) Cons.prems(2) show ?thesis by (simp add: send_work_def)
  qed simp
qed simp

definition streams_work :: "stream_manager \<Rightarrow> nat" where
  "streams_work m = sum_list (map (\<lambda>(sid, half). stream_work half) (sm_streams m))"

lemma send_work_streams:
  "cn_streams c = Some m \<Longrightarrow> send_work (c\<lparr>cn_streams := Some m'\<rparr>) + streams_work m = send_work c + streams_work m'"
  by (simp add: send_work_def streams_work_def)

lemma sum_map_entry:
  "map_of xs key = Some h \<Longrightarrow>
     sum_list (map (\<lambda>(i, h). g h) (AList.map_entry key f xs)) + g h
       = sum_list (map (\<lambda>(i, h). g h) xs) + (g (f h) :: nat)"
  by (induction xs) auto

definition sender_work :: "send_stream \<Rightarrow> nat" where
  "sender_work s = length (ss_retransmit s) + length (ss_pending s) + of_bool (ss_fin_queued s \<and> \<not> ss_fin_sent s)"

lemma ss_next_frame_work:
  assumes "ss_next_frame n credit s = (f, s')"
  shows "sender_work s' + (if f = None then 0 else 1) \<le> sender_work s"
proof (cases "ss_retransmit s \<noteq> [] \<and> len (stream_data (hd (ss_retransmit s))) \<le> n")
  case True
  then have "f \<noteq> None" "s' = s\<lparr>ss_retransmit := tl (ss_retransmit s)\<rparr>"
    using assms by (auto simp: ss_next_frame_def)
  with True show ?thesis by (cases "ss_retransmit s") (auto simp: sender_work_def)
next
  case False
  define b where "b = ss_budget n credit s"
  have "ss_new_frame b s = (f, s')"
    using assms unfolding ss_next_frame_def if_not_P [OF False] b_def .
  then show ?thesis
    by (cases "ss_pending s") (auto simp: ss_new_frame_def Let_def sender_work_def split: if_splits)
qed

lemma sm_next_frame_work:
  assumes "sm_next_frame sid n m = (Inr f, m')"
  shows "streams_work m' + (if f = None then 0 else 1) \<le> streams_work m"
proof -
  obtain s where s: "sm_send_stream sid m = Inr s"
    using assms by (auto simp: sm_next_frame_def split: sum.splits)
  then obtain h where h: "map_of (sm_streams m) sid = Some h" "half_send h = Some s"
    by (auto simp: sm_send_stream_def split: option.splits)
  obtain f' s' where nf: "ss_next_frame n (sm_max_data m - sm_data_sent m) s = (f', s')" by force
  have "f' = f" "sm_streams m' = AList.map_entry sid (\<lambda>h. h\<lparr>half_send := Some s'\<rparr>) (sm_streams m)"
    using assms s nf by (auto simp: sm_next_frame_def Let_def sm_put_send_def split: if_splits)
  then show ?thesis
    using sum_map_entry [OF h(1), of stream_work "\<lambda>h. h\<lparr>half_send := Some s'\<rparr>"] ss_next_frame_work [OF nf] h(2)
    by (simp add: streams_work_def stream_work_def sender_work_def)
qed

lemma take_streams_work:
  assumes "take_streams sids room (chosen, used) c = (Inr (fs, n), c')"
  shows "send_work c' + length fs \<le> send_work c + length chosen"
  using assms
proof (induction sids arbitrary: chosen used c)
  case (Cons sid sids)
  show ?case
  proof (cases "c' = c \<and> fs = chosen")
    case False
    define room' where "room' = room - used - 24"
    from False Cons.prems have pos: "\<not> room' \<le> 0" by (auto simp: room'_def Let_def)
    from Cons.prems [unfolded take_streams.simps Let_def, folded room'_def, unfolded if_not_P [OF pos] bindS_Inr_iff]
    obtain f c1 where f: "streams_call (sm_next_frame sid room') c = (Inr f, c1)"
      and rest: "\<exists>used'. take_streams sids room (chosen @ (case f of None \<Rightarrow> [] | Some x \<Rightarrow> [Stream x]), used') c1
        = (Inr (fs, n), c')"
      by (fastforce simp: bindS_Inr_iff split: option.splits)
    obtain m m' where m: "cn_streams c = Some m" "sm_next_frame sid room' m = (Inr f, m')"
      "c1 = c\<lparr>cn_streams := Some m'\<rparr>"
      using f by (auto simp: streams_call_def split: option.splits prod.splits)
    from rest Cons.IH show ?thesis
      using sm_next_frame_work [OF m(2)] send_work_streams [OF m(1), of m'] m(3)
      by (fastforce split: option.splits)
  qed simp
qed simp


lemma application_frames_work:
  assumes "application_frames room c = (Inr (fs, n), c')"
  shows "send_work c' + length fs \<le> send_work c"
proof -
  define start where "start = (if cn_handshake_done_pending c then ([HandshakeDone], 1 :: int) else ([], 0))"
  define c0 where "c0 = c\<lparr>cn_handshake_done_pending := False\<rparr>"
  have c0: "send_work c0 + length (fst start) = send_work c"
    by (simp add: c0_def start_def send_work_def)
  from assms obtain taken c1 where t: "take_control (cn_control_frames c0) room start c0 = (Inr taken, c1)"
    and s: "(case cn_streams c1 of None \<Rightarrow> retS taken | Some m \<Rightarrow> take_streams (sm_writable_streams m) room taken) c1
      = (Inr (fs, n), c')"
    unfolding application_frames_def bindS_getS
    by (auto simp: bindS_Inr_iff c0_def start_def)
  have "send_work c1 + length (fst taken) \<le> send_work c0 + length (fst start)"
    using take_control_work [of "cn_control_frames c0" room "fst start" "snd start" c0 "fst taken" "snd taken" c1] t
    by simp
  moreover have "send_work c' + length fs \<le> send_work c1 + length (fst taken)"
    using s take_streams_work [of _ room "fst taken" "snd taken" c1 fs n c'] by (auto split: option.splits)
  ultimately show ?thesis using c0 by simp
qed

lemma add_probe_work:
  assumes "add_probe level room (chosen, used) c = (Inr (fs, n), c')"
  shows "send_work c' + length fs \<le> send_work c + length chosen"
proof (cases "cn_probes_pending c level = 0")
  case True
  with assms show ?thesis by (simp add: add_probe_def)
next
  case False
  have "send_work (c\<lparr>cn_probes_pending := (cn_probes_pending c)(level := cn_probes_pending c level - 1)\<rparr>) + 1 = send_work c"
    using False by (cases level) (simp_all add: send_work_def all_levels_def)
  with assms False show ?thesis
    by (auto simp: add_probe_def bindS_Inr_iff split: if_splits)
qed

lemma pending_frames_work:
  assumes "pending_frames level room ack_only c = (Inr (fs, n), c')"
  shows "send_work c' + length fs \<le> send_work c"
proof -
  from assms obtain acks used c1 where a: "choose_ack level room c = (Inr (acks, used), c1)"
    and r: "(if ack_only then retS (acks, used)
       else bindS (choose_crypto level (nat (max 0 (room - used - 16)))) (\<lambda>(cryptos, crypto_used).
       let chosen = acks @ cryptos; used = used + crypto_used
       in bindS
         (if level = OneRtt
          then bindS (application_frames (room - used)) (\<lambda>(application, application_used).
                 retS (chosen @ application, used + application_used))
          else retS (chosen, used)) (add_probe level room))) c1 = (Inr (fs, n), c')"
    by (auto simp: pending_frames_def bindS_Inr_iff)
  note w1 = choose_ack_work [OF a]
  show ?thesis
  proof (cases ack_only)
    case True
    with r w1 show ?thesis by simp
  next
    case False
    with r obtain cryptos cu c2 chosen u c3 where
      "choose_crypto level (nat (max 0 (room - used - 16))) c1 = (Inr (cryptos, cu), c2)"
      "(if level = OneRtt
          then bindS (application_frames (room - (used + cu))) (\<lambda>(application, application_used).
                 retS ((acks @ cryptos) @ application, used + cu + application_used))
          else retS (acks @ cryptos, used + cu)) c2 = (Inr (chosen, u), c3)"
      "add_probe level room (chosen, u) c3 = (Inr (fs, n), c')"
      by (auto simp: bindS_Inr_iff Let_def)
    note w2 = choose_crypto_work [OF this(1)] and app = this(2) and w4 = add_probe_work [OF this(3)]
    have "send_work c3 + length chosen \<le> send_work c2 + length acks + length cryptos"
      using app by (auto simp: bindS_Inr_iff split: if_splits dest: application_frames_work)
    with w1 w2 w4 show ?thesis by linarith
  qed
qed


lemma keeps_send_work:
  "keeps (\<lambda>c. send_work c \<le> n) (conn_log now name data)"
  "(\<And>sp. space_work (f sp) \<le> space_work sp) \<Longrightarrow> keeps (\<lambda>c. send_work c \<le> n) (upd_space level f)"
  "(\<And>c. send_work (g c) = send_work c) \<Longrightarrow> keeps (\<lambda>c. send_work c \<le> n) (modS g)"
proof -
  show "keeps (\<lambda>c. send_work c \<le> n) (conn_log now name data)"
    by (simp add: conn_log_def keeps_iff send_work_def)
  show "keeps (\<lambda>c. send_work c \<le> n) (upd_space level f)" if "\<And>sp. space_work (f sp) \<le> space_work sp"
  proof (unfold upd_space_def keeps_iff, intro allI impI)
    fix c assume "send_work c \<le> n"
    with send_work_space [of c level "f (cn_spaces c level)"] that [of "cn_spaces c level"]
    show "send_work (snd (modS (\<lambda>c. c\<lparr>cn_spaces := (cn_spaces c)(level := f (cn_spaces c level))\<rparr>) c)) \<le> n" by simp
  qed
qed (simp add: keeps_iff)

lemma send_frames_work: "keeps (\<lambda>c. send_work c \<le> n) (send_frames P level now padding zero_rtt keys chosen)"
  unfolding send_frames_def space_of_def Let_def
  by ((rule keeps_send_work(1) keeps_intros) | (rule keeps_send_work(2), simp add: space_work_def)
    | (rule keeps_send_work(3), simp add: send_work_def))+

lemma discard_space_work: "keeps (\<lambda>c. send_work c \<le> n) (discard_space level now)"
  unfolding discard_space_def space_of_def
  by ((rule keeps_send_work(1) keeps_intros) | (rule keeps_send_work(2), simp add: space_work_def)
    | (rule keeps_send_work(3), simp add: send_work_def))+

lemma build_packet_work:
  assumes "build_packet P level room now padding ack_only c = (Inr built, c')"
  shows "send_work c' + of_bool (built \<noteq> None) \<le> send_work c"
  using assms unfolding build_packet_def space_of_def
  by (auto simp: bindS_Inr_iff Let_def someS_def split: if_splits option.splits
      dest!: pending_frames_work dest: keepsD [OF send_frames_work order_refl] simp: neq_Nil_conv)

lemma coalesce_work:
  assumes "coalesce P now ack_only budget levels payload c = (Inr p, c')"
  shows "send_work c' + of_bool (p \<noteq> payload) \<le> send_work c"
  using assms
proof (induction levels arbitrary: payload c)
  case Nil
  then show ?case by simp
next
  case (Cons level levels)
  define padding where "padding = (if level = Initial then min MIN_INITIAL_DATAGRAM budget else 0)"
  show ?case
  proof (cases "\<not> (cs_keys_send (cn_spaces c level) \<noteq> None
      \<or> level = OneRtt \<and> cs_keys_send_early (cn_spaces c level) \<noteq> None) \<or> cs_discarded (cn_spaces c level)")
    case True
    with Cons show ?thesis by (simp add: Let_def)
  next
    case False
    from Cons.prems False obtain built c1 where
      b: "build_packet P level (cg_max_datagram_size (cn_config c) - len payload) now padding ack_only c = (Inr built, c1)"
      and r: "(case built of
         None \<Rightarrow> coalesce P now ack_only budget levels payload
       | Some packet \<Rightarrow>
           bindS (whenS (cn_is_client c \<and> level = Handshake) (discard_space Initial now)) (\<lambda>_.
             if padding \<noteq> 0 then retS (payload @ packet)
             else coalesce P now ack_only budget levels (payload @ packet))) c1 = (Inr p, c')"
      by (auto simp only: coalesce.simps bindS_getS id_apply Let_def if_False if_True padding_def bindS_Inr_iff)
    note w = build_packet_work [OF b]
    show ?thesis
    proof (cases built)
      case None
      with w r Cons.IH show ?thesis by fastforce
    next
      case (Some packet)
      with r obtain u c2 where d: "whenS (cn_is_client c \<and> level = Handshake) (discard_space Initial now) c1 = (Inr u, c2)"
        and q: "(if padding \<noteq> 0 then retS (payload @ packet)
             else coalesce P now ack_only budget levels (payload @ packet)) c2 = (Inr p, c')"
        by (auto simp only: option.case bindS_Inr_iff)
      have "send_work c2 \<le> send_work c1"
        using keepsD [OF keeps_whenS [OF discard_space_work] order_refl d] .
      moreover have "send_work c' \<le> send_work c2"
        using q Cons.IH by (fastforce split: if_splits)
      ultimately show ?thesis using w Some by simp
    qed
  qed
qed

lemma build_datagram_work:
  assumes "build_datagram P now ack_only c = (Inr built, c')"
  shows "send_work c' + of_bool (built \<noteq> None) \<le> send_work c"
proof -
  have "send_work (c\<lparr>cn_bytes_sent := n\<rparr>) = send_work c" for c n by (simp add: send_work_def)
  with assms show ?thesis
    unfolding build_datagram_def
    by (auto simp del: coalesce.simps simp: bindS_Inr_iff split: if_splits dest!: coalesce_work)
qed

end
