(* ===== verification/Wire_Progress.thy ===== *)
theory Wire_Progress
  imports Frames Tls_Progress Retry_Tokens
begin

text \<open>
  Reading and writing the wire format ends: no parser, encoder or key derivation that a
  connection calls runs out of the bound its model gives it.
\<close>

section \<open>Encoders\<close>

lemma returns_varint [returns_intros]: "returns (encode_varint v)"
  by (simp add: encode_varint_def returns_intros)

lemma returns_ack_ranges: "list_all returns (encode_ack_ranges low ranges)"
  by (induction low ranges rule: encode_ack_ranges.induct) (simp_all add: returns_intros)

lemma returns_encode_ack [returns_intros]: "returns (encode_ack a)"
  by (auto simp: encode_ack_def returns_ack_ranges intro!: returns_intros returns_catE split: list.split option.split)

lemma returns_encode_stream [returns_intros]: "returns (encode_stream f)"
  unfolding encode_stream_def Let_def by (rule returns_catE) (simp add: returns_intros)

lemma returns_encode [returns_intros]: "returns (encode frame)"
proof (cases frame)
  case (ConnectionClose f)
  then show ?thesis
    by (auto simp: encode_connection_close_def intro!: returns_catE returns_intros split: option.split)
qed (auto simp: encode_padding_def encode_ping_def encode_reset_stream_def encode_stop_sending_def encode_crypto_def
    encode_new_token_def encode_max_data_def encode_max_stream_data_def encode_max_streams_def encode_data_blocked_def
    encode_stream_data_blocked_def encode_streams_blocked_def encode_new_connection_id_def encode_retire_connection_id_def
    encode_path_challenge_def encode_path_response_def encode_handshake_done_def encode_datagram_def
    intro!: returns_intros returns_catE)

lemma returns_packet_number [returns_intros]: "returns (encode_packet_number pn largest)"
  unfolding encode_packet_number_def Let_def by (rule returns_intros)+

lemma returns_long_header [returns_intros]: "returns (build_long_header t payload_length pn pn_length)"
proof -
  have "returns (bindE (to_bytes 8 pn) (\<lambda>bs. Inr (slice_from (- pn_length) bs)))" by (rule returns_intros)+
  then show ?thesis
    unfolding build_long_header_def Let_def by (intro returns_catE) (simp add: returns_intros(1) returns_scalars returns_varint)
qed

lemma returns_encode_transport_parameters [returns_intros]: "returns (encode_transport_parameters p)"
proof -
  have put: "returns (put kv)" "returns (put_int k v)" for kv k v
    by (cases kv) (auto simp: put_int_def returns_varint returns_basic(1) intro!: returns_bindE returns_catE)
  show ?thesis
    unfolding encode_transport_parameters_def
    by (rule returns_catE) (simp add: put del: put.simps split: option.split)
qed


section \<open>Parsers\<close>

lemma ends_fst: "ends m \<Longrightarrow> returns (fst (m s))"
  by (simp add: ends_def)

lemma ends_pulls:
  "ends (pull_bytes n)" "ends pull_uint8" "ends pull_uint16" "ends pull_uint32" "ends pull_varint"
proof -
  show bytes: "ends (pull_bytes n)" for n by (simp add: ends_def pull_bytes_def Let_def returns_intros)
  show byte: "ends pull_uint8" and "ends pull_uint16" "ends pull_uint32"
    unfolding pull_uint8_def pull_uint16_def pull_uint32_def by (rule ends_rules bytes)+
  show "ends pull_varint"
    unfolding pull_varint_def Let_def by (rule ends_rules bytes byte)+
qed

lemma returns_PacketType [returns_intros]: "returns (PacketType v)"
  by (simp add: PacketType_def returns_intros)

lemma ends_pull_cids: "ends pull_cids"
  unfolding pull_cids_def by (rule ends_rules ends_pulls)+

lemma returns_parse_headers [returns_intros]:
  "returns (parse_long_header data)" "returns (parse_short_header data n)"
proof -
  have "ends pull_long_header"
    unfolding pull_long_header_def Let_def
    by (rule ends_rules ends_pulls ends_pull_cids returns_intros | simp split: prod.split)+
  then show "returns (parse_long_header data)" by (simp add: parse_long_header_def ends_fst)
  show "returns (parse_short_header data n)"
    unfolding parse_short_header_def by (rule ends_fst) (rule ends_rules ends_pulls | simp)+
qed

interpretation version_items: item_reader pull_uint32 "{BufferReadError}" "\<lambda>v. 0 \<le> v \<and> v < 4294967296"
proof unfold_locales
  show "buf_position b < buf_position b'" if "pull_uint32 b = (Inr v, b')" for b v b'
    using that by (auto simp: pull_uint32_def bindS_Inr_iff pull_bytes_def Let_def split: if_splits)
qed (rule reader_pull_uint32)

lemma returns_parse_version_negotiation [returns_intros]: "returns (parse_version_negotiation data)"
proof -
  have cids: "reader {BufferReadError} (\<lambda>_. True) pull_cids"
    unfolding pull_cids_def by (rule reader_bindS wire_errors | simp)+
  obtain r b where p: "pull_cids (mk_buffer (drop 5 data)) = (r, b)" by (cases "pull_cids (mk_buffer (drop 5 data))")
  note d = readerD [OF cids buf_wf_mk p]
  then have "outcome {BufferReadError} (list_all (\<lambda>v. 0 \<le> v \<and> v < 4294967296)) (fst (pull_all pull_uint32 b))"
    by (intro version_items.pull_all_outcome) simp
  then have "returns (fst (pull_all pull_uint32 b))" by (rule returns_outcome) simp
  with p d show ?thesis
    by (cases r; cases "pull_all pull_uint32 b"; cases "fst (pull_all pull_uint32 b)")
      (auto simp: parse_version_negotiation_def returns_def split: prod.split)
qed

lemma returns_parse_frames [returns_intros]: "returns (parse_frames payload)"
  using returns_outcome [OF frame_items.pull_all_outcome [OF buf_wf_mk, of payload]]
  by (simp add: parse_frames_def returns_intros)


section \<open>Packet protection\<close>

lemma returns_keys [returns_intros]:
  "returns (derive_initial_secrets P dcid)" "returns (derive_packet_keys P secret suite)" "returns (next_generation P secret keys)"
  unfolding derive_initial_secrets_def derive_packet_keys_def next_generation_def Let_def
  by (rule returns_intros)+

lemma returns_bytes [returns_intros]:
  "returns (get_at i xs)" "returns (xor_at i m xs)" "returns (nonce iv n)"
  by (simp_all add: get_at_def xor_at_def nonce_def Let_def returns_intros)

lemma returns_mask_packet_number [returns_intros]: "returns (mask_packet_number msk offset is protected)"
  by (induction msk offset "is" protected rule: mask_packet_number.induct) (simp_all add: returns_intros)

lemma returns_header_protection_mask:
  assumes "prims_return P"
  shows "returns (header_protection_mask P keys sample)"
  using assms by (auto simp: header_protection_mask_def prims_return_def intro!: returns_intros)

lemma returns_aead:
  assumes "prims_return P"
  shows "returns (aead_encrypt P keys n d a)" "returns (aead_decrypt P keys n d a)"
  using assms by (auto simp: aead_encrypt_def aead_decrypt_def prims_return_def)

lemma returns_protection:
  assumes "prims_return P"
  shows "returns (protect P keys header payload pn)" "returns (remove_header_protection P keys packet pn_offset largest)"
    "returns (decrypt_payload P keys unprotected)" "returns (parse_retry P data cid)"
proof -
  note rules = returns_intros returns_aead [OF assms] returns_header_protection_mask [OF assms]
  show "returns (protect P keys header payload pn)"
    unfolding protect_def Let_def by (rule rules)+
  show "returns (remove_header_protection P keys packet pn_offset largest)"
    unfolding remove_header_protection_def Let_def by (rule rules returns_mapE | simp)+
  show "returns (decrypt_payload P keys unprotected)"
    unfolding decrypt_payload_def by (rule rules)+
  have tag: "returns (retry_integrity_tag P cid d)" for d
    unfolding retry_integrity_tag_def
    by (rule returns_bindE returns_catE prims_returnD(1) [OF assms] | simp add: returns_intros)+
  have "ends (pull_retry P data cid)"
    unfolding pull_retry_def by (rule ends_rules ends_pulls returns_PacketType tag | simp)+
  then show "returns (parse_retry P data cid)"
    by (simp add: parse_retry_def returns_intros ends_fst)
qed

end
