(* ===== verification/Connection_Ends.thy ===== *)
theory Connection_Ends
  imports Connection_Progress Wire_Progress
begin

text \<open>
  Every call of a connection ends: each method ends because the methods and the parsers it calls
  do, and the loop of \<open>datagrams_to_send\<close> because every round uses up queued work.
\<close>

section \<open>Rules\<close>

named_theorems conn_ends \<open>methods of a connection that end\<close>

lemma ends_catchS: "ends m \<Longrightarrow> (\<And>e. e \<noteq> Diverges \<Longrightarrow> ends (h e)) \<Longrightarrow> ends (catchS m h)"
  by (auto simp: ends_def catchS_def returns_def split: prod.split sum.split) (metis fst_conv)

lemma ends_forS: "(\<And>x. ends (f x)) \<Longrightarrow> ends (forS xs f)"
  by (induction xs) (simp_all add: ends_rules)

lemma ends_case_sum:
  "returns r \<Longrightarrow> (\<And>e. e \<noteq> Diverges \<Longrightarrow> ends (f e)) \<Longrightarrow> (\<And>x. ends (g x)) \<Longrightarrow>
   ends (case r of Inl e \<Rightarrow> f e | Inr x \<Rightarrow> g x)"
  by (cases r) (auto simp: returns_def)

lemma ends_checks: "ends (assertS b)" "ends (someS x)"
  by (auto simp: assertS_def someS_def ends_basic split: option.split)

lemma ends_calls:
  "ends f \<Longrightarrow> ends (streams_call f)" "ends g \<Longrightarrow> ends (tls_call g)" "ends h \<Longrightarrow> ends (recovery_call h)"
  "ends k \<Longrightarrow> ends (client_tls_call k)"
  "(\<And>s. returns (op s)) \<Longrightarrow> ends (send_stream_call sid op)"
proof -
  show streams: "ends f \<Longrightarrow> ends (streams_call f)" for f :: "(stream_manager, 'x) se"
    by (auto simp: ends_def streams_call_def returns_def split: option.split prod.split) (metis fst_conv)
  show tls: "ends g \<Longrightarrow> ends (tls_call g)" for g :: "(tls_machine, 'x) se"
    by (auto simp: ends_def tls_call_def returns_def split: option.split prod.split) (metis fst_conv)
  show "ends h \<Longrightarrow> ends (recovery_call h)"
    by (auto simp: ends_def recovery_call_def zoomS_def returns_def split: prod.split) (metis fst_conv)
  show "ends k \<Longrightarrow> ends (client_tls_call k)"
    unfolding client_tls_call_def
    by (rule tls) (auto simp: ends_def returns_def split: tls_machine.split prod.split, metis fst_conv)
  show "ends (send_stream_call sid op)" if "\<And>s. returns (op s)"
  proof -
    have "returns (bindE (sm_send_stream sid m) op)" for m
      by (rule returns_bindE) (auto simp: sm_send_stream_def that intro!: returns_intros split: option.split)
    then show ?thesis
      unfolding send_stream_call_def
      by (intro streams) (auto simp: ends_def returns_def split: sum.split)
  qed
qed

lemma ends_total: "(\<And>s. \<exists>x s'. m s = (Inr x, s')) \<Longrightarrow> ends m"
  by (auto simp: ends_def returns_def) (metis fst_conv Inl_Inr_False)

lemma ends_case_tls:
  "(\<And>t. ends (f t)) \<Longrightarrow> (\<And>t. ends (g t)) \<Longrightarrow> ends (case m of ClientTls t \<Rightarrow> f t | ServerTls t \<Rightarrow> g t)"
  by (cases m) simp_all

lemmas conn_rules = ends_case_tls ends_basic ends_checks ends_whenS ends_control ends_doS ends_catchS ends_forS ends_case_sum
  ends_bindS ends_calls


section \<open>Streams and recovery\<close>

lemma ends_streams:
  "ends (sm_on_stream_frame frame)" "ends sm_open_bidi" "ends (sm_next_frame sid n)" "returns (ss_write data fin s)"
  "returns (sm_recv_stream sid m)"
proof -
  have "ends (sm_lookup_or_create sid)" for sid
    by (auto simp: ends_def sm_lookup_or_create_def sm_create_peer_initiated_def returns_def Let_def
        split: option.split sum.split)
  moreover have "ends (sm_receive frame recv)" for recv
    by (auto simp: ends_def sm_receive_def rv_on_stream_frame_def returns_def Let_def split: option.split)
  ultimately show "ends (sm_on_stream_frame frame)"
    unfolding sm_on_stream_frame_def by (intro ends_rules) simp_all
  show "ends sm_open_bidi" by (simp add: ends_def sm_open_bidi_def returns_def Let_def)
  show "ends (sm_next_frame sid n)"
    by (auto simp: ends_def sm_next_frame_def sm_send_stream_def returns_def Let_def split: option.split prod.split)
  show "returns (ss_write data fin s)" by (simp add: ss_write_def returns_def Let_def)
  show "returns (sm_recv_stream sid m)" by (simp add: sm_recv_stream_def returns_def split: option.split)
qed

lemma ends_recovery:
  "ends (ld_on_ack_received NewReno level ack delay now)" "ends (ld_on_loss_detection_timeout NewReno now)"
proof -
  have "ends (ld_report_lost NewReno lost now)" for lost
    by (auto simp: ends_def ld_report_lost_def NewReno_def nr_on_packets_lost_def returns_def Let_def
        split: prod.split sum.split)
  then have lost: "returns (fst (bindS (ld_report_lost NewReno lost now) (\<lambda>_. retS x) ld))" for lost x ld
    by (intro ends_fst ends_rules)
  have detect: "returns (fst (bindS (ld_detect_and_remove_lost NewReno level now) (\<lambda>x. retS (f x)) ld))" for level f ld
    by (intro ends_fst ends_rules) (simp add: ends_def ld_detect_and_remove_lost_def case_prod_unfold Let_def lost)
  show "ends (ld_on_ack_received NewReno level ack delay now)"
    by (simp add: ends_def ld_on_ack_received_def Let_def case_prod_unfold detect returns_intros)
  show "ends (ld_on_loss_detection_timeout NewReno now)"
    by (simp add: ends_def ld_on_loss_detection_timeout_def Let_def detect returns_intros earliest_pto_eq split: option.split)
qed

lemma returns_timeout [conn_ends]: "returns (ld_loss_detection_timeout ld)" "returns (next_timer c)"
proof -
  show *: "returns (ld_loss_detection_timeout ld)" for ld :: "'c loss_detection"
    by (simp add: ld_loss_detection_timeout_def earliest_pto_eq ld_anti_deadlock_pto_def ld_pto_duration_def Let_def
        returns_intros split: option.split)
  show "returns (next_timer c)"
    by (simp add: next_timer_def * returns_intros)
qed


section \<open>Keys and frames\<close>

lemma ends_state [conn_ends]:
  "ends (space_of level)" "ends (upd_space level f)" "ends (emit_event e)" "ends (set_state st)" "ends (conn_log now name data)"
  "ends (log_recovery_metrics now)" "ends (log_drop now trigger n l p)" "ends (note_key_phase level u)" "ends has_streams"
  "ends (queue_control frame)" "ends (arm_idle_timer now)"
  unfolding space_of_def upd_space_def emit_event_def set_state_def conn_log_def log_recovery_metrics_def log_drop_def
    note_key_phase_def has_streams_def queue_control_def arm_idle_timer_def Let_def
  by (rule conn_rules)+

lemma ends_open_qlog [conn_ends]: "ends (open_qlog gid now)"
  unfolding open_qlog_def by (rule conn_rules conn_ends)+

lemma ends_keys [conn_ends]:
  "ends (install_initial_keys P dcid)" "ends (on_secret P level direction secret suite)" "ends (rotate_keys P level now)"
  unfolding install_initial_keys_def on_secret_def rotate_keys_def by (rule conn_rules conn_ends returns_keys)+

lemma ends_key_update [conn_ends]: "ends (initiate_key_update P now)" "ends (maybe_update_keys P now)"
proof -
  show update: "ends (initiate_key_update P now)"
    unfolding initiate_key_update_def by (rule conn_rules conn_ends)+
  show "ends (maybe_update_keys P now)"
    unfolding maybe_update_keys_def by (rule conn_rules conn_ends update)+
qed

lemma ends_discard_space [conn_ends]: "ends (discard_space level now)"
  unfolding discard_space_def by (rule conn_rules conn_ends)+

lemma ends_decrypt [conn_ends]:
  assumes "prims_return P"
  shows "ends (decrypt P level packet pn_offset now zero_rtt)"
proof -
  note returning = returns_bindE returns_case(2) returns_basic(1) returns_protection [OF assms]
  have keys: "returns (receive_keys confirmed sp level u now)" for confirmed sp u
    by (auto simp: receive_keys_def intro!: returns_intros split: option.split)
  have "ends (decrypt_early P level packet pn_offset)"
    unfolding decrypt_early_def by (rule conn_rules conn_ends returning | assumption)+
  then show ?thesis
    unfolding decrypt_def by (intro conn_rules conn_ends returning keys) assumption+
qed

lemma ends_closing [conn_ends]: "ends (close code reason typ)" "ends (on_connection_close frame now)"
  unfolding close_def on_connection_close_def Let_def by (rule conn_rules conn_ends)+

lemma ends_handle_stream [conn_ends]: "ends (maybe_extend_credit sid recv)" "ends (handle_stream E frame)"
proof -
  have pure: "ends (\<lambda>m. (Inr (g m), h m))" "ends (\<lambda>m. map_prod Inr id (k m))" for g h k
    by (simp_all add: ends_def returns_def)
  show extend: "ends (maybe_extend_credit sid recv)" for sid recv
    unfolding maybe_extend_credit_def by (rule conn_rules conn_ends pure)+
  have "ends (case e of StreamError code \<Rightarrow> raiseS (connection_error code msg) | _ \<Rightarrow> raiseS e)" if "e \<noteq> Diverges" for e msg
    using that by (cases e) (simp_all add: ends_basic)
  then show "ends (handle_stream E frame)"
    unfolding handle_stream_def by (intro conn_rules conn_ends pure extend ends_streams) simp_all
qed


lemma ends_pure: "ends (\<lambda>m. (Inr (g m), h m))" "ends (\<lambda>m. map_prod Inr id (k m))"
  by (simp_all add: ends_def returns_def)

lemma ends_limits [conn_ends]: "ends (handle_limit frame)" "ends (requeue_frame level frame)" "ends (on_acked_frame frame)"
proof -
  note rules = conn_rules conn_ends ends_pure returns_basic(1) ends_streams(5)
  show "ends (handle_limit frame)" unfolding handle_limit_def by (cases frame; simp only: frame.case; (rule rules | simp)+)
  show "ends (requeue_frame level frame)" unfolding requeue_frame_def by (cases frame; simp only: frame.case; (rule rules)+)
  show "ends (on_acked_frame frame)" unfolding on_acked_frame_def by (cases frame; simp only: frame.case; (rule rules)+)
qed

lemma ends_acks [conn_ends]: "ends (requeue_lost packet)" "ends (validate_ecn level frame acked now)" "ends (handle_ack E level frame now)"
proof -
  show requeue: "ends (requeue_lost packet)" for packet unfolding requeue_lost_def by (rule conn_rules conn_ends)+
  show ecn: "ends (validate_ecn level frame acked now)" for acked
    unfolding validate_ecn_def by (rule conn_rules conn_ends)+
  show "ends (handle_ack E level frame now)"
    unfolding handle_ack_def Let_def
    by (rule conn_rules conn_ends ecn requeue ends_recovery(1) | simp)+
qed


section \<open>The handshake\<close>

lemma ends_confirm [conn_ends]:
  "ends validate_peer_parameters" "ends (confirm_handshake now)" "ends (settle_streams peer)" "ends resend_rejected_early_data"
proof -
  show "ends validate_peer_parameters" "ends (confirm_handshake now)"
    unfolding validate_peer_parameters_def confirm_handshake_def by (rule conn_rules conn_ends | simp)+
  show "ends (settle_streams peer)" "ends resend_rejected_early_data"
    unfolding settle_streams_def resend_rejected_early_data_def
    by (rule conn_rules conn_ends ends_pure | simp)+
qed

lemma ends_on_handshake_complete [conn_ends]: "ends (on_handshake_complete alpn parameters now)"
  unfolding on_handshake_complete_def by (rule conn_rules conn_ends returns_parsers)+

lemma ends_sync_early_keys [conn_ends]: "ends (sync_early_keys P)"
  unfolding sync_early_keys_def
  by (rule conn_rules conn_ends returns_keys returns_parsers | simp)+

lemma ends_tls [conn_ends]: "ends (drain_tls_events P now)"
proof -
  have "ends tls_take_events"
    unfolding ends_def
  proof
    show "returns (fst (tls_take_events t))" for t
      by (cases t) (auto simp: take_tls_events_def returns_def split: prod.split)
  qed
  moreover have "ends (on_tls_event P now event)" for event
    unfolding on_tls_event_def by (cases event; simp only: tls_event.case; (rule conn_rules conn_ends)+)
  ultimately show ?thesis
    unfolding drain_tls_events_def by (intro conn_rules conn_ends) assumption+
qed

lemma ends_handle_crypto [conn_ends]:
  assumes "prims_return (env_prims E)"
  shows "ends (handle_crypto E level frame now)"
proof -
  have "ends (tls_receive (env_prims E) level data now)" for data
    unfolding ends_def
  proof
    show "returns (fst (tls_receive (env_prims E) level data now t))" for t
      using ends_handshake_receive [OF assms, of level data now]
      by (cases t) (auto simp: ends_def returns_def split: prod.split, metis fst_conv, metis fst_conv)
  qed
  moreover have "ends (case e of TlsAlert alert \<Rightarrow> raiseS (connection_error (CRYPTO_ERROR_BASE + alert) msg) | _ \<Rightarrow> raiseS e)"
    if "e \<noteq> Diverges" for e msg
    using that by (cases e) (simp_all add: ends_basic)
  ultimately show ?thesis
    unfolding handle_crypto_def Let_def case_prod_unfold
    by (intro conn_rules conn_ends) simp_all
qed

lemma ends_handle_frame [conn_ends]:
  assumes "prims_return (env_prims E)"
  shows "ends (handle_frame E level now frame)"
  using assms unfolding handle_frame_def
  by (cases frame; simp only: frame.case; (intro conn_rules conn_ends)?; (assumption | simp)?)



section \<open>Receiving\<close>

lemma ends_handle_payload [conn_ends]:
  assumes "prims_return (env_prims E)"
  shows "ends (handle_payload E level payload now received zero_rtt)"
  unfolding handle_payload_def
  by (rule conn_rules conn_ends returns_parse_frames assms | simp | assumption)+

lemma ends_unprotected_packets [conn_ends]:
  assumes "prims_return P"
  shows "ends (handle_version_negotiation data now)" "ends (handle_retry P data now)" "ends (adopt_client_initial P dcid scid)"
proof -
  note rules = conn_rules conn_ends ends_pure returns_parse_version_negotiation returns_protection(4) [OF assms]
    returns_encode_transport_parameters
  show "ends (handle_version_negotiation data now)" "ends (handle_retry P data now)" "ends (adopt_client_initial P dcid scid)"
    unfolding handle_version_negotiation_def handle_retry_def adopt_client_initial_def by (rule rules | assumption)+
qed

lemma ends_locate_packet [conn_ends]:
  assumes "prims_return P"
  shows "ends (locate_packet P data now)"
  unfolding locate_packet_def Let_def
  by (rule conn_rules conn_ends returns_bytes(1) returns_parse_headers assms)+

lemma ends_handle_located [conn_ends]:
  assumes "prims_return (env_prims E)"
  shows "ends (note_received level pn now ecn)" "ends (handle_located E loc now ecn)"
proof -
  show noted: "ends (note_received level pn now ecn)" for level pn
    unfolding note_received_def by (rule conn_rules conn_ends)+
  show "ends (handle_located E loc now ecn)"
    unfolding handle_located_def Let_def
    by (rule conn_rules conn_ends noted returns_bytes(1) assms)+
qed

lemma ends_process_packet:
  assumes "prims_return (env_prims E)"
  shows "ends (process_packet E data now ecn)"
  unfolding process_packet_def by (rule conn_rules conn_ends assms | assumption)+

lemma ends_process_packets [conn_ends]:
  assumes "prims_return (env_prims E)"
  shows "ends (process_packets E now ecn rest)"
proof -
  have "returns (fst (process_packets E now ecn rest c))" for c
    using assms
  proof (induction E now ecn rest c rule: process_packets.induct)
    case (1 E now ecn rest c)
    have "returns (fst (process_packet E rest now ecn c))"
      by (rule ends_fst [OF ends_process_packet [OF "1.prems"]])
    with "1.IH" "1.prems" show ?case
      by (auto simp: process_packets.simps [of E now ecn rest c] returns_def split: prod.split sum.split)
  qed
  then show ?thesis by (simp add: ends_def)
qed

lemma ends_datagram_received [conn_ends]:
  assumes "prims_return (env_prims E)"
  shows "ends (datagram_received E data now source ecn)"
proof -
  have "ends (receive_datagram E data now source ecn)"
    unfolding receive_datagram_def by (rule conn_rules conn_ends assms)+
  then show ?thesis
    unfolding datagram_received_def
  proof (rule ends_catchS)
    show "ends (case e of
         ConnectionError code reason frame_typ \<Rightarrow> doS [
           close code reason frame_typ,
           conn_log now ''quic:connection_closed''
             [(''initiator'', JStr ''local''), (''error_code'', JInt code), (''reason'', JText reason)],
           emit_event (ConnectionTerminated code reason)]
       | _ \<Rightarrow> raiseS e)" if "e \<noteq> Diverges" for e
      using that by (cases e; simp only: exn.case; intro conn_rules conn_ends; simp)
  qed
qed



section \<open>Sending\<close>

lemma ends_take_control [conn_ends]: "ends (take_control controls room taken)"
proof (induction controls arbitrary: taken)
  case (Cons control controls)
  obtain chosen used where taken: "taken = (chosen, used)" by (cases taken)
  show ?case
    unfolding taken take_control.simps by (rule conn_rules conn_ends returns_encode Cons.IH)+
qed (auto simp: ends_basic)

lemma ends_take_streams [conn_ends]: "ends (take_streams sids room taken)"
proof (induction sids arbitrary: taken)
  case (Cons sid sids)
  obtain chosen used where taken: "taken = (chosen, used)" by (cases taken)
  show ?case
    unfolding taken take_streams.simps Let_def by (rule conn_rules conn_ends returns_encode ends_streams(3) Cons.IH)+
qed (auto simp: ends_basic)

lemma ends_chosen [conn_ends]:
  "ends (choose_ack level room)" "ends (choose_crypto level n)" "ends (application_frames room)" "ends (add_probe level room taken)"
proof -
  have filler: "returns (first_fitting room frames)" for room frames
  proof (induction frames)
    case (Cons f frames)
    then show ?case by (cases f) (simp_all add: returns_bindE returns_if returns_basic returns_encode del: encode.simps)
  qed (simp add: returns_basic)
  show "ends (choose_ack level room)" "ends (choose_crypto level n)" "ends (application_frames room)"
    unfolding choose_ack_def choose_crypto_def application_frames_def Let_def by (rule conn_rules conn_ends returns_encode)+
  show "ends (add_probe level room taken)"
    unfolding add_probe_def probe_filler_def by (rule conn_rules conn_ends returns_encode filler)+
qed

lemma ends_pending_frames [conn_ends]: "ends (pending_frames level room ack_only)"
  unfolding pending_frames_def Let_def by (rule conn_rules conn_ends)+

lemma returns_packet_header: "returns (packet_header level zero_rtt pn pn_bytes payload n c)"
proof -
  have "returns (long_packet_type level)" by (cases level) (simp_all add: returns_basic)
  moreover have "returns (short_packet_header sp cid pn_bytes)" for sp cid
    unfolding short_packet_header_def by (rule returns_catE) (simp add: returns_intros)
  ultimately show ?thesis
    unfolding packet_header_def Let_def by (intro returns_intros) simp_all
qed

lemma ends_liftS_got: "(\<And>s. returns (g s)) \<Longrightarrow> (\<And>x. ends (k x)) \<Longrightarrow> ends (bindS (getS g) (\<lambda>built. bindS (liftS built) k))"
  by (simp add: ends_def returns_def bindS_def split: prod.split sum.split) (metis)

lemma ends_send_frames [conn_ends]:
  assumes "prims_return P"
  shows "ends (send_frames P level now n zero_rtt keys chosen)"
proof -
  have "returns (catE (map encode chosen))" by (rule returns_catE) (simp add: list_all_iff returns_encode)
  then show ?thesis
    unfolding send_frames_def Let_def
    by (intro ends_liftS_got conn_rules conn_ends returns_packet_number returns_packet_header returns_protection(1) [OF assms])
      simp_all
qed

lemma ends_build_packet [conn_ends]: "prims_return P \<Longrightarrow> ends (build_packet P level room now n ack_only)"
  unfolding build_packet_def Let_def by (rule conn_rules conn_ends | assumption)+

lemma ends_coalesce [conn_ends]: "prims_return P \<Longrightarrow> ends (coalesce P now ack_only budget levels payload)"
proof (induction levels arbitrary: payload)
  case (Cons level levels)
  then show ?case
    unfolding coalesce.simps Let_def by (intro conn_rules conn_ends) simp_all
qed (simp add: ends_basic)

lemma ends_build_datagram [conn_ends]: "prims_return P \<Longrightarrow> ends (build_datagram P now ack_only)"
  unfolding build_datagram_def by (rule conn_rules conn_ends | assumption)+

lemma pacing_blocked_work: "\<exists>r c'. pacing_blocked now c = (Inr r, c') \<and> send_work c' = send_work c"
proof -
  have same: "send_work (c\<lparr>cn_pacing_credit := x, cn_pacing_updated := y\<rparr>) = send_work c"
    "send_work (c\<lparr>cn_pacing_deadline := z\<rparr>) = send_work c" for c x y z
    by (simp_all add: send_work_def)
  obtain r c1 where a: "pacing_allowance now c = (Inr r, c1)" "send_work c1 = send_work c"
    by (cases "cc_pacing_rate NewReno (rtt_smoothed (ld_rtt (cn_recovery c))) (ld_controller (cn_recovery c))")
      (auto simp: pacing_allowance_def Let_def same)
  then show ?thesis
    by (auto simp: pacing_blocked_def Let_def same split: option.split)
qed

lemma returns_send_loop:
  assumes "prims_return P" "send_work c < fuel"
  shows "returns (fst (send_loop P now fuel datagrams c))"
  using assms(2)
proof (induction fuel arbitrary: datagrams c)
  case (Suc fuel)
  obtain paced c1 where p: "pacing_blocked now c = (Inr paced, c1)" and w: "send_work c1 = send_work c"
    using pacing_blocked_work by blast
  obtain r c2 where b: "build_datagram P now paced c1 = (r, c2)" by (cases "build_datagram P now paced c1")
  have r: "r \<noteq> Inl Diverges" using ends_build_datagram [OF assms(1)] b by (metis ends_fst fst_conv returns_def)
  show ?case
  proof (cases "\<exists>datagram. r = Inr (Some datagram)")
    case True
    then obtain datagram where d: "r = Inr (Some datagram)" by blast
    with build_datagram_work [of P now paced c1 _ c2] b w Suc.prems
    have "send_work (c2\<lparr>cn_pacing_credit := x\<rparr>) < fuel" for x by (simp add: send_work_def)
    then show ?thesis using p b d by (simp add: Suc.IH)
  next
    case False
    with r show ?thesis using p b by (cases r) (auto simp: returns_def split: option.split)
  qed
qed simp

lemma ends_close_levels [conn_ends]: "prims_return P \<Longrightarrow> ends (close_levels P now frame levels)"
proof (induction levels)
  case (Cons level levels)
  then show ?case
    unfolding close_levels.simps Let_def
    by (intro ends_liftS_got conn_rules conn_ends returns_encode returns_packet_number returns_packet_header returns_protection(1))
      simp_all
qed (simp add: ends_basic)

lemma datagrams_to_send_ends [conn_ends]:
  assumes "prims_return P"
  shows "ends (datagrams_to_send P now)"
proof -
  define rest where "rest = bindS (getS (\<lambda>c. Suc (send_work c))) (\<lambda>fuel. bindS (send_loop P now fuel []) (\<lambda>datagrams.
         bindS (getS cn_pending) (\<lambda>pending. bindS (modS (\<lambda>c. c\<lparr>cn_pending := []\<rparr>)) (\<lambda>_. retS (pending @ datagrams)))))"
  have "returns (fst (rest c))" for c
    using returns_send_loop [OF assms, of c "Suc (send_work c)" now "[]"]
    by (auto simp: rest_def bindS_def returns_def split: prod.split sum.split)
  then have "ends rest" by (simp add: ends_def)
  then show ?thesis
    unfolding datagrams_to_send_def build_close_datagram_def rest_def [symmetric] by (intro conn_rules conn_ends assms)
qed



section \<open>Timers and the application\<close>

lemma ends_handle_timer [conn_ends]: "ends (handle_timer now)"
proof -
  have probe: "ends (prepare_probe level)" for level
    unfolding prepare_probe_def resend_early_application_data_def by (rule conn_rules conn_ends)+
  show ?thesis
    unfolding handle_timer_def by (rule conn_rules conn_ends probe ends_recovery(2))+
qed

lemma ends_application [conn_ends]:
  "ends (connect P now)" "ends open_stream" "ends (send_stream_data sid data fin)" "ends validate_path" "ends (send_new_token token)"
  "ends take_events"
proof -
  note rules = conn_rules conn_ends ends_start ends_streams
  show "ends (connect P now)" "ends open_stream" "ends (send_stream_data sid data fin)" "ends validate_path"
    "ends (send_new_token token)" "ends take_events"
    unfolding connect_def open_stream_def send_stream_data_def validate_path_def send_new_token_def take_events_def Let_def
    by (rule rules | simp)+
qed

text \<open>
  C9: Every call of a connection ends. Where the cryptographic primitives return, no call that the
  endpoint or the application makes (a datagram received, the datagrams to send, a timer, connect,
  close, opening and writing a stream, a path challenge, a token, a key update, the events) runs
  for ever, in any state of the connection and on any input: the loop over coalesced packets, the
  loops of the parsers and of the TLS machine, and the loop that builds datagrams until nothing is
  left to send, whose number of rounds is bounded by the work that is queued.
\<close>

theorem every_call_ends:
  assumes "prims_return (env_prims E)"
  shows "fst (run_call E k c) \<noteq> Inl Diverges"
proof -
  have "ends (run_call E k)"
    using assms by (cases k; simp only: run_call.simps; (intro conn_rules conn_ends)?; (assumption | simp)?)
  then show ?thesis by (simp add: ends_def returns_def)
qed

theorem every_call_ends_witness:
  "prims_return (env_prims example_env) \<and> fst (run_call example_env (DatagramsToSend 1) example_pinged) \<noteq> Inl Diverges"
  using every_call_ends [of example_env "DatagramsToSend 1" example_pinged] toy_prims_return by (simp add: example_env_def)

end
