(* ===== verification/Endpoint_Client.thy ===== *)
theory Endpoint_Client
  imports Endpoint_Io Hq Connection_Ends
begin

text \<open>
  \<open>src/dsquic/endpoints/client.py\<close>: the reference client.

  A fetch is a connection and the requests on its streams, driven by the clock and by what the
  socket delivers. Its loop runs until every response is complete or the deadline has passed, so
  it is a partial function, \<open>None\<close> where it runs for ever; the lemmas show that it ends whenever
  the clock gets past the deadline. The argument parser and the writing of bodies to files are not
  modelled.
\<close>

section \<open>Model\<close>

definition DEFAULT_TIMEOUT :: time where "DEFAULT_TIMEOUT = 30"
definition GREASE_VERSION :: int where "GREASE_VERSION = 0x1A2A3A4A"
definition ALPN_HQ :: string where "ALPN_HQ = ''hq-interop''"

record client_options =
  co_ca_certificates :: "bytes list"
  co_insecure :: bool
  co_server_name :: "string option"
  co_timeout :: time
  co_key_update_interval :: "int option"
  co_resume :: bool
  co_early_data :: bool
  co_chacha20 :: bool
  co_version :: int

definition default_client_options :: client_options where
  "default_client_options =
     \<lparr>co_ca_certificates = [], co_insecure = False, co_server_name = None, co_timeout = DEFAULT_TIMEOUT,
      co_key_update_interval = None, co_resume = False, co_early_data = False, co_chacha20 = False,
      co_version = QUIC_V1\<rparr>"

record session_store =
  ss_tickets :: "session_ticket list"
  ss_tokens :: "bytes list"

text \<open>The local variables of \<open>fetch\<close>, on top of the operating system it talks to.\<close>

record fetcher = world +
  ft_connection :: connection
  ft_session :: "session_store option"
  ft_pending :: "string list"
  ft_stream_paths :: "(int \<times> string) list"
  ft_bodies :: "(int \<times> bytes) list"
  ft_finished :: "int list"
  ft_connected :: bool

definition client_call :: "(connection, 'a) se \<Rightarrow> (fetcher, 'a) se" where
  "client_call f = zoomS ft_connection (\<lambda>c s. s\<lparr>ft_connection := c\<rparr>) f"


subsection \<open>Requests and responses\<close>

fun issue_requests :: "string list \<Rightarrow> (fetcher, unit) se" where
  "issue_requests [] = retS ()"
| "issue_requests (path # rest) =
     bindS (catchS (bindS (client_call open_stream) (\<lambda>sid. retS (Some sid)))
       (\<lambda>e. if e = StreamLimitReached then retS None else raiseS e)) (\<lambda>opened.
     case opened of
       None \<Rightarrow> retS ()
     | Some sid \<Rightarrow> doS [
         modS (\<lambda>s. s\<lparr>ft_pending := rest, ft_stream_paths := AList.update sid path (ft_stream_paths s),
           ft_bodies := AList.update sid [] (ft_bodies s)\<rparr>),
         bindS (liftS (encode_request path)) (\<lambda>request. client_call (send_stream_data sid request True)),
         issue_requests rest])"

definition apply_event :: "connection_event \<Rightarrow> (fetcher, unit) se" where
  "apply_event event =
     (case event of
        ConnectionTerminated code reason \<Rightarrow> raiseS RuntimeError
      | VersionNegotiationReceived versions \<Rightarrow> raiseS (VersionNegotiationRequired versions)
      | HandshakeCompleted alpn \<Rightarrow> modS (\<lambda>s. s\<lparr>ft_connected := True\<rparr>)
      | HandshakeConfirmed alpn \<Rightarrow> retS ()
      | StreamDataReceived sid data end_stream \<Rightarrow> modS (\<lambda>s. s
          \<lparr>ft_bodies := AList.update sid
             ((case map_of (ft_bodies s) sid of None \<Rightarrow> [] | Some body \<Rightarrow> body) @ data) (ft_bodies s),
           ft_finished := (if end_stream then List.insert sid (ft_finished s) else ft_finished s)\<rparr>))"

definition apply_events :: "(fetcher, unit) se" where
  "apply_events = bindS (client_call take_events) (\<lambda>events. forS events apply_event)"


subsection \<open>One fetch\<close>

definition pump :: "endpoint_env \<Rightarrow> time option \<Rightarrow> (fetcher, unit) se" where
  "pump E deadline = doS [
     bindS monotonic (\<lambda>now. bindS (client_call (datagrams_to_send (ee_prims E) now)) send_datagrams),
     bindS (getS ft_connection) (\<lambda>connection.
     bindS (liftS (next_timer connection)) (\<lambda>timer.
     bindS (wait_for_readable [timer, deadline]) (\<lambda>received.
       forS received (\<lambda>(data, source, ecn).
         bindS monotonic (\<lambda>now. client_call (datagram_received (ee_env E) data now source ecn)))))),
     bindS monotonic (\<lambda>now. client_call (handle_timer now))]"

definition fetch_client_config :: "client_options \<Rightarrow> string \<Rightarrow> time \<Rightarrow> session_store option \<Rightarrow> client_config" where
  "fetch_client_config options host now session =
     \<lparr>cf_server_name = (case co_server_name options of None \<Rightarrow> host | Some name \<Rightarrow> name),
      cf_alpn = [ALPN_HQ], cf_transport_parameters = [],
      cf_ca_certificates = (if co_insecure options then [] else co_ca_certificates options),
      cf_insecure_skip_verify = co_insecure options, cf_verification_time = Some now,
      cf_key_share_groups = None,
      cf_session_ticket = (case session of None \<Rightarrow> None
        | Some store \<Rightarrow> if ss_tickets store = [] then None else Some (last (ss_tickets store))),
      cf_cipher_suites = (if co_chacha20 options then [TLS_CHACHA20_POLY1305_SHA256] else SUPPORTED_CIPHER_SUITES),
      cf_early_data = co_early_data options\<rparr>"

text \<open>\<open>session.tokens.pop() if session is not None and session.tokens else b""\<close>\<close>

definition spend_token :: "session_store option \<Rightarrow> bytes \<times> session_store option" where
  "spend_token session =
     (case session of
        None \<Rightarrow> ([], None)
      | Some store \<Rightarrow> if ss_tokens store = [] then ([], Some store)
          else (last (ss_tokens store), Some (store\<lparr>ss_tokens := butlast (ss_tokens store)\<rparr>)))"

text \<open>The \<open>i\<close>-th connection of a run, up to its construction.\<close>

definition open_fetch ::
  "endpoint_env \<Rightarrow> nat \<Rightarrow> client_options \<Rightarrow> string \<Rightarrow> int \<Rightarrow> string list \<Rightarrow> session_store option \<Rightarrow> world
    \<Rightarrow> fetcher result \<times> session_store option \<times> world" where
  "open_fetch E i options host port paths session w =
     (case ee_lookup E host port of
        Inl e \<Rightarrow> (Inl e, session, w)
      | Inr address \<Rightarrow>
          (case wall_time w of
             (Inl e, w) \<Rightarrow> (Inl e, session, w)
           | (Inr now, w) \<Rightarrow>
               let config = fetch_client_config options host now session
               in case check_client_config config of
                 Inl e \<Rightarrow> (Inl e, session, w)
               | Inr _ \<Rightarrow>
                   (case spend_token session of (token, session) \<Rightarrow>
                    case mk_connection (ee_prims E) True (Some config) None
                        (default_connection_config\<lparr>cg_keylog := ee_keylog E, cg_qlog := Some (ee_qlog E),
                          cg_key_update_interval := co_key_update_interval options, cg_token := token,
                          cg_version := co_version options\<rparr>)
                        (Some address) (ee_connection_rng E i) (ee_tls_rng E i) of
                      Inl e \<Rightarrow> (Inl e, session, w)
                    | Inr c \<Rightarrow> (Inr (world.extend w
                        \<lparr>ft_connection = c, ft_session = session, ft_pending = paths, ft_stream_paths = [],
                         ft_bodies = [], ft_finished = [], ft_connected = False\<rparr>), session, w))))"

definition issue_pending :: "(fetcher, unit) se" where
  "issue_pending = bindS (getS ft_pending) issue_requests"

definition start_fetch :: "endpoint_env \<Rightarrow> time \<Rightarrow> (fetcher, time) se" where
  "start_fetch E timeout =
     bindS monotonic (\<lambda>now.
     bindS monotonic (\<lambda>later.
     bindS (client_call (connect (ee_prims E) later)) (\<lambda>_.
     bindS (getS (\<lambda>s. cn_streams (ft_connection s) \<noteq> None)) (\<lambda>early.
     bindS (whenS early issue_pending) (\<lambda>_. retS (now + timeout))))))"

text \<open>The body of the loop; whether it breaks out.\<close>

definition fetch_round :: "endpoint_env \<Rightarrow> time \<Rightarrow> nat \<Rightarrow> (fetcher, bool) se" where
  "fetch_round E deadline n =
     bindS (pump E (Some deadline)) (\<lambda>_.
     bindS apply_events (\<lambda>_.
     bindS (getS (\<lambda>s. ft_connected s \<or> cn_streams (ft_connection s) \<noteq> None)) (\<lambda>ready.
     bindS (whenS ready issue_pending) (\<lambda>_.
       getS (\<lambda>s. ft_connected s \<and> ft_pending s = [] \<and> length (ft_finished s) = n)))))"

text \<open>\<open>None\<close> where the loop is to go round again.\<close>

definition fetch_step :: "endpoint_env \<Rightarrow> time \<Rightarrow> nat \<Rightarrow> fetcher \<Rightarrow> unit result option \<times> fetcher" where
  "fetch_step E deadline n s =
     (case bindS monotonic (\<lambda>now. if now < deadline then fetch_round E deadline n else raiseS TimeoutError) s of
        (Inl e, s) \<Rightarrow> (Some (Inl e), s)
      | (Inr finished, s) \<Rightarrow> (if finished then Some (Inr ()) else None, s))"

partial_function (option) fetch_loop :: "endpoint_env \<Rightarrow> time \<Rightarrow> nat \<Rightarrow> fetcher \<Rightarrow> (unit result \<times> fetcher) option" where
  "fetch_loop E deadline n s =
     (case fst (fetch_step E deadline n s) of
        Some r \<Rightarrow> Some (r, snd (fetch_step E deadline n s))
      | None \<Rightarrow> fetch_loop E deadline n (snd (fetch_step E deadline n s)))"

definition finish_fetch :: "endpoint_env \<Rightarrow> (fetcher, (string \<times> bytes) list) se" where
  "finish_fetch E =
     bindS (modS (\<lambda>s. case ft_session s of
         None \<Rightarrow> s
       | Some store \<Rightarrow> (case cn_tls (ft_connection s) of
           Some (ClientTls tls) \<Rightarrow> s\<lparr>ft_session := Some (store
             \<lparr>ss_tickets := ss_tickets store @ cl_session_tickets tls,
              ss_tokens := ss_tokens store @ cn_new_tokens (ft_connection s)\<rparr>)\<rparr>
         | _ \<Rightarrow> s))) (\<lambda>_.
     bindS (client_call (close NO_ERROR [] None)) (\<lambda>_.
     bindS monotonic (\<lambda>now.
     bindS (pump E (Some now)) (\<lambda>_.
     bindS (getS id) (\<lambda>s.
     bindS (liftS (mapE (\<lambda>(sid, body). case map_of (ft_stream_paths s) sid of
         None \<Rightarrow> Inl KeyError | Some path \<Rightarrow> Inr (path, body)) (ft_bodies s))) (\<lambda>bodies.
       retS (foldl (\<lambda>result (path, body). AList.update path body result) [] bodies)))))))"

type_synonym fetched = "(string \<times> bytes) list result \<times> session_store option \<times> world"

definition fetch ::
  "endpoint_env \<Rightarrow> nat \<Rightarrow> client_options \<Rightarrow> string \<Rightarrow> int \<Rightarrow> string list \<Rightarrow> session_store option \<Rightarrow> world
    \<Rightarrow> fetched option" where
  "fetch E i options host port paths session w =
     (case open_fetch E i options host port paths session w of
        (Inl e, session, w) \<Rightarrow> Some (Inl e, session, w)
      | (Inr s, _, _) \<Rightarrow>
          (case start_fetch E (co_timeout options) s of
             (Inl e, s) \<Rightarrow> Some (Inl e, ft_session s, world.truncate s)
           | (Inr deadline, s) \<Rightarrow>
               (case fetch_loop E deadline (length paths) s of
                  None \<Rightarrow> None
                | Some (Inl e, s) \<Rightarrow> Some (Inl e, ft_session s, world.truncate s)
                | Some (Inr _, s) \<Rightarrow> (case finish_fetch E s of
                    (r, s) \<Rightarrow> Some (r, ft_session s, world.truncate s)))))"



subsection \<open>Several fetches\<close>

fun fetch_each_from ::
  "endpoint_env \<Rightarrow> nat \<Rightarrow> client_options \<Rightarrow> string \<Rightarrow> int \<Rightarrow> time \<Rightarrow> string list \<Rightarrow> (string \<times> bytes) list
    \<Rightarrow> session_store option \<Rightarrow> world \<Rightarrow> fetched option" where
  "fetch_each_from E i options host port deadline [] bodies session w = Some (Inr bodies, session, w)"
| "fetch_each_from E i options host port deadline (path # paths) bodies session w =
     (case monotonic w of
        (Inl e, w) \<Rightarrow> Some (Inl e, session, w)
      | (Inr now, w) \<Rightarrow>
          if deadline - now \<le> 0 then Some (Inl TimeoutError, session, w)
          else (case fetch E i (options\<lparr>co_timeout := deadline - now\<rparr>) host port [path] session w of
             None \<Rightarrow> None
           | Some (Inl e, session, w) \<Rightarrow> Some (Inl e, session, w)
           | Some (Inr fetched, session, w) \<Rightarrow>
               fetch_each_from E (Suc i) options host port deadline paths
                 (foldl (\<lambda>result (path, body). AList.update path body result) bodies fetched) session w))"

definition fetch_each ::
  "endpoint_env \<Rightarrow> client_options \<Rightarrow> string \<Rightarrow> int \<Rightarrow> string list \<Rightarrow> world \<Rightarrow> fetched option" where
  "fetch_each E options host port paths w =
     (case monotonic w of
        (Inl e, w) \<Rightarrow> Some (Inl e, None, w)
      | (Inr now, w) \<Rightarrow> fetch_each_from E 0 options host port (now + co_timeout options) paths []
          (if co_resume options then Some \<lparr>ss_tickets = [], ss_tokens = []\<rparr> else None) w)"

definition fetch_negotiating ::
  "endpoint_env \<Rightarrow> client_options \<Rightarrow> string \<Rightarrow> int \<Rightarrow> string list \<Rightarrow> world \<Rightarrow> fetched option" where
  "fetch_negotiating E options host port paths w =
     (case fetch E 0 (options\<lparr>co_version := GREASE_VERSION\<rparr>) host port paths None w of
        None \<Rightarrow> None
      | Some (r, session, w) \<Rightarrow> (case r of
          Inl (VersionNegotiationRequired versions) \<Rightarrow>
            if QUIC_V1 \<notin> set versions then Some (Inl RuntimeError, session, w)
            else fetch E 1 options host port paths None w
        | _ \<Rightarrow> Some (r, session, w)))"

definition fetch_zero_rtt ::
  "endpoint_env \<Rightarrow> client_options \<Rightarrow> string \<Rightarrow> int \<Rightarrow> string list \<Rightarrow> world \<Rightarrow> fetched option" where
  "fetch_zero_rtt E options host port paths w =
     (case monotonic w of
        (Inl e, w) \<Rightarrow> Some (Inl e, None, w)
      | (Inr now, w) \<Rightarrow>
          (case fetch E 0 options host port (take 1 paths) (Some \<lparr>ss_tickets = [], ss_tokens = []\<rparr>) w of
             None \<Rightarrow> None
           | Some (Inl e, session, w) \<Rightarrow> Some (Inl e, session, w)
           | Some (Inr bodies, session, w) \<Rightarrow>
               if (case session of None \<Rightarrow> True | Some store \<Rightarrow> ss_tickets store = [])
               then Some (Inl RuntimeError, session, w)
               else (case monotonic w of
                  (Inl e, w) \<Rightarrow> Some (Inl e, session, w)
                | (Inr later, w) \<Rightarrow>
                    let remaining = now + co_timeout options - later
                    in if remaining \<le> 0 then Some (Inl TimeoutError, session, w)
                    else (case fetch E 1 (options\<lparr>co_early_data := True, co_timeout := remaining\<rparr>) host port
                        (drop 1 paths) session w of
                       None \<Rightarrow> None
                     | Some (Inl e, session, w) \<Rightarrow> Some (Inl e, session, w)
                     | Some (Inr rest, session, w) \<Rightarrow>
                         Some (Inr (foldl (\<lambda>result (path, body). AList.update path body result) bodies rest), session, w)))))"


section \<open>A fetch ends\<close>

text \<open>The clock only loses readings: \<open>readings c k s\<close>, at least \<open>k\<close> of those of \<open>c\<close> are used up.\<close>

definition readings :: "(nat \<Rightarrow> time) \<Rightarrow> nat \<Rightarrow> 'a world_scheme \<Rightarrow> bool" where
  "readings c k s \<longleftrightarrow> (\<exists>j \<ge> k. wd_clock s = (\<lambda>i. c (j + i)))"

lemma readings_monotonic:
  assumes "readings c k s"
  shows "readings c (Suc k) (snd (monotonic s))" "\<exists>j \<ge> k. fst (monotonic s) = Inr (c j)"
proof -
  from assms obtain j where j: "k \<le> j" "wd_clock s = (\<lambda>i. c (j + i))" by (auto simp: readings_def)
  then show "readings c (Suc k) (snd (monotonic s))"
    by (auto simp: monotonic_def readings_def intro!: exI [of _ "Suc j"])
  from j show "\<exists>j \<ge> k. fst (monotonic s) = Inr (c j)"
    by (auto simp: monotonic_def intro!: exI [of _ j])
qed

lemma keeps_readings:
  "keeps (readings c k) (monotonic :: ('a world_scheme, time) se)"
  "(\<And>s. wd_clock (f s) = wd_clock s) \<Longrightarrow> keeps (readings c k) (modS f)"
  "keeps (readings c k) (client_call g)"
proof -
  have "readings c k s \<Longrightarrow> readings c k (snd (monotonic s))" for s :: "'a world_scheme"
    using readings_monotonic(1) [of c k s] by (auto simp: readings_def Suc_le_eq intro: less_imp_le)
  then show "keeps (readings c k) (monotonic :: ('a world_scheme, time) se)" by (simp add: keeps_iff)
  show "keeps (readings c k) (modS f)" if "\<And>s. wd_clock (f s) = wd_clock s"
    using that by (intro keeps_modS) (simp add: readings_def)
  show "keeps (readings c k) (client_call g)"
    unfolding client_call_def by (rule keeps_zoomS) (simp add: readings_def)
qed

lemma keeps_readings_issue: "keeps (readings c k) (issue_requests paths)"
proof (induction paths)
  case (Cons path paths)
  show ?case
    unfolding issue_requests.simps
    by ((rule keeps_readings(1,3) keeps_intros Cons.IH) | (rule keeps_readings(2), simp))+
qed (simp only: issue_requests.simps keeps_basic)

lemma keeps_readings_pump: "keeps (readings c k) (pump E deadline)"
  unfolding pump_def wait_for_readable_def send_datagrams_def set_ecn_def sendto_def Let_def
  by ((rule keeps_readings(1,3) keeps_intros keeps_forS) | (rule keeps_readings(2), simp))+

lemma keeps_readings_round: "keeps (readings c k) (fetch_round E deadline n)"
proof -
  have "keeps (readings c k) (apply_event event)" for event
    unfolding apply_event_def
    by (cases event; simp only: connection_event.case; ((rule keeps_readings(1,3) keeps_intros) | (rule keeps_readings(2), simp))+)
  then show ?thesis
    unfolding fetch_round_def apply_events_def issue_pending_def
    by (intro keeps_readings(1,3) keeps_intros keeps_forS keeps_readings_pump keeps_readings_issue)
qed


lemma ends_client_call: "ends f \<Longrightarrow> ends (client_call f)"
  by (auto simp: ends_def client_call_def zoomS_def returns_def split: prod.split) (metis fst_conv)

lemma ends_world:
  "ends monotonic" "ends wall_time" "ends (send_datagrams ds)"
  unfolding monotonic_def wall_time_def send_datagrams_def set_ecn_def sendto_def
  by (rule conn_rules)+

text \<open>A wait with a deadline ends.\<close>

lemma ends_wait: "ends (wait_for_readable [timer, Some deadline])"
  by (cases timer) (simp_all add: ends_def returns_def wait_for_readable_def monotonic_def Let_def)

lemma ends_pump:
  assumes "prims_return (ee_prims E)"
  shows "ends (pump E (Some deadline))"
  unfolding pump_def by (rule conn_rules ends_world ends_wait ends_client_call conn_ends assms)+

lemma ends_issue_requests: "ends (issue_requests paths)"
proof (induction paths)
  case (Cons path paths)
  have request: "returns (encode_request path)" by (simp add: encode_request_def returns_intros)
  show ?case
    unfolding issue_requests.simps by (rule conn_rules ends_client_call conn_ends request Cons.IH | assumption)+
qed (simp only: issue_requests.simps ends_basic)

lemma ends_apply_events: "ends apply_events"
proof -
  have "ends (apply_event event)" for event
    unfolding apply_event_def by (cases event; simp only: connection_event.case; (rule conn_rules | simp)+)
  then show ?thesis
    unfolding apply_events_def by (intro conn_rules ends_client_call conn_ends)
qed

lemma ends_fetch_round:
  assumes "prims_return (ee_prims E)"
  shows "ends (fetch_round E deadline n)"
  unfolding fetch_round_def issue_pending_def
  by (rule conn_rules ends_pump [OF assms] ends_apply_events ends_issue_requests)+

lemma fetch_loop_ends:
  assumes P: "prims_return (ee_prims E)" and late: "\<forall>i \<ge> N. deadline \<le> c i"
  shows "readings c k s \<Longrightarrow> \<exists>r t. fetch_loop E deadline n s = Some (r, t) \<and> returns r"
proof (induction "N - k" arbitrary: k s rule: less_induct)
  case less
  obtain j where j: "k \<le> j" "fst (monotonic s) = Inr (c j)" using readings_monotonic(2) [OF less.prems] by blast
  obtain s1 where m: "monotonic s = (Inr (c j), s1)" using j(2) by (metis prod.collapse)
  have s1: "readings c (Suc k) s1" using readings_monotonic(1) [OF less.prems] m by simp
  show ?case
  proof (cases "c j < deadline")
    case False
    with m show ?thesis
      by (subst fetch_loop.simps) (simp add: fetch_step_def returns_intros)
  next
    case True
    with late j(1) have "k < N" by (metis leD le_trans linorder_not_le)
    obtain r s2 where r: "fetch_round E deadline n s1 = (r, s2)" by (cases "fetch_round E deadline n s1")
    have s2: "readings c (Suc k) s2" using keepsD [OF keeps_readings_round s1 r] .
    have "r \<noteq> Inl Diverges" using ends_fst [OF ends_fetch_round [OF P], of deadline n s1] r by (simp add: returns_def)
    then show ?thesis
    proof (cases r)
      case (Inr finished)
      show ?thesis
      proof (cases finished)
        case False
        have "\<exists>r t. fetch_loop E deadline n s2 = Some (r, t) \<and> returns r"
          using less.hyps [OF _ s2] \<open>k < N\<close> by simp
        moreover have "fetch_loop E deadline n s = fetch_loop E deadline n s2"
          using m r Inr False True by (subst fetch_loop.simps) (simp add: fetch_step_def)
        ultimately show ?thesis by simp
      qed (use m r Inr True in \<open>subst fetch_loop.simps, simp add: fetch_step_def returns_intros\<close>)
    qed (use m r True in \<open>subst fetch_loop.simps, simp add: fetch_step_def returns_def\<close>)
  qed
qed


lemma returns_mk_connection: "returns (mk_connection P is_client cc sc config destination rng tls_rng)"
proof -
  have "returns (check_client_config cf)" for cf by (simp add: check_client_config_def returns_intros)
  then have "ends (init_client_tls P cc)"
    unfolding init_client_tls_def
    by (intro conn_rules returns_encode_transport_parameters returns_parsers) simp_all
  then have "ends (doS [if is_client then init_client_tls P cc else if sc = None then raiseS ValueError else retS (),
      whenS is_client (bindS (getS cn_initial_dcid) (install_initial_keys P))])"
    by (intro conn_rules conn_ends) simp_all
  from ends_fst [OF this, of "initial_connection is_client sc config destination rng tls_rng"] show ?thesis
    unfolding mk_connection_def by (auto simp: returns_def split: prod.split sum.split)
qed

lemma open_fetch_ends:
  assumes "returns (ee_lookup E host port)" "open_fetch E i options host port paths session w = (r, session', w')"
  shows "returns r \<and> (\<forall>s. r = Inr s \<longrightarrow> wd_clock s = wd_clock w)"
proof -
  have config: "returns (check_client_config cf)" for cf by (simp add: check_client_config_def returns_intros)
  show ?thesis
    using assms config returns_mk_connection
    by (auto simp: open_fetch_def wall_time_def Let_def returns_def world.extend_def
        split: sum.splits prod.splits)
qed

lemma start_fetch_ends:
  assumes "start_fetch E timeout s = (r, t)" "readings c 0 s"
  shows "returns r \<and> readings c 0 t \<and> (\<forall>deadline. r = Inr deadline \<longrightarrow> deadline = wd_clock s 0 + timeout)"
proof -
  have "ends (start_fetch E timeout)"
    unfolding start_fetch_def issue_pending_def
    by (rule conn_rules ends_world ends_client_call conn_ends ends_issue_requests)+
  moreover have "keeps (readings c 0) (start_fetch E timeout)"
    unfolding start_fetch_def issue_pending_def
    by (rule keeps_readings(1,3) keeps_intros keeps_readings_issue)+
  moreover have "\<forall>deadline. r = Inr deadline \<longrightarrow> deadline = wd_clock s 0 + timeout"
    using assms(1) unfolding start_fetch_def monotonic_def by (auto simp: bindS_Inr_iff)
  ultimately show ?thesis using assms by (metis ends_fst fst_conv keepsD)
qed

lemma ends_finish_fetch:
  assumes "prims_return (ee_prims E)"
  shows "ends (finish_fetch E)"
proof -
  have "returns (mapE (\<lambda>(sid, body). case map_of (ft_stream_paths s) sid of
      None \<Rightarrow> Inl KeyError | Some path \<Rightarrow> Inr (path, body)) (ft_bodies s))" for s :: fetcher
    by (rule returns_mapE) (auto intro!: returns_intros split: option.split)
  then show ?thesis
    unfolding finish_fetch_def
    by (intro conn_rules ends_world ends_client_call conn_ends ends_pump [OF assms])
qed

text \<open>
  C37: a fetch ends. Where the cryptographic primitives and the name service return, and the clock
  gets past the time the fetch was given and stays there, \<open>fetch\<close> returns a result or raises:
  neither its loop nor any call it makes on the connection runs for ever, whatever the network
  delivers.
\<close>

theorem fetch_ends:
  assumes "prims_return (ee_prims E)" "ee_lookup E host port \<noteq> Inl Diverges"
    and "\<forall>i \<ge> N. wd_clock w 0 + co_timeout options \<le> wd_clock w i"
  shows "\<exists>r session' w'. fetch E k options host port paths session w = Some (r, session', w') \<and> r \<noteq> Inl Diverges"
proof -
  obtain r0 session0 w0 where opened: "open_fetch E k options host port paths session w = (r0, session0, w0)"
    by (cases "open_fetch E k options host port paths session w")
  note open_ends = open_fetch_ends [OF _ opened, unfolded returns_def, OF assms(2)]
  show ?thesis
  proof (cases r0)
    case (Inr s)
    with open_ends have clock: "wd_clock s = wd_clock w" by simp
    obtain r1 s1 where started: "start_fetch E (co_timeout options) s = (r1, s1)" by (cases "start_fetch E (co_timeout options) s")
    have "readings (wd_clock w) 0 s" using clock by (auto simp: readings_def intro!: exI [of _ 0])
    note start_ends = start_fetch_ends [OF started this]
    show ?thesis
    proof (cases r1)
      case (Inr deadline)
      with start_ends clock have "deadline = wd_clock w 0 + co_timeout options" by simp
      with assms(3) have late: "\<forall>i \<ge> N. deadline \<le> wd_clock w i" by simp
      obtain r2 s2 where loop: "fetch_loop E deadline (length paths) s1 = Some (r2, s2)" "returns r2"
        using fetch_loop_ends [OF assms(1) late] start_ends by blast
      have "returns (fst (finish_fetch E s2))" by (rule ends_fst [OF ends_finish_fetch [OF assms(1)]])
      with loop Inr started \<open>r0 = Inr s\<close> opened show ?thesis
        by (cases r2; cases "finish_fetch E s2") (auto simp: fetch_def returns_def)
    qed (use start_ends started Inr opened in \<open>auto simp: fetch_def returns_def\<close>)
  qed (use open_ends opened in \<open>auto simp: fetch_def\<close>)
qed


theorem fetch_ends_witness:
  "\<exists>r session' w'. fetch example_endpoint 0 (default_client_options\<lparr>co_insecure := True\<rparr>) ''localhost'' 4433 [''/'']
     None example_world = Some (r, session', w') \<and> r \<noteq> Inl Diverges"
proof (rule fetch_ends)
  show "\<forall>i \<ge> 30. wd_clock example_world 0 + co_timeout (default_client_options\<lparr>co_insecure := True\<rparr>) \<le> wd_clock example_world i"
    by (simp add: example_world_def default_client_options_def DEFAULT_TIMEOUT_def)
  show "prims_return (ee_prims example_endpoint)"
    by (simp add: example_endpoint_def example_env_def toy_prims_return)
qed (simp add: example_endpoint_def)

end
