(* ===== verification/Endpoint_Server.thy ===== *)
theory Endpoint_Server
  imports Endpoint_Io Hq
begin

text \<open>
  \<open>src/dsquic/endpoints/server.py\<close>: the reference server over one socket.

  A session is an object that the table can reach under two connection IDs, so the table maps a
  connection ID to the index of a session in \<open>sr_objects\<close>, and a change to the session is seen
  under both. The document root is a parameter: \<open>ee_files\<close> is what \<open>resolve\<close> finds. The argument
  parser, the loading of credentials and the socket calls of \<open>main\<close> are not modelled.
\<close>

unbundle bit_operations_syntax

section \<open>Model\<close>

definition TOKEN_LIFETIME :: time where "TOKEN_LIFETIME = 60"
definition NEW_TOKEN_LIFETIME :: time where "NEW_TOKEN_LIFETIME = 3600"
definition TOKEN_KEY_LENGTH :: nat where "TOKEN_KEY_LENGTH = 32"
definition TICKET_KEY_LENGTH :: nat where "TICKET_KEY_LENGTH = 32"

definition initial_header :: "bytes \<Rightarrow> long_header option result" where
  "initial_header data =
     (if data = [] \<or> uint (data ! 0) AND HEADER_FORM_LONG = 0 then Inr None
      else case parse_long_header data of
          Inl e \<Rightarrow> (case e of HeaderParseError \<Rightarrow> Inr None | UnsupportedVersion _ \<Rightarrow> Inr None | _ \<Rightarrow> Inl e)
        | Inr header \<Rightarrow> Inr (if lh_packet_type header = INITIAL then Some header else None))"

record session =
  ses_connection :: connection
  ses_requests :: "(int \<times> bytes) list"
  ses_deadline :: time

record server_options =
  so_idle_timeout :: time
  so_retry :: bool

record server = world +
  sr_config :: server_config
  sr_idle_timeout :: time
  sr_sessions :: "(bytes \<times> nat) list"
  sr_objects :: "session list"
  sr_token_key :: bytes
  sr_retry :: bool
  sr_connections_served :: int
  sr_connections_resumed :: int
  sr_connections_early_data :: int

definition mk_server :: "world \<Rightarrow> server_config \<Rightarrow> server_options \<Rightarrow> server" where
  "mk_server w config options =
     (let (config, r) = (if sc_ticket_key config = None
            then (config\<lparr>sc_ticket_key := Some (wd_rng w 0 TICKET_KEY_LENGTH)\<rparr>, rest_rng (wd_rng w))
            else (config, wd_rng w))
      in world.extend (w\<lparr>wd_rng := rest_rng r\<rparr>)
        \<lparr>sr_config = config, sr_idle_timeout = so_idle_timeout options, sr_sessions = [], sr_objects = [],
         sr_token_key = r 0 TOKEN_KEY_LENGTH, sr_retry = so_retry options, sr_connections_served = 0,
         sr_connections_resumed = 0, sr_connections_early_data = 0\<rparr>)"

text \<open>The session object, and a method of its connection.\<close>

definition upd_session :: "nat \<Rightarrow> (session \<Rightarrow> session) \<Rightarrow> (server, unit) se" where
  "upd_session i f = modS (\<lambda>s. s\<lparr>sr_objects := (sr_objects s)[i := f (sr_objects s ! i)]\<rparr>)"

definition connection_call :: "nat \<Rightarrow> (connection, 'a) se \<Rightarrow> (server, 'a) se" where
  "connection_call i f s =
     (case f (ses_connection (sr_objects s ! i)) of
        (r, c) \<Rightarrow> (r, s\<lparr>sr_objects := (sr_objects s)[i := (sr_objects s ! i)\<lparr>ses_connection := c\<rparr>]\<rparr>))"

definition get_session :: "nat \<Rightarrow> (server, session) se" where
  "get_session i = getS (\<lambda>s. sr_objects s ! i)"

definition send_pending :: "endpoint_env \<Rightarrow> nat \<Rightarrow> (server, unit) se" where
  "send_pending E i =
     bindS monotonic (\<lambda>now.
     bindS (connection_call i (datagrams_to_send (ee_prims E) now)) send_datagrams)"

definition send_retry :: "endpoint_env \<Rightarrow> long_header \<Rightarrow> address option \<Rightarrow> (server, unit) se" where
  "send_retry E header source =
     bindS (random_bytes CONNECTION_ID_LENGTH) (\<lambda>retry_cid.
     bindS wall_time (\<lambda>now.
     bindS (random_bytes NONCE_LENGTH) (\<lambda>n.
     bindS (getS sr_token_key) (\<lambda>key.
     bindS (liftS (mint_token (ee_prims E) n key (lh_destination_cid header) (address_bytes source) now)) (\<lambda>token.
     bindS (liftS (build_retry (ee_prims E) (lh_source_cid header) retry_cid token (lh_destination_cid header))) (\<lambda>packet.
       case source of None \<Rightarrow> retS () | Some address \<Rightarrow> sendto packet address))))))"

text \<open>The outcome of \<open>_validate_address\<close>: \<open>False\<close>, \<open>True\<close>, or the context of a Retry.\<close>

datatype validation = NotValidated | ValidatedByToken | ValidatedByRetry retry_context

definition check_token :: "endpoint_env \<Rightarrow> bytes \<Rightarrow> address option \<Rightarrow> bytes \<Rightarrow> (server, validation) se" where
  "check_token E token source cid =
     bindS (getS sr_token_key) (\<lambda>key.
     bindS wall_time (\<lambda>now.
       if take (length NEW_TOKEN) token = NEW_TOKEN
       then bindS (liftS (validate_new_token (ee_prims E) key token (address_bytes source) now NEW_TOKEN_LIFETIME))
              (\<lambda>_. retS ValidatedByToken)
       else bindS (liftS (validate_token (ee_prims E) key token (address_bytes source) now TOKEN_LIFETIME))
              (\<lambda>original. retS (ValidatedByRetry
                 \<lparr>rc_original_destination_cid = original, rc_source_cid = cid\<rparr>))))"

definition validate_address ::
  "endpoint_env \<Rightarrow> bytes \<Rightarrow> bytes \<Rightarrow> address option \<Rightarrow> (server, validation) se" where
  "validate_address E data cid source =
     bindS (liftS (initial_header data)) (\<lambda>found.
       case found of
         None \<Rightarrow> retS NotValidated
       | Some header \<Rightarrow>
           if lh_token header = []
           then bindS (send_retry E header source) (\<lambda>_. retS NotValidated)
           else catchS (check_token E (lh_token header) source cid) (\<lambda>e.
             if e = TokenError then bindS (send_retry E header source) (\<lambda>_. retS NotValidated)
             else raiseS e))"

definition accept :: "endpoint_env \<Rightarrow> bytes \<Rightarrow> retry_context option \<Rightarrow> (server, nat) se" where
  "accept E cid retry =
     bindS (getS id) (\<lambda>s.
     let i = length (sr_objects s)
     in bindS (liftS (mk_connection (ee_prims E) False None (Some (sr_config s))
          (default_connection_config\<lparr>cg_keylog := ee_keylog E, cg_qlog := Some (ee_qlog E), cg_retry := retry\<rparr>)
          None (ee_connection_rng E i) (ee_tls_rng E i))) (\<lambda>connection.
     bindS monotonic (\<lambda>now.
     bindS (modS (\<lambda>s. s\<lparr>sr_objects := sr_objects s @
         [\<lparr>ses_connection = connection, ses_requests = [], ses_deadline = now + sr_idle_timeout s\<rparr>],
       sr_sessions := AList.update cid i (sr_sessions s)\<rparr>)) (\<lambda>_. retS i))))"

text \<open>A datagram for a session that exists, the second half of \<open>_route\<close>.\<close>

definition deliver :: "endpoint_env \<Rightarrow> bytes \<Rightarrow> address option \<Rightarrow> int \<Rightarrow> nat \<Rightarrow> (server, unit) se" where
  "deliver E data source ecn i =
     bindS monotonic (\<lambda>now.
     bindS (connection_call i (datagram_received (ee_env E) data now source ecn)) (\<lambda>_.
     bindS monotonic (\<lambda>now.
     bindS (getS sr_idle_timeout) (\<lambda>timeout.
     bindS (upd_session i (\<lambda>session. session\<lparr>ses_deadline := now + timeout\<rparr>)) (\<lambda>_.
     bindS (get_session i) (\<lambda>session.
     let host_cid = cn_host_cid (ses_connection session)
     in modS (\<lambda>s. if map_of (sr_sessions s) host_cid \<noteq> None then s
                  else s\<lparr>sr_sessions := AList.update host_cid i (sr_sessions s)\<rparr>)))))))"

text \<open>The answer to a datagram of an unknown connection ID: the new session, if there is to be one.
  \<open>version_negotiation_response\<close> draws a random byte only for a packet that it builds, so the byte is
  looked at first and taken from the generator where there is a packet.\<close>

definition admit :: "endpoint_env \<Rightarrow> bytes \<Rightarrow> bytes \<Rightarrow> address option \<Rightarrow> (server, nat option) se" where
  "admit E data cid source =
     bindS (getS wd_rng) (\<lambda>rng.
     bindS (liftS (version_negotiation_response (hd (rng 0 1 @ [0])) data)) (\<lambda>negotiation.
     case negotiation of
       Some packet \<Rightarrow>
         bindS (random_bytes 1) (\<lambda>_.
         bindS (case source of None \<Rightarrow> retS () | Some address \<Rightarrow> sendto packet address) (\<lambda>_. retS None))
     | None \<Rightarrow>
         if uint (data ! 0) AND HEADER_FORM_LONG = 0 then retS None
         else bindS (getS sr_retry) (\<lambda>retry.
           bindS (if retry then validate_address E data cid source else retS ValidatedByToken) (\<lambda>validated.
             case validated of
               NotValidated \<Rightarrow> retS None
             | ValidatedByToken \<Rightarrow> bindS (accept E cid None) (\<lambda>i. retS (Some i))
             | ValidatedByRetry context \<Rightarrow> bindS (accept E cid (Some context)) (\<lambda>i. retS (Some i))))))"

definition route :: "endpoint_env \<Rightarrow> bytes \<Rightarrow> address option \<Rightarrow> int \<Rightarrow> (server, unit) se" where
  "route E data source ecn =
     (case destination_connection_id data CONNECTION_ID_LENGTH of
        None \<Rightarrow> retS ()
      | Some cid \<Rightarrow> bindS (getS sr_sessions) (\<lambda>sessions.
          case map_of sessions cid of
            Some i \<Rightarrow> deliver E data source ecn i
          | None \<Rightarrow> bindS (admit E data cid source) (\<lambda>admitted.
              case admitted of None \<Rightarrow> retS () | Some i \<Rightarrow> deliver E data source ecn i)))"

definition serve_event :: "endpoint_env \<Rightarrow> nat \<Rightarrow> connection_event \<Rightarrow> (server, unit) se" where
  "serve_event E i event =
     (case event of
        HandshakeCompleted alpn \<Rightarrow>
          bindS (get_session i) (\<lambda>session.
          bindS (getS sr_token_key) (\<lambda>key.
          bindS wall_time (\<lambda>now.
          bindS (random_bytes NONCE_LENGTH) (\<lambda>n.
          bindS (liftS (mint_new_token (ee_prims E) n key
              (address_bytes (cn_destination (ses_connection session))) now)) (\<lambda>token.
            connection_call i (send_new_token token))))))
      | StreamDataReceived sid data end_stream \<Rightarrow>
          bindS monotonic (\<lambda>now.
          bindS (getS sr_idle_timeout) (\<lambda>timeout.
          bindS (upd_session i (\<lambda>session. session\<lparr>ses_deadline := now + timeout,
            ses_requests := AList.update sid
              ((case map_of (ses_requests session) sid of None \<Rightarrow> [] | Some buffer \<Rightarrow> buffer) @ data)
              (ses_requests session)\<rparr>)) (\<lambda>_.
          whenS end_stream
            (bindS (get_session i) (\<lambda>session.
             bindS (someS (map_of (ses_requests session) sid)) (\<lambda>buffer.
               case parse_request buffer of
                 Inl e \<Rightarrow> if e = HqError then connection_call i (send_stream_data sid [] True) else raiseS e
               | Inr path \<Rightarrow> connection_call i
                   (send_stream_data sid (case ee_files E path of None \<Rightarrow> [] | Some body \<Rightarrow> body) True)))))))
      | _ \<Rightarrow> retS ())"

definition serve_requests :: "endpoint_env \<Rightarrow> nat \<Rightarrow> (server, unit) se" where
  "serve_requests E i =
     bindS (connection_call i take_events) (\<lambda>events. forS events (serve_event E i))"

definition is_finished :: "time \<Rightarrow> session \<Rightarrow> bool" where
  "is_finished now session \<longleftrightarrow>
     cn_state (ses_connection session) = TERMINATED \<or> now > ses_deadline session"

definition reaped :: "time \<Rightarrow> server \<Rightarrow> server" where
  "reaped now s =
     (let finished = filter (\<lambda>(cid, i). is_finished now (sr_objects s ! i)) (sr_sessions s);
         kept = filter (\<lambda>(cid, i). cid \<notin> set (map fst finished)) (sr_sessions s);
         departing = filter (\<lambda>i. i \<notin> set (map snd kept)) (remdups (map snd finished));
         tls = (\<lambda>i. cn_tls (ses_connection (sr_objects s ! i)))
     in s\<lparr>sr_sessions := kept,
          sr_connections_served := sr_connections_served s + len departing,
          sr_connections_resumed := sr_connections_resumed s
            + len (filter (\<lambda>i. case tls i of Some (ServerTls t) \<Rightarrow> sv_resumed t | _ \<Rightarrow> False) departing),
          sr_connections_early_data := sr_connections_early_data s
            + len (filter (\<lambda>i. case tls i of Some (ServerTls t) \<Rightarrow> sv_early_data_accepted t | _ \<Rightarrow> False) departing)\<rparr>)"

definition reap :: "time \<Rightarrow> (server, unit) se" where
  "reap now = modS (reaped now)"

definition poll_deadlines :: "(server, time option list) se" where
  "poll_deadlines =
     bindS (getS id) (\<lambda>s.
     let sessions = map (\<lambda>(cid, i). sr_objects s ! i) (sr_sessions s)
     in if sessions = []
     then bindS monotonic (\<lambda>now. retS [Some (now + sr_idle_timeout s)])
     else bindS (liftS (mapE (\<lambda>session. next_timer (ses_connection session)) sessions)) (\<lambda>timers.
            retS (timers @ map (\<lambda>session. Some (ses_deadline session)) sessions)))"

definition live :: "(server, nat list) se" where
  "live = getS (\<lambda>s. map snd (sr_sessions s))"

definition poll :: "endpoint_env \<Rightarrow> (server, unit) se" where
  "poll E = doS [
     bindS live (\<lambda>sessions. forS sessions (send_pending E)),
     bindS poll_deadlines (\<lambda>deadlines.
     bindS (wait_for_readable deadlines) (\<lambda>received.
       forS received (\<lambda>(data, source, ecn). route E data source ecn))),
     bindS monotonic (\<lambda>now. doS [
       bindS live (\<lambda>sessions. forS sessions (\<lambda>i. doS [
         connection_call i (handle_timer now),
         serve_requests E i,
         send_pending E i])),
       reap now])]"

text \<open>\<open>serve\<close>: \<open>None\<close> where the loop runs for ever.\<close>

partial_function (option) serve :: "endpoint_env \<Rightarrow> int option \<Rightarrow> server \<Rightarrow> (unit result \<times> server) option" where
  "serve E connection_limit s =
     (if (case connection_limit of None \<Rightarrow> False | Some n \<Rightarrow> n \<le> sr_connections_served s) then Some (Inr (), s)
      else case fst (poll E s) of
          Inl e \<Rightarrow> Some (Inl e, snd (poll E s))
        | Inr _ \<Rightarrow> serve E connection_limit (snd (poll E s)))"



section \<open>Every connection is served once\<close>

text \<open>
  \<open>books\<close>: connection IDs are unique in the table, they lead to sessions that exist, and the
  connections served and the sessions the table still reaches are together all that were accepted.
\<close>

definition session_ids :: "server \<Rightarrow> nat set" where
  "session_ids s = set (map snd (sr_sessions s))"

definition books :: "server \<Rightarrow> bool" where
  "books s \<longleftrightarrow> distinct (map fst (sr_sessions s)) \<and> (\<forall>i \<in> session_ids s. i < length (sr_objects s))
     \<and> sr_connections_served s + int (card (session_ids s)) = int (length (sr_objects s))"

definition same_books :: "server \<Rightarrow> server \<Rightarrow> bool" where
  "same_books s t \<longleftrightarrow> sr_sessions t = sr_sessions s \<and> length (sr_objects t) = length (sr_objects s)
     \<and> sr_connections_served t = sr_connections_served s"

named_theorems server_keeps \<open>methods that keep what depends on the table alone\<close>

definition table_only :: "(server \<Rightarrow> bool) \<Rightarrow> bool" where
  "table_only I \<longleftrightarrow> (\<forall>s t. same_books s t \<longrightarrow> I s \<longrightarrow> I t)"

lemma keeps_table_only: "table_only I \<Longrightarrow> (\<And>s. same_books s (f s)) \<Longrightarrow> keeps I (modS f)"
  by (rule keeps_modS) (auto simp: table_only_def)

lemma keeps_world [server_keeps]:
  assumes "table_only I"
  shows "keeps I monotonic" "keeps I wall_time" "keeps I (random_bytes n)" "keeps I (sendto data a)" "keeps I (set_ecn e)"
    "keeps I (upd_session i f)" "keeps I (get_session i)" "keeps I (connection_call i g)" "keeps I live"
proof -
  show "keeps I monotonic" "keeps I wall_time" "keeps I (random_bytes n)" "keeps I (sendto data a)" "keeps I (set_ecn e)"
    "keeps I (upd_session i f)" "keeps I (get_session i)" "keeps I live"
    unfolding monotonic_def wall_time_def random_bytes_def sendto_def set_ecn_def upd_session_def get_session_def live_def
    by ((rule keeps_intros) | (rule keeps_table_only [OF assms], simp add: same_books_def))+
  show "keeps I (connection_call i g)"
    using assms by (auto simp: keeps_iff connection_call_def table_only_def same_books_def split: prod.split)
qed

lemma keeps_send [server_keeps]:
  assumes "table_only I"
  shows "keeps I (send_datagrams ds)" "keeps I (send_pending E i)" "keeps I (send_retry E header source)"
proof -
  show datagrams: "keeps I (send_datagrams ds)" for ds
    unfolding send_datagrams_def by (rule server_keeps [OF assms] keeps_intros keeps_forS)+
  show "keeps I (send_pending E i)" "keeps I (send_retry E header source)"
    unfolding send_pending_def send_retry_def by (rule server_keeps [OF assms] datagrams keeps_intros)+
qed

lemma keeps_validate_address [server_keeps]:
  assumes "table_only I"
  shows "keeps I (validate_address E data cid source)"
  unfolding validate_address_def check_token_def by (rule server_keeps [OF assms] keeps_intros)+

lemma keeps_serve_requests [server_keeps]:
  assumes "table_only I"
  shows "keeps I (serve_requests E i)"
proof -
  have "keeps I (serve_event E i event)" for event
    unfolding serve_event_def
    by (cases event; simp only: connection_event.case; (intro server_keeps [OF assms] keeps_intros)?; assumption?)
  then show ?thesis
    unfolding serve_requests_def by (intro server_keeps [OF assms] keeps_intros keeps_forS)
qed

lemma keeps_wait [server_keeps]:
  assumes "table_only I"
  shows "keeps I poll_deadlines" "keeps I (wait_for_readable deadlines)"
  unfolding poll_deadlines_def wait_for_readable_def Let_def
  by ((rule server_keeps [OF assms] keeps_intros) | (rule keeps_table_only [OF assms], simp add: same_books_def))+

lemma table_only_books:
  "table_only books" "table_only (\<lambda>s. books s \<and> i \<in> session_ids s)"
  "table_only (\<lambda>s. books s \<and> map_of (sr_sessions s) cid = None)"
  by (auto simp: table_only_def same_books_def books_def session_ids_def)


lemma session_ids_update:
  "map_of (sr_sessions s) cid = None \<Longrightarrow>
   session_ids (s\<lparr>sr_sessions := AList.update cid i (sr_sessions s)\<rparr>) = insert i (session_ids s)"
proof -
  have "map_of xs cid = None \<Longrightarrow> AList.update cid i xs = xs @ [(cid, i)]" for xs :: "(bytes \<times> nat) list"
    by (induction xs) (auto split: if_splits)
  then show "map_of (sr_sessions s) cid = None \<Longrightarrow>
   session_ids (s\<lparr>sr_sessions := AList.update cid i (sr_sessions s)\<rparr>) = insert i (session_ids s)"
    by (simp add: session_ids_def)
qed

lemma finite_session_ids [simp]: "finite (session_ids s)"
  by (simp add: session_ids_def)

lemma accept_books:
  "triple (\<lambda>s. books s \<and> map_of (sr_sessions s) cid = None) (accept E cid retry)
     (\<lambda>i s. books s \<and> i \<in> session_ids s) (\<lambda>_. books)"
proof -
  have step: "books s' \<and> length (sr_objects s) \<in> session_ids s'"
    if "books s" "map_of (sr_sessions s) cid = None"
      and s': "s' = s\<lparr>wd_clock := k, sr_objects := sr_objects s @ [x],
        sr_sessions := AList.update cid (length (sr_objects s)) (sr_sessions s)\<rparr>"
    for s s' k x
  proof -
    have ids: "session_ids s' = insert (length (sr_objects s)) (session_ids s)"
      using session_ids_update [of s cid "length (sr_objects s)"] that by (simp add: session_ids_def)
    have "length (sr_objects s) \<notin> session_ids s" using that(1) by (auto simp: books_def)
    with ids that show ?thesis by (auto simp: books_def distinct_update)
  qed
  show ?thesis
    unfolding triple_def accept_def monotonic_def
    by (auto simp: Let_def bindS_def step [OF _ _ refl] split: sum.split prod.split)
qed


lemma deliver_books: "triple (\<lambda>s. books s \<and> i \<in> session_ids s) (deliver E data source ecn i) (\<lambda>_. books) (\<lambda>_. books)"
proof -
  define I where "I = (\<lambda>s. books s \<and> i \<in> session_ids s)"
  note kept = server_keeps [OF table_only_books(2) [of i], folded I_def]
  have "books (s\<lparr>sr_sessions := AList.update cid i (sr_sessions s)\<rparr>)" "i \<in> session_ids (s\<lparr>sr_sessions := AList.update cid i (sr_sessions s)\<rparr>)"
    if "I s" "map_of (sr_sessions s) cid = None" for s cid
    using that session_ids_update [OF that(2), of i]
    by (auto simp: I_def books_def distinct_update insert_absorb)
  then have "keeps I (deliver E data source ecn i)"
    unfolding deliver_def Let_def
    by (intro keeps_intros kept keeps_modS) (auto simp: I_def)
  then show ?thesis
    unfolding keeps_def I_def by (rule triple_weaken) simp_all
qed

lemma admit_books:
  "triple (\<lambda>s. books s \<and> map_of (sr_sessions s) cid = None) (admit E data cid source)
     (\<lambda>admitted s. books s \<and> (\<forall>i. admitted = Some i \<longrightarrow> i \<in> session_ids s)) (\<lambda>_. books)"
proof -
  define I where "I = (\<lambda>s. books s \<and> map_of (sr_sessions s) cid = None)"
  define Q where "Q = (\<lambda>admitted s. books s \<and> (\<forall>i. admitted = Some i \<longrightarrow> i \<in> session_ids s))"
  have kept: "triple I m (\<lambda>_. I) (\<lambda>_. books)" if "keeps I m" for m :: "(server, 'x) se"
    using that unfolding keeps_def by (rule triple_weaken) (auto simp: I_def)
  have none: "triple I (retS None) Q (\<lambda>_. books)" by (simp add: triple_def I_def Q_def)
  have accepted: "triple I (bindS (accept E cid retry) (\<lambda>i. retS (Some i))) Q (\<lambda>_. books)" for retry
    using accept_books [of cid E retry] unfolding I_def
    by (rule triple_bindS) (simp add: triple_def Q_def)
  note world = server_keeps [OF table_only_books(3) [of cid], folded I_def]
  have "triple I (admit E data cid source) Q (\<lambda>_. books)"
    unfolding admit_def
    by (intro triple_bindS [where R = "\<lambda>_. I"] kept keeps_intros world;
        simp add: none accepted triple_bindS [OF kept none] kept keeps_intros world split: option.split validation.split;
        intro conjI impI allI triple_bindS [where R = "\<lambda>_. I"] kept keeps_intros world none;
        simp add: none accepted split: validation.split)
  then show ?thesis by (simp add: I_def Q_def)
qed


lemma map_of_session: "map_of (sr_sessions s) cid = Some i \<Longrightarrow> i \<in> session_ids s"
  by (force simp: session_ids_def dest: map_of_SomeD)

lemma keeps_route: "keeps books (route E data source ecn)"
  unfolding keeps_def triple_def
proof (intro allI impI)
  fix s assume s: "books s"
  show "case route E data source ecn s of (Inl e, t) \<Rightarrow> books t | (Inr x, t) \<Rightarrow> books t"
  proof (cases "destination_connection_id data CONNECTION_ID_LENGTH")
    case (Some cid)
    show ?thesis
    proof (cases "map_of (sr_sessions s) cid")
      case None
      have "triple (\<lambda>s. books s \<and> map_of (sr_sessions s) cid = None) (bindS (admit E data cid source) (\<lambda>admitted.
              case admitted of None \<Rightarrow> retS () | Some i \<Rightarrow> deliver E data source ecn i)) (\<lambda>_. books) (\<lambda>_. books)"
      proof (rule triple_bindS [OF admit_books])
        show "triple (\<lambda>s. books s \<and> (\<forall>i. admitted = Some i \<longrightarrow> i \<in> session_ids s))
          (case admitted of None \<Rightarrow> retS () | Some i \<Rightarrow> deliver E data source ecn i) (\<lambda>_. books) (\<lambda>_. books)" for admitted
        proof (cases admitted)
          case (Some i)
          then show ?thesis using triple_weaken [OF deliver_books [of i E data source ecn]] by simp
        qed (simp add: triple_def)
      qed
      with s None Some show ?thesis by (simp add: route_def triple_def)
    next
      case (Some i)
      with deliver_books [of i E data source ecn] s map_of_session [OF Some] \<open>destination_connection_id data _ = Some cid\<close>
      show ?thesis by (simp add: route_def triple_def)
    qed
  qed (simp add: route_def s)
qed

lemma keeps_reap: "keeps books (reap now)"
  unfolding reap_def
proof (rule keeps_modS)
  fix s assume s: "books s"
  define finished where "finished = filter (\<lambda>(cid, i). is_finished now (sr_objects s ! i)) (sr_sessions s)"
  define kept where "kept = filter (\<lambda>(cid, i). cid \<notin> set (map fst finished)) (sr_sessions s)"
  have kept: "kept = filter (\<lambda>(cid, i). \<not> is_finished now (sr_objects s ! i)) (sr_sessions s)"
  proof -
    have "cid \<in> fst ` set finished \<longleftrightarrow> is_finished now (sr_objects s ! i)" if "(cid, i) \<in> set (sr_sessions s)" for cid i
      using that s unfolding finished_def books_def by (auto simp: image_iff dest: eq_key_imp_eq_value)
    then show ?thesis unfolding kept_def by (intro filter_cong) auto
  qed
  have split: "session_ids s = set (map snd kept) \<union> set (map snd finished)"
    "set (map snd kept) \<inter> set (map snd finished) = {}"
    unfolding session_ids_def kept finished_def by force+
  have departing: "filter (\<lambda>i. i \<notin> set (map snd kept)) (remdups (map snd finished)) = remdups (map snd finished)"
    using split(2) by (auto simp: filter_id_conv)
  have "card (session_ids s) = card (set (map snd kept)) + length (remdups (map snd finished))"
    unfolding split(1) using card_Un_disjoint [OF _ _ split(2)] by (simp add: length_remdups_card_conv)
  then have "sr_connections_served s + len (remdups (map snd finished)) + int (card (set (map snd kept))) = int (length (sr_objects s))"
    using s by (simp add: books_def)
  moreover have "distinct (map fst kept)" "\<forall>i \<in> set (map snd kept). i < length (sr_objects s)"
    using s unfolding kept by (auto simp: books_def session_ids_def distinct_map_filter)
  ultimately show "books (reaped now s)"
    unfolding reaped_def Let_def finished_def [symmetric] kept_def [symmetric] departing
    by (simp add: books_def session_ids_def)
qed

lemma keeps_poll: "keeps books (poll E)"
proof -
  note kept = server_keeps [OF table_only_books(1)]
  show ?thesis
    unfolding poll_def by (rule kept keeps_route keeps_reap keeps_intros keeps_forS)+
qed


lemma books_mk_server: "books (mk_server w config options)"
  by (simp add: mk_server_def books_def session_ids_def Let_def world.extend_def)

text \<open>The state after \<open>n\<close> polls, whatever they returned or raised.\<close>

definition polls :: "endpoint_env \<Rightarrow> nat \<Rightarrow> server \<Rightarrow> server" where
  "polls E n = (\<lambda>s. snd (poll E s)) ^^ n"

lemma polls_Suc: "polls E (Suc n) s = polls E n (snd (poll E s))"
  by (simp add: polls_def funpow_Suc_right del: funpow.simps)

lemma books_polls: "books s \<Longrightarrow> books (polls E n s)"
  using keeps_poll [of E] by (induction n) (auto simp: keeps_iff polls_def)

text \<open>The server stops in a state that polling reaches, and without an error only at its limit.\<close>

lemma serve_stops:
  assumes "serve E connection_limit s = Some y"
  shows "\<exists>n. snd y = polls E n s
    \<and> (fst y = Inr () \<longrightarrow> (\<exists>limit. connection_limit = Some limit \<and> limit \<le> sr_connections_served (snd y)))"
proof (rule serve.raw_induct [OF _ assms])
  fix serve' E limit s y
  assume IH: "\<And>E limit s y. serve' E limit s = Some y \<Longrightarrow> \<exists>n. snd y = polls E n s
      \<and> (fst y = Inr () \<longrightarrow> (\<exists>l. limit = Some l \<and> l \<le> sr_connections_served (snd y)))"
    and run: "(if (case limit of None \<Rightarrow> False | Some n \<Rightarrow> n \<le> sr_connections_served s) then Some (Inr (), s)
      else case fst (poll E s) of Inl e \<Rightarrow> Some (Inl e, snd (poll E s)) | Inr _ \<Rightarrow> serve' E limit (snd (poll E s))) = Some y"
  show "\<exists>n. snd y = polls E n s \<and> (fst y = Inr () \<longrightarrow> (\<exists>l. limit = Some l \<and> l \<le> sr_connections_served (snd y)))"
  proof (cases "case limit of None \<Rightarrow> False | Some n \<Rightarrow> n \<le> sr_connections_served s")
    case True
    then show ?thesis using run by (intro exI [of _ 0]) (auto simp: polls_def split: option.splits)
  next
    case False
    show ?thesis
    proof (cases "fst (poll E s)")
      case (Inl e)
      with False run show ?thesis by (intro exI [of _ 1]) (auto simp: polls_def)
    next
      case (Inr x)
      with False run have "serve' E limit (snd (poll E s)) = Some y" by auto
      from IH [OF this] obtain n where "snd y = polls E n (snd (poll E s))"
        "fst y = Inr () \<longrightarrow> (\<exists>l. limit = Some l \<and> l \<le> sr_connections_served (snd y))" by auto
      then show ?thesis by (intro exI [of _ "Suc n"]) (simp add: polls_Suc)
    qed
  qed
qed

text \<open>
  C12: a server serves every connection exactly once: after any number of polls, whatever arrived
  and whether or not a poll raised, the connections it has counted as served and the sessions its
  table still reaches are together all the connections it ever accepted, although a session is
  reachable under two connection IDs.
\<close>

theorem connections_served_once:
  "let s = polls E n (mk_server w config options)
   in sr_connections_served s + int (card (set (map snd (sr_sessions s)))) = int (length (sr_objects s))"
  using books_polls [OF books_mk_server, of E n w config options] by (simp add: books_def session_ids_def)


section \<open>Address validation\<close>

text \<open>
  A token that proves an address: sealed under the server's key, with a payload that names the
  address and an issue time not too long ago.
\<close>

definition names_address :: "address option \<Rightarrow> time \<Rightarrow> time \<Rightarrow> bytes \<Rightarrow> bool" where
  "names_address source now lifetime payload \<longleftrightarrow> (\<exists>before issued rest.
     payload = before @ address_bytes source @ issued @ rest \<and> length issued = 8 \<and> now - of_int (from_be issued) \<le> lifetime)"

definition proves_address :: "prims \<Rightarrow> bytes \<Rightarrow> bytes \<Rightarrow> address option \<Rightarrow> time \<Rightarrow> bool" where
  "proves_address P key token source now \<longleftrightarrow> (\<exists>n payload sealed.
     token = NEW_TOKEN @ n @ sealed \<and> prim_aesgcm_encrypt P key n payload NEW_TOKEN = Inr sealed
       \<and> names_address source now NEW_TOKEN_LIFETIME payload
       \<and> fst (pull_new_token (address_bytes source) now NEW_TOKEN_LIFETIME (mk_buffer payload)) = Inr ()
     \<or> token = RETRY_TOKEN @ n @ sealed \<and> prim_aesgcm_encrypt P key n payload RETRY_TOKEN = Inr sealed
       \<and> names_address source now TOKEN_LIFETIME payload
       \<and> (\<exists>original. fst (pull_token (address_bytes source) now TOKEN_LIFETIME (mk_buffer payload)) = Inr original))"

lemma pull_varint_prefix:
  "pull_varint (buf_at pre rest) = (Inr v, b) \<Longrightarrow> \<exists>w rest'. rest = w @ rest' \<and> b = buf_at (pre @ w) rest'"
  by (auto simp: pull_varint_def pull_uint8_def bindS_Inr_iff pull_bytes_at_Inr_iff Let_def) (metis append.assoc append_Cons append_Nil)

lemma pull_vector_prefix:
  "bindS pull_varint pull_bytes (buf_at pre rest) = (Inr bs, b) \<Longrightarrow>
   \<exists>w rest'. rest = w @ bs @ rest' \<and> b = buf_at (pre @ w @ bs) rest'"
  by (auto simp: bindS_Inr_iff pull_bytes_at_Inr_iff dest!: pull_varint_prefix) blast

lemma pull_tokens_address:
  "fst (pull_new_token (address_bytes source) now lifetime (mk_buffer payload)) = Inr () \<Longrightarrow> names_address source now lifetime payload"
  "fst (pull_token (address_bytes source) now lifetime (mk_buffer payload)) = Inr original \<Longrightarrow> names_address source now lifetime payload"
proof -
  have fst_Inr: "(fst p = Inr x) = (\<exists>b. p = (Inr x, b))" for p :: "'x result \<times> buffer" and x by (cases p) auto
  have times: "token_times address client issued now lifetime b = (Inr x, b') \<longleftrightarrow>
      address = client \<and> now - of_int issued \<le> lifetime \<and> b' = b" for address client issued b x b'
    by (auto simp: token_times_def)
  have start: "mk_buffer payload = buf_at [] payload" by (simp add: mk_buffer_at)
  have I: "names_address source now lifetime (before @ address_bytes source @ issued @ rest)"
    if "length issued = 8" "now - of_int (from_be issued) \<le> lifetime" for before issued rest
    unfolding names_address_def using that by blast
  show "fst (pull_new_token (address_bytes source) now lifetime (mk_buffer payload)) = Inr () \<Longrightarrow> names_address source now lifetime payload"
    unfolding start fst_Inr pull_new_token_def
    by (auto simp: bindS_Inr_iff [where m = "bindS pull_varint pull_bytes"] bindS_Inr_iff [where m = "pull_bytes 8"] times
        pull_bytes_at_Inr_iff dest!: pull_vector_prefix intro: I)
  show "fst (pull_token (address_bytes source) now lifetime (mk_buffer payload)) = Inr original \<Longrightarrow> names_address source now lifetime payload"
    unfolding start fst_Inr pull_token_def
    by (auto simp: bindS_Inr_iff [where m = "bindS pull_varint pull_bytes"] bindS_Inr_iff [where m = "pull_bytes 8"] times
        bindS_Inr_iff [where m = "token_times _ _ _ _ _"] pull_bytes_at_Inr_iff dest!: pull_vector_prefix intro: I [of _ "_ @ _ @ _", simplified])
qed

lemma open_token_genuine:
  assumes "gcm_ok P" "open_token P key kind token = Inr payload" "take (length kind) token = kind"
  obtains n sealed where "token = kind @ n @ sealed" "prim_aesgcm_encrypt P key n payload kind = Inr sealed"
proof
  show "token = kind @ take NONCE_LENGTH (drop (length kind) token) @ drop (length kind + NONCE_LENGTH) token"
    using assms(3) by (metis append_take_drop_id drop_drop add.commute)
  from assms(2) have "prim_aesgcm_decrypt P key (take NONCE_LENGTH (drop (length kind) token))
      (drop (length kind + NONCE_LENGTH) token) kind = Inr payload"
    by (auto simp: open_token_def Let_def split: sum.splits)
  then show "prim_aesgcm_encrypt P key (take NONCE_LENGTH (drop (length kind) token)) payload kind
      = Inr (drop (length kind + NONCE_LENGTH) token)"
    by (rule aead_okD(3) [OF gcm_aead [OF assms(1)]])
qed

lemma validated_token:
  assumes "gcm_ok P"
  shows "validate_new_token P key token (address_bytes source) now NEW_TOKEN_LIFETIME = Inr () \<Longrightarrow> proves_address P key token source now"
    and "validate_token P key token (address_bytes source) now TOKEN_LIFETIME = Inr original \<Longrightarrow> proves_address P key token source now"
proof -
  assume "validate_new_token P key token (address_bytes source) now NEW_TOKEN_LIFETIME = Inr ()"
  then obtain payload where "open_token P key NEW_TOKEN token = Inr payload" "take (length NEW_TOKEN) token = NEW_TOKEN"
    "fst (pull_new_token (address_bytes source) now NEW_TOKEN_LIFETIME (mk_buffer payload)) = Inr ()"
    by (auto simp: validate_new_token_def bindE_Inr_iff split: if_splits)
  then show "proves_address P key token source now"
    using open_token_genuine [OF assms] pull_tokens_address unfolding proves_address_def by metis
next
  assume "validate_token P key token (address_bytes source) now TOKEN_LIFETIME = Inr original"
  then obtain payload where "open_token P key RETRY_TOKEN token = Inr payload" "take (length RETRY_TOKEN) token = RETRY_TOKEN"
    "fst (pull_token (address_bytes source) now TOKEN_LIFETIME (mk_buffer payload)) = Inr original"
    by (auto simp: validate_token_def bindE_Inr_iff split: if_splits)
  then show "proves_address P key token source now"
    using open_token_genuine [OF assms] pull_tokens_address unfolding proves_address_def by metis
qed

text \<open>\<open>unchanged k s t\<close>: no session came or went, and at most \<open>k\<close> packets left.\<close>

definition unchanged :: "nat \<Rightarrow> server \<Rightarrow> server \<Rightarrow> bool" where
  "unchanged k s t \<longleftrightarrow> sr_sessions t = sr_sessions s \<and> sr_objects t = sr_objects s \<and> length (wd_sent t) \<le> length (wd_sent s) + k"

lemma unchanged_mono: "unchanged 0 s t \<Longrightarrow> unchanged k s t"
  by (simp add: unchanged_def)

lemma keeps_unchanged:
  "keeps (unchanged 0 s) wall_time" "keeps (unchanged 0 s) (random_bytes n)" "keeps (unchanged 0 s) (check_token E token source cid)"
  unfolding check_token_def wall_time_def random_bytes_def
  by ((rule keeps_intros) | (rule keeps_modS, simp add: unchanged_def))+

lemma send_retry_unchanged:
  assumes "unchanged 0 s t"
  shows "unchanged 1 s (snd (send_retry E header source t))"
proof -
  have step: "triple (unchanged 0 s) (bindS m k) (\<lambda>_. unchanged 1 s) (\<lambda>_. unchanged 1 s)"
    if "keeps (unchanged 0 s) m" "\<And>x. triple (unchanged 0 s) (k x) (\<lambda>_. unchanged 1 s) (\<lambda>_. unchanged 1 s)"
    for m :: "(server, 'x) se" and k :: "'x \<Rightarrow> (server, unit) se"
    by (rule triple_bindS [OF triple_weaken [OF that(1) [unfolded keeps_def]] that(2)]) (auto simp: unchanged_mono)
  have "triple (unchanged 0 s) (case source of None \<Rightarrow> retS () | Some address \<Rightarrow> sendto packet address)
      (\<lambda>_. unchanged 1 s) (\<lambda>_. unchanged 1 s)" for packet
    by (auto simp: triple_def sendto_def unchanged_def split: option.split)
  then have "triple (unchanged 0 s) (send_retry E header source) (\<lambda>_. unchanged 1 s) (\<lambda>_. unchanged 1 s)"
    unfolding send_retry_def by (intro step keeps_unchanged keeps_basic)
  with assms show ?thesis
    by (cases "send_retry E header source t"; cases "fst (send_retry E header source t)") (auto simp: triple_def)
qed

lemma snd_bindS_ret: "snd (bindS m (\<lambda>_. retS x) s) = snd (m s)"
  by (simp add: bindS_def split: prod.split sum.split)

lemma validate_address_unchanged: "unchanged 1 s (snd (validate_address E data cid source s))"
proof (cases "initial_header data")
  case (Inr found)
  have same: "unchanged 0 s s" by (simp add: unchanged_def)
  show ?thesis
  proof (cases found)
    case (Some h)
    obtain r t where c: "check_token E (lh_token h) source cid s = (r, t)"
      by (cases "check_token E (lh_token h) source cid s")
    with keepsD [OF keeps_unchanged(3) same] have t: "unchanged 0 s t" by simp
    show ?thesis
      using Inr Some c send_retry_unchanged [OF t, of E h source] send_retry_unchanged [OF same, of E h source]
        unchanged_mono [OF t, of 1]
      by (cases r) (auto simp: validate_address_def catchS_def snd_bindS_ret)
  qed (simp add: Inr validate_address_def unchanged_def)
qed (simp add: validate_address_def unchanged_def)

lemma validate_address_proven:
  assumes "gcm_ok (ee_prims E)" "validate_address E data cid source s = (Inr v, t)" "v \<noteq> NotValidated"
  shows "\<exists>h. parse_long_header data = Inr h \<and> lh_packet_type h = INITIAL
    \<and> proves_address (ee_prims E) (sr_token_key s) (lh_token h) source (wd_wall s 0)"
proof -
  from assms(2,3) obtain h where h: "initial_header data = Inr (Some h)" and token: "lh_token h \<noteq> []"
    and c: "catchS (check_token E (lh_token h) source cid) (\<lambda>e.
      if e = TokenError then bindS (send_retry E h source) (\<lambda>_. retS NotValidated) else raiseS e) s = (Inr v, t)"
    unfolding validate_address_def by (auto simp: bindS_Inr_iff split: option.splits if_splits)
  obtain r u where k: "check_token E (lh_token h) source cid s = (r, u)"
    by (cases "check_token E (lh_token h) source cid s")
  with c assms(3) have c: "check_token E (lh_token h) source cid s = (Inr v, t)"
    by (cases r) (auto simp: catchS_def bindS_Inr_iff split: if_splits)
  from h have "parse_long_header data = Inr h \<and> lh_packet_type h = INITIAL"
    by (auto simp: initial_header_def split: if_splits sum.splits exn.splits)
  moreover have "proves_address (ee_prims E) (sr_token_key s) (lh_token h) source (wd_wall s 0)"
    using c validated_token [OF assms(1)]
    by (auto simp: check_token_def wall_time_def bindS_Inr_iff split: if_splits)
  ultimately show ?thesis by blast
qed


lemma admit_unproven:
  assumes "gcm_ok (ee_prims E)" "sr_retry s" "admit E data cid source s = (r, t)"
    and "\<nexists>h. parse_long_header data = Inr h \<and> lh_packet_type h = INITIAL
      \<and> proves_address (ee_prims E) (sr_token_key s) (lh_token h) source (wd_wall s 0)"
  shows "unchanged 1 s t \<and> (\<forall>i. r \<noteq> Inr (Some i))"
proof -
  define negotiation where "negotiation = version_negotiation_response (hd (wd_rng s 0 1 @ [0])) data"
  obtain v u where val: "validate_address E data cid source s = (v, u)" by (cases "validate_address E data cid source s")
  have v: "v = Inr NotValidated \<or> (\<exists>e. v = Inl e)"
    using validate_address_proven [OF assms(1), of data cid source s _ u] val assms(4) by (cases v) auto
  have u: "unchanged 1 s u" using validate_address_unchanged [of s E data cid source] val by simp
  have run: "(case negotiation of Inl e \<Rightarrow> (Inl e, s)
     | Inr (Some packet) \<Rightarrow> bindS (case source of None \<Rightarrow> retS () | Some address \<Rightarrow> sendto packet address) (\<lambda>_. retS None)
         (s\<lparr>wd_rng := rest_rng (wd_rng s)\<rparr>)
     | Inr None \<Rightarrow> if uint (data ! 0) AND 0x80 = 0 then (Inr None, s)
         else case v of Inl e \<Rightarrow> (Inl e, u) | Inr _ \<Rightarrow> (Inr None, u)) = (r, t)"
    using assms(2,3) val v
    by (auto simp: admit_def random_bytes_def negotiation_def bindS_def split: sum.splits option.splits if_splits)
  then show ?thesis
    using u by (auto simp: unchanged_def sendto_def bindS_def split: sum.splits option.splits if_splits)
qed

text \<open>
  C4: a server that validates addresses commits nothing to a client that has not proven its
  address: a datagram that matches no session and does not carry, in an Initial packet, a token
  sealed under the server's own key for the source address and still within its lifetime, leaves
  the sessions and the table as they were and draws at most one packet, a Retry or a Version
  Negotiation.
\<close>

theorem unproven_address_gets_no_state:
  assumes "gcm_ok (ee_prims E)" "sr_retry s"
    and "destination_connection_id data CONNECTION_ID_LENGTH = Some cid" "map_of (sr_sessions s) cid = None"
    and "\<nexists>h. parse_long_header data = Inr h \<and> lh_packet_type h = INITIAL
      \<and> proves_address (ee_prims E) (sr_token_key s) (lh_token h) source (wd_wall s 0)"
  shows "let t = snd (route E data source ecn s)
    in sr_sessions t = sr_sessions s \<and> sr_objects t = sr_objects s \<and> length (wd_sent t) \<le> length (wd_sent s) + 1"
proof -
  obtain r t where admit: "admit E data cid source s = (r, t)" by (cases "admit E data cid source s")
  from admit_unproven [OF assms(1,2) admit assms(5)] admit assms(3,4) show ?thesis
    by (cases r) (auto simp: route_def unchanged_def split: option.split)
qed


lemma short_token_raises:
  assumes "prims_ok (ee_prims E)" "aes_key_ok (sr_token_key s)" "sr_retry s"
    and "destination_connection_id data CONNECTION_ID_LENGTH = Some cid" "map_of (sr_sessions s) cid = None"
    and "initial_header data = Inr (Some h)" "from_be (take 4 (drop 1 data)) = QUIC_V1"
    and "take 1 (lh_token h) = RETRY_TOKEN" "length (lh_token h) < 9"
  shows "\<exists>t. route E data source ecn s = (Inl ValueError, t)"
proof -
  have "lh_token h \<noteq> RETRY_TOKEN @ n @ sealed"
    if "prim_aesgcm_encrypt (ee_prims E) (sr_token_key s) n payload RETRY_TOKEN = Inr sealed" for n payload sealed
    using aead_okD(1) [OF gcm_aead [OF prims_okD(1) [OF assms(1)]] that] assms(9) by auto
  from validate_token_errors [OF assms(1,2) this] assms(8,9)
  have "validate_token (ee_prims E) (sr_token_key s) (lh_token h) a now lifetime = Inl ValueError" for a now lifetime
    by simp
  moreover have "take (length NEW_TOKEN) (lh_token h) \<noteq> NEW_TOKEN" "lh_token h \<noteq> []"
    using assms(8) by (auto simp: NEW_TOKEN_def RETRY_TOKEN_def)
  ultimately have "fst (check_token E (lh_token h) source cid s) = Inl ValueError"
    by (simp add: check_token_def wall_time_def)
  then obtain u where "check_token E (lh_token h) source cid s = (Inl ValueError, u)" by (metis fst_conv surj_pair)
  then have v: "validate_address E data cid source s = (Inl ValueError, u)"
    using assms(6) \<open>lh_token h \<noteq> []\<close> by (simp add: validate_address_def catchS_def)
  have "data \<noteq> []" "uint (data ! 0) AND 0x80 \<noteq> 0"
    using assms(6) by (auto simp: initial_header_def split: if_splits)
  moreover have "version_negotiation_response b data = Inr None" for b
    using assms(7) by (simp add: version_negotiation_response_def Let_def)
  ultimately show ?thesis
    using assms(3,4,5) v by (simp add: route_def admit_def)
qed

text \<open>What a datagram raises in \<open>route\<close>, it raises in \<open>poll\<close> and in \<open>serve\<close>.\<close>

lemma route_ends_poll:
  assumes "bindS live (\<lambda>sessions. forS sessions (send_pending E)) s0 = (Inr (), s1)"
    and "bindS poll_deadlines wait_for_readable s1 = (Inr (before @ (data, source, ecn) # later), s2)"
    and "forS before (\<lambda>(data, source, ecn). route E data source ecn) s2 = (Inr (), s)"
    and "route E data source ecn s = (Inl e, t)"
  shows "poll E s0 = (Inl e, t)"
proof -
  have "forS (before @ (data, source, ecn) # later) (\<lambda>(data, source, ecn). route E data source ecn) s2 = (Inl e, t)"
    using assms(3,4) by (simp add: forS_append bindS_def)
  then have "bindS (bindS poll_deadlines wait_for_readable)
      (\<lambda>received. forS received (\<lambda>(data, source, ecn). route E data source ecn)) s1 = (Inl e, t)"
    using assms(2) by (simp add: bindS_def)
  then have "bindS poll_deadlines (\<lambda>deadlines. bindS (wait_for_readable deadlines)
      (\<lambda>received. forS received (\<lambda>(data, source, ecn). route E data source ecn))) s1 = (Inl e, t)"
    by (simp add: bindS_assoc)
  then show ?thesis using assms(1) by (simp add: poll_def bindS_def)
qed

text \<open>
  C39: a short token stops a server that validates addresses. A client without a session that puts
  a token of fewer than nine bytes with the first byte of a Retry token in a version 1 Initial
  packet makes the routing of its datagram raise \<open>ValueError\<close>, which the handler for \<open>TokenError\<close>
  does not catch: if the datagram is among those that \<open>poll\<close> receives, and those before it were
  routed, \<open>poll\<close> raises the exception, and so does \<open>serve\<close>, which serves no other connection.
\<close>

theorem short_token_stops_server:
  assumes "prims_ok (ee_prims E)" "aes_key_ok (sr_token_key s)" "sr_retry s"
    and "destination_connection_id data CONNECTION_ID_LENGTH = Some cid" "map_of (sr_sessions s) cid = None"
    and "initial_header data = Inr (Some h)" "from_be (take 4 (drop 1 data)) = QUIC_V1"
    and "take 1 (lh_token h) = RETRY_TOKEN" "length (lh_token h) < 9"
    and sent: "bindS live (\<lambda>sessions. forS sessions (send_pending E)) s0 = (Inr (), s1)"
    and received: "bindS poll_deadlines wait_for_readable s1 = (Inr (before @ (data, source, ecn) # later), s2)"
    and routed: "forS before (\<lambda>(data, source, ecn). route E data source ecn) s2 = (Inr (), s)"
    and running: "\<forall>n. connection_limit = Some n \<longrightarrow> sr_connections_served s0 < n"
  shows "\<exists>t. route E data source ecn s = (Inl ValueError, t) \<and> poll E s0 = (Inl ValueError, t)
    \<and> serve E connection_limit s0 = Some (Inl ValueError, t)"
proof -
  from short_token_raises [OF assms(1-9)] obtain t where t: "route E data source ecn s = (Inl ValueError, t)" by blast
  moreover have "poll E s0 = (Inl ValueError, t)" by (rule route_ends_poll [OF sent received routed t])
  moreover from this have "serve E connection_limit s0 = Some (Inl ValueError, t)"
    using running by (subst serve.simps) (auto split: option.split)
  ultimately show ?thesis by blast
qed


section \<open>A concrete server\<close>

definition example_retry_server :: server where
  "example_retry_server = mk_server example_world example_server_config \<lparr>so_idle_timeout = 30, so_retry = True\<rparr>"

text \<open>An Initial packet without a token, and one with the token \<open>01\<close>.\<close>

definition untokened_initial :: bytes where
  "untokened_initial = [0xC0, 0, 0, 0, 1, 8, 1, 2, 3, 4, 5, 6, 7, 8, 1, 9, 0, 1, 0]"

definition short_token_initial :: bytes where
  "short_token_initial = [0xC0, 0, 0, 0, 1, 8, 1, 2, 3, 4, 5, 6, 7, 8, 1, 9, 1, 1, 1, 0]"

lemma example_retry_server_simps:
  "sr_retry example_retry_server" "sr_sessions example_retry_server = []" "sr_token_key example_retry_server = zeros 32"
  "sr_connections_served example_retry_server = 0"
  by (simp_all add: example_retry_server_def mk_server_def example_world_def example_server_config_def example_rng_def
      rest_rng_def world.extend_def TOKEN_KEY_LENGTH_def zeros_def)

lemma example_initials:
  "destination_connection_id untokened_initial CONNECTION_ID_LENGTH = Some [1, 2, 3, 4, 5, 6, 7, 8]"
  "destination_connection_id short_token_initial CONNECTION_ID_LENGTH = Some [1, 2, 3, 4, 5, 6, 7, 8]"
  "map_option lh_token (case parse_long_header untokened_initial of Inl e \<Rightarrow> None | Inr h \<Rightarrow> Some h) = Some []"
  "map_option lh_token (case initial_header short_token_initial of Inl e \<Rightarrow> None | Inr h \<Rightarrow> h) = Some [1]"
  "from_be (take 4 (drop 1 short_token_initial)) = QUIC_V1"
  by code_simp+

theorem unproven_address_gets_no_state_witness:
  "sr_sessions (snd (route example_endpoint untokened_initial None 0 example_retry_server)) = []"
proof -
  have "lh_token h = []" if "parse_long_header untokened_initial = Inr h" for h
    using example_initials(3) that by simp
  then have "\<not> proves_address P key (lh_token h) source now" if "parse_long_header untokened_initial = Inr h" for P key h source now
    using that by (simp add: proves_address_def NEW_TOKEN_def RETRY_TOKEN_def)
  then have "\<nexists>h. parse_long_header untokened_initial = Inr h \<and> lh_packet_type h = INITIAL
      \<and> proves_address (ee_prims example_endpoint) (sr_token_key example_retry_server) (lh_token h) None (wd_wall example_retry_server 0)"
    by blast
  from unproven_address_gets_no_state [OF prims_okD(1) [OF example_prims] example_retry_server_simps(1) example_initials(1) _ this]
  show ?thesis by (simp add: example_retry_server_simps Let_def)
qed

text \<open>The packet with the short token is all that arrives.\<close>

definition example_attacked_server :: server where
  "example_attacked_server = example_retry_server\<lparr>wd_network := (\<lambda>i wait. [(short_token_initial, [], None)])\<rparr>"

theorem short_token_stops_server_witness:
  "\<exists>t. poll example_endpoint example_attacked_server = (Inl ValueError, t)
    \<and> serve example_endpoint (Some 1) example_attacked_server = Some (Inl ValueError, t)"
proof -
  obtain h where h: "initial_header short_token_initial = Inr (Some h)" "lh_token h = [1]"
    using example_initials(4) by (auto split: sum.splits)
  let ?s = "snd (bindS poll_deadlines wait_for_readable example_attacked_server)"
  have s: "sr_sessions example_attacked_server = []" "sr_sessions ?s = []" "sr_retry ?s" "sr_token_key ?s = zeros 32"
    "sr_connections_served example_attacked_server = 0"
    by (simp_all add: example_attacked_server_def poll_deadlines_def wait_for_readable_def monotonic_def
        example_retry_server_simps Let_def)
  have sent: "bindS live (\<lambda>sessions. forS sessions (send_pending example_endpoint)) example_attacked_server
      = (Inr (), example_attacked_server)"
    by (simp add: live_def s)
  have received: "bindS poll_deadlines wait_for_readable example_attacked_server = (Inr ([] @ (short_token_initial, None, 0) # []), ?s)"
    by (simp add: example_attacked_server_def poll_deadlines_def wait_for_readable_def monotonic_def
        example_retry_server_simps Let_def)
  have "\<exists>t. route example_endpoint short_token_initial None 0 ?s = (Inl ValueError, t)
      \<and> poll example_endpoint example_attacked_server = (Inl ValueError, t)
      \<and> serve example_endpoint (Some 1) example_attacked_server = Some (Inl ValueError, t)"
    by (rule short_token_stops_server [OF example_prims _ s(3) example_initials(2) _ h(1) example_initials(5) _ _ sent received])
      (simp_all add: s h(2) RETRY_TOKEN_def aes_key_ok_def zeros_def)
  then show ?thesis by blast
qed

end
