(* ===== verification/Spec2Isabelle.thy ===== *)
theory Spec2Isabelle
  imports Packet Transport_Parameters Stream_Transfer Stream_Manager Recovery
    Protection Retry_Tokens Hq Connection_Delivery Endpoint_Client Endpoint_Server
begin

text \<open>
  A verification library for dsquic, a QUIC implementation in pure Python (\<open>src/dsquic\<close>).

  \<^bold>\<open>The program.\<close> The protocol core takes bytes and clock readings and gives back bytes, deadlines and
  events; it does no input or output of its own. \<open>connection.py\<close> is its centre. A datagram handed to
  \<open>Connection.datagram_received\<close> is cut into packets (\<open>packet.py\<close>), unprotected (\<open>protection.py\<close>) and
  parsed into frames (\<open>frames.py\<close>, on the reader of \<open>buffer.py\<close>). CRYPTO frames go to the TLS 1.3
  machines (\<open>tls.py\<close>), which answer with secrets, handshake bytes and the peer's transport parameters
  (\<open>transport_parameters.py\<close>); STREAM and limit frames go to the stream manager (\<open>streams.py\<close>); ACK
  frames go to loss detection (\<open>recovery.py\<close>), which drives a congestion controller (\<open>congestion.py\<close>,
  \<open>new_reno.py\<close>). \<open>Connection.datagrams_to_send\<close> collects what all of them have due into packets and
  datagrams, \<open>handle_timer\<close> and \<open>next_timer\<close> serve the deadlines, and \<open>qlog.py\<close> traces. \<open>retry.py\<close> has the
  Retry packets and the tokens that prove an address, \<open>hq.py\<close> the request line of the test protocol.
  \<open>endpoints/\<close> holds the input and output: a reference client and a reference server over one socket.

  \<^bold>\<open>How it is modelled.\<close> \<open>Dsquic_Prelude\<close> has the vocabulary. Bytes are \<open>8 word\<close>, Python integers are
  \<open>int\<close>, clock readings are exact rationals, dicts are association lists in insertion order. An
  exception is a value of \<open>exn\<close>; a function that may raise returns \<open>exn + 'a\<close>, and a method of an
  object is a function from the record of its attributes to a result and the record it leaves, also
  when it raises. The cryptography package, the certificate verifier, the random source, the text of
  exceptions, the name service and the files served are arguments. \<open>prims_ok\<close> (\<open>Crypto\<close>) states what the
  package documents, and \<open>toy_prims\<close> is an instance of it on which the witnesses compute.

  \<^bold>\<open>Theories and sources.\<close>
    \<^item> Wire formats: \<open>Buffer\<close> (\<open>buffer.py\<close>), \<open>Frames\<close> (\<open>frames.py\<close>), \<open>Packet\<close> (\<open>packet.py\<close>),
      \<open>Transport_Parameters\<close> (\<open>transport_parameters.py\<close>), \<open>Retry_Tokens\<close> (\<open>retry.py\<close>), \<open>Hq\<close> (\<open>hq.py\<close>). Shown: round
      trips, the exact errors on arbitrary bytes, which datagrams get a Version Negotiation answer, and
      that accepted request paths stay under the document root. The locale \<open>byte_codec\<close> gives sequences
      of items their round trip, \<open>item_reader\<close> gives parsing loops their totality.
    \<^item> Streams: \<open>Range_Set\<close>, \<open>Streams\<close>, \<open>Stream_Manager\<close> (\<open>streams.py\<close>: \<open>RangeSet\<close>, the two halves of a
      stream, \<open>StreamManager\<close>), and \<open>Stream_Transfer\<close>, which puts a sender, an adversarial network and a
      receiver together. Shown: range sets denote the expected sets (locale \<open>range_set\<close>); the bytes read
      are the bytes written; a finished stream is read to its end; flow control in both directions.
    \<^item> Recovery: \<open>Congestion\<close>, \<open>New_Reno\<close>, \<open>Recovery\<close>. The locale \<open>congestion_controller\<close> is what loss
      detection relies on; \<open>New_Reno\<close> interprets it. Shown: which packets an ACK and the loss loop remove,
      bytes in flight, the exact timer with its overflow, and the window of the controller.
    \<^item> Packet protection: \<open>Crypto\<close> (the key schedule of \<open>tls.py\<close>), \<open>Protection\<close> (\<open>protection.py\<close>).
      Shown: unprotecting inverts protecting and accepts nothing else.
    \<^item> TLS: \<open>Tls_Messages\<close>, \<open>Tls_Tickets\<close>, \<open>Tls_Handshake\<close>, \<open>Tls_Client\<close>, \<open>Tls_Server\<close>, \<open>Tls_Session\<close>,
      \<open>Tls_Progress\<close> (\<open>tls.py\<close>: codecs, tickets, \<open>_Handshake\<close>, \<open>TlsClient\<close>, \<open>TlsServer\<close>). The locale
      \<open>handshake_machine\<close> makes both machines independent of how bytes are cut into pieces. Shown: a
      complete handshake between the two machines, what either has verified when it is connected, when
      early data is accepted, that a ticket means the same PSK to both, and that receiving ends.
    \<^item> Connection (\<open>connection.py\<close>, \<open>qlog.py\<close>): \<open>Qlog\<close>; \<open>Connection\<close>, \<open>Connection_Receive\<close>,
      \<open>Connection_Send\<close> and \<open>Connection_Api\<close> have the state and every method, and the calls of an
      application as a step relation; \<open>Connection_Invariants\<close> and \<open>Connection_Properties\<close> what all reachable
      states have (packet numbers, loss detection used within its contract, acknowledgements);
      \<open>Wire_Progress\<close>, \<open>Connection_Progress\<close> and \<open>Connection_Ends\<close> that every call ends; \<open>Connection_Delivery\<close>
      what two connections make of each other's packets, also across a key update.
    \<^item> Endpoints (\<open>endpoints/\<close>): \<open>Endpoint_Io\<close>, \<open>Endpoint_Server\<close>, \<open>Endpoint_Client\<close>. The operating system is
      part of the state: clock readings, random bytes, what each wait delivers, what was sent. Shown: a
      server commits nothing to an address that is not proven and counts every connection once, a
      fetch ends, and the datagram that stops the server.

  \<^bold>\<open>Loops, bounds and fuel.\<close> Loops are total functions with a measure, most often the bytes left. A parsing
  loop whose round consumed nothing answers \<open>Diverges\<close>, and \<open>item_reader\<close> shows that no round does. The
  loop of \<open>datagrams_to_send\<close> has fuel \<open>Suc (send_work c)\<close>, where \<open>send_work\<close> measures the work queued in
  the connection; every datagram built uses some of it up, so the fuel is never exhausted
  (\<open>Connection_Ends\<close>). The loops of \<open>fetch\<close> and \<open>serve\<close> may run for ever and are partial functions to
  \<open>option\<close>; \<open>fetch\<close> is shown to be defined once the clock passes its deadline. A wait without a limit to
  which nothing is delivered is \<open>Diverges\<close>. Overflow matters in two places and is written out there:
  packet numbers and variable-length integers have their ranges checked, and the back-off of the probe
  timeout raises \<open>OverflowError\<close> from 1024 on.

  \<^bold>\<open>Not modelled.\<close> \<open>h3.py\<close>, \<open>qpack.py\<close> and \<open>masque.py\<close> hold no code. The JSON text of a trace is left out,
  since it prints clock readings as floats; the values are modelled. Argument parsing, opening sockets,
  files and key logs, PEM decoding and X.509 verification are input and output or belong to other
  packages. Rounding of floats is not modelled: times are rationals.
\<close>

end
